(* ===== verification/Prelude.thy ===== *)
theory Prelude
  imports Complex_Main
begin

text \<open>
  Shared vocabulary of the development.

  \<^item> JavaScript values: \<open>jsnum\<close> is a JavaScript number (a finite value, as an exact rational, or
    one of the three non-finite values), \<open>json\<close> a parsed JSON value; \<open>undefined\<close> is \<open>None\<close> of an
    option. \<open>js_round\<close>, \<open>js_trim\<close>, \<open>coalesce\<close> are \<open>Math.round\<close>, \<open>String.prototype.trim\<close>
    and the operator \<open>??\<close>.
  \<^item> SQL tables: a table is the list of its rows, in insertion order. \<open>sql_delete\<close> and
    \<open>sql_update\<close> are DELETE and UPDATE with a WHERE clause, \<open>sql_min\<close> and \<open>sql_sum\<close> the
    aggregates (\<open>None\<close> is the NULL of an aggregate over no rows), \<open>find_row\<close> a SELECT by key.
  \<^item> \<open>sliding_window\<close>: the contract that every rolling-window limiter of the gateway shares, with
    the rate bound proved once from it.
  Strings are sequences of Latin-1 code units and SQL integers are unbounded (the code keeps them
  within the range of safe integers).
\<close>

named_theorems table_simps \<open>rewriting of table operations\<close>

type_synonym ms = int

subsection \<open>JavaScript values\<close>

datatype jsnum = Fin rat | NaN | PosInf | NegInf

datatype json =
    JNull
  | JBool bool
  | JNum jsnum
  | JStr string
  | JArr "json list"
  | JObj "(string \<times> json) list"

text \<open>A field of an object; \<open>None\<close> also for what is not an object.\<close>

definition jget :: "string \<Rightarrow> json \<Rightarrow> json option" where
  "jget key v = (case v of JObj obj \<Rightarrow> map_of obj key | _ \<Rightarrow> None)"

definition js_round :: "rat \<Rightarrow> int" where
  "js_round x = \<lfloor>x + 1/2\<rfloor>"

definition coalesce :: "'a option \<Rightarrow> 'a \<Rightarrow> 'a" where
  "coalesce v d = (case v of None \<Rightarrow> d | Some x \<Rightarrow> x)"

text \<open>White space and line terminators of ECMAScript among the Latin-1 code units.\<close>

definition js_space :: "char \<Rightarrow> bool" where
  "js_space c \<longleftrightarrow> (of_char c :: nat) \<in> {9, 10, 11, 12, 13, 32, 160}"

definition js_trim :: "string \<Rightarrow> string" where
  "js_trim s = rev (dropWhile js_space (rev (dropWhile js_space s)))"

text \<open>The control characters \<open>[\u0000-\u001f\u007f]\<close> that identifiers may not hold.\<close>

definition js_control :: "char \<Rightarrow> bool" where
  "js_control c \<longleftrightarrow> (of_char c :: nat) < 32 \<or> (of_char c :: nat) = 127"

text \<open>\<open>Number.isSafeInteger\<close> on an integral value.\<close>

definition safe_integer :: "int \<Rightarrow> bool" where
  "safe_integer n \<longleftrightarrow> \<bar>n\<bar> \<le> 9007199254740991"

subsection \<open>SQL tables\<close>

definition sql_delete :: "('r \<Rightarrow> bool) \<Rightarrow> 'r list \<Rightarrow> 'r list" where
  "sql_delete p t = filter (\<lambda>r. \<not> p r) t"

definition sql_update :: "('r \<Rightarrow> bool) \<Rightarrow> ('r \<Rightarrow> 'r) \<Rightarrow> 'r list \<Rightarrow> 'r list" where
  "sql_update p f t = map (\<lambda>r. if p r then f r else r) t"

fun sql_min :: "int list \<Rightarrow> int option" where
  "sql_min [] = None"
| "sql_min (x # xs) = (case sql_min xs of None \<Rightarrow> Some x | Some m \<Rightarrow> Some (min x m))"

definition sql_sum :: "int list \<Rightarrow> int option" where
  "sql_sum xs = (if xs = [] then None else Some (sum_list xs))"

definition find_row :: "('r \<Rightarrow> 'k) \<Rightarrow> 'k \<Rightarrow> 'r list \<Rightarrow> 'r option" where
  "find_row key k t = find (\<lambda>r. key r = k) t"

subsection \<open>Lemmas on values\<close>

lemma coalesce_simps [simp]:
  "coalesce None d = d" "coalesce (Some x) d = x"
  by (simp_all add: coalesce_def)

lemma js_round_of_int [simp]: "js_round (of_int n) = n"
  by (simp add: js_round_def floor_unique)

lemma js_round_numeral [simp]:
  "js_round (numeral n) = numeral n" "js_round 0 = 0" "js_round 1 = 1"
  using js_round_of_int [of "numeral n"] js_round_of_int [of 0] js_round_of_int [of 1] by simp_all

lemma js_round_mono: "x \<le> y \<Longrightarrow> js_round x \<le> js_round y"
  by (simp add: js_round_def floor_mono)

lemma js_trim_Nil [simp]: "js_trim [] = []"
  by (simp add: js_trim_def)

lemma js_trim_length: "length (js_trim s) \<le> length s"
proof -
  have "length (js_trim s) \<le> length (rev (dropWhile js_space s))"
    unfolding js_trim_def length_rev by (metis length_dropWhile_le length_rev)
  also have "\<dots> \<le> length s" by (simp add: length_dropWhile_le)
  finally show ?thesis .
qed

lemma dropWhile_hd_id: "(xs \<noteq> [] \<Longrightarrow> \<not> p (hd xs)) \<Longrightarrow> dropWhile p xs = xs"
  by (cases xs) auto

lemma js_trim_idem [simp]: "js_trim (js_trim s) = js_trim s"
proof -
  define a where "a = dropWhile js_space s"
  define b where "b = dropWhile js_space (rev a)"
  have b: "b \<noteq> [] \<Longrightarrow> \<not> js_space (hd b)"
    by (metis b_def hd_dropWhile dropWhile_eq_Nil_conv)
  have "dropWhile js_space (rev b) = rev b"
  proof (rule dropWhile_hd_id)
    assume "rev b \<noteq> []"
    then have "b \<noteq> []" by simp
    obtain ys where "rev a = ys @ b"
      by (metis b_def takeWhile_dropWhile_id)
    then have "a = rev b @ rev ys" by (metis rev_append rev_rev_ident)
    then have "hd (rev b) = hd a" and "a \<noteq> []" using \<open>b \<noteq> []\<close> by auto
    moreover have "\<not> js_space (hd a)"
      using \<open>a \<noteq> []\<close> by (metis a_def hd_dropWhile dropWhile_eq_Nil_conv)
    ultimately show "\<not> js_space (hd (rev b))" by simp
  qed
  then show ?thesis
    using dropWhile_hd_id [of b js_space] b by (simp add: js_trim_def a_def b_def)
qed

subsection \<open>Lemmas on tables\<close>

lemma sql_delete_simps [table_simps]:
  "sql_delete p [] = []"
  "sql_delete p (r # t) = (if p r then sql_delete p t else r # sql_delete p t)"
  "sql_delete p (t @ u) = sql_delete p t @ sql_delete p u"
  by (simp_all add: sql_delete_def)

lemma set_sql_delete [simp]: "set (sql_delete p t) = {r \<in> set t. \<not> p r}"
  by (simp add: sql_delete_def)

lemma length_sql_delete: "length (sql_delete p t) \<le> length t"
  by (simp add: sql_delete_def)

lemma sql_update_simps [table_simps]:
  "sql_update p f [] = []"
  "sql_update p f (r # t) = (if p r then f r else r) # sql_update p f t"
  "sql_update p f (t @ u) = sql_update p f t @ sql_update p f u"
  by (simp_all add: sql_update_def)

lemma set_sql_update: "set (sql_update p f t) = (\<lambda>r. if p r then f r else r) ` set t"
  by (simp add: sql_update_def)

lemma length_sql_update [simp]: "length (sql_update p f t) = length t"
  by (simp add: sql_update_def)

lemma sql_update_id: "(\<And>r. r \<in> set t \<Longrightarrow> p r \<Longrightarrow> f r = r) \<Longrightarrow> sql_update p f t = t"
  by (induction t) (auto simp: table_simps)

lemma sort_key_Nil_iff [simp]: "sort_key f xs = [] \<longleftrightarrow> xs = []"
  by (metis length_0_conv length_sort)

lemma sql_update_eq_iff: "sql_update p f t = t \<longleftrightarrow> (\<forall>r \<in> set t. p r \<longrightarrow> f r = r)"
  by (induction t) (auto simp: table_simps)

lemma filter_sql_update_other:
  "(\<And>r. r \<in> set t \<Longrightarrow> p r \<Longrightarrow> \<not> q r \<and> \<not> q (f r)) \<Longrightarrow> filter q (sql_update p f t) = filter q t"
  by (induction t) (auto simp: table_simps)

lemma filter_sql_update_none:
  "(\<And>r. r \<in> set t \<Longrightarrow> if p r then \<not> q (f r) else \<not> q r) \<Longrightarrow> filter q (sql_update p f t) = []"
  by (induction t) (auto simp: table_simps split: if_splits)

lemma map_sql_update_key:
  "(\<And>r. key (f r) = key r) \<Longrightarrow> map key (sql_update p f t) = map key t"
  by (induction t) (auto simp: table_simps)

lemma distinct_map_sql_delete: "distinct (map key t) \<Longrightarrow> distinct (map key (sql_delete p t))"
  by (simp add: sql_delete_def distinct_map_filter)

lemma find_row_None: "find_row key k t = None \<longleftrightarrow> k \<notin> key ` set t"
  by (auto simp: find_row_def find_None_iff)

lemma find_row_Some: "find_row key k t = Some r \<Longrightarrow> r \<in> set t \<and> key r = k"
  by (auto simp: find_row_def find_Some_iff)

lemma find_row_distinct:
  "distinct (map key t) \<Longrightarrow> r \<in> set t \<Longrightarrow> find_row key (key r) t = Some r"
proof (induction t)
  case (Cons a t)
  then show ?case by (auto simp: find_row_def rev_image_eqI)
qed simp

lemma find_row_Nil [simp]: "find_row key k [] = None"
  by (simp add: find_row_def)

lemma find_row_Cons:
  "find_row key k (r # t) = (if key r = k then Some r else find_row key k t)"
  by (simp add: find_row_def)

lemma find_row_append:
  "find_row key k (t @ u) = (case find_row key k t of None \<Rightarrow> find_row key k u | Some r \<Rightarrow> Some r)"
  by (induction t) (auto simp: find_row_Cons)

lemma find_row_update:
  "(\<And>r. key (f r) = key r) \<Longrightarrow>
   find_row key k (sql_update (\<lambda>r. key r = j) f t) =
     (if k = j then map_option f (find_row key k t) else find_row key k t)"
  by (induction t) (auto simp: table_simps find_row_Cons)

lemma find_row_update_where:
  "(\<And>r. key (f r) = key r) \<Longrightarrow>
   find_row key k (sql_update p f t) = map_option (\<lambda>r. if p r then f r else r) (find_row key k t)"
  by (induction t) (auto simp: table_simps find_row_Cons)

lemma find_row_delete_keys:
  "find_row key k (sql_delete (\<lambda>r. key r \<in> K) t) = (if k \<in> K then None else find_row key k t)"
  by (induction t) (auto simp: table_simps find_row_Cons)

lemma find_row_delete_same: "find_row key k (sql_delete (\<lambda>r. key r = k) t) = None"
  by (auto simp: find_row_None)

lemma find_row_delete_other:
  "k \<noteq> j \<Longrightarrow> find_row key k (sql_delete (\<lambda>r. key r = j) t) = find_row key k t"
  by (induction t) (auto simp: table_simps find_row_Cons)

lemma sum_delete_row:
  fixes f :: "'r \<Rightarrow> int"
  assumes "distinct (map key t)" and "find_row key k t = Some r"
  shows "sum_list (map f (sql_delete (\<lambda>r. key r = k) t)) = sum_list (map f t) - f r"
  using assms
proof (induction t)
  case (Cons a t)
  show ?case
  proof (cases "key a = k")
    case True
    then have "\<forall>x \<in> set t. key x \<noteq> k" using Cons.prems(1) by (auto simp: image_iff)
    then have "sql_delete (\<lambda>r. key r = k) t = t"
      by (simp add: sql_delete_def filter_id_conv)
    then show ?thesis using True Cons.prems by (simp add: table_simps find_row_Cons)
  next
    case False
    then show ?thesis using Cons by (simp add: table_simps find_row_Cons)
  qed
qed simp

lemma sum_update_row:
  fixes f :: "'r \<Rightarrow> int"
  assumes "distinct (map key t)" and "find_row key k t = Some r"
  shows "sum_list (map f (sql_update (\<lambda>r. key r = k) g t)) = sum_list (map f t) - f r + f (g r)"
  using assms
proof (induction t)
  case (Cons a t)
  show ?case
  proof (cases "key a = k")
    case True
    then have "\<forall>x \<in> set t. key x \<noteq> k" using Cons.prems(1) by (auto simp: image_iff)
    then have "sql_update (\<lambda>r. key r = k) g t = t"
      by (intro sql_update_id) auto
    then show ?thesis using True Cons.prems by (simp add: table_simps find_row_Cons)
  next
    case False
    then show ?thesis using Cons by (simp add: table_simps find_row_Cons)
  qed
qed simp

lemma sql_min_None [simp]: "sql_min xs = None \<longleftrightarrow> xs = []"
  by (cases xs) (auto split: option.splits)

lemma sql_min_le: "x \<in> set xs \<Longrightarrow> \<exists>m. sql_min xs = Some m \<and> m \<le> x"
proof (induction xs)
  case (Cons a xs)
  then show ?case by (auto split: option.splits)
qed simp

lemma sql_min_in: "sql_min xs = Some m \<Longrightarrow> m \<in> set xs"
proof (induction xs arbitrary: m)
  case (Cons a xs)
  then show ?case by (auto split: option.splits simp: min_def split: if_splits)
qed simp

lemma sql_sum_coalesce [simp]: "coalesce (sql_sum xs) 0 = sum_list xs"
  by (simp add: sql_sum_def)

lemma filter_sum_le:
  fixes f :: "'r \<Rightarrow> int"
  assumes "\<And>r. r \<in> set t \<Longrightarrow> 0 \<le> f r"
  shows "sum_list (map f (filter p t)) \<le> sum_list (map f t)"
  using assms
proof (induction t)
  case (Cons a t)
  then have "sum_list (map f (filter p t)) \<le> sum_list (map f t)" and "0 \<le> f a" by simp_all
  then show ?case by simp
qed simp

lemma sum_filter_mono:
  fixes f :: "'r \<Rightarrow> int"
  assumes "\<And>x. x \<in> set xs \<Longrightarrow> p x \<Longrightarrow> q x" and "\<And>x. x \<in> set xs \<Longrightarrow> 0 \<le> f x"
  shows "sum_list (map f (filter p xs)) \<le> sum_list (map f (filter q xs))"
  using assms
proof (induction xs)
  case (Cons a xs)
  then have "sum_list (map f (filter p xs)) \<le> sum_list (map f (filter q xs))" by simp
  then show ?case using Cons.prems(1) [of a] Cons.prems(2) [of a] by auto
qed simp

lemma sum_filter_drop:
  fixes f :: "'r \<Rightarrow> int"
  assumes "\<And>x. x \<in> set xs \<Longrightarrow> p x \<Longrightarrow> q x" and "\<And>x. x \<in> set xs \<Longrightarrow> 0 \<le> f x"
    and "e \<in> set xs" and "q e" and "\<not> p e"
  shows "sum_list (map f (filter p xs)) + f e \<le> sum_list (map f (filter q xs))"
  using assms
proof (induction xs)
  case (Cons a xs)
  show ?case
  proof (cases "a = e")
    case True
    have "sum_list (map f (filter p xs)) \<le> sum_list (map f (filter q xs))"
      using Cons.prems by (intro sum_filter_mono) auto
    then show ?thesis using True Cons.prems(4,5) by simp
  next
    case False
    then have "sum_list (map f (filter p xs)) + f e \<le> sum_list (map f (filter q xs))"
      using Cons by simp
    then show ?thesis using Cons.prems(1) [of a] Cons.prems(2) [of a] by auto
  qed
qed simp

lemma length_filter_mono:
  "(\<And>x. x \<in> set xs \<Longrightarrow> p x \<Longrightarrow> q x) \<Longrightarrow> length (filter p xs) \<le> length (filter q xs)"
proof (induction xs)
  case (Cons a xs)
  then have "length (filter p xs) \<le> length (filter q xs)" by simp
  then show ?case using Cons.prems [of a] by auto
qed simp

subsection \<open>Invariants and life cycles\<close>

text \<open>
  A component whose operations keep an invariant keeps it along every run. \<open>row_lifecycle\<close> adds what a
  table of leases promises about one row: while it is live it keeps its identity, and once it is dead
  it stays as it is until it is removed.
\<close>

locale invariant_system =
  fixes step :: "'op \<Rightarrow> 's \<Rightarrow> 's" and inv :: "'s \<Rightarrow> bool"
  assumes inv_step: "inv s \<Longrightarrow> inv (step op s)"
begin

lemma run_inv: "inv s \<Longrightarrow> inv (fold step ops s)"
  by (induction ops arbitrary: s) (simp_all add: inv_step)

end

text \<open>A component that keeps its invariant under the inputs it may expect of its peer.\<close>

locale guarded_system =
  fixes step :: "'op \<Rightarrow> 's \<Rightarrow> 's" and inv :: "'s \<Rightarrow> bool" and expected :: "'op \<Rightarrow> bool"
  assumes guarded_step: "inv s \<Longrightarrow> expected op \<Longrightarrow> inv (step op s)"
begin

lemma run_guarded: "inv s \<Longrightarrow> \<forall>op \<in> set ops. expected op \<Longrightarrow> inv (fold step ops s)"
  by (induction ops arbitrary: s) (simp_all add: guarded_step)

end

text \<open>Events that carry their time and come in time order.\<close>

fun timed_run :: "('e \<Rightarrow> ms \<Rightarrow> 's \<Rightarrow> 's) \<Rightarrow> ('e \<times> ms) list \<Rightarrow> 's \<Rightarrow> 's" where
  "timed_run step [] s = s"
| "timed_run step ((e, now) # es) s = timed_run step es (step e now s)"

fun in_order :: "ms \<Rightarrow> ('e \<times> ms) list \<Rightarrow> bool" where
  "in_order t [] \<longleftrightarrow> True"
| "in_order t ((e, now) # es) \<longleftrightarrow> t \<le> now \<and> in_order now es"

text \<open>
  A machine with such events, an invariant that may mention the time of the last event, and a relation that
  every step keeps between the states before and after it.
\<close>

locale timed_machine =
  fixes step :: "'e \<Rightarrow> ms \<Rightarrow> 's \<Rightarrow> 's" and inv :: "ms \<Rightarrow> 's \<Rightarrow> bool" and keeps :: "'s \<Rightarrow> 's \<Rightarrow> bool"
  assumes timed_inv: "inv t s \<Longrightarrow> t \<le> now \<Longrightarrow> inv now (step e now s)"
    and timed_keeps: "inv t s \<Longrightarrow> t \<le> now \<Longrightarrow> keeps s (step e now s)"
    and keeps_refl: "keeps s s"
    and keeps_trans: "keeps a b \<Longrightarrow> keeps b c \<Longrightarrow> keeps a c"
begin

lemma run_keeps: "inv t s \<Longrightarrow> in_order t es \<Longrightarrow> keeps s (timed_run step es s)"
proof (induction es arbitrary: t s)
  case (Cons x es)
  obtain e now where x: "x = (e, now)" by fastforce
  then have "inv now (step e now s)" "keeps s (step e now s)"
    using Cons.prems by (auto intro: timed_inv timed_keeps)
  then show ?case using Cons x keeps_trans by simp
qed (simp add: keeps_refl)

lemma run_timed_inv: "inv t s \<Longrightarrow> in_order t es \<Longrightarrow> \<exists>u \<ge> t. inv u (timed_run step es s)"
proof (induction es arbitrary: t s)
  case (Cons x es)
  obtain e now where x: "x = (e, now)" by fastforce
  then have "inv now (step e now s)" using Cons.prems by (auto intro: timed_inv)
  then show ?case using Cons x by simp (meson order_trans)
qed auto

end

locale row_lifecycle = invariant_system step inv
  for step :: "'op \<Rightarrow> 's \<Rightarrow> 's" and inv :: "'s \<Rightarrow> bool" +
  fixes look :: "'k \<Rightarrow> 's \<Rightarrow> 'r option" and ident :: "'r \<Rightarrow> 'i" and live :: "'r \<Rightarrow> bool"
  assumes live_kept: "inv s \<Longrightarrow> look k s = Some r \<Longrightarrow> live r \<Longrightarrow>
      \<exists>r'. look k (step op s) = Some r' \<and> ident r' = ident r"
    and dead_final: "inv s \<Longrightarrow> look k s = Some r \<Longrightarrow> \<not> live r \<Longrightarrow>
      look k (step op s) = Some r \<or> look k (step op s) = None"
begin

lemma present_ident:
  assumes "inv s" and "look k s = Some r"
    and "\<And>n. n \<le> length ops \<Longrightarrow> look k (fold step (take n ops) s) \<noteq> None"
  shows "\<exists>r'. look k (fold step ops s) = Some r' \<and> ident r' = ident r \<and> (\<not> live r \<longrightarrow> r' = r)"
  using assms
proof (induction ops arbitrary: s r)
  case (Cons op ops)
  have "look k (step op s) \<noteq> None" using Cons.prems(3) [of 1] by simp
  then obtain r1 where r1: "look k (step op s) = Some r1" by auto
  then have id1: "ident r1 = ident r" "\<not> live r \<longrightarrow> r1 = r"
    using live_kept [OF Cons.prems(1,2), of op] dead_final [OF Cons.prems(1,2), of op]
    by (cases "live r"; auto)+
  have "look k (fold step (take n ops) (step op s)) \<noteq> None" if "n \<le> length ops" for n
    using Cons.prems(3) [of "Suc n"] that by simp
  then obtain r' where "look k (fold step ops (step op s)) = Some r'" "ident r' = ident r1"
    "\<not> live r1 \<longrightarrow> r' = r1"
    using Cons.IH [OF inv_step [OF Cons.prems(1)] r1] by blast
  then show ?case using id1 by (intro exI [of _ r']) auto
qed simp

end

subsection \<open>The rolling-window contract\<close>

text \<open>
  A limiter keeps a log of admission times. A call at time \<open>now\<close> either refuses, and then at most
  prunes entries older than the retention, or counts itself: the log then holds the retained
  entries and \<open>now\<close>, and fewer than the call's cap lay in the window. \<open>admissions\<close> runs a sequence
  of calls at given times and lists the times of those that were counted; \<open>in_window\<close> counts how many
  of them lie in the window that ends at \<open>t\<close>.
\<close>

fun admissions :: "('c \<Rightarrow> ms \<Rightarrow> 's \<Rightarrow> bool \<times> 's) \<Rightarrow> ('c \<times> ms) list \<Rightarrow> 's \<Rightarrow> ms list \<times> 's" where
  "admissions step [] s = ([], s)"
| "admissions step ((c, now) # calls) s =
     (case step c now s of (ok, s') \<Rightarrow>
        (case admissions step calls s' of (ts, s'') \<Rightarrow> (if ok then now # ts else ts, s'')))"

definition in_window :: "ms \<Rightarrow> ms \<Rightarrow> ms list \<Rightarrow> int" where
  "in_window window t ts = int (length (filter (\<lambda>a. t - window < a \<and> a \<le> t) ts))"

locale sliding_window =
  fixes step :: "'c \<Rightarrow> ms \<Rightarrow> 's \<Rightarrow> bool \<times> 's"
    and log :: "'s \<Rightarrow> ms list"
    and cap :: "'c \<Rightarrow> int"
    and window :: ms
    and retention :: ms
  assumes window_retention: "0 < window" "window \<le> retention"
    and refused: "step c now s = (False, s') \<Longrightarrow>
      log s' = log s \<or> log s' = filter (\<lambda>a. now - retention < a) (log s)"
    and admitted: "step c now s = (True, s') \<Longrightarrow>
      log s' = filter (\<lambda>a. now - retention < a) (log s) @ [now] \<and>
      int (length (filter (\<lambda>a. now - window < a) (log s))) < cap c"
begin

definition window_inv :: "ms \<Rightarrow> ms list \<Rightarrow> 's \<Rightarrow> bool" where
  "window_inv now hist s \<longleftrightarrow>
     (\<forall>a \<in> set hist. a \<le> now) \<and>
     filter (\<lambda>a. now - window < a) (log s) = filter (\<lambda>a. now - window < a) hist"

lemma filter_later: "now \<le> now' \<Longrightarrow>
  filter (\<lambda>a. now - window < a) xs = filter (\<lambda>a. now - window < a) ys \<Longrightarrow>
  filter (\<lambda>a. now' - window < a) xs = filter (\<lambda>a. now' - window < a) ys"
proof -
  assume le: "now \<le> now'"
  assume eq: "filter (\<lambda>a. now - window < a) xs = filter (\<lambda>a. now - window < a) ys"
  have keep: "filter (\<lambda>a. now' - window < a) zs =
      filter (\<lambda>a. now' - window < a) (filter (\<lambda>a. now - window < a) zs)" for zs
    using le by (auto simp: intro!: filter_cong)
  show ?thesis by (subst (1 2) keep) (simp add: eq)
qed

lemma filter_retained: "filter (\<lambda>a. now - retention < a \<and> now - window < a) xs =
    filter (\<lambda>a. now - window < a) xs"
  using window_retention by (auto intro!: filter_cong)

lemma step_inv:
  assumes inv: "window_inv now hist s" and le: "now \<le> now'"
    and st: "step c now' s = (ok, s')"
  shows "window_inv now' (if ok then hist @ [now'] else hist) s'"
proof -
  have later: "filter (\<lambda>a. now' - window < a) (log s) = filter (\<lambda>a. now' - window < a) hist"
    using inv le by (auto simp: window_inv_def intro: filter_later)
  have bnd: "\<forall>a \<in> set hist. a \<le> now'" using inv le by (auto simp: window_inv_def)
  show ?thesis
  proof (cases ok)
    case True
    then have "log s' = filter (\<lambda>a. now' - retention < a) (log s) @ [now']"
      using admitted [of c now' s s'] st by simp
    then show ?thesis
      using True later bnd window_retention by (auto simp: window_inv_def filter_retained)
  next
    case False
    then have "log s' = log s \<or> log s' = filter (\<lambda>a. now' - retention < a) (log s)"
      using refused [of c now' s s'] st by simp
    then show ?thesis
      using False later bnd by (auto simp: window_inv_def filter_retained)
  qed
qed

lemma step_rate:
  assumes inv: "window_inv now hist s" and le: "now \<le> now'"
    and st: "step c now' s = (ok, s')" and lim: "cap c \<le> bound"
    and old: "\<And>t. (in_window window t hist) \<le> bound"
  shows "(in_window window t (if ok then hist @ [now'] else hist)) \<le> bound"
proof (cases "ok \<and> now' \<le> t")
  case True
  then have less: "int (length (filter (\<lambda>a. now' - window < a) (log s))) < cap c"
    using admitted [of c now' s s'] st by simp
  have "filter (\<lambda>a. now' - window < a) (log s) = filter (\<lambda>a. now' - window < a) hist"
    using inv le by (auto simp: window_inv_def intro: filter_later)
  moreover have "in_window window t hist \<le> int (length (filter (\<lambda>a. now' - window < a) hist))"
    unfolding in_window_def of_nat_le_iff using True by (intro length_filter_mono) auto
  ultimately have "(in_window window t hist) < cap c" using less by simp
  then show ?thesis using True lim by (simp add: in_window_def)
next
  case False
  then show ?thesis using old [of t] by (auto simp: in_window_def)
qed

lemma run_rate:
  assumes "window_inv now hist s" and "sorted (now # map snd calls)"
    and "\<And>c. c \<in> fst ` set calls \<Longrightarrow> cap c \<le> bound"
    and "\<And>t. (in_window window t hist) \<le> bound"
    and "fst (admissions step calls s) = ts"
  shows "(in_window window t (hist @ ts)) \<le> bound"
  using assms
proof (induction calls arbitrary: now hist s ts)
  case Nil
  then show ?case by simp
next
  case (Cons call calls)
  obtain c now' where call: "call = (c, now')" by (cases call)
  obtain ok s1 where st: "step c now' s = (ok, s1)" by (cases "step c now' s")
  obtain us s2 where rn: "admissions step calls s1 = (us, s2)" by (cases "admissions step calls s1")
  let ?hist = "if ok then hist @ [now'] else hist"
  have le: "now \<le> now'" and srt: "sorted (now' # map snd calls)"
    using Cons.prems(2) by (auto simp: call)
  have "window_inv now' ?hist s1"
    by (rule step_inv [OF Cons.prems(1) le st])
  moreover have "\<And>t. (in_window window t ?hist) \<le> bound"
    using step_rate [OF Cons.prems(1) le st] Cons.prems(3,4) by (auto simp: call)
  ultimately have "(in_window window t (?hist @ us)) \<le> bound"
    using Cons.IH [of now' ?hist s1 us] srt rn Cons.prems(3) by simp
  moreover have "ts = (if ok then now' # us else us)"
    using Cons.prems(5) by (simp add: call st rn)
  ultimately show ?case by (cases ok) simp_all
qed

text \<open>In any window of the given length, at most the largest cap of the calls is counted.\<close>

lemma rate_bound:
  assumes "log s = []" and "sorted (map snd calls)"
    and "\<And>c. c \<in> fst ` set calls \<Longrightarrow> cap c \<le> bound" and "0 \<le> bound"
  shows "in_window window t (fst (admissions step calls s)) \<le> bound"
proof (cases calls)
  case Nil
  then show ?thesis using assms(4) by (simp add: in_window_def)
next
  case (Cons call rest)
  let ?now = "snd call"
  obtain ts s' where rn: "admissions step calls s = (ts, s')" by (cases "admissions step calls s")
  have "(in_window window t ([] @ ts)) \<le> bound"
    using assms rn
    by (intro run_rate [where now = ?now and s = s and calls = calls])
      (auto simp: window_inv_def in_window_def Cons)
  then show ?thesis by (simp add: in_window_def rn)
qed

end

end
