(* ===== verification/Gateway_Limits.thy ===== *)
theory Gateway_Limits
  imports Prelude
begin

text \<open>
  The tier policy the model gateway enforces locally
  (\<open>packages/contracts/gateway/api.ts\<close>), the two number helpers the gateway's stores repeat
  (\<open>clampMicroCents\<close>, \<open>scaledLimit\<close>), and \<open>JSON.stringify\<close> of an array of strings, which the
  gateway uses as a composite key; it is shown to be injective, so two different identities never
  share a row.
\<close>

datatype limits_audience = LAnonymous | LFree | LGo | LPro

definition limitsAudienceFor :: "string \<Rightarrow> limits_audience" where
  "limitsAudienceFor audience =
     (if audience = ''anonymous'' then LAnonymous
      else if audience = ''go'' \<or> audience = ''go_fallback'' then LGo
      else if audience = ''pro'' \<or> audience = ''pro_fallback'' then LPro
      else LFree)"

record owner_relay_limit =
  inFlight :: int
  perMinute :: int
  mintsPerHour :: int

fun GATEWAY_OWNER_RELAY_LIMITS :: "limits_audience \<Rightarrow> owner_relay_limit" where
  "GATEWAY_OWNER_RELAY_LIMITS LAnonymous = \<lparr>inFlight = 1, perMinute = 20, mintsPerHour = 12\<rparr>"
| "GATEWAY_OWNER_RELAY_LIMITS LFree = \<lparr>inFlight = 2, perMinute = 40, mintsPerHour = 12\<rparr>"
| "GATEWAY_OWNER_RELAY_LIMITS LGo = \<lparr>inFlight = 4, perMinute = 80, mintsPerHour = 24\<rparr>"
| "GATEWAY_OWNER_RELAY_LIMITS LPro = \<lparr>inFlight = 8, perMinute = 120, mintsPerHour = 24\<rparr>"

definition GATEWAY_THROTTLED_LIMIT_SHARE :: rat where
  "GATEWAY_THROTTLED_LIMIT_SHARE = 1/2"

record network_limits =
  anonymous_relayPerHour :: int
  anonymous_relayPerDay :: int
  anonymous_mintsPerDay :: int
  free_relayPerDay :: int

definition GATEWAY_NETWORK_LIMITS :: network_limits where
  "GATEWAY_NETWORK_LIMITS =
     \<lparr>anonymous_relayPerHour = 300, anonymous_relayPerDay = 1000, anonymous_mintsPerDay = 20,
      free_relayPerDay = 3000\<rparr>"

definition MINUTE_MS :: ms where "MINUTE_MS = 60000"
definition HOUR_MS :: ms where "HOUR_MS = 60 * 60000"
definition DAY_MS :: ms where "DAY_MS = 24 * (60 * 60000)"

definition GATEWAY_MAX_RESULT_CACHE_BYTES :: int where
  "GATEWAY_MAX_RESULT_CACHE_BYTES = 8 * 1024 * 1024"

definition GATEWAY_RESULT_CACHE_TTL_MS :: ms where
  "GATEWAY_RESULT_CACHE_TTL_MS = 10 * 60 * 1000"

definition GATEWAY_UPSTREAM_MAX_DURATION_MS :: ms where
  "GATEWAY_UPSTREAM_MAX_DURATION_MS = 45 * 60 * 1000"

definition GATEWAY_BUDGET_UNLIMITED :: int where
  "GATEWAY_BUDGET_UNLIMITED = -1"

lemmas gateway_constants =
  MINUTE_MS_def HOUR_MS_def DAY_MS_def GATEWAY_MAX_RESULT_CACHE_BYTES_def
  GATEWAY_RESULT_CACHE_TTL_MS_def GATEWAY_UPSTREAM_MAX_DURATION_MS_def
  GATEWAY_BUDGET_UNLIMITED_def GATEWAY_THROTTLED_LIMIT_SHARE_def GATEWAY_NETWORK_LIMITS_def

definition clampMicroCents :: "jsnum \<Rightarrow> int" where
  "clampMicroCents value = (case value of Fin x \<Rightarrow> max 0 (js_round x) | _ \<Rightarrow> 0)"

definition scaledLimit :: "int \<Rightarrow> bool \<Rightarrow> int" where
  "scaledLimit limit throttled =
     (if throttled then max 1 \<lfloor>of_int limit * GATEWAY_THROTTLED_LIMIT_SHARE\<rfloor> else limit)"

subsection \<open>Composite keys\<close>

definition hex_digit :: "nat \<Rightarrow> char" where
  "hex_digit n = ''0123456789abcdef'' ! n"

definition json_escape :: "char \<Rightarrow> string" where
  "json_escape c =
     (if c = CHR 0x22 then [CHR 0x5C, CHR 0x22]
      else if c = CHR 0x5C then [CHR 0x5C, CHR 0x5C]
      else if c = CHR 0x08 then [CHR 0x5C, CHR ''b'']
      else if c = CHR 0x0C then [CHR 0x5C, CHR ''f'']
      else if c = CHR 0x0A then [CHR 0x5C, CHR ''n'']
      else if c = CHR 0x0D then [CHR 0x5C, CHR ''r'']
      else if c = CHR 0x09 then [CHR 0x5C, CHR ''t'']
      else if (of_char c :: nat) < 32
        then [CHR 0x5C, CHR ''u'', CHR ''0'', CHR ''0'', hex_digit (of_char c div 16),
              hex_digit (of_char c mod 16)]
      else [c])"

definition json_quote :: "string \<Rightarrow> string" where
  "json_quote s = CHR 0x22 # concat (map json_escape s) @ [CHR 0x22]"

fun json_elements :: "string list \<Rightarrow> string" where
  "json_elements [] = []"
| "json_elements [x] = json_quote x"
| "json_elements (x # xs) = json_quote x @ '','' @ json_elements xs"

definition json_string_array :: "string list \<Rightarrow> string" where
  "json_string_array xs = ''['' @ json_elements xs @ '']''"

subsection \<open>Lemmas\<close>

lemma clampMicroCents_nonneg [simp]: "0 \<le> clampMicroCents v"
  by (simp add: clampMicroCents_def split: jsnum.split)

lemma scaledLimit_le: "1 \<le> limit \<Longrightarrow> scaledLimit limit throttled \<le> limit"
proof -
  assume "1 \<le> limit"
  then have "of_int limit * (1/2 :: rat) \<le> of_int limit" by simp
  then have "\<lfloor>of_int limit * (1/2 :: rat)\<rfloor> \<le> \<lfloor>of_int limit :: rat\<rfloor>" by (rule floor_mono)
  then show ?thesis using \<open>1 \<le> limit\<close> by (simp add: scaledLimit_def gateway_constants)
qed

lemma scaledLimit_pos: "1 \<le> limit \<Longrightarrow> 1 \<le> scaledLimit limit throttled"
  by (simp add: scaledLimit_def)

lemma relay_limit_bounds:
  "1 \<le> inFlight (GATEWAY_OWNER_RELAY_LIMITS a) \<and> inFlight (GATEWAY_OWNER_RELAY_LIMITS a) \<le> 8"
  "1 \<le> perMinute (GATEWAY_OWNER_RELAY_LIMITS a) \<and> perMinute (GATEWAY_OWNER_RELAY_LIMITS a) \<le> 120"
  "1 \<le> mintsPerHour (GATEWAY_OWNER_RELAY_LIMITS a) \<and>
   mintsPerHour (GATEWAY_OWNER_RELAY_LIMITS a) \<le> 24"
  by (cases a; simp)+

text \<open>
  The quoted form of a string can be read back: \<open>json_unescape\<close> consumes one quoted body up to the
  closing quote. It is only used to prove that the key encoding is injective.
\<close>

definition json_unescape1 :: "string \<Rightarrow> (char \<times> string) option" where
  "json_unescape1 s =
     (case s of
        [] \<Rightarrow> None
      | c # s' \<Rightarrow>
          if c = CHR 0x22 then None
          else if c = CHR 0x5C then
            (case s' of
               [] \<Rightarrow> None
             | d # s'' \<Rightarrow>
                 if d = CHR ''b'' then Some (CHR 0x08, s'')
                 else if d = CHR ''f'' then Some (CHR 0x0C, s'')
                 else if d = CHR ''n'' then Some (CHR 0x0A, s'')
                 else if d = CHR ''r'' then Some (CHR 0x0D, s'')
                 else if d = CHR ''t'' then Some (CHR 0x09, s'')
                 else if d = CHR ''u'' then
                   Some (THE c. (of_char c :: nat) < 32 \<and>
                           take 4 s'' = [CHR ''0'', CHR ''0'', hex_digit (of_char c div 16),
                                         hex_digit (of_char c mod 16)], drop 4 s'')
                 else Some (d, s''))
          else Some (c, s'))"

lemma hex_digit_inj: "m < 16 \<Longrightarrow> n < 16 \<Longrightarrow> hex_digit m = hex_digit n \<Longrightarrow> m = n"
proof -
  assume *: "m < 16" "n < 16" "hex_digit m = hex_digit n"
  have "distinct ''0123456789abcdef''" by simp
  then show ?thesis using * nth_eq_iff_index_eq [of "''0123456789abcdef''" m n]
    by (simp add: hex_digit_def)
qed

lemma control_code_inj:
  assumes "(of_char c :: nat) < 32" "(of_char d :: nat) < 32"
    "hex_digit (of_char c div 16) = hex_digit (of_char d div 16)"
    "hex_digit (of_char c mod 16) = hex_digit (of_char d mod 16)"
  shows "c = d"
proof -
  have "(of_char c :: nat) div 16 = of_char d div 16" "(of_char c :: nat) mod 16 = of_char d mod 16"
    using assms by (auto intro: hex_digit_inj)
  then have "(of_char c :: nat) = of_char d" by (metis div_mod_decomp)
  then show ?thesis by simp
qed

lemma json_unescape1_escape: "json_unescape1 (json_escape c @ rest) = Some (c, rest)"
proof (cases "(of_char c :: nat) < 32")
  case True
  have "(THE d. (of_char d :: nat) < 32 \<and>
      hex_digit (of_char c div 16) = hex_digit (of_char d div 16) \<and>
      hex_digit (of_char c mod 16) = hex_digit (of_char d mod 16)) = c"
    using True by (intro the_equality) (auto dest: control_code_inj)
  then show ?thesis using True
    by (simp add: json_escape_def json_unescape1_def)
next
  case False
  then show ?thesis by (auto simp: json_escape_def json_unescape1_def)
qed

lemma json_body_inj:
  "concat (map json_escape s) @ CHR 0x22 # u = concat (map json_escape t) @ CHR 0x22 # v \<Longrightarrow>
   s = t \<and> u = v"
proof (induction s arbitrary: t)
  case Nil
  show ?case
  proof (cases t)
    case (Cons d t')
    have "json_unescape1 (CHR 0x22 # u) = None" by (simp add: json_unescape1_def)
    moreover have "json_unescape1 (concat (map json_escape t) @ CHR 0x22 # v) \<noteq> None"
      by (simp add: Cons json_unescape1_escape)
    ultimately show ?thesis using Nil by simp
  qed (use Nil in simp)
next
  case (Cons c s)
  note IH = Cons.IH and prems = Cons.prems
  have some: "json_unescape1 (concat (map json_escape (c # s)) @ CHR 0x22 # u) =
      Some (c, concat (map json_escape s) @ CHR 0x22 # u)"
    by (simp add: json_unescape1_escape)
  show ?case
  proof (cases t)
    case Nil
    then have "json_unescape1 (concat (map json_escape t) @ CHR 0x22 # v) = None"
      by (simp add: json_unescape1_def)
    then show ?thesis using some prems by simp
  next
    case (Cons d t')
    then have "json_unescape1 (concat (map json_escape t) @ CHR 0x22 # v) =
        Some (d, concat (map json_escape t') @ CHR 0x22 # v)"
      by (simp add: json_unescape1_escape)
    then have "c = d \<and> concat (map json_escape s) @ CHR 0x22 # u =
        concat (map json_escape t') @ CHR 0x22 # v"
      using some prems by simp
    then show ?thesis using IH [of t'] by (simp add: Cons)
  qed
qed

lemma json_quote_append_inj: "json_quote s @ u = json_quote t @ v \<Longrightarrow> s = t \<and> u = v"
  using json_body_inj [of s u t v] by (simp add: json_quote_def)

lemma json_elements_Nil: "json_elements xs @ '']'' = '']'' \<Longrightarrow> xs = []"
  by (cases xs rule: json_elements.cases) (auto simp: json_quote_def)

lemma json_elements_inj: "json_elements xs @ '']'' = json_elements ys @ '']'' \<Longrightarrow> xs = ys"
proof (induction xs arbitrary: ys rule: json_elements.induct)
  case 1
  then show ?case using json_elements_Nil [of ys] by simp
next
  case (2 x)
  show ?case
  proof (cases ys rule: json_elements.cases)
    case 1
    then show ?thesis using 2 by (simp add: json_quote_def)
  next
    case (2 y)
    then show ?thesis using 2 "2.prems" json_quote_append_inj [of x "'']''" y "'']''"] by simp
  next
    case (3 y y' ys')
    then show ?thesis
      using 2 json_quote_append_inj [of x "'']''" y "'','' @ json_elements (y' # ys') @ '']''"] by simp
  qed
next
  case (3 x x' xs)
  let ?u = "'','' @ json_elements (x' # xs) @ '']''"
  show ?case
  proof (cases ys rule: json_elements.cases)
    case 1
    then show ?thesis using 3 by (simp add: json_quote_def)
  next
    case (2 y)
    then show ?thesis using 3 json_quote_append_inj [of x ?u y "'']''"] by simp
  next
    case (3 y y' ys')
    then show ?thesis
      using "3.prems" "3.IH" [of "y' # ys'"]
        json_quote_append_inj [of x ?u y "'','' @ json_elements (y' # ys') @ '']''"] by simp
  qed
qed

lemma json_string_array_inj [simp]: "json_string_array xs = json_string_array ys \<longleftrightarrow> xs = ys"
  using json_elements_inj [of xs ys] by (auto simp: json_string_array_def)

end
