(* ===== verification/Network_Gate.thy ===== *)
theory Network_Gate
  imports Gateway_Limits
begin

text \<open>
  The per-network limiter \<open>workers/model-gateway/src/gates/network-gate.ts\<close>: one object per
  client address, with a table of relay admissions (by tier) and one of session-capability mints.
  Its three rolling limits are instances of the contract \<open>sliding_window\<close>, which gives the rate
  bounds.
\<close>

record network_gate =
  net_relay_admissions :: "(limits_audience \<times> ms) list"
  net_mint_admissions :: "ms list"

definition empty_network_gate :: network_gate where
  "empty_network_gate = \<lparr>net_relay_admissions = [], net_mint_admissions = []\<rparr>"

datatype network_admission = NetOk | NetRefused ms

definition capShareOf :: "jsnum \<Rightarrow> rat" where
  "capShareOf share = (case share of Fin x \<Rightarrow> min 1 (max 0 x) | _ \<Rightarrow> 0)"

definition audience_log :: "limits_audience \<Rightarrow> network_gate \<Rightarrow> ms list" where
  "audience_log a g = map snd (filter (\<lambda>r. fst r = a) (net_relay_admissions g))"

definition networkRefusal :: "limits_audience \<Rightarrow> ms \<Rightarrow> ms \<Rightarrow> network_gate \<Rightarrow> network_admission" where
  "networkRefusal audience now windowMs g =
     NetRefused (coalesce (sql_min (filter (\<lambda>t. t > now - windowMs) (audience_log audience g))) now
                 + windowMs)"

definition networkAdmitRelay ::
  "string \<Rightarrow> jsnum \<Rightarrow> ms \<Rightarrow> network_gate \<Rightarrow> network_admission \<times> network_gate" where
  "networkAdmitRelay aud share now g =
     (let audience = limitsAudienceFor aud in
      if audience = LGo \<or> audience = LPro then (NetOk, g)
      else
        let g1 = g\<lparr>net_relay_admissions :=
                     sql_delete (\<lambda>r. snd r \<le> now - DAY_MS) (net_relay_admissions g)\<rparr>;
            dayCount = int (length (audience_log audience g1));
            capShare = capShareOf share;
            baseDayLimit = (if audience = LAnonymous
                            then anonymous_relayPerDay GATEWAY_NETWORK_LIMITS
                            else free_relayPerDay GATEWAY_NETWORK_LIMITS);
            dayLimit = \<lfloor>of_int baseDayLimit * capShare\<rfloor>
        in if dayCount \<ge> dayLimit then (networkRefusal audience now DAY_MS g1, g1)
        else if audience = LAnonymous \<and>
                int (length (filter (\<lambda>t. t > now - HOUR_MS) (audience_log audience g1)))
                  \<ge> \<lfloor>of_int (anonymous_relayPerHour GATEWAY_NETWORK_LIMITS) * capShare\<rfloor>
        then (networkRefusal audience now HOUR_MS g1, g1)
        else (NetOk, g1\<lparr>net_relay_admissions := net_relay_admissions g1 @ [(audience, now)]\<rparr>))"

definition networkAdmitMint :: "ms \<Rightarrow> network_gate \<Rightarrow> network_admission \<times> network_gate" where
  "networkAdmitMint now g =
     (let g1 = g\<lparr>net_mint_admissions :=
                   sql_delete (\<lambda>t. t \<le> now - DAY_MS) (net_mint_admissions g)\<rparr>;
          count = int (length (net_mint_admissions g1))
      in if count \<ge> anonymous_mintsPerDay GATEWAY_NETWORK_LIMITS
         then (NetRefused (coalesce (sql_min (net_mint_admissions g1)) now + DAY_MS), g1)
         else (NetOk, g1\<lparr>net_mint_admissions := net_mint_admissions g1 @ [now]\<rparr>))"

text \<open>A relay call seen as a step of the limiter of one tier: counted when that tier's call passes.\<close>

definition network_relay_step ::
  "limits_audience \<Rightarrow> string \<times> jsnum \<Rightarrow> ms \<Rightarrow> network_gate \<Rightarrow> bool \<times> network_gate" where
  "network_relay_step a c now g =
     (case networkAdmitRelay (fst c) (snd c) now g of
        (r, g') \<Rightarrow> (r = NetOk \<and> limitsAudienceFor (fst c) = a, g'))"

definition network_mint_step :: "unit \<Rightarrow> ms \<Rightarrow> network_gate \<Rightarrow> bool \<times> network_gate" where
  "network_mint_step c now g = (case networkAdmitMint now g of (r, g') \<Rightarrow> (r = NetOk, g'))"

subsection \<open>The limiter contract\<close>

lemma capShareOf_bounds: "0 \<le> capShareOf s" "capShareOf s \<le> 1"
  by (auto simp: capShareOf_def split: jsnum.split)

lemma floor_share_le: "0 \<le> n \<Longrightarrow> \<lfloor>of_int n * capShareOf s\<rfloor> \<le> n"
proof -
  assume "0 \<le> n"
  then have "of_int n * capShareOf s \<le> of_int n"
    using capShareOf_bounds [of s] by (simp add: mult_left_le)
  then have "\<lfloor>of_int n * capShareOf s\<rfloor> \<le> \<lfloor>of_int n :: rat\<rfloor>" by (rule floor_mono)
  then show ?thesis by simp
qed

lemma audience_log_prune:
  "audience_log a (g\<lparr>net_relay_admissions :=
      sql_delete (\<lambda>r. snd r \<le> k) (net_relay_admissions g)\<rparr>) =
   filter (\<lambda>t. k < t) (audience_log a g)"
  by (simp add: audience_log_def sql_delete_def filter_map comp_def conj_commute not_le)

lemma audience_log_append:
  "audience_log a (g\<lparr>net_relay_admissions := tab @ [(b, now)]\<rparr>) =
   audience_log a (g\<lparr>net_relay_admissions := tab\<rparr>) @ (if b = a then [now] else [])"
  by (simp add: audience_log_def)

definition network_day_cap :: "limits_audience \<Rightarrow> string \<times> jsnum \<Rightarrow> int" where
  "network_day_cap a c =
     \<lfloor>of_int (if a = LAnonymous then anonymous_relayPerDay GATEWAY_NETWORK_LIMITS
              else free_relayPerDay GATEWAY_NETWORK_LIMITS) * capShareOf (snd c)\<rfloor>"

definition network_hour_cap :: "string \<times> jsnum \<Rightarrow> int" where
  "network_hour_cap c =
     \<lfloor>of_int (anonymous_relayPerHour GATEWAY_NETWORK_LIMITS) * capShareOf (snd c)\<rfloor>"

lemma network_caps:
  "network_day_cap LAnonymous c \<le> 1000" "network_day_cap LFree c \<le> 3000"
  "network_hour_cap c \<le> 300"
  using floor_share_le [of 1000 "snd c"] floor_share_le [of 3000 "snd c"]
    floor_share_le [of 300 "snd c"]
  by (simp_all add: network_day_cap_def network_hour_cap_def gateway_constants)

lemma network_relay_refused:
  assumes "network_relay_step a c now g = (False, g')"
  shows "audience_log a g' = audience_log a g \<or>
         audience_log a g' = filter (\<lambda>t. now - DAY_MS < t) (audience_log a g)"
  using assms
  by (auto simp: network_relay_step_def networkAdmitRelay_def Let_def audience_log_prune
      audience_log_append networkRefusal_def split: if_splits)

lemma network_relay_counted:
  assumes "network_relay_step a c now g = (True, g')" and "a = LAnonymous \<or> a = LFree"
  shows "audience_log a g' = filter (\<lambda>t. now - DAY_MS < t) (audience_log a g) @ [now]"
    and "int (length (filter (\<lambda>t. now - DAY_MS < t) (audience_log a g))) < network_day_cap a c"
  using assms
  by (auto simp: network_relay_step_def networkAdmitRelay_def Let_def audience_log_prune
      audience_log_append networkRefusal_def network_day_cap_def split: if_splits)

lemma network_relay_counted_hour:
  assumes "network_relay_step LAnonymous c now g = (True, g')"
  shows "int (length (filter (\<lambda>t. now - HOUR_MS < t) (audience_log LAnonymous g)))
           < network_hour_cap c"
proof -
  have "filter (\<lambda>t. now - HOUR_MS < t) (filter (\<lambda>t. now - DAY_MS < t) xs) =
      filter (\<lambda>t. now - HOUR_MS < t) xs" for xs
    by (auto simp: gateway_constants intro!: filter_cong)
  then show ?thesis
    using assms
    by (auto simp: network_relay_step_def networkAdmitRelay_def Let_def audience_log_prune
        networkRefusal_def network_hour_cap_def simp del: filter_filter split: if_splits)
qed

interpretation anon_day: sliding_window "network_relay_step LAnonymous" "audience_log LAnonymous"
  "network_day_cap LAnonymous" DAY_MS DAY_MS
proof unfold_locales
  show "0 < DAY_MS" "DAY_MS \<le> DAY_MS" by (simp_all add: gateway_constants)
qed (use network_relay_refused network_relay_counted in auto)

interpretation free_day: sliding_window "network_relay_step LFree" "audience_log LFree"
  "network_day_cap LFree" DAY_MS DAY_MS
proof unfold_locales
  show "0 < DAY_MS" "DAY_MS \<le> DAY_MS" by (simp_all add: gateway_constants)
qed (use network_relay_refused network_relay_counted in auto)

interpretation anon_hour: sliding_window "network_relay_step LAnonymous" "audience_log LAnonymous"
  network_hour_cap HOUR_MS DAY_MS
proof unfold_locales
  show "0 < HOUR_MS" "HOUR_MS \<le> DAY_MS" by (simp_all add: gateway_constants)
qed (use network_relay_refused network_relay_counted network_relay_counted_hour in auto)

interpretation net_mint: sliding_window network_mint_step net_mint_admissions
  "\<lambda>_. anonymous_mintsPerDay GATEWAY_NETWORK_LIMITS" DAY_MS DAY_MS
proof unfold_locales
  show "0 < DAY_MS" "DAY_MS \<le> DAY_MS" by (simp_all add: gateway_constants)
qed (auto simp: network_mint_step_def networkAdmitMint_def Let_def sql_delete_def not_le
      split: if_splits)

subsection \<open>Properties\<close>

text \<open>
  whatever calls of whatever tiers reach one network, in time order, at most 1000 anonymous
  relay requests are admitted in any rolling 24 hours and at most 300 in any rolling hour, and at
  most 3000 free ones in any rolling 24 hours.
\<close>

lemma network_relay_rate:
  assumes "sorted (map snd calls)"
  shows "in_window DAY_MS t (fst (admissions (network_relay_step LAnonymous) calls
           empty_network_gate)) \<le> 1000 \<and>
         in_window HOUR_MS t (fst (admissions (network_relay_step LAnonymous) calls
           empty_network_gate)) \<le> 300 \<and>
         in_window DAY_MS t (fst (admissions (network_relay_step LFree) calls
           empty_network_gate)) \<le> 3000"
  using assms
  by (auto intro!: anon_day.rate_bound anon_hour.rate_bound free_day.rate_bound network_caps
      simp: empty_network_gate_def audience_log_def)

text \<open>at most 20 session capabilities are minted for one network in any rolling 24 hours.\<close>

lemma network_mint_rate:
  assumes "sorted (map snd calls)"
  shows "in_window DAY_MS t (fst (admissions network_mint_step calls empty_network_gate)) \<le> 20"
  using assms
  by (intro net_mint.rate_bound) (simp_all add: empty_network_gate_def GATEWAY_NETWORK_LIMITS_def)

end
