(* ===== verification/Capability_Ledger.thy ===== *)
theory Capability_Ledger
  imports Gateway_Limits
begin

text \<open>
  The capability ledger \<open>workers/model-gateway/src/ledger.ts\<close>: one SQLite object per capability,
  holding one ledger row (budget, spent, reserved, request count) and a result row per request id.
  \<open>ledger_reserve\<close>, \<open>ledger_settle\<close>, \<open>ledger_replay\<close>, \<open>ledger_snapshot\<close> and \<open>ledger_alarm\<close>
  are its methods; \<open>now\<close> is \<open>Date.now()\<close>. \<open>ledger_wf\<close> is the invariant that ties the row to the
  result rows.
\<close>

definition IN_FLIGHT_ABANDON_AFTER_MS :: ms where
  "IN_FLIGHT_ABANDON_AFTER_MS = GATEWAY_UPSTREAM_MAX_DURATION_MS + 60000"

record reserve_args =
  ra_jti :: string
  ra_budgetMicroCents :: rat
  ra_maxRequests :: "rat option"
  ra_expiresAt :: rat
  ra_requestId :: string
  ra_estimatedMicroCents :: jsnum

datatype reserve_result =
    Reserved "int option"
  | Replay int string
  | InFlight
  | BudgetExhausted int
  | RequestLimit int

record settle_args =
  sa_requestId :: string
  sa_chargedMicroCents :: jsnum
  sa_refundRequest :: bool
  sa_result :: "(int \<times> string) option"

record settle_result =
  sr_ok :: bool
  sr_spentMicroCents :: int
  sr_reservedMicroCents :: int
  sr_cached :: bool

record ledger_row =
  l_jti :: string
  l_budget :: int
  l_spent :: int
  l_reserved :: int
  l_requests :: int
  l_max_requests :: "int option"
  l_expires_at :: ms

record result_row =
  r_request_id :: string
  r_status :: int
  r_body :: "string option"
  r_bytes :: int
  r_reserved :: int
  r_created_at :: ms

record cap_ledger =
  cl_row :: "ledger_row option"
  cl_results :: "result_row list"
  cl_alarm :: "ms option"

definition empty_ledger :: cap_ledger where
  "empty_ledger = \<lparr>cl_row = None, cl_results = [], cl_alarm = None\<rparr>"

text \<open>\<open>new TextEncoder().encode(s).byteLength\<close> on Latin-1 code units.\<close>

definition utf8_length :: "string \<Rightarrow> int" where
  "utf8_length s = sum_list (map (\<lambda>c. if (of_char c :: nat) < 128 then 1 else 2) s)"

definition new_ledger_row :: "reserve_args \<Rightarrow> ledger_row" where
  "new_ledger_row args =
     \<lparr>l_jti = ra_jti args, l_budget = js_round (ra_budgetMicroCents args), l_spent = 0,
      l_reserved = 0, l_requests = 0,
      l_max_requests = map_option floor (ra_maxRequests args),
      l_expires_at = js_round (ra_expiresAt args)\<rparr>"

definition pending_row :: "string \<Rightarrow> int \<Rightarrow> ms \<Rightarrow> result_row" where
  "pending_row requestId estimate now =
     \<lparr>r_request_id = requestId, r_status = 0, r_body = None, r_bytes = 0, r_reserved = estimate,
      r_created_at = now\<rparr>"

text \<open>The part of a reservation after the lookup of the request id: the two limits, then the verdict.\<close>

definition reserve_verdict :: "ledger_row \<Rightarrow> bool \<Rightarrow> int \<Rightarrow> reserve_result" where
  "reserve_verdict row resumingAbandoned estimate =
     (let limited = (\<not> resumingAbandoned \<and> l_max_requests row \<noteq> None \<and>
                     l_requests row \<ge> the (l_max_requests row));
          unlimited = (l_budget row = GATEWAY_BUDGET_UNLIMITED \<or> l_budget row < 0);
          remaining = l_budget row - l_spent row - l_reserved row
      in if limited then RequestLimit (the (l_max_requests row))
         else if \<not> unlimited \<and> l_spent row + l_reserved row + estimate > l_budget row
         then BudgetExhausted (max 0 remaining)
         else Reserved (if unlimited then None else Some (max 0 (remaining - estimate))))"

definition release_row :: "result_row \<Rightarrow> ledger_row \<Rightarrow> ledger_row" where
  "release_row existing row = row\<lparr>l_reserved := max 0 (l_reserved row - r_reserved existing)\<rparr>"

definition count_row :: "int \<Rightarrow> bool \<Rightarrow> ledger_row \<Rightarrow> ledger_row" where
  "count_row estimate resumingAbandoned row =
     row\<lparr>l_reserved := l_reserved row + estimate,
         l_requests := l_requests row + (if resumingAbandoned then 0 else 1)\<rparr>"

definition finish_reserve ::
  "ledger_row \<Rightarrow> bool \<Rightarrow> int \<Rightarrow> string \<Rightarrow> ms \<Rightarrow> cap_ledger \<Rightarrow> reserve_result \<times> cap_ledger" where
  "finish_reserve row resumingAbandoned estimate requestId now st =
     (case reserve_verdict row resumingAbandoned estimate of
        Reserved remaining \<Rightarrow>
          (Reserved remaining,
           st\<lparr>cl_row := Some (count_row estimate resumingAbandoned row),
              cl_results := cl_results st @ [pending_row requestId estimate now]\<rparr>)
      | refused \<Rightarrow> (refused, st))"

definition open_ledger :: "reserve_args \<Rightarrow> ms \<Rightarrow> cap_ledger \<Rightarrow> cap_ledger" where
  "open_ledger args now st =
     (if cl_row st \<noteq> None then st
      else st\<lparr>cl_row := Some (new_ledger_row args),
              cl_alarm := Some (coalesce (cl_alarm st)
                (max (now + 1000)
                  (js_round (ra_expiresAt args) + GATEWAY_RESULT_CACHE_TTL_MS)))\<rparr>)"

definition ledger_reserve :: "reserve_args \<Rightarrow> ms \<Rightarrow> cap_ledger \<Rightarrow> reserve_result \<times> cap_ledger" where
  "ledger_reserve args now st0 =
     (let estimate = clampMicroCents (ra_estimatedMicroCents args);
          row = coalesce (cl_row st0) (new_ledger_row args);
          st = open_ledger args now st0
      in case find_row r_request_id (ra_requestId args) (cl_results st) of
           None \<Rightarrow> finish_reserve row False estimate (ra_requestId args) now st
         | Some existing \<Rightarrow>
             (case (if r_status existing > 0 then r_body existing else None) of
                Some body \<Rightarrow> (Replay (r_status existing) body, st)
              | None \<Rightarrow>
                  if now - r_created_at existing \<le> IN_FLIGHT_ABANDON_AFTER_MS then (InFlight, st)
                  else
                    let row' = release_row existing row;
                        st' = st\<lparr>cl_row := Some row',
                                 cl_results := sql_delete (\<lambda>r. r_request_id r = ra_requestId args)
                                                 (cl_results st)\<rparr>
                    in finish_reserve row' True estimate (ra_requestId args) now st'))"

definition charge_row :: "result_row \<Rightarrow> int \<Rightarrow> bool \<Rightarrow> ledger_row \<Rightarrow> ledger_row" where
  "charge_row pending charged refund row =
     row\<lparr>l_reserved := max 0 (l_reserved row - r_reserved pending),
         l_spent := l_spent row + charged,
         l_requests := max 0 (l_requests row - (if refund then 1 else 0))\<rparr>"

text \<open>The result that settlement keeps for replay: present, with a positive status, and small enough.\<close>

definition cacheable_result :: "(int \<times> string) option \<Rightarrow> (int \<times> string) option" where
  "cacheable_result result =
     (case result of
        Some (status, body) \<Rightarrow>
          if status > 0 \<and> utf8_length body \<le> GATEWAY_MAX_RESULT_CACHE_BYTES
          then Some (status, body) else None
      | None \<Rightarrow> None)"

definition settled_row :: "int \<Rightarrow> string \<Rightarrow> result_row \<Rightarrow> result_row" where
  "settled_row status body r =
     r\<lparr>r_status := status, r_body := Some body, r_bytes := utf8_length body, r_reserved := 0\<rparr>"

definition store_result ::
  "string \<Rightarrow> (int \<times> string) option \<Rightarrow> result_row list \<Rightarrow> result_row list" where
  "store_result requestId cached results =
     (case cached of
        Some (status, body) \<Rightarrow>
          sql_update (\<lambda>r. r_request_id r = requestId) (settled_row status body) results
      | None \<Rightarrow> sql_delete (\<lambda>r. r_request_id r = requestId) results)"

definition ledger_settle :: "settle_args \<Rightarrow> cap_ledger \<Rightarrow> settle_result \<times> cap_ledger" where
  "ledger_settle args st =
     (case (cl_row st, find_row r_request_id (sa_requestId args) (cl_results st)) of
        (Some row, Some pending) \<Rightarrow>
          if r_status pending > 0
          then (\<lparr>sr_ok = False, sr_spentMicroCents = l_spent row,
                 sr_reservedMicroCents = l_reserved row, sr_cached = False\<rparr>, st)
          else
            let charged = clampMicroCents (sa_chargedMicroCents args);
                row' = charge_row pending charged (sa_refundRequest args) row;
                cached = cacheable_result (sa_result args)
            in (\<lparr>sr_ok = True, sr_spentMicroCents = l_spent row',
                 sr_reservedMicroCents = l_reserved row', sr_cached = (cached \<noteq> None)\<rparr>,
                st\<lparr>cl_row := Some row',
                   cl_results := store_result (sa_requestId args) cached (cl_results st)\<rparr>)
      | (row, _) \<Rightarrow>
          (\<lparr>sr_ok = False, sr_spentMicroCents = (case row of None \<Rightarrow> 0 | Some r \<Rightarrow> l_spent r),
            sr_reservedMicroCents = (case row of None \<Rightarrow> 0 | Some r \<Rightarrow> l_reserved r),
            sr_cached = False\<rparr>, st))"

definition ledger_replay :: "string \<Rightarrow> cap_ledger \<Rightarrow> (int \<times> string) option" where
  "ledger_replay requestId st =
     (case find (\<lambda>r. r_request_id r = requestId \<and> r_status r > 0) (cl_results st) of
        None \<Rightarrow> None
      | Some row \<Rightarrow> map_option (\<lambda>body. (r_status row, body)) (r_body row))"

definition ledger_snapshot :: "cap_ledger \<Rightarrow> (int \<times> int \<times> int \<times> int \<times> int option \<times> ms) option" where
  "ledger_snapshot st =
     map_option (\<lambda>row. (l_budget row, l_spent row, l_reserved row, l_requests row,
                        l_max_requests row, l_expires_at row)) (cl_row st)"

definition ledger_alarm :: "cap_ledger \<Rightarrow> cap_ledger" where
  "ledger_alarm st = empty_ledger"

subsection \<open>Runs and the invariant\<close>

datatype ledger_op = OpReserve reserve_args ms | OpSettle settle_args | OpAlarm

fun ledger_step :: "ledger_op \<Rightarrow> cap_ledger \<Rightarrow> cap_ledger" where
  "ledger_step (OpReserve args now) st = snd (ledger_reserve args now st)"
| "ledger_step (OpSettle args) st = snd (ledger_settle args st)"
| "ledger_step OpAlarm st = ledger_alarm st"

fun ledger_run :: "ledger_op list \<Rightarrow> cap_ledger \<Rightarrow> cap_ledger" where
  "ledger_run [] st = st"
| "ledger_run (op # ops) st = ledger_run ops (ledger_step op st)"

text \<open>What a settlement charges beyond its reservation; 0 for every other operation.\<close>

fun op_overrun :: "cap_ledger \<Rightarrow> ledger_op \<Rightarrow> int" where
  "op_overrun st (OpSettle args) =
     (case find_row r_request_id (sa_requestId args) (cl_results st) of
        Some pending \<Rightarrow>
          if r_status pending > 0 then 0
          else max 0 (clampMicroCents (sa_chargedMicroCents args) - r_reserved pending)
      | None \<Rightarrow> 0)"
| "op_overrun st _ = 0"

fun run_overrun :: "ledger_op list \<Rightarrow> cap_ledger \<Rightarrow> int" where
  "run_overrun [] st = 0"
| "run_overrun (op # ops) st = op_overrun st op + run_overrun ops (ledger_step op st)"

definition result_wf :: "result_row \<Rightarrow> bool" where
  "result_wf r \<longleftrightarrow> 0 \<le> r_reserved r \<and> 0 \<le> r_status r \<and>
     (if r_status r > 0 then r_body r \<noteq> None \<and> r_reserved r = 0 else r_body r = None)"

definition ledger_wf :: "cap_ledger \<Rightarrow> bool" where
  "ledger_wf st \<longleftrightarrow>
     distinct (map r_request_id (cl_results st)) \<and>
     (\<forall>r \<in> set (cl_results st). result_wf r) \<and>
     (case cl_row st of
        None \<Rightarrow> cl_results st = []
      | Some row \<Rightarrow>
          l_reserved row = sum_list (map r_reserved (cl_results st)) \<and>
          0 \<le> l_spent row \<and> 0 \<le> l_requests row \<and>
          (\<forall>m. l_max_requests row = Some m \<longrightarrow> l_requests row \<le> max 0 m))"

lemmas ledger_defs = ledger_reserve_def open_ledger_def ledger_settle_def finish_reserve_def Let_def

subsection \<open>The invariant is kept\<close>

lemma reserve_verdict_Reserved:
  assumes "reserve_verdict row resuming estimate = Reserved rem"
  shows "0 \<le> l_budget row \<Longrightarrow> l_spent row + l_reserved row + estimate \<le> l_budget row"
    and "\<not> resuming \<Longrightarrow> l_max_requests row = Some m \<Longrightarrow> l_requests row < m"
  using assms
  by (auto simp: reserve_verdict_def Let_def gateway_constants split: if_splits)

lemma open_ledger_row [simp]:
  "cl_row (open_ledger args now st) = Some (coalesce (cl_row st) (new_ledger_row args))"
  by (auto simp: open_ledger_def)

lemma open_ledger_wf: "ledger_wf st \<Longrightarrow> ledger_wf (open_ledger args now st)"
  by (auto simp: ledger_wf_def open_ledger_def new_ledger_row_def)

lemma pending_row_wf [simp]: "0 \<le> estimate \<Longrightarrow> result_wf (pending_row i estimate now)"
  by (simp add: result_wf_def pending_row_def)

lemma finish_reserve_wf:
  assumes wf: "ledger_wf st" and row: "cl_row st = Some row"
    and new: "find_row r_request_id i (cl_results st) = None" and est: "0 \<le> estimate"
  shows "ledger_wf (snd (finish_reserve row resuming estimate i now st))"
proof (cases "reserve_verdict row resuming estimate")
  case (Reserved rem)
  have "i \<notin> r_request_id ` set (cl_results st)" using new by (simp add: find_row_None)
  then show ?thesis
    using wf row est reserve_verdict_Reserved(2) [OF Reserved]
    by (auto simp: finish_reserve_def Reserved ledger_wf_def count_row_def pending_row_def
        result_wf_def)
qed (use wf in \<open>simp_all add: finish_reserve_def\<close>)

lemma release_wf:
  assumes wf: "ledger_wf st" and row: "cl_row st = Some row"
    and ex: "find_row r_request_id i (cl_results st) = Some existing"
  shows "ledger_wf (st\<lparr>cl_row := Some (release_row existing row),
           cl_results := sql_delete (\<lambda>r. r_request_id r = i) (cl_results st)\<rparr>)"
proof -
  let ?results = "sql_delete (\<lambda>r. r_request_id r = i) (cl_results st)"
  have dist: "distinct (map r_request_id (cl_results st))" using wf by (simp add: ledger_wf_def)
  have sum: "sum_list (map r_reserved ?results) =
      sum_list (map r_reserved (cl_results st)) - r_reserved existing"
    by (rule sum_delete_row [OF dist ex])
  have "0 \<le> sum_list (map r_reserved ?results)"
    using wf by (auto simp: ledger_wf_def result_wf_def intro!: sum_list_nonneg)
  then show ?thesis
    using wf row sum distinct_map_sql_delete [OF dist]
    by (auto simp: ledger_wf_def release_row_def)
qed

lemma ledger_reserve_wf: "ledger_wf st \<Longrightarrow> ledger_wf (snd (ledger_reserve args now st))"
  unfolding ledger_reserve_def Let_def
  by (auto simp: open_ledger_wf find_row_delete_same intro!: finish_reserve_wf release_wf
      split: option.splits)

lemma store_result_wf:
  assumes "\<forall>r \<in> set results. result_wf r"
  shows "\<forall>r \<in> set (store_result i (cacheable_result res) results). result_wf r"
  using assms
  by (auto simp: store_result_def cacheable_result_def sql_update_def settled_row_def result_wf_def
      split: option.splits if_splits)

lemma store_result_sum:
  assumes "distinct (map r_request_id results)" and "find_row r_request_id i results = Some p"
  shows "sum_list (map r_reserved (store_result i cached results)) =
         sum_list (map r_reserved results) - r_reserved p"
  using assms sum_delete_row [OF assms] sum_update_row [OF assms]
  by (auto simp: store_result_def settled_row_def split: option.split)

lemma store_result_distinct:
  "distinct (map r_request_id results) \<Longrightarrow> distinct (map r_request_id (store_result i c results))"
  by (auto simp: store_result_def settled_row_def map_sql_update_key distinct_map_sql_delete
      split: option.split)

lemma ledger_settle_wf: "ledger_wf st \<Longrightarrow> ledger_wf (snd (ledger_settle args st))"
proof -
  assume wf: "ledger_wf st"
  show ?thesis
  proof (cases "cl_row st"; cases "find_row r_request_id (sa_requestId args) (cl_results st)")
    fix row p
    assume row: "cl_row st = Some row"
      and p: "find_row r_request_id (sa_requestId args) (cl_results st) = Some p"
    let ?c = "cacheable_result (sa_result args)"
    let ?results = "store_result (sa_requestId args) ?c (cl_results st)"
    have dist: "distinct (map r_request_id (cl_results st))" using wf by (simp add: ledger_wf_def)
    have rwf: "\<forall>r \<in> set ?results. result_wf r"
      using wf by (intro store_result_wf) (simp add: ledger_wf_def)
    have sum: "sum_list (map r_reserved ?results) = l_reserved row - r_reserved p"
      using store_result_sum [OF dist p] wf row by (simp add: ledger_wf_def)
    have "0 \<le> sum_list (map r_reserved ?results)"
      using rwf by (auto simp: result_wf_def intro!: sum_list_nonneg)
    then show ?thesis
      using wf row p sum rwf store_result_distinct [OF dist]
      by (auto simp: ledger_settle_def Let_def ledger_wf_def charge_row_def)
  qed (use wf in \<open>simp_all add: ledger_settle_def\<close>)
qed

lemma empty_ledger_wf [simp]: "ledger_wf empty_ledger"
  by (simp add: ledger_wf_def empty_ledger_def)

lemma ledger_step_wf: "ledger_wf st \<Longrightarrow> ledger_wf (ledger_step op st)"
  by (cases op)
    (simp_all add: ledger_reserve_wf ledger_settle_wf ledger_alarm_def)

lemma ledger_run_wf: "ledger_wf st \<Longrightarrow> ledger_wf (ledger_run ops st)"
  by (induction ops arbitrary: st) (simp_all add: ledger_step_wf)

subsection \<open>The budget\<close>

definition within_budget :: "int \<Rightarrow> cap_ledger \<Rightarrow> bool" where
  "within_budget slack st \<longleftrightarrow>
     (\<forall>row. cl_row st = Some row \<longrightarrow> 0 \<le> l_budget row \<longrightarrow>
        l_spent row + l_reserved row \<le> l_budget row + slack)"

lemma op_overrun_nonneg [simp]: "0 \<le> op_overrun st op"
  by (cases op) (auto split: option.split)

lemma run_overrun_nonneg [simp]: "0 \<le> run_overrun ops st"
  by (induction ops arbitrary: st) (auto intro: add_nonneg_nonneg)

lemma finish_reserve_budget:
  assumes "within_budget slack st" and "cl_row st = Some row" and "0 \<le> slack"
  shows "within_budget slack (snd (finish_reserve row resuming estimate i now st))"
proof (cases "reserve_verdict row resuming estimate")
  case (Reserved rem)
  then show ?thesis
    using assms(3) reserve_verdict_Reserved(1) [OF Reserved]
    by (auto simp: finish_reserve_def within_budget_def count_row_def)
qed (use assms(1) in \<open>simp_all add: finish_reserve_def\<close>)

lemma release_budget:
  assumes "within_budget slack st" and "cl_row st = Some row" and "0 \<le> r_reserved existing"
    and "0 \<le> l_reserved row"
  shows "within_budget slack (st\<lparr>cl_row := Some (release_row existing row), cl_results := rs\<rparr>)"
  using assms by (auto simp: within_budget_def release_row_def)

lemma ledger_wf_nonneg:
  assumes "ledger_wf st"
  shows "find_row r_request_id i (cl_results st) = Some p \<Longrightarrow> 0 \<le> r_reserved p"
    and "cl_row st = Some row \<Longrightarrow> 0 \<le> l_reserved row"
  using assms
  by (auto simp: ledger_wf_def result_wf_def dest: find_row_Some intro!: sum_list_nonneg)

lemma sum_le_row:
  assumes "ledger_wf st" and "cl_row st = Some row"
    and p: "find_row r_request_id i (cl_results st) = Some p"
  shows "r_reserved p \<le> l_reserved row"
proof -
  have "0 \<le> sum_list (map r_reserved (sql_delete (\<lambda>r. r_request_id r = i) (cl_results st)))"
    using assms(1) by (auto simp: ledger_wf_def result_wf_def intro!: sum_list_nonneg)
  then show ?thesis
    using assms sum_delete_row [OF _ p, of r_reserved] by (simp add: ledger_wf_def)
qed

lemma open_ledger_budget:
  "within_budget slack st \<Longrightarrow> 0 \<le> slack \<Longrightarrow> within_budget slack (open_ledger args now st)"
  by (auto simp: open_ledger_def within_budget_def new_ledger_row_def)

lemma ledger_reserve_budget:
  assumes "ledger_wf st" and "within_budget slack st" and "0 \<le> slack"
  shows "within_budget slack (snd (ledger_reserve args now st))"
  unfolding ledger_reserve_def Let_def
  using assms open_ledger_wf [OF assms(1), of args now]
  by (auto simp: open_ledger_budget intro!: finish_reserve_budget release_budget
      intro: ledger_wf_nonneg split: option.splits)

lemma ledger_settle_budget:
  assumes wf: "ledger_wf st" and bud: "within_budget slack st"
  shows "within_budget (slack + op_overrun st (OpSettle args)) (snd (ledger_settle args st))"
proof (cases "cl_row st"; cases "find_row r_request_id (sa_requestId args) (cl_results st)")
  fix row p
  assume row: "cl_row st = Some row"
    and p: "find_row r_request_id (sa_requestId args) (cl_results st) = Some p"
  show ?thesis
    using bud ledger_wf_nonneg(1) [OF wf p] ledger_wf_nonneg(2) [OF wf row] row p
      sum_le_row [OF wf row p]
    by (auto simp: ledger_settle_def Let_def within_budget_def charge_row_def)
qed (use bud in \<open>simp_all add: ledger_settle_def within_budget_def\<close>)

lemma empty_ledger_budget: "within_budget 0 empty_ledger"
  by (simp add: within_budget_def empty_ledger_def)

lemma ledger_run_budget:
  assumes "ledger_wf st" and "within_budget slack st" and "0 \<le> slack"
  shows "within_budget (slack + run_overrun ops st) (ledger_run ops st)"
  using assms
proof (induction ops arbitrary: st slack)
  case (Cons op ops)
  have "within_budget (slack + op_overrun st op) (ledger_step op st)"
  proof (cases op)
    case OpAlarm
    then show ?thesis by (simp add: ledger_alarm_def within_budget_def empty_ledger_def)
  qed (use Cons.prems ledger_reserve_budget ledger_settle_budget in simp_all)
  then have "within_budget (slack + op_overrun st op + run_overrun ops (ledger_step op st))
      (ledger_run ops (ledger_step op st))"
    using Cons.prems by (intro Cons.IH ledger_step_wf) (auto intro: add_nonneg_nonneg)
  then show ?case by (simp add: add.assoc)
qed simp

subsection \<open>Settled results\<close>

text \<open>
  The replay contract both ledgers offer their callers: once an answer is settled under a key, every
  operation except expiry keeps it, and asking again gives it back.
\<close>

locale replay_store =
  fixes step :: "'op \<Rightarrow> 'st \<Rightarrow> 'st"
    and keeps :: "'op \<Rightarrow> bool"
    and holds :: "'k \<Rightarrow> 'v \<Rightarrow> 'st \<Rightarrow> bool"
    and ask :: "'k \<Rightarrow> 'st \<Rightarrow> 'v option \<times> 'st"
  assumes holds_step: "holds k v st \<Longrightarrow> keeps op \<Longrightarrow> holds k v (step op st)"
    and holds_ask: "holds k v st \<Longrightarrow> ask k st = (Some v, st)"
begin

lemma holds_fold: "holds k v st \<Longrightarrow> list_all keeps ops \<Longrightarrow> holds k v (fold step ops st)"
  by (induction ops arbitrary: st) (auto intro: holds_step)

lemma ask_stable:
  "holds k v st \<Longrightarrow> list_all keeps ops \<Longrightarrow> ask k (fold step ops st) = (Some v, fold step ops st)"
  by (simp add: holds_ask holds_fold)

end

definition settled :: "string \<Rightarrow> int \<Rightarrow> string \<Rightarrow> cap_ledger \<Rightarrow> bool" where
  "settled i status body st \<longleftrightarrow> cl_row st \<noteq> None \<and>
     (\<exists>r. find_row r_request_id i (cl_results st) = Some r \<and> r_status r = status \<and> 0 < status \<and>
        r_body r = Some body)"

lemma settled_reserve: "settled (ra_requestId args) status body st \<Longrightarrow>
  ledger_reserve args now st = (Replay status body, st)"
  by (auto simp: settled_def ledger_reserve_def open_ledger_def Let_def)

lemma finish_reserve_settled:
  "settled i status body st \<Longrightarrow>
   settled i status body (snd (finish_reserve row resuming estimate j now st))"
  by (auto simp: finish_reserve_def settled_def find_row_append split: reserve_result.split)

lemma settled_step:
  assumes "settled i status body st" and "op \<noteq> OpAlarm"
  shows "settled i status body (ledger_step op st)"
proof (cases op)
  case (OpReserve args now)
  show ?thesis
  proof (cases "ra_requestId args = i")
    case True
    then show ?thesis using settled_reserve assms by (simp add: OpReserve)
  next
    case False
    then have "settled i status body (st\<lparr>cl_row := Some row,
        cl_results := sql_delete (\<lambda>r. r_request_id r = ra_requestId args) (cl_results st)\<rparr>)" for row
      using assms(1) by (auto simp: settled_def find_row_delete_other)
    then show ?thesis
      using assms(1)
      by (auto simp: OpReserve ledger_reserve_def Let_def open_ledger_def finish_reserve_settled
          settled_def [of _ _ _ st] split: option.split)
  qed
next
  case (OpSettle args)
  show ?thesis
  proof (cases "sa_requestId args = i")
    case True
    then show ?thesis using assms(1) by (auto simp: OpSettle ledger_settle_def settled_def)
  next
    case False
    then show ?thesis using assms(1)
      by (auto simp: OpSettle ledger_settle_def settled_def Let_def store_result_def settled_row_def
          find_row_update find_row_delete_other split: option.split)
  qed
qed (use assms in simp)

definition replay_of :: "reserve_result \<times> 's \<Rightarrow> (int \<times> string) option \<times> 's" where
  "replay_of x = (case x of (Replay status body, st) \<Rightarrow> (Some (status, body), st) | (_, st) \<Rightarrow> (None, st))"

lemma replay_of_Some [simp]: "replay_of x = (Some (status, body), st) \<longleftrightarrow> x = (Replay status body, st)"
  by (auto simp: replay_of_def split: prod.splits reserve_result.splits)

interpretation cap_replay: replay_store ledger_step "\<lambda>op. op \<noteq> OpAlarm"
  "\<lambda>i v. settled i (fst v) (snd v)"
  "\<lambda>i st. replay_of (ledger_reserve (base\<lparr>ra_requestId := i\<rparr>) now st)"
  for base :: reserve_args and now :: ms
proof unfold_locales
  fix i v st
  assume "settled i (fst v) (snd v) st"
  then show "replay_of (ledger_reserve (base\<lparr>ra_requestId := i\<rparr>) now st) = (Some v, st)"
    using settled_reserve [of "base\<lparr>ra_requestId := i\<rparr>" "fst v" "snd v" st now]
    by (simp add: replay_of_def)
qed (simp add: settled_step)

lemma ledger_run_fold: "ledger_run ops st = fold ledger_step ops st"
  by (induction ops arbitrary: st) simp_all

lemma ledger_settle_settled:
  assumes "ledger_settle args st = (res, st')" and "sr_cached res"
  shows "\<exists>status body. sa_result args = Some (status, body) \<and>
    settled (sa_requestId args) status body st'"
  using assms
  by (auto simp: ledger_settle_def Let_def cacheable_result_def store_result_def settled_def
      settled_row_def find_row_update split: option.splits if_splits)

subsection \<open>Properties\<close>

text \<open>
  in every state a capability ledger can reach, the reserved amount is exactly the sum of the
  reservations of the requests in flight, settled results hold no reservation, request ids are
  distinct, and the request count never passes the capability's ceiling.
\<close>

lemma ledger_reachable_wf: "ledger_wf (ledger_run ops empty_ledger)"
  by (rule ledger_run_wf) simp

text \<open>
  C10: a capability with a ceiling never commits more than its budget: spent plus reserved stays
  within the budget, up to what settlements charged beyond their own reservations.
\<close>

theorem ledger_budget_bound:
  assumes "cl_row (ledger_run ops empty_ledger) = Some row" and "0 \<le> l_budget row"
  shows "l_spent row + l_reserved row \<le> l_budget row + run_overrun ops empty_ledger"
  using assms ledger_run_budget [of empty_ledger 0 ops] empty_ledger_budget
  by (simp add: within_budget_def)

definition sample_reserve :: reserve_args where
  "sample_reserve = \<lparr>ra_jti = ''cap'', ra_budgetMicroCents = 100, ra_maxRequests = Some 2,
     ra_expiresAt = 5000, ra_requestId = ''r1'', ra_estimatedMicroCents = Fin 60\<rparr>"

theorem ledger_budget_bound_witness:
  "cl_row (ledger_run [OpReserve sample_reserve 0,
       OpReserve (sample_reserve\<lparr>ra_requestId := ''r2''\<rparr>) 1] empty_ledger) =
     Some \<lparr>l_jti = ''cap'', l_budget = 100, l_spent = 0, l_reserved = 60, l_requests = 1,
       l_max_requests = Some 2, l_expires_at = 5000\<rparr> \<and> (0::int) + 60 \<le> 100 + 0"
proof -
  let ?ops = "[OpReserve sample_reserve 0,
     OpReserve (sample_reserve\<lparr>ra_requestId := ''r2''\<rparr>) 1]"
  have row: "cl_row (ledger_run ?ops empty_ledger) =
     Some \<lparr>l_jti = ''cap'', l_budget = 100, l_spent = 0, l_reserved = 60, l_requests = 1,
       l_max_requests = Some 2, l_expires_at = 5000\<rparr>"
    by (simp add: ledger_defs sample_reserve_def empty_ledger_def new_ledger_row_def
        clampMicroCents_def reserve_verdict_def count_row_def pending_row_def find_row_Cons
        gateway_constants)
  show ?thesis using row ledger_budget_bound [OF row] by simp
qed

text \<open>
  once a result is settled and cached, then whatever reservations and settlements follow, until
  the ledger expires, a retry with the same request id replays exactly that result and changes
  nothing.
\<close>

lemma ledger_replay_stable:
  assumes "ledger_settle args st = (res, st')" and "sr_cached res" and "OpAlarm \<notin> set ops"
    and "ra_requestId retry = sa_requestId args"
  shows "\<exists>status body. sa_result args = Some (status, body) \<and>
    ledger_reserve retry now (ledger_run ops st') = (Replay status body, ledger_run ops st')"
proof -
  obtain status body where res: "sa_result args = Some (status, body)"
    and set: "settled (sa_requestId args) status body st'"
    using ledger_settle_settled [OF assms(1,2)] by blast
  have retry: "retry\<lparr>ra_requestId := sa_requestId args\<rparr> = retry" using assms(4) by simp
  have "list_all (\<lambda>op. op \<noteq> OpAlarm) ops" using assms(3) by (auto simp: list_all_iff)
  then have "replay_of (ledger_reserve retry now (ledger_run ops st')) =
      (Some (status, body), ledger_run ops st')"
    using cap_replay.ask_stable [of "sa_requestId args" "(status, body)" st' ops retry now] set retry
    by (simp add: ledger_run_fold)
  then show ?thesis using res by simp
qed

definition sample_settle :: settle_args where
  "sample_settle = \<lparr>sa_requestId = ''r1'', sa_chargedMicroCents = Fin 40,
     sa_refundRequest = False, sa_result = Some (200, ''ok'')\<rparr>"

end
