(* ===== verification/Owner_Ledger.thy ===== *)
theory Owner_Ledger
  imports Capability_Ledger
begin

text \<open>
  The owner-shared ledger \<open>workers/model-gateway/src/owner-ledger-store.ts\<close>: one SQLite store per
  owner, with the same budget and result rows as the capability ledger but keyed by capability id.
  \<open>ledger_of jti\<close> reads one capability's rows out of it; each operation is shown to do on those
  rows exactly what the single-capability ledger does, and to leave every other capability alone.
\<close>

record owner_ledger =
  ol_ledger :: "ledger_row list"
  ol_results :: "(string \<times> result_row) list"
  ol_alarmAt :: "ms option"
  ol_alarm :: "ms option"

definition empty_owner_ledger :: owner_ledger where
  "empty_owner_ledger = \<lparr>ol_ledger = [], ol_results = [], ol_alarmAt = None, ol_alarm = None\<rparr>"

abbreviation result_key :: "string \<times> result_row \<Rightarrow> string \<times> string" where
  "result_key x \<equiv> (fst x, r_request_id (snd x))"

definition ownerFinishReserve ::
  "ledger_row \<Rightarrow> bool \<Rightarrow> int \<Rightarrow> reserve_args \<Rightarrow> ms \<Rightarrow> owner_ledger \<Rightarrow> reserve_result \<times> owner_ledger"
  where
  "ownerFinishReserve row resumingAbandoned estimate args now st =
     (case reserve_verdict row resumingAbandoned estimate of
        Reserved remaining \<Rightarrow>
          (Reserved remaining,
           st\<lparr>ol_results := ol_results st @
                [(ra_jti args, pending_row (ra_requestId args) estimate now)],
              ol_ledger := sql_update (\<lambda>r. l_jti r = ra_jti args)
                             (count_row estimate resumingAbandoned) (ol_ledger st)\<rparr>)
      | refused \<Rightarrow> (refused, st))"

definition ownerOpenLedger :: "reserve_args \<Rightarrow> owner_ledger \<Rightarrow> owner_ledger" where
  "ownerOpenLedger args st =
     (if find_row l_jti (ra_jti args) (ol_ledger st) \<noteq> None then st
      else st\<lparr>ol_ledger := ol_ledger st @ [new_ledger_row args]\<rparr>)"

definition ownerReserveSync ::
  "reserve_args \<Rightarrow> ms \<Rightarrow> owner_ledger \<Rightarrow> reserve_result \<times> owner_ledger" where
  "ownerReserveSync args now st0 =
     (let estimate = clampMicroCents (ra_estimatedMicroCents args);
          row = coalesce (find_row l_jti (ra_jti args) (ol_ledger st0)) (new_ledger_row args);
          st = ownerOpenLedger args st0
      in case find_row result_key (ra_jti args, ra_requestId args) (ol_results st) of
           None \<Rightarrow> ownerFinishReserve row False estimate args now st
         | Some (_, existing) \<Rightarrow>
             (case (if r_status existing > 0 then r_body existing else None) of
                Some body \<Rightarrow> (Replay (r_status existing) body, st)
              | None \<Rightarrow>
                  if now - r_created_at existing \<le> IN_FLIGHT_ABANDON_AFTER_MS then (InFlight, st)
                  else
                    let st' = st\<lparr>ol_ledger := sql_update (\<lambda>r. l_jti r = ra_jti args)
                                                (release_row existing) (ol_ledger st),
                                 ol_results := sql_delete
                                   (\<lambda>x. fst x = ra_jti args \<and> r_request_id (snd x) = ra_requestId args)
                                   (ol_results st)\<rparr>
                    in ownerFinishReserve (release_row existing row) True estimate args now st'))"

definition ownerStoreResult ::
  "string \<Rightarrow> string \<Rightarrow> (int \<times> string) option \<Rightarrow> (string \<times> result_row) list \<Rightarrow>
   (string \<times> result_row) list" where
  "ownerStoreResult jti requestId cached results =
     (case cached of
        Some (status, body) \<Rightarrow>
          sql_update (\<lambda>x. fst x = jti \<and> r_request_id (snd x) = requestId)
            (\<lambda>x. (fst x, settled_row status body (snd x))) results
      | None \<Rightarrow> sql_delete (\<lambda>x. fst x = jti \<and> r_request_id (snd x) = requestId) results)"

definition ownerSettle ::
  "string \<Rightarrow> settle_args \<Rightarrow> owner_ledger \<Rightarrow> settle_result \<times> owner_ledger" where
  "ownerSettle jti args st =
     (case (find_row l_jti jti (ol_ledger st),
            find_row result_key (jti, sa_requestId args) (ol_results st)) of
        (Some row, Some (_, pending)) \<Rightarrow>
          if r_status pending > 0
          then (\<lparr>sr_ok = False, sr_spentMicroCents = l_spent row,
                 sr_reservedMicroCents = l_reserved row, sr_cached = False\<rparr>, st)
          else
            let charged = clampMicroCents (sa_chargedMicroCents args);
                charge = charge_row pending charged (sa_refundRequest args);
                cached = cacheable_result (sa_result args)
            in (\<lparr>sr_ok = True, sr_spentMicroCents = l_spent (charge row),
                 sr_reservedMicroCents = l_reserved (charge row), sr_cached = (cached \<noteq> None)\<rparr>,
                st\<lparr>ol_ledger := sql_update (\<lambda>r. l_jti r = jti) charge (ol_ledger st),
                   ol_results := ownerStoreResult jti (sa_requestId args) cached (ol_results st)\<rparr>)
      | (row, _) \<Rightarrow>
          (\<lparr>sr_ok = False, sr_spentMicroCents = (case row of None \<Rightarrow> 0 | Some r \<Rightarrow> l_spent r),
            sr_reservedMicroCents = (case row of None \<Rightarrow> 0 | Some r \<Rightarrow> l_reserved r),
            sr_cached = False\<rparr>, st))"

definition ownerArmAlarm :: "ms \<Rightarrow> owner_ledger \<Rightarrow> owner_ledger" where
  "ownerArmAlarm now st =
     (case sql_min (map l_expires_at (ol_ledger st)) of
        None \<Rightarrow> st
      | Some m \<Rightarrow>
          let nxt = m + GATEWAY_RESULT_CACHE_TTL_MS in
          if ol_alarmAt st = None \<or> nxt < the (ol_alarmAt st)
          then let due = max (now + 1000) nxt in st\<lparr>ol_alarm := Some due, ol_alarmAt := Some due\<rparr>
          else st)"

definition ownerAlarm :: "ms \<Rightarrow> owner_ledger \<Rightarrow> owner_ledger" where
  "ownerAlarm now st =
     (let cutoff = now - GATEWAY_RESULT_CACHE_TTL_MS;
          expired = map l_jti (filter (\<lambda>r. l_expires_at r \<le> cutoff) (ol_ledger st))
      in ownerArmAlarm now
           (st\<lparr>ol_results := sql_delete (\<lambda>x. fst x \<in> set expired) (ol_results st),
               ol_ledger := sql_delete (\<lambda>r. l_expires_at r \<le> cutoff) (ol_ledger st),
               ol_alarmAt := None\<rparr>))"

text \<open>One capability's view of the store.\<close>

definition ledger_of :: "string \<Rightarrow> owner_ledger \<Rightarrow> ledger_row option \<times> result_row list" where
  "ledger_of jti st =
     (find_row l_jti jti (ol_ledger st), map snd (filter (\<lambda>x. fst x = jti) (ol_results st)))"

definition ledger_core :: "cap_ledger \<Rightarrow> ledger_row option \<times> result_row list" where
  "ledger_core st = (cl_row st, cl_results st)"

definition as_cap_ledger :: "string \<Rightarrow> owner_ledger \<Rightarrow> cap_ledger" where
  "as_cap_ledger jti st =
     \<lparr>cl_row = fst (ledger_of jti st), cl_results = snd (ledger_of jti st), cl_alarm = None\<rparr>"

definition owner_ledger_wf :: "owner_ledger \<Rightarrow> bool" where
  "owner_ledger_wf st \<longleftrightarrow>
     distinct (map l_jti (ol_ledger st)) \<and> (\<forall>jti. ledger_wf (as_cap_ledger jti st))"

datatype owner_ledger_op = OReserve reserve_args ms | OSettle string settle_args | OAlarm ms

fun owner_ledger_step :: "owner_ledger_op \<Rightarrow> owner_ledger \<Rightarrow> owner_ledger" where
  "owner_ledger_step (OReserve args now) st = ownerArmAlarm now (snd (ownerReserveSync args now st))"
| "owner_ledger_step (OSettle jti args) st = snd (ownerSettle jti args st)"
| "owner_ledger_step (OAlarm now) st = ownerAlarm now st"

subsection \<open>Reading one capability's rows\<close>

lemma key_kept [simp]:
  "l_jti (count_row e b r) = l_jti r" "l_jti (release_row x r) = l_jti r"
  "l_jti (charge_row p c f r) = l_jti r" "l_jti (new_ledger_row args) = ra_jti args"
  "r_request_id (settled_row s t x) = r_request_id x"
  "r_request_id (pending_row i e now) = i"
  by (simp_all add: count_row_def release_row_def charge_row_def new_ledger_row_def
      settled_row_def pending_row_def)

lemma find_result:
  "map_option snd (find_row result_key (jti, i) results) =
   find_row r_request_id i (map snd (filter (\<lambda>x. fst x = jti) results))"
  by (induction results) (auto simp: find_row_Cons)

lemma find_result_cases:
  "find_row result_key (jti, i) results = None \<Longrightarrow>
     find_row r_request_id i (map snd (filter (\<lambda>x. fst x = jti) results)) = None"
  "find_row result_key (jti, i) results = Some (j, r) \<Longrightarrow>
     find_row r_request_id i (map snd (filter (\<lambda>x. fst x = jti) results)) = Some r"
  using find_result [of jti i results] by auto

lemma filter_delete_result:
  "map snd (filter (\<lambda>x. fst x = j) (sql_delete (\<lambda>x. fst x = jti \<and> r_request_id (snd x) = i) results)) =
   (if j = jti then sql_delete (\<lambda>r. r_request_id r = i) (map snd (filter (\<lambda>x. fst x = jti) results))
    else map snd (filter (\<lambda>x. fst x = j) results))"
  by (induction results) (auto simp: table_simps)

lemma filter_store_result:
  "map snd (filter (\<lambda>x. fst x = j) (ownerStoreResult jti i c results)) =
   (if j = jti then store_result i c (map snd (filter (\<lambda>x. fst x = jti) results))
    else map snd (filter (\<lambda>x. fst x = j) results))"
proof (cases c)
  case None
  then show ?thesis using filter_delete_result [of j jti i results]
    by (simp add: ownerStoreResult_def store_result_def)
next
  case (Some p)
  then show ?thesis
    by (cases p, induction results) (auto simp: ownerStoreResult_def store_result_def table_simps)
qed

lemmas ledger_of_simps = ledger_of_def find_row_update find_row_append filter_delete_result
  filter_store_result find_row_Cons

lemma ownerOpenLedger_of:
  "ledger_of j (ownerOpenLedger args st) =
     (if j = ra_jti args
      then (Some (coalesce (fst (ledger_of j st)) (new_ledger_row args)), snd (ledger_of j st))
      else ledger_of j st)"
  by (auto simp: ownerOpenLedger_def ledger_of_simps split: option.splits)

lemma ownerFinishReserve_refines:
  assumes "fst (ledger_of (ra_jti args) st) = Some row"
    and "ledger_core cst = ledger_of (ra_jti args) st"
    and "ownerFinishReserve row resuming estimate args now st = (res, st')"
    and "finish_reserve row resuming estimate (ra_requestId args) now cst = (cres, cst')"
  shows "res = cres \<and> ledger_core cst' = ledger_of (ra_jti args) st' \<and>
    (\<forall>j. j \<noteq> ra_jti args \<longrightarrow> ledger_of j st' = ledger_of j st)"
  using assms
  by (auto simp: ownerFinishReserve_def finish_reserve_def ledger_core_def ledger_of_simps
      split: reserve_result.splits option.splits)

lemma release_of:
  "fst (ledger_of jti st) = Some row \<Longrightarrow>
   ledger_of j (st\<lparr>ol_ledger := sql_update (\<lambda>r. l_jti r = jti) (release_row existing) (ol_ledger st),
     ol_results := sql_delete (\<lambda>x. fst x = jti \<and> r_request_id (snd x) = i) (ol_results st)\<rparr>) =
   (if j = jti then (Some (release_row existing row),
        sql_delete (\<lambda>r. r_request_id r = i) (snd (ledger_of jti st)))
    else ledger_of j st)"
  by (auto simp: ledger_of_simps)

lemma ownerReserve_refines:
  assumes "ownerReserveSync args now st = (res, st')"
    and "ledger_core cst = ledger_of (ra_jti args) st"
    and "ledger_reserve args now cst = (cres, cst')"
  shows "res = cres \<and> ledger_core cst' = ledger_of (ra_jti args) st' \<and>
    (\<forall>j. j \<noteq> ra_jti args \<longrightarrow> ledger_of j st' = ledger_of j st)"
proof -
  let ?jti = "ra_jti args"
  let ?row = "coalesce (cl_row cst) (new_ledger_row args)"
  define st1 where "st1 = ownerOpenLedger args st"
  define cst1 where "cst1 = open_ledger args now cst"
  have row: "find_row l_jti ?jti (ol_ledger st) = cl_row cst"
    using assms(2) by (simp add: ledger_core_def ledger_of_def)
  have core: "ledger_core cst1 = ledger_of ?jti st1"
    using assms(2) by (cases "ledger_of ?jti st")
      (auto simp: st1_def cst1_def ownerOpenLedger_of ledger_core_def open_ledger_def)
  have row1: "fst (ledger_of ?jti st1) = Some ?row"
    using core by (metis cst1_def fst_conv ledger_core_def open_ledger_row)
  have other: "\<forall>j. j \<noteq> ?jti \<longrightarrow> ledger_of j st1 = ledger_of j st"
    by (simp add: st1_def ownerOpenLedger_of)
  have find: "map_option snd (find_row result_key (?jti, ra_requestId args) (ol_results st1)) =
      find_row r_request_id (ra_requestId args) (cl_results cst1)"
    using core find_result [of ?jti "ra_requestId args" "ol_results st1"]
    by (simp add: ledger_core_def ledger_of_def)
  note eqs = ownerReserveSync_def ledger_reserve_def Let_def row
    st1_def [symmetric] cst1_def [symmetric]
  show ?thesis
  proof (cases "find_row result_key (?jti, ra_requestId args) (ol_results st1)")
    case None
    then show ?thesis
      using ownerFinishReserve_refines [OF row1 core] assms(1,3) find other by (simp add: eqs)
  next
    case (Some x)
    obtain j e where x: "x = (j, e)" by (cases x)
    let ?st2 = "st1\<lparr>ol_ledger := sql_update (\<lambda>r. l_jti r = ?jti) (release_row e) (ol_ledger st1),
       ol_results := sql_delete (\<lambda>x. fst x = ?jti \<and> r_request_id (snd x) = ra_requestId args) (ol_results st1)\<rparr>"
    let ?cst2 = "cst1\<lparr>cl_row := Some (release_row e ?row), cl_results :=
       sql_delete (\<lambda>r. r_request_id r = ra_requestId args) (cl_results cst1)\<rparr>"
    note rel = release_of [OF row1, where existing = e and i = "ra_requestId args"]
    have row2: "fst (ledger_of ?jti ?st2) = Some (release_row e ?row)"
      and core2: "ledger_core ?cst2 = ledger_of ?jti ?st2"
      and other2: "\<forall>j. j \<noteq> ?jti \<longrightarrow> ledger_of j ?st2 = ledger_of j st"
      using rel core other by (simp_all add: ledger_core_def) (metis snd_conv)
    show ?thesis
      using ownerFinishReserve_refines [OF row2 core2] assms(1,3) find other other2 core Some x
      by (simp add: eqs split: option.splits if_splits)
  qed
qed

lemma ownerSettle_refines:
  assumes "ownerSettle jti args st = (res, st')"
    and "ledger_core cst = ledger_of jti st"
    and "ledger_settle args cst = (cres, cst')"
  shows "res = cres \<and> ledger_core cst' = ledger_of jti st' \<and>
    (\<forall>j. j \<noteq> jti \<longrightarrow> ledger_of j st' = ledger_of j st)"
proof -
  have "cl_row cst = find_row l_jti jti (ol_ledger st)"
    and "cl_results cst = map snd (filter (\<lambda>x. fst x = jti) (ol_results st))"
    using assms(2) by (simp_all add: ledger_core_def ledger_of_def)
  then show ?thesis
    using assms(1,3) find_result_cases [of jti "sa_requestId args" "ol_results st"]
    by (auto simp: ownerSettle_def ledger_settle_def Let_def ledger_core_def ledger_of_simps
        split: option.splits if_splits)
qed

lemma as_cap_ledger_core: "ledger_core (as_cap_ledger jti st) = ledger_of jti st"
  by (simp add: ledger_core_def as_cap_ledger_def)

subsection \<open>Every capability's rows stay well formed\<close>

lemma ownerArmAlarm_of [simp]:
  "ledger_of j (ownerArmAlarm now st) = ledger_of j st"
  "as_cap_ledger j (ownerArmAlarm now st) = as_cap_ledger j st"
  "ol_ledger (ownerArmAlarm now st) = ol_ledger st"
  "ol_results (ownerArmAlarm now st) = ol_results st"
  by (auto simp: ownerArmAlarm_def ledger_of_def as_cap_ledger_def Let_def split: option.split)

lemma ledger_wf_core: "ledger_core a = ledger_core b \<Longrightarrow> ledger_wf a = ledger_wf b"
  by (simp add: ledger_core_def ledger_wf_def split: option.split)

lemma ledger_wf_of: "ledger_core cst = ledger_of j st \<Longrightarrow> ledger_wf (as_cap_ledger j st) = ledger_wf cst"
  by (rule ledger_wf_core) (simp add: as_cap_ledger_core)

lemma ownerFinishReserve_keys:
  "map l_jti (ol_ledger (snd (ownerFinishReserve row b e args now st))) = map l_jti (ol_ledger st)"
  by (simp add: ownerFinishReserve_def map_sql_update_key split: reserve_result.split)

lemma ownerReserve_distinct:
  "distinct (map l_jti (ol_ledger st)) \<Longrightarrow>
   distinct (map l_jti (ol_ledger (snd (ownerReserveSync args now st))))"
  by (auto simp: ownerReserveSync_def Let_def ownerFinishReserve_keys map_sql_update_key
      ownerOpenLedger_def find_row_None split: option.splits)

lemma ownerReserve_wf:
  assumes "owner_ledger_wf st"
  shows "owner_ledger_wf (snd (ownerReserveSync args now st))"
proof -
  obtain res st' where st': "ownerReserveSync args now st = (res, st')"
    by (cases "ownerReserveSync args now st")
  obtain cres cst where cst: "ledger_reserve args now (as_cap_ledger (ra_jti args) st) = (cres, cst)"
    by (cases "ledger_reserve args now (as_cap_ledger (ra_jti args) st)")
  note ref = ownerReserve_refines [OF st' as_cap_ledger_core cst]
  have "ledger_wf cst"
    using assms ledger_reserve_wf [of "as_cap_ledger (ra_jti args) st" args now] cst
    by (simp add: owner_ledger_wf_def)
  then have "ledger_wf (as_cap_ledger j st')" for j
    using assms ref ledger_wf_of [of cst j st']
    by (cases "j = ra_jti args") (auto simp: owner_ledger_wf_def as_cap_ledger_def)
  then show ?thesis
    using assms ownerReserve_distinct [of st args now] st' by (simp add: owner_ledger_wf_def)
qed

lemma ownerSettle_wf:
  assumes "owner_ledger_wf st"
  shows "owner_ledger_wf (snd (ownerSettle jti args st))"
proof -
  obtain res st' where st': "ownerSettle jti args st = (res, st')"
    by (cases "ownerSettle jti args st")
  obtain cres cst where cst: "ledger_settle args (as_cap_ledger jti st) = (cres, cst)"
    by (cases "ledger_settle args (as_cap_ledger jti st)")
  note ref = ownerSettle_refines [OF st' as_cap_ledger_core cst]
  have "ledger_wf cst"
    using assms ledger_settle_wf [of "as_cap_ledger jti st" args] cst
    by (simp add: owner_ledger_wf_def)
  then have "ledger_wf (as_cap_ledger j st')" for j
    using assms ref ledger_wf_of [of cst j st']
    by (cases "j = jti") (auto simp: owner_ledger_wf_def as_cap_ledger_def)
  moreover have "map l_jti (ol_ledger st') = map l_jti (ol_ledger st)"
    using st' by (auto simp: ownerSettle_def Let_def map_sql_update_key
        split: option.splits if_splits)
  ultimately show ?thesis using assms st' by (simp add: owner_ledger_wf_def)
qed

lemma find_row_delete_expired:
  "distinct (map l_jti t) \<Longrightarrow>
   find_row l_jti j (sql_delete (\<lambda>r. l_expires_at r \<le> k) t) =
     (case find_row l_jti j t of
        Some r \<Rightarrow> if l_expires_at r \<le> k then None else Some r | None \<Rightarrow> None)"
proof (induction t)
  case (Cons a t)
  have "l_jti a = j \<Longrightarrow> find_row l_jti j t = None"
    using Cons.prems by (auto simp: find_row_None image_iff)
  then show ?case using Cons by (auto simp: table_simps find_row_Cons split: option.split)
qed (simp add: table_simps)

lemma expired_iff:
  "distinct (map l_jti t) \<Longrightarrow>
   j \<in> l_jti ` {r \<in> set t. l_expires_at r \<le> k} \<longleftrightarrow>
     (\<exists>r. find_row l_jti j t = Some r \<and> l_expires_at r \<le> k)"
  by (auto dest: find_row_Some intro: find_row_distinct)

lemma ownerAlarm_of:
  assumes "owner_ledger_wf st"
  shows "ledger_of j (ownerAlarm now st) =
    (case fst (ledger_of j st) of
       Some row \<Rightarrow> if l_expires_at row \<le> now - GATEWAY_RESULT_CACHE_TTL_MS then (None, [])
                   else ledger_of j st
     | None \<Rightarrow> (None, []))"
proof -
  let ?k = "now - GATEWAY_RESULT_CACHE_TTL_MS"
  let ?expired = "l_jti ` {r \<in> set (ol_ledger st). l_expires_at r \<le> ?k}"
  have dist: "distinct (map l_jti (ol_ledger st))" using assms by (simp add: owner_ledger_wf_def)
  have none: "find_row l_jti j (ol_ledger st) = None \<Longrightarrow>
      map snd (filter (\<lambda>x. fst x = j) (ol_results st)) = []"
    using assms by (auto simp: owner_ledger_wf_def ledger_wf_def as_cap_ledger_def ledger_of_def
        dest!: spec [of _ j])
  have res: "filter (\<lambda>x. fst x = j) (sql_delete (\<lambda>x. fst x \<in> ?expired) (ol_results st)) =
      (if j \<in> ?expired then [] else filter (\<lambda>x. fst x = j) (ol_results st))"
    by (auto simp: sql_delete_def filter_empty_conv intro!: filter_cong)
  show ?thesis
    using none expired_iff [OF dist, of j ?k]
    by (auto simp: ownerAlarm_def Let_def ledger_of_def res find_row_delete_expired [OF dist]
        simp del: set_sql_delete split: option.splits)
qed

lemma ownerAlarm_wf:
  assumes "owner_ledger_wf st"
  shows "owner_ledger_wf (ownerAlarm now st)"
proof -
  have "ledger_wf (as_cap_ledger j (ownerAlarm now st))" for j
    using assms ownerAlarm_of [OF assms, of j now]
    by (auto simp: as_cap_ledger_def owner_ledger_wf_def ledger_wf_def split: option.splits)
  then show ?thesis
    using assms by (simp add: owner_ledger_wf_def ownerAlarm_def Let_def distinct_map_sql_delete)
qed

lemma ownerArmAlarm_wf: "owner_ledger_wf st \<Longrightarrow> owner_ledger_wf (ownerArmAlarm now st)"
  by (simp add: owner_ledger_wf_def)

lemma owner_ledger_step_wf: "owner_ledger_wf st \<Longrightarrow> owner_ledger_wf (owner_ledger_step op st)"
  by (cases op) (simp_all add: ownerReserve_wf ownerSettle_wf ownerAlarm_wf ownerArmAlarm_wf)

lemma empty_owner_ledger_wf: "owner_ledger_wf empty_owner_ledger"
  by (simp add: owner_ledger_wf_def empty_owner_ledger_def as_cap_ledger_def ledger_of_def
      ledger_wf_def)

subsection \<open>The replay contract\<close>

definition owner_settled :: "string \<times> string \<Rightarrow> int \<times> string \<Rightarrow> owner_ledger \<Rightarrow> bool" where
  "owner_settled k v st \<longleftrightarrow> settled (snd k) (fst v) (snd v) (as_cap_ledger (fst k) st)"

lemma settled_core: "ledger_core a = ledger_core b \<Longrightarrow> settled i s t a = settled i s t b"
  by (simp add: ledger_core_def settled_def)

lemma owner_settled_reserve:
  assumes "owner_settled (ra_jti args, ra_requestId args) v st"
  shows "ownerReserveSync args now st = (Replay (fst v) (snd v), st)"
proof -
  obtain row where row: "find_row l_jti (ra_jti args) (ol_ledger st) = Some row"
    using assms by (auto simp: owner_settled_def settled_def as_cap_ledger_def ledger_of_def)
  obtain r where r: "find_row r_request_id (ra_requestId args)
      (map snd (filter (\<lambda>x. fst x = ra_jti args) (ol_results st))) = Some r"
    and rs: "r_status r = fst v" "0 < fst v" "r_body r = Some (snd v)"
    using assms by (auto simp: owner_settled_def settled_def as_cap_ledger_def ledger_of_def)
  obtain j where "find_row result_key (ra_jti args, ra_requestId args) (ol_results st) = Some (j, r)"
    using r find_result [of "ra_jti args" "ra_requestId args" "ol_results st"] by auto
  then show ?thesis using row rs by (simp add: ownerReserveSync_def ownerOpenLedger_def)
qed

lemma owner_settled_step:
  assumes set: "owner_settled k v st" and "\<forall>now. op \<noteq> OAlarm now"
  shows "owner_settled k v (owner_ledger_step op st)"
proof (cases op)
  case (OReserve args now)
  obtain res st' where st': "ownerReserveSync args now st = (res, st')"
    by (cases "ownerReserveSync args now st")
  obtain cres cst where cst: "ledger_reserve args now (as_cap_ledger (ra_jti args) st) = (cres, cst)"
    by (cases "ledger_reserve args now (as_cap_ledger (ra_jti args) st)")
  note ref = ownerReserve_refines [OF st' as_cap_ledger_core cst]
  have "owner_settled k v st'"
  proof (cases "fst k = ra_jti args")
    case True
    then have "settled (snd k) (fst v) (snd v) cst"
      using set settled_step [of _ _ _ _ "OpReserve args now"] cst
      by (fastforce simp: owner_settled_def)
    then show ?thesis
      using ref True settled_core [of "as_cap_ledger (fst k) st'" cst]
      by (simp add: owner_settled_def as_cap_ledger_core)
  qed (use set ref in \<open>simp add: owner_settled_def as_cap_ledger_def\<close>)
  then show ?thesis using OReserve st' by (simp add: owner_settled_def)
next
  case (OSettle jti args)
  obtain res st' where st': "ownerSettle jti args st = (res, st')"
    by (cases "ownerSettle jti args st")
  obtain cres cst where cst: "ledger_settle args (as_cap_ledger jti st) = (cres, cst)"
    by (cases "ledger_settle args (as_cap_ledger jti st)")
  note ref = ownerSettle_refines [OF st' as_cap_ledger_core cst]
  have "owner_settled k v st'"
  proof (cases "fst k = jti")
    case True
    then have "settled (snd k) (fst v) (snd v) cst"
      using set settled_step [of _ _ _ _ "OpSettle args"] cst
      by (fastforce simp: owner_settled_def)
    then show ?thesis
      using ref True settled_core [of "as_cap_ledger (fst k) st'" cst]
      by (simp add: owner_settled_def as_cap_ledger_core)
  qed (use set ref in \<open>simp add: owner_settled_def as_cap_ledger_def\<close>)
  then show ?thesis using OSettle st' by simp
qed (use assms in simp)

interpretation owner_replay: replay_store owner_ledger_step "\<lambda>op. \<forall>now. op \<noteq> OAlarm now"
  owner_settled
  "\<lambda>k st. replay_of (ownerReserveSync (base\<lparr>ra_jti := fst k, ra_requestId := snd k\<rparr>) now st)"
  for base :: reserve_args and now :: ms
proof unfold_locales
  fix k v st
  assume "owner_settled k v st"
  then show "replay_of (ownerReserveSync (base\<lparr>ra_jti := fst k, ra_requestId := snd k\<rparr>) now st) =
      (Some v, st)"
    using owner_settled_reserve [of "base\<lparr>ra_jti := fst k, ra_requestId := snd k\<rparr>" v st now]
    by (simp add: replay_of_def)
qed (rule owner_settled_step)

subsection \<open>Properties\<close>

text \<open>
  C12: a reservation in the owner-shared ledger answers exactly as the single-capability ledger would
  on that capability's rows, leaves those rows as it would, and touches no other capability.
\<close>

theorem owner_reserve_refines_capability_ledger:
  "fst (ownerReserveSync args now st) =
     fst (ledger_reserve args now (as_cap_ledger (ra_jti args) st)) \<and>
   ledger_of (ra_jti args) (snd (ownerReserveSync args now st)) =
     ledger_core (snd (ledger_reserve args now (as_cap_ledger (ra_jti args) st))) \<and>
   {j. ledger_of j (snd (ownerReserveSync args now st)) \<noteq> ledger_of j st} \<subseteq> {ra_jti args}"
  using ownerReserve_refines [OF prod.collapse [symmetric] as_cap_ledger_core
      prod.collapse [symmetric], of args now st]
  by (elim conjE) (intro conjI, simp_all, blast)

text \<open>the same for a settlement.\<close>

lemma owner_settle_refines_capability_ledger:
  "fst (ownerSettle jti args st) = fst (ledger_settle args (as_cap_ledger jti st)) \<and>
   ledger_of jti (snd (ownerSettle jti args st)) =
     ledger_core (snd (ledger_settle args (as_cap_ledger jti st))) \<and>
   {j. ledger_of j (snd (ownerSettle jti args st)) \<noteq> ledger_of j st} \<subseteq> {jti}"
  using ownerSettle_refines [OF prod.collapse [symmetric] as_cap_ledger_core
      prod.collapse [symmetric], of jti args st]
  by (elim conjE) (intro conjI, simp_all, blast)

lemma owner_ledger_fold_wf:
  "owner_ledger_wf st \<Longrightarrow> owner_ledger_wf (fold owner_ledger_step ops st)"
  by (induction ops arbitrary: st) (simp_all add: owner_ledger_step_wf)

text \<open>
  in every state the owner-shared ledger can reach, capability ids are distinct and the rows of
  every capability satisfy the single-capability invariant.
\<close>

lemma owner_ledger_reachable_wf:
  "owner_ledger_wf (fold owner_ledger_step ops empty_owner_ledger)"
  by (rule owner_ledger_fold_wf) (rule empty_owner_ledger_wf)

text \<open>
  the alarm deletes the ledger row and all results of exactly the capabilities that expired a
  replay window ago, and keeps every other capability as it was.
\<close>

lemma owner_alarm_expires:
  "ledger_of j (ownerAlarm now (fold owner_ledger_step ops empty_owner_ledger)) =
    (case fst (ledger_of j (fold owner_ledger_step ops empty_owner_ledger)) of
       Some row \<Rightarrow>
         if l_expires_at row \<le> now - GATEWAY_RESULT_CACHE_TTL_MS then (None, [])
         else ledger_of j (fold owner_ledger_step ops empty_owner_ledger)
     | None \<Rightarrow> (None, []))"
  by (rule ownerAlarm_of) (rule owner_ledger_fold_wf [OF empty_owner_ledger_wf])

end
