(* ===== verification/Tier_Budget.thy ===== *)
theory Tier_Budget
  imports Gateway_Limits
begin

text \<open>
  The spend breaker of one tier, \<open>workers/model-gateway/src/gates/tier-budget.ts\<close>: reserved
  micro-cents per minute bucket, an hourly and a daily ceiling over rolling windows of buckets, and
  the alert throttle of a tripped breaker. \<open>webhook\<close> says whether an alert URL is configured;
  posting itself is the flag \<open>tr_posted\<close> of the outcome.
\<close>

definition HOUR_MINUTES :: int where "HOUR_MINUTES = 60"
definition DAY_MINUTES :: int where "DAY_MINUTES = 24 * HOUR_MINUTES"
definition ALERT_INTERVAL_MS :: ms where "ALERT_INTERVAL_MS = 5 * MINUTE_MS"

datatype budget_window = Hourly | Daily

record tier_budget =
  tb_buckets :: "(int \<times> int) list"
  tb_alerts :: "(budget_window \<times> ms) list"

definition empty_tier_budget :: tier_budget where
  "empty_tier_budget = \<lparr>tb_buckets = [], tb_alerts = []\<rparr>"

datatype tier_result =
    TierOk int
  | TierRefused budget_window ms

record tier_outcome =
  tr_result :: tier_result
  tr_posted :: bool
  tr_state :: tier_budget

definition windowTotal :: "tier_budget \<Rightarrow> int \<Rightarrow> int \<Rightarrow> int" where
  "windowTotal st minute windowMinutes =
     coalesce (sql_sum (map snd
       (filter (\<lambda>b. fst b \<ge> minute - windowMinutes + 1 \<and> snd b > 0) (tb_buckets st)))) 0"

definition tierResetAt :: "tier_budget \<Rightarrow> int \<Rightarrow> int \<Rightarrow> ms" where
  "tierResetAt st minute windowMinutes =
     (coalesce (sql_min (map fst
        (filter (\<lambda>b. fst b \<ge> minute - windowMinutes + 1 \<and> snd b > 0) (tb_buckets st)))) minute
      + windowMinutes) * MINUTE_MS"

definition reportTrip ::
  "bool \<Rightarrow> budget_window \<Rightarrow> ms \<Rightarrow> tier_budget \<Rightarrow> bool \<times> tier_budget" where
  "reportTrip webhook w now st =
     (if \<not> webhook then (False, st)
      else
        case map_of (tb_alerts st) w of
          Some lastAt \<Rightarrow>
            if now - lastAt < ALERT_INTERVAL_MS then (False, st)
            else (True, st\<lparr>tb_alerts := map (\<lambda>a. if fst a = w then (w, now) else a) (tb_alerts st)\<rparr>)
        | None \<Rightarrow> (True, st\<lparr>tb_alerts := tb_alerts st @ [(w, now)]\<rparr>))"

definition addBucket :: "int \<Rightarrow> int \<Rightarrow> (int \<times> int) list \<Rightarrow> (int \<times> int) list" where
  "addBucket minute estimate buckets =
     (if minute \<in> fst ` set buckets
      then sql_update (\<lambda>b. fst b = minute) (\<lambda>b. (fst b, snd b + estimate)) buckets
      else buckets @ [(minute, estimate)])"

definition tierReserve ::
  "bool \<Rightarrow> jsnum \<Rightarrow> rat \<Rightarrow> rat \<Rightarrow> ms \<Rightarrow> tier_budget \<Rightarrow> tier_outcome" where
  "tierReserve webhook estimateMicroCents hourlyCeiling dailyCeiling now st0 =
     (let minute = now div MINUTE_MS;
          estimate = clampMicroCents estimateMicroCents;
          st = st0\<lparr>tb_buckets := sql_delete (\<lambda>b. fst b < minute - DAY_MINUTES + 1)
                                  (tb_buckets st0)\<rparr>;
          hourly = windowTotal st minute HOUR_MINUTES
      in if hourlyCeiling \<ge> 0 \<and> of_int (hourly + estimate) > hourlyCeiling
         then let trip = reportTrip webhook Hourly now st
              in \<lparr>tr_result = TierRefused Hourly (tierResetAt st minute HOUR_MINUTES),
                  tr_posted = fst trip, tr_state = snd trip\<rparr>
         else
           let daily = windowTotal st minute DAY_MINUTES
           in if dailyCeiling \<ge> 0 \<and> of_int (daily + estimate) > dailyCeiling
              then let trip = reportTrip webhook Daily now st
                   in \<lparr>tr_result = TierRefused Daily (tierResetAt st minute DAY_MINUTES),
                       tr_posted = fst trip, tr_state = snd trip\<rparr>
              else \<lparr>tr_result = TierOk minute, tr_posted = False,
                    tr_state = st\<lparr>tb_buckets := addBucket minute estimate (tb_buckets st)\<rparr>\<rparr>)"

definition tierSettle :: "jsnum \<Rightarrow> jsnum \<Rightarrow> rat \<Rightarrow> tier_budget \<Rightarrow> tier_budget" where
  "tierSettle estimateMicroCents actualMicroCents minute st =
     st\<lparr>tb_buckets := sql_update (\<lambda>b. fst b = \<lfloor>minute\<rfloor>)
          (\<lambda>b. (fst b, max 0 (snd b - clampMicroCents estimateMicroCents
                              + clampMicroCents actualMicroCents)))
          (tb_buckets st)\<rparr>"

definition tierSnapshot :: "tier_budget \<Rightarrow> (int \<times> int) list" where
  "tierSnapshot st = sort_key fst (tb_buckets st)"

definition tier_wf :: "tier_budget \<Rightarrow> bool" where
  "tier_wf st \<longleftrightarrow> distinct (map fst (tb_buckets st)) \<and> (\<forall>b \<in> set (tb_buckets st). 0 \<le> snd b)"

lemmas tier_constants = HOUR_MINUTES_def DAY_MINUTES_def ALERT_INTERVAL_MS_def gateway_constants

subsection \<open>Window totals\<close>

abbreviation in_span :: "int \<Rightarrow> int \<Rightarrow> int \<times> int \<Rightarrow> bool" where
  "in_span minute w b \<equiv> fst b \<ge> minute - w + 1"

lemma sum_positive:
  "(\<And>b. b \<in> set bs \<Longrightarrow> 0 \<le> snd b) \<Longrightarrow>
   sum_list (map snd (filter (\<lambda>b. p b \<and> (0::int) < snd b) bs)) = sum_list (map snd (filter p bs))"
  by (induction bs) (auto simp: le_less)

lemma windowTotal_sum:
  "tier_wf st \<Longrightarrow> windowTotal st minute w = sum_list (map snd (filter (in_span minute w) (tb_buckets st)))"
  unfolding windowTotal_def sql_sum_coalesce by (rule sum_positive) (simp add: tier_wf_def)

lemma sum_addBucket:
  "distinct (map fst bs) \<Longrightarrow>
   sum_list (map snd (filter (in_span minute w) (addBucket minute e bs))) =
   sum_list (map snd (filter (in_span minute w) bs)) + (if 1 \<le> w then e else 0)"
proof (induction bs)
  case Nil
  then show ?case by (simp add: addBucket_def)
next
  case (Cons b bs)
  then have IH: "sum_list (map snd (filter (in_span minute w) (addBucket minute e bs))) =
      sum_list (map snd (filter (in_span minute w) bs)) + (if 1 \<le> w then e else 0)" by simp
  show ?case
  proof (cases "fst b = minute")
    case True
    then have "sql_update (\<lambda>b. fst b = minute) (\<lambda>b. (fst b, snd b + e)) bs = bs"
      using Cons.prems by (intro sql_update_id) (auto simp: image_iff)
    then show ?thesis using True by (auto simp: addBucket_def table_simps)
  next
    case False
    then have "addBucket minute e (b # bs) = b # addBucket minute e bs"
      by (simp add: addBucket_def table_simps)
    then show ?thesis using IH by simp
  qed
qed

lemma addBucket_wf:
  assumes "distinct (map fst bs)" and "\<forall>b \<in> set bs. 0 \<le> snd b" and "0 \<le> e"
  shows "distinct (map fst (addBucket m e bs)) \<and> (\<forall>b \<in> set (addBucket m e bs). 0 \<le> snd b)"
  using assms by (auto simp: addBucket_def map_sql_update_key set_sql_update)

lemma prune_wf: "tier_wf st \<Longrightarrow> tier_wf (st\<lparr>tb_buckets := sql_delete p (tb_buckets st)\<rparr>)"
  by (auto simp: tier_wf_def distinct_map_sql_delete)

lemma prune_total:
  assumes "w \<le> DAY_MINUTES"
  shows "windowTotal (st\<lparr>tb_buckets := sql_delete (\<lambda>b. fst b < minute - DAY_MINUTES + 1)
      (tb_buckets st)\<rparr>) minute w = windowTotal st minute w"
proof -
  have "filter (\<lambda>b. fst b \<ge> minute - w + 1 \<and> snd b > 0)
      (sql_delete (\<lambda>b. fst b < minute - DAY_MINUTES + 1) (tb_buckets st)) =
    filter (\<lambda>b. fst b \<ge> minute - w + 1 \<and> snd b > 0) (tb_buckets st)"
    using assms by (auto simp: sql_delete_def intro!: filter_cong)
  then show ?thesis by (simp add: windowTotal_def)
qed

lemma reportTrip_buckets [simp]: "tb_buckets (snd (reportTrip webhook w now st)) = tb_buckets st"
  by (auto simp: reportTrip_def split: option.split)

lemma tier_wf_reportTrip [simp]: "tier_wf (snd (reportTrip webhook w now st)) = tier_wf st"
  by (simp add: tier_wf_def)

lemma addBucket_tier_wf:
  "tier_wf (st\<lparr>tb_buckets := bs\<rparr>) \<Longrightarrow> 0 \<le> e \<Longrightarrow> tier_wf (st\<lparr>tb_buckets := addBucket m e bs\<rparr>)"
  using addBucket_wf [of bs e m] by (simp add: tier_wf_def)

lemma tierReserve_wf: "tier_wf st \<Longrightarrow> tier_wf (tr_state (tierReserve wh e h d now st))"
  using prune_wf [of st] by (auto simp: tierReserve_def Let_def addBucket_tier_wf)

lemma tierSettle_wf: "tier_wf st \<Longrightarrow> tier_wf (tierSettle e a m st)"
  by (auto simp: tierSettle_def tier_wf_def map_sql_update_key set_sql_update)

lemma sql_min_fst_in:
  "sql_min (map fst (filter p bs)) = Some m \<Longrightarrow> \<exists>r. (m, r) \<in> set bs \<and> p (m, r)"
  by (force dest: sql_min_in)

lemma tierResetAt_future:
  assumes "1 \<le> w" and "minute = now div MINUTE_MS"
  shows "now < tierResetAt st minute w"
proof -
  let ?rows = "map fst (filter (\<lambda>b. in_span minute w b \<and> snd b > 0) (tb_buckets st))"
  have "minute - w + 1 \<le> coalesce (sql_min ?rows) minute"
    using assms(1) by (cases "sql_min ?rows") (auto dest: sql_min_in)
  then have "(minute + 1) * MINUTE_MS \<le> tierResetAt st minute w"
    unfolding tierResetAt_def by (intro mult_right_mono) (auto simp: gateway_constants)
  moreover have "now < (minute + 1) * MINUTE_MS"
    using assms(2) by (simp add: gateway_constants)
  ultimately show ?thesis by simp
qed

lemma tierResetAt_frees:
  assumes wf: "tier_wf st" and pos: "0 < windowTotal st minute w"
  shows "windowTotal st (tierResetAt st minute w div MINUTE_MS) w < windowTotal st minute w"
proof -
  let ?p = "\<lambda>b. in_span minute w b \<and> snd b > 0"
  let ?rows = "filter ?p (tb_buckets st)"
  have "?rows \<noteq> []" using pos by (auto simp: windowTotal_def sql_sum_def)
  then obtain m where m: "sql_min (map fst ?rows) = Some m"
    by (cases "sql_min (map fst ?rows)") auto
  obtain r where r: "(m, r) \<in> set (tb_buckets st)" "?p (m, r)"
    using sql_min_fst_in [OF m] by auto
  have later: "tierResetAt st minute w div MINUTE_MS = m + w"
    by (simp add: tierResetAt_def m gateway_constants)
  have "sum_list (map snd (filter (in_span (m + w) w) (tb_buckets st))) + snd (m, r) \<le>
      sum_list (map snd (filter (in_span minute w) (tb_buckets st)))"
    using r wf by (intro sum_filter_drop) (auto simp: tier_wf_def)
  then show ?thesis
    using r(2) unfolding windowTotal_sum [OF wf] later by simp
qed

subsection \<open>Properties\<close>

text \<open>
  a reservation the breaker accepts raises both rolling totals by exactly its clamped estimate,
  and leaves each within its ceiling (a negative ceiling means none).
\<close>

lemma tier_reserve_within_ceilings:
  assumes "tier_wf st"
    and "tr_result (tierReserve webhook est hourlyCeiling dailyCeiling now st) = TierOk minute"
  shows "minute = now div MINUTE_MS \<and>
    (let st' = tr_state (tierReserve webhook est hourlyCeiling dailyCeiling now st) in
     windowTotal st' minute HOUR_MINUTES = windowTotal st minute HOUR_MINUTES + clampMicroCents est \<and>
     windowTotal st' minute DAY_MINUTES = windowTotal st minute DAY_MINUTES + clampMicroCents est \<and>
     (hourlyCeiling < 0 \<or> of_int (windowTotal st' minute HOUR_MINUTES) \<le> hourlyCeiling) \<and>
     (dailyCeiling < 0 \<or> of_int (windowTotal st' minute DAY_MINUTES) \<le> dailyCeiling))"
proof -
  let ?st' = "tr_state (tierReserve webhook est hourlyCeiling dailyCeiling now st)"
  let ?m = "now div MINUTE_MS"
  let ?st1 = "st\<lparr>tb_buckets := sql_delete (\<lambda>b. fst b < ?m - DAY_MINUTES + 1) (tb_buckets st)\<rparr>"
  have wf1: "tier_wf ?st1" by (rule prune_wf [OF assms(1)])
  have wf': "tier_wf ?st'" by (rule tierReserve_wf [OF assms(1)])
  have m: "minute = ?m" and
    st': "?st' = ?st1\<lparr>tb_buckets := addBucket ?m (clampMicroCents est) (tb_buckets ?st1)\<rparr>" and
    lim: "hourlyCeiling < 0 \<or>
        of_int (windowTotal ?st1 ?m HOUR_MINUTES + clampMicroCents est) \<le> hourlyCeiling"
      "dailyCeiling < 0 \<or>
        of_int (windowTotal ?st1 ?m DAY_MINUTES + clampMicroCents est) \<le> dailyCeiling"
    using assms(2) by (auto simp: tierReserve_def Let_def not_le not_less split: if_splits)
  have tot: "windowTotal ?st' ?m w = windowTotal st ?m w + clampMicroCents est"
    if "1 \<le> w" "w \<le> DAY_MINUTES" for w
  proof -
    have "windowTotal ?st' ?m w = windowTotal ?st1 ?m w + clampMicroCents est"
      unfolding windowTotal_sum [OF wf'] windowTotal_sum [OF wf1]
      using wf1 that by (simp add: st' sum_addBucket tier_wf_def)
    then show ?thesis using prune_total [OF that(2)] by simp
  qed
  have w: "1 \<le> HOUR_MINUTES" "HOUR_MINUTES \<le> DAY_MINUTES" "1 \<le> DAY_MINUTES"
    by (simp_all add: tier_constants)
  show ?thesis
    using lim tot [OF w(1,2)] tot [OF w(3) order_refl] prune_total [OF w(2)] prune_total [OF order_refl]
    by (simp add: m Let_def)
qed

text \<open>
  when the hourly breaker refuses, the reset time it reports is in the future, and at that time
  the rolling hourly total is strictly smaller (when anything was reserved at all).
\<close>

lemma tier_refusal_reset_time:
  assumes "tier_wf st"
    and "tr_result (tierReserve webhook est hourlyCeiling dailyCeiling now st) = TierRefused Hourly r"
    and "0 < windowTotal st (now div MINUTE_MS) HOUR_MINUTES"
  shows "now < r \<and>
    windowTotal (tr_state (tierReserve webhook est hourlyCeiling dailyCeiling now st))
      (r div MINUTE_MS) HOUR_MINUTES < windowTotal st (now div MINUTE_MS) HOUR_MINUTES"
proof -
  let ?st' = "tr_state (tierReserve webhook est hourlyCeiling dailyCeiling now st)"
  let ?m = "now div MINUTE_MS"
  let ?st1 = "st\<lparr>tb_buckets := sql_delete (\<lambda>b. fst b < ?m - DAY_MINUTES + 1) (tb_buckets st)\<rparr>"
  have r: "r = tierResetAt ?st1 ?m HOUR_MINUTES" and b: "tb_buckets ?st' = tb_buckets ?st1"
    using assms(2) by (auto simp: tierReserve_def Let_def split: if_splits)
  have eq: "windowTotal ?st1 ?m HOUR_MINUTES = windowTotal st ?m HOUR_MINUTES"
    by (rule prune_total) (simp add: tier_constants)
  have "windowTotal ?st1 (r div MINUTE_MS) HOUR_MINUTES < windowTotal ?st1 ?m HOUR_MINUTES"
    unfolding r by (rule tierResetAt_frees [OF prune_wf [OF assms(1)]]) (use assms(3) eq in simp)
  moreover have "windowTotal ?st' k w = windowTotal ?st1 k w" for k w
    by (simp add: windowTotal_def b)
  ultimately show ?thesis
    using tierResetAt_future [of HOUR_MINUTES ?m now ?st1] r eq by (simp add: tier_constants)
qed

end
