(* ===== verification/Owner_Enforcement.thy ===== *)
theory Owner_Enforcement
  imports Gateway_Limits
begin

text \<open>
  Owner enforcement (suspension and throttling) at the model gateway:
  \<open>workers/model-gateway/src/owner-enforcement.ts\<close> and the enforcement half of
  \<open>gates/owner-relay-gate.ts\<close>. Records arrive as JSON, are ordered by \<open>updatedAt\<close>, and are
  bootstrapped once from the owner's object on cloud-builder. \<open>fetched\<close> is the answer of that remote
  call, \<open>None\<close> when it failed.
\<close>

datatype enforcement_status = StOk | StChallenged | StThrottled | StSuspended

definition DEFAULT_ENFORCEMENT_TTL_SECONDS :: int where
  "DEFAULT_ENFORCEMENT_TTL_SECONDS = 7 * 24 * 60 * 60"

definition OWNER_ENFORCEMENT_INITIALIZATION_VERSION :: int where
  "OWNER_ENFORCEMENT_INITIALIZATION_VERSION = 2"

abbreviation DEFAULT_TTL_MS :: rat where
  "DEFAULT_TTL_MS \<equiv> of_int (DEFAULT_ENFORCEMENT_TTL_SECONDS * 1000)"

record stored_enforcement =
  en_status :: enforcement_status
  en_until :: "rat option"
  en_updatedAt :: rat
  en_expiresAt :: "rat option"

record enforcement_admission =
  ea_suspended :: bool
  ea_throttled :: bool

subsection \<open>Reading JSON\<close>

definition js_get :: "(string \<times> json) list \<Rightarrow> string \<Rightarrow> json option" where
  "js_get obj key = map_of obj key"

definition isStatus :: "json option \<Rightarrow> enforcement_status option" where
  "isStatus v =
     (case v of
        Some (JStr s) \<Rightarrow>
          if s = ''ok'' then Some StOk
          else if s = ''challenged'' then Some StChallenged
          else if s = ''throttled'' then Some StThrottled
          else if s = ''suspended'' then Some StSuspended
          else None
      | _ \<Rightarrow> None)"

definition finiteNumber :: "json option \<Rightarrow> rat option" where
  "finiteNumber v = (case v of Some (JNum (Fin x)) \<Rightarrow> Some x | _ \<Rightarrow> None)"

text \<open>An optional number: \<open>None\<close> when it is present but not a finite number.\<close>

definition optionalNumber :: "json option \<Rightarrow> rat option option" where
  "optionalNumber v = (case v of None \<Rightarrow> Some None | Some _ \<Rightarrow> map_option Some (finiteNumber v))"

definition optionalReason :: "json option \<Rightarrow> bool" where
  "optionalReason v = (case v of None \<Rightarrow> True | Some (JStr _) \<Rightarrow> True | _ \<Rightarrow> False)"

definition normalizeStoredOwnerEnforcement :: "json \<Rightarrow> stored_enforcement option" where
  "normalizeStoredOwnerEnforcement value =
     (case value of
        JObj obj \<Rightarrow>
          (case (isStatus (js_get obj ''status''), finiteNumber (js_get obj ''updatedAt''),
                 optionalNumber (js_get obj ''until''),
                 optionalNumber (js_get obj ''expiresAt'')) of
             (Some status, Some updatedAt, Some until, Some expiresAt) \<Rightarrow>
               Some \<lparr>en_status = status, en_until = until, en_updatedAt = updatedAt,
                     en_expiresAt = expiresAt\<rparr>
           | _ \<Rightarrow> None)
      | _ \<Rightarrow> None)"

definition enforcementAdmissionForRecord ::
  "stored_enforcement option \<Rightarrow> rat \<Rightarrow> enforcement_admission" where
  "enforcementAdmissionForRecord stored now =
     (case stored of
        None \<Rightarrow> \<lparr>ea_suspended = False, ea_throttled = False\<rparr>
      | Some r \<Rightarrow>
          if en_status r = StOk then \<lparr>ea_suspended = False, ea_throttled = False\<rparr>
          else
            let effectiveUntil = coalesce (en_until r)
                  (coalesce (en_expiresAt r) (en_updatedAt r + DEFAULT_TTL_MS))
            in if effectiveUntil \<le> now then \<lparr>ea_suspended = False, ea_throttled = False\<rparr>
               else \<lparr>ea_suspended = (en_status r = StSuspended),
                     ea_throttled = (en_status r = StThrottled)\<rparr>)"

text \<open>
  The seed read from the owner's object: \<open>None\<close> for an invalid answer, \<open>Some None\<close> for an owner
  that never had an enforcement row.
\<close>

definition parseAuthoritativeOwnerEnforcement :: "json \<Rightarrow> stored_enforcement option option" where
  "parseAuthoritativeOwnerEnforcement value =
     (case value of
        JObj obj \<Rightarrow>
          (case (js_get obj ''updatedAt'', js_get obj ''enforcement'') of
             (Some updatedAt, Some (JObj e)) \<Rightarrow>
               (let status = js_get e ''status''; until = js_get e ''until'' in
                if (updatedAt \<noteq> JNull \<and> finiteNumber (Some updatedAt) = None) \<or>
                   optionalNumber until = None \<or> \<not> optionalReason (js_get e ''reason'')
                then None
                else if updatedAt = JNull
                then (if status = Some (JStr ''ok'') then Some None else None)
                else
                  let atTime = the (finiteNumber (Some updatedAt)); un = the (optionalNumber until) in
                  (case isStatus status of
                     None \<Rightarrow> None
                   | Some st \<Rightarrow>
                       Some (Some \<lparr>en_status = st, en_until = un, en_updatedAt = atTime,
                                   en_expiresAt = Some (coalesce un (atTime + DEFAULT_TTL_MS))\<rparr>)))
           | _ \<Rightarrow> None)
      | _ \<Rightarrow> None)"

subsection \<open>The gate's enforcement state\<close>

record enforcement_state =
  es_record :: "stored_enforcement option"
  es_meta :: "int option"
  es_memo :: bool

definition empty_enforcement :: enforcement_state where
  "empty_enforcement = \<lparr>es_record = None, es_meta = None, es_memo = False\<rparr>"

datatype enforcement_error =
    UpdateInvalid | BootstrapUnavailable | BootstrapInvalid | IdentityMismatch

definition applyOwnerEnforcementSync ::
  "stored_enforcement \<Rightarrow> stored_enforcement option \<Rightarrow> enforcement_state \<Rightarrow>
   stored_enforcement \<times> enforcement_state" where
  "applyOwnerEnforcementSync record current st =
     (let normalized = record\<lparr>en_expiresAt := Some (coalesce (en_expiresAt record)
             (coalesce (en_until record) (en_updatedAt record + DEFAULT_TTL_MS)))\<rparr>
      in case current of
           None \<Rightarrow> (normalized, st\<lparr>es_record := Some normalized\<rparr>)
         | Some c \<Rightarrow>
             if en_updatedAt record > en_updatedAt c
             then (normalized, st\<lparr>es_record := Some normalized\<rparr>)
             else (c, st))"

definition applyOwnerEnforcement ::
  "json \<Rightarrow> enforcement_state \<Rightarrow> enforcement_error + stored_enforcement \<times> enforcement_state" where
  "applyOwnerEnforcement input st =
     (case normalizeStoredOwnerEnforcement input of
        None \<Rightarrow> Inl UpdateInvalid
      | Some record \<Rightarrow>
          if en_expiresAt record = None then Inl UpdateInvalid
          else
            let current = es_record st;
                (applied, st1) = applyOwnerEnforcementSync record current st;
                st2 = (if current = None \<or> en_updatedAt record \<ge> en_updatedAt (the current)
                       then st1\<lparr>es_meta := Some OWNER_ENFORCEMENT_INITIALIZATION_VERSION\<rparr>
                       else st1)
            in Inr (applied, st2))"

definition initializeOwnerEnforcement ::
  "json option \<Rightarrow> enforcement_state \<Rightarrow> enforcement_error + enforcement_state" where
  "initializeOwnerEnforcement fetched st =
     (if es_meta st \<noteq> None \<and> the (es_meta st) \<ge> OWNER_ENFORCEMENT_INITIALIZATION_VERSION
      then Inr st
      else
        case fetched of
          None \<Rightarrow> Inl BootstrapUnavailable
        | Some state \<Rightarrow>
            (case parseAuthoritativeOwnerEnforcement state of
               None \<Rightarrow> Inl BootstrapInvalid
             | Some authoritative \<Rightarrow>
                 let st1 = (case authoritative of
                              None \<Rightarrow> st
                            | Some a \<Rightarrow> snd (applyOwnerEnforcementSync a (es_record st) st))
                 in Inr (st1\<lparr>es_meta := Some OWNER_ENFORCEMENT_INITIALIZATION_VERSION\<rparr>)))"

definition admitOwnerEnforcement ::
  "bool \<Rightarrow> json option \<Rightarrow> rat \<Rightarrow> enforcement_state \<Rightarrow>
   enforcement_error + enforcement_admission \<times> enforcement_state" where
  "admitOwnerEnforcement identityMatches fetched now st =
     (if \<not> identityMatches then Inl IdentityMismatch
      else if es_memo st
      then Inr (enforcementAdmissionForRecord (es_record st) now, st)
      else
        case initializeOwnerEnforcement fetched st of
          Inl e \<Rightarrow> Inl e
        | Inr st1 \<Rightarrow>
            let st2 = st1\<lparr>es_memo := True\<rparr>
            in Inr (enforcementAdmissionForRecord (es_record st2) now, st2))"

subsection \<open>Pushes from the owner's object\<close>

record enforcement_request =
  er_ownerId :: string
  er_status :: enforcement_status
  er_until :: "rat option"
  er_reason :: "string option"
  er_updatedAt :: rat

definition parseEnforcementRequest :: "(string \<times> json) list \<Rightarrow> enforcement_request option" where
  "parseEnforcementRequest body =
     (let ownerId = (case js_get body ''ownerId'' of Some (JStr s) \<Rightarrow> js_trim s | _ \<Rightarrow> []) in
      case (finiteNumber (js_get body ''updatedAt''), js_get body ''enforcement'') of
        (Some updatedAt, Some (JObj e)) \<Rightarrow>
          if ownerId = [] \<or> length ownerId > 1024 then None
          else
            (case (isStatus (js_get e ''status''), optionalNumber (js_get e ''until'')) of
               (Some status, Some until) \<Rightarrow>
                 if \<not> optionalReason (js_get e ''reason'') then None
                 else Some \<lparr>er_ownerId = ownerId, er_status = status, er_until = until,
                            er_reason = (case js_get e ''reason'' of Some (JStr r) \<Rightarrow> Some r | _ \<Rightarrow> None),
                            er_updatedAt = updatedAt\<rparr>
             | _ \<Rightarrow> None)
      | _ \<Rightarrow> None)"

fun status_text :: "enforcement_status \<Rightarrow> string" where
  "status_text StOk = ''ok''"
| "status_text StChallenged = ''challenged''"
| "status_text StThrottled = ''throttled''"
| "status_text StSuspended = ''suspended''"

definition enforcement_json :: "stored_enforcement \<Rightarrow> json" where
  "enforcement_json r = JObj
     ([(''status'', JStr (status_text (en_status r)))] @
      (case en_until r of None \<Rightarrow> [] | Some u \<Rightarrow> [(''until'', JNum (Fin u))]) @
      [(''updatedAt'', JNum (Fin (en_updatedAt r)))] @
      (case en_expiresAt r of None \<Rightarrow> [] | Some x \<Rightarrow> [(''expiresAt'', JNum (Fin x))]))"

text \<open>The KV mirror of one owner: the JSON it stores and its time to live in seconds.\<close>

record enforcement_kv =
  kv_value :: "json option"
  kv_ttl :: int

record push_outcome =
  po_state :: enforcement_state
  po_kv :: enforcement_kv
  po_alert :: "(enforcement_status \<times> enforcement_status) option"

definition applyOwnerEnforcementPush ::
  "(string \<times> json) list \<Rightarrow> rat \<Rightarrow> enforcement_state \<Rightarrow> enforcement_kv \<Rightarrow>
   enforcement_error + push_outcome" where
  "applyOwnerEnforcementPush input receivedAt st kv =
     (case parseEnforcementRequest input of
        None \<Rightarrow> Inl UpdateInvalid
      | Some body \<Rightarrow>
          let expiresAt = coalesce (er_until body) (receivedAt + DEFAULT_TTL_MS);
              previous = kv_value kv
          in case applyOwnerEnforcement
                    (enforcement_json \<lparr>en_status = er_status body, en_until = er_until body,
                       en_updatedAt = er_updatedAt body, en_expiresAt = Some expiresAt\<rparr>) st of
               Inl e \<Rightarrow> Inl e
             | Inr (authoritative, st') \<Rightarrow>
                 let ttl = (case en_until authoritative of
                              None \<Rightarrow> DEFAULT_ENFORCEMENT_TTL_SECONDS
                            | Some u \<Rightarrow> max 60 \<lceil>(u - receivedAt) / 1000\<rceil>);
                     before = coalesce (map_option en_status
                                (Option.bind previous normalizeStoredOwnerEnforcement)) StOk
                 in Inr \<lparr>po_state = st',
                         po_kv = \<lparr>kv_value = Some (enforcement_json authoritative), kv_ttl = ttl\<rparr>,
                         po_alert = (if before \<noteq> en_status authoritative
                                     then Some (before, en_status authoritative) else None)\<rparr>)"

text \<open>What a session mint reads: the KV mirror of the owner.\<close>

definition ownerEnforcementAdmission :: "enforcement_kv \<Rightarrow> rat \<Rightarrow> enforcement_admission" where
  "ownerEnforcementAdmission kv now =
     (case kv_value kv of
        None \<Rightarrow> \<lparr>ea_suspended = False, ea_throttled = False\<rparr>
      | Some j \<Rightarrow> enforcementAdmissionForRecord (normalizeStoredOwnerEnforcement j) now)"

subsection \<open>Lemmas\<close>

lemma isStatus_text [simp]: "isStatus (Some (JStr (status_text s))) = Some s"
  by (cases s) (simp_all add: isStatus_def)

lemma normalize_json [simp]: "normalizeStoredOwnerEnforcement (enforcement_json r) = Some r"
  by (cases r) (simp add: normalizeStoredOwnerEnforcement_def enforcement_json_def js_get_def
      finiteNumber_def optionalNumber_def split: option.split)

fun pushAll :: "json list \<Rightarrow> enforcement_state \<Rightarrow> enforcement_state" where
  "pushAll [] st = st"
| "pushAll (j # js) st =
     pushAll js (case applyOwnerEnforcement j st of Inl _ \<Rightarrow> st | Inr (_, st') \<Rightarrow> st')"

lemma applyOwnerEnforcement_record:
  assumes "en_expiresAt r \<noteq> None"
  shows "es_record (case applyOwnerEnforcement (enforcement_json r) st of
           Inl _ \<Rightarrow> st | Inr (_, st') \<Rightarrow> st') =
    (case es_record st of
       None \<Rightarrow> Some r
     | Some c \<Rightarrow> if en_updatedAt r > en_updatedAt c then Some r else Some c)"
  using assms
  by (cases r) (auto simp: applyOwnerEnforcement_def applyOwnerEnforcementSync_def Let_def
      split: option.split)

lemma pushAll_newest:
  assumes "\<forall>x \<in> set rs. en_expiresAt x \<noteq> None"
    and "\<forall>x \<in> set rs. x \<noteq> r \<longrightarrow> en_updatedAt x < en_updatedAt r"
    and "es_record st = Some r \<or> r \<in> set rs \<and>
      (\<forall>c. es_record st = Some c \<longrightarrow> en_updatedAt c < en_updatedAt r)"
  shows "es_record (pushAll (map enforcement_json rs) st) = Some r"
  using assms
proof (induction rs arbitrary: st)
  case (Cons a rs)
  let ?st = "case applyOwnerEnforcement (enforcement_json a) st of Inl _ \<Rightarrow> st | Inr (_, st') \<Rightarrow> st'"
  have rec: "es_record ?st = (case es_record st of None \<Rightarrow> Some a
     | Some c \<Rightarrow> if en_updatedAt a > en_updatedAt c then Some a else Some c)"
    by (rule applyOwnerEnforcement_record) (use Cons.prems(1) in simp)
  have "es_record ?st = Some r \<or> r \<in> set rs \<and>
      (\<forall>c. es_record ?st = Some c \<longrightarrow> en_updatedAt c < en_updatedAt r)"
    using Cons.prems(2,3) unfolding rec by (fastforce split: option.splits if_splits)
  then show ?case using Cons.IH [of ?st] Cons.prems(1,2) by simp
qed simp

lemma applyPush_record:
  assumes "applyOwnerEnforcementPush input receivedAt st kv = Inr out"
    and "parseEnforcementRequest input = Some body" and "es_record st = None"
  shows "es_record (po_state out) =
    Some \<lparr>en_status = er_status body, en_until = er_until body, en_updatedAt = er_updatedAt body,
          en_expiresAt = Some (coalesce (er_until body) (receivedAt + DEFAULT_TTL_MS))\<rparr>"
  using assms
  by (auto simp: applyOwnerEnforcementPush_def Let_def applyOwnerEnforcement_def
      applyOwnerEnforcementSync_def split: prod.splits sum.splits)

lemma parseAuthoritative_expiry:
  assumes "parseAuthoritativeOwnerEnforcement j = Some (Some r)"
  shows "\<exists>x. en_expiresAt r = Some x"
  using assms by (auto simp: parseAuthoritativeOwnerEnforcement_def Let_def
      split: json.splits option.splits if_splits)

subsection \<open>Properties\<close>

text \<open>
  enforcement converges whatever order the pushes arrive in, and however often they repeat: the
  gate ends with the record that has the newest \<open>updatedAt\<close>.
\<close>

lemma enforcement_newest_wins:
  assumes "\<forall>x \<in> set rs. en_expiresAt x \<noteq> None" and "r \<in> set rs"
    and "\<forall>x \<in> set rs. x \<noteq> r \<longrightarrow> en_updatedAt x < en_updatedAt r"
  shows "es_record (pushAll (map enforcement_json rs) empty_enforcement) = Some r"
  using assms by (intro pushAll_newest) (simp_all add: empty_enforcement_def)

text \<open>
  a gate that has not been initialised fails closed. It admits an owner only after the owner's
  object answered with a valid state, and then it decides on exactly that state.
\<close>

lemma enforcement_bootstrap_required:
  assumes "admitOwnerEnforcement identityMatches fetched now empty_enforcement = Inr (a, st')"
  shows "identityMatches \<and> (\<exists>j auth. fetched = Some j \<and>
    parseAuthoritativeOwnerEnforcement j = Some auth \<and>
    a = enforcementAdmissionForRecord auth now \<and>
    es_meta st' = Some OWNER_ENFORCEMENT_INITIALIZATION_VERSION)"
proof -
  obtain st1 where ok: "identityMatches" and
    init: "initializeOwnerEnforcement fetched empty_enforcement = Inr st1" and
    st': "st' = st1\<lparr>es_memo := True\<rparr>" "a = enforcementAdmissionForRecord (es_record st1) now"
    using assms by (auto simp: admitOwnerEnforcement_def Let_def empty_enforcement_def
        split: if_splits sum.splits)
  obtain j auth where j: "fetched = Some j" "parseAuthoritativeOwnerEnforcement j = Some auth"
    and st1: "st1 = (case auth of None \<Rightarrow> empty_enforcement
        | Some x \<Rightarrow> snd (applyOwnerEnforcementSync x None empty_enforcement))
          \<lparr>es_meta := Some OWNER_ENFORCEMENT_INITIALIZATION_VERSION\<rparr>"
    using init by (auto simp: initializeOwnerEnforcement_def Let_def empty_enforcement_def
        split: option.splits)
  have "es_record st1 = auth"
    using parseAuthoritative_expiry [of j] j(2)
    by (auto simp: st1 applyOwnerEnforcementSync_def empty_enforcement_def Let_def split: option.split)
  then show ?thesis using ok j st' by (simp add: st1)
qed

definition sample_seed :: json where
  "sample_seed = JObj [(''updatedAt'', JNum (Fin 5)),
     (''enforcement'', JObj [(''status'', JStr ''suspended'')])]"

text \<open>
  a suspension pushed without an end is enforced for seven days after it was received and no
  longer: from then on the gateway serves the suspended owner again, although no push cleared it.
\<close>

lemma open_ended_suspension_lapses:
  assumes "applyOwnerEnforcementPush input receivedAt empty_enforcement kv = Inr out"
    and "parseEnforcementRequest input = Some body"
    and "er_status body = StSuspended" and "er_until body = None"
  shows "ea_suspended (enforcementAdmissionForRecord (es_record (po_state out)) now) \<longleftrightarrow>
    now < receivedAt + 7 * 24 * 60 * 60 * 1000"
proof -
  have "es_record (po_state out) = Some \<lparr>en_status = StSuspended, en_until = None,
      en_updatedAt = er_updatedAt body, en_expiresAt = Some (receivedAt + DEFAULT_TTL_MS)\<rparr>"
    using applyPush_record [OF assms(1,2)] assms(3,4) by (simp add: empty_enforcement_def)
  then show ?thesis
    by (simp add: enforcementAdmissionForRecord_def DEFAULT_ENFORCEMENT_TTL_SECONDS_def Let_def not_le)
qed

definition sample_push :: "(string \<times> json) list" where
  "sample_push = [(''ownerId'', JStr ''owner''), (''updatedAt'', JNum (Fin 5)),
     (''enforcement'', JObj [(''status'', JStr ''suspended'')])]"



end
