(* ===== verification/Owner_Relay_Gate.thy ===== *)
theory Owner_Relay_Gate
  imports Owner_Ledger Owner_Enforcement
begin

text \<open>
  The per-owner object \<open>workers/model-gateway/src/gates/owner-relay-gate.ts\<close>: concurrency and rate
  limits of relayed requests, the mint limit, the admission that reserves on the owner's ledger in the
  same transaction, and the managed requests that can be cancelled
  (\<open>managed-cancellation.ts\<close>). The ledger and the enforcement half have their own theories; here they
  are fields of the object's state. The storage has one alarm, which the ledger and the
  cancellations share: it is the field \<open>ol_alarm\<close> of the ledger.
\<close>

definition OWNER_IN_FLIGHT_ABANDON_AFTER_MS :: ms where
  "OWNER_IN_FLIGHT_ABANDON_AFTER_MS = GATEWAY_UPSTREAM_MAX_DURATION_MS + MINUTE_MS"

datatype gate_admission =
    GateOk bool
  | ConcurrencyLimit ms
  | RateLimited ms

record managed_controller =
  mc_aborted :: bool
  mc_references :: int

record owner_relay_gate =
  gate_in_flight :: "(string \<times> ms) list"
  gate_relay_admissions :: "ms list"
  gate_mint_admissions :: "ms list"
  gate_cancellations :: "(string \<times> ms) list"
  gate_enforcement :: enforcement_state
  gate_ledger :: owner_ledger
  gate_controllers :: "(string \<times> managed_controller) list"

definition empty_gate :: owner_relay_gate where
  "empty_gate = \<lparr>gate_in_flight = [], gate_relay_admissions = [], gate_mint_admissions = [],
     gate_cancellations = [], gate_enforcement = empty_enforcement,
     gate_ledger = empty_owner_ledger, gate_controllers = []\<rparr>"

subsection \<open>Admission\<close>

definition admitRelaySync ::
  "string \<Rightarrow> string \<Rightarrow> bool \<Rightarrow> ms \<Rightarrow> owner_relay_gate \<Rightarrow> gate_admission \<times> owner_relay_gate" where
  "admitRelaySync audience requestId throttled now g =
     (let g1 = g\<lparr>gate_in_flight := sql_delete
                    (\<lambda>r. snd r \<le> now - OWNER_IN_FLIGHT_ABANDON_AFTER_MS) (gate_in_flight g),
                  gate_relay_admissions := sql_delete
                    (\<lambda>t. t \<le> now - MINUTE_MS) (gate_relay_admissions g)\<rparr>
      in if find_row fst requestId (gate_in_flight g1) \<noteq> None then (GateOk True, g1)
      else
        let policy = GATEWAY_OWNER_RELAY_LIMITS (limitsAudienceFor audience);
            inFlightLimit = scaledLimit (inFlight policy) throttled
        in if int (length (gate_in_flight g1)) \<ge> inFlightLimit
        then (ConcurrencyLimit (coalesce (sql_min (map snd (gate_in_flight g1))) now
                + OWNER_IN_FLIGHT_ABANDON_AFTER_MS), g1)
        else if int (length (gate_relay_admissions g1)) \<ge> scaledLimit (perMinute policy) throttled
        then (RateLimited (coalesce (sql_min (gate_relay_admissions g1)) now + MINUTE_MS), g1)
        else (GateOk False,
              g1\<lparr>gate_in_flight := gate_in_flight g1 @ [(requestId, now)],
                 gate_relay_admissions := gate_relay_admissions g1 @ [now]\<rparr>))"

definition releaseRelay :: "string \<Rightarrow> owner_relay_gate \<Rightarrow> owner_relay_gate" where
  "releaseRelay requestId g =
     g\<lparr>gate_in_flight := sql_delete (\<lambda>r. fst r = requestId) (gate_in_flight g)\<rparr>"

record admit_args =
  aa_audience :: string
  aa_requestId :: string
  aa_throttled :: bool
  aa_generation :: string
  aa_reservation :: reserve_args

definition admission_id :: "admit_args \<Rightarrow> string" where
  "admission_id args =
     json_string_array [aa_generation args, ra_jti (aa_reservation args), aa_requestId args]"

definition capability_key :: "string \<Rightarrow> string \<Rightarrow> string" where
  "capability_key generation jti = json_string_array [generation, jti]"

fun is_reserved :: "reserve_result \<Rightarrow> bool" where
  "is_reserved (Reserved _) = True"
| "is_reserved _ = False"

definition admitAndReserve ::
  "admit_args \<Rightarrow> ms \<Rightarrow> owner_relay_gate \<Rightarrow>
   (gate_admission \<times> reserve_result option) \<times> owner_relay_gate" where
  "admitAndReserve args now g =
     (case admitRelaySync (aa_audience args) (admission_id args) (aa_throttled args) now g of
        (GateOk duplicate, g1) \<Rightarrow>
          (case ownerReserveSync
                  ((aa_reservation args)\<lparr>ra_requestId := aa_requestId args,
                     ra_jti := capability_key (aa_generation args) (ra_jti (aa_reservation args))\<rparr>)
                  now (gate_ledger g1) of
             (reservation, ledger) \<Rightarrow>
               let g2 = g1\<lparr>gate_ledger := ledger\<rparr>;
                   g3 = (if \<not> is_reserved reservation \<and> \<not> duplicate
                         then releaseRelay (admission_id args) g2 else g2)
               in ((GateOk duplicate, Some reservation),
                   g3\<lparr>gate_ledger := ownerArmAlarm now (gate_ledger g3)\<rparr>))
      | (refused, g1) \<Rightarrow>
          ((refused, None), g1\<lparr>gate_ledger := ownerArmAlarm now (gate_ledger g1)\<rparr>))"

definition settleCapability ::
  "string \<Rightarrow> string \<Rightarrow> settle_args \<Rightarrow> owner_relay_gate \<Rightarrow> settle_result \<times> owner_relay_gate" where
  "settleCapability generation jti args g =
     (case ownerSettle (capability_key generation jti) args (gate_ledger g) of
        (res, ledger) \<Rightarrow> (res, g\<lparr>gate_ledger := ledger\<rparr>))"

definition gateAdmitMint ::
  "string \<Rightarrow> bool \<Rightarrow> ms \<Rightarrow> owner_relay_gate \<Rightarrow> gate_admission \<times> owner_relay_gate" where
  "gateAdmitMint audience throttled now g =
     (let g1 = g\<lparr>gate_mint_admissions :=
                   sql_delete (\<lambda>t. t \<le> now - HOUR_MS) (gate_mint_admissions g)\<rparr>;
          policy = GATEWAY_OWNER_RELAY_LIMITS (limitsAudienceFor audience)
      in if int (length (gate_mint_admissions g1)) \<ge> scaledLimit (mintsPerHour policy) throttled
         then (RateLimited (coalesce (sql_min (gate_mint_admissions g1)) now + HOUR_MS), g1)
         else (GateOk False, g1\<lparr>gate_mint_admissions := gate_mint_admissions g1 @ [now]\<rparr>))"

subsection \<open>Managed cancellation\<close>

text \<open>The claims of a capability that the cancellation identity reads; \<open>exp\<close> is in seconds.\<close>

record capability_claims =
  cc_kind :: string
  cc_sub :: string
  cc_gen :: string
  cc_jti :: string
  cc_exp :: int
  cc_turn :: "(string \<times> string) option"
  cc_credential :: bool
  cc_ledgerScope :: "string option"

record cancellation_identity =
  ci_ownerId :: string
  ci_ownerGeneration :: string
  ci_capabilityId :: string
  ci_requestId :: string
  ci_turnId :: string
  ci_conversationId :: string
  ci_expiresAt :: ms

definition managedCancellationIdentity ::
  "capability_claims \<Rightarrow> string \<Rightarrow> cancellation_identity option" where
  "managedCancellationIdentity claims requestId =
     (if cc_kind claims \<noteq> ''turn'' \<or> cc_turn claims = None \<or> cc_credential claims \<or>
         cc_ledgerScope claims \<noteq> Some ''owner-relay-v2'' then None
      else Some \<lparr>ci_ownerId = cc_sub claims, ci_ownerGeneration = cc_gen claims,
                 ci_capabilityId = cc_jti claims, ci_requestId = requestId,
                 ci_turnId = fst (the (cc_turn claims)),
                 ci_conversationId = snd (the (cc_turn claims)),
                 ci_expiresAt = cc_exp claims * 1000\<rparr>)"

definition managedCancellationKey :: "cancellation_identity \<Rightarrow> string" where
  "managedCancellationKey i =
     json_string_array [ci_ownerGeneration i, ci_capabilityId i, ci_requestId i, ci_turnId i,
                        ci_conversationId i]"

definition armCancellationAlarm :: "ms \<Rightarrow> owner_relay_gate \<Rightarrow> owner_relay_gate" where
  "armCancellationAlarm now g =
     (case sql_min (map snd (gate_cancellations g)) of
        None \<Rightarrow> g
      | Some nxt \<Rightarrow>
          let due = max (now + 1000) nxt; current = ol_alarm (gate_ledger g) in
          if current = None \<or> due < the current
          then g\<lparr>gate_ledger := (gate_ledger g)\<lparr>ol_alarm := Some due\<rparr>\<rparr>
          else g)"

text \<open>The alarm fires: the runtime clears it before the handler runs.\<close>

definition gateAlarm :: "ms \<Rightarrow> owner_relay_gate \<Rightarrow> owner_relay_gate" where
  "gateAlarm now g =
     armCancellationAlarm now
       (g\<lparr>gate_ledger := ownerAlarm now ((gate_ledger g)\<lparr>ol_alarm := None\<rparr>),
          gate_cancellations := sql_delete (\<lambda>c. snd c \<le> now) (gate_cancellations g)\<rparr>)"

definition upsertCancellation :: "string \<Rightarrow> ms \<Rightarrow> (string \<times> ms) list \<Rightarrow> (string \<times> ms) list" where
  "upsertCancellation key expiresAt t =
     (case find_row fst key t of
        None \<Rightarrow> t @ [(key, expiresAt)]
      | Some _ \<Rightarrow> sql_update (\<lambda>c. fst c = key) (\<lambda>c. (fst c, min (snd c) expiresAt)) t)"

definition cancelManagedRequest ::
  "bool \<Rightarrow> cancellation_identity \<Rightarrow> ms \<Rightarrow> owner_relay_gate \<Rightarrow> bool \<times> owner_relay_gate" where
  "cancelManagedRequest identityMatches i now g =
     (if \<not> identityMatches then (False, g)
      else if ci_expiresAt i \<le> now then (False, g)
      else
        let key = managedCancellationKey i;
            g1 = g\<lparr>gate_cancellations := upsertCancellation key (ci_expiresAt i)
                     (sql_delete (\<lambda>c. snd c \<le> now) (gate_cancellations g))\<rparr>;
            g2 = g1\<lparr>gate_controllers := sql_update (\<lambda>c. fst c = key)
                     (\<lambda>c. (fst c, (snd c)\<lparr>mc_aborted := True\<rparr>)) (gate_controllers g1)\<rparr>
        in (True, armCancellationAlarm now g2))"

text \<open>\<open>Some aborted\<close> is the state of the signal that the request receives; \<open>None\<close> means cancelled.\<close>

definition beginManagedRequest ::
  "cancellation_identity \<Rightarrow> ms \<Rightarrow> owner_relay_gate \<Rightarrow> bool option \<times> owner_relay_gate" where
  "beginManagedRequest i now g =
     (let key = managedCancellationKey i in
      if find (\<lambda>c. fst c = key \<and> snd c > now) (gate_cancellations g) \<noteq> None then (None, g)
      else case find_row fst key (gate_controllers g) of
             Some (_, active) \<Rightarrow>
               (Some (mc_aborted active),
                g\<lparr>gate_controllers := sql_update (\<lambda>c. fst c = key)
                     (\<lambda>c. (fst c, (snd c)\<lparr>mc_references := mc_references (snd c) + 1\<rparr>))
                     (gate_controllers g)\<rparr>)
           | None \<Rightarrow>
               (Some False,
                g\<lparr>gate_controllers := gate_controllers g @
                     [(key, \<lparr>mc_aborted = False, mc_references = 1\<rparr>)]\<rparr>))"

definition releaseManagedRequest :: "string \<Rightarrow> owner_relay_gate \<Rightarrow> owner_relay_gate" where
  "releaseManagedRequest key g =
     (case find_row fst key (gate_controllers g) of
        None \<Rightarrow> g
      | Some (_, active) \<Rightarrow>
          if mc_references active - 1 = 0
          then g\<lparr>gate_controllers := sql_delete (\<lambda>c. fst c = key) (gate_controllers g)\<rparr>
          else g\<lparr>gate_controllers := sql_update (\<lambda>c. fst c = key)
                   (\<lambda>c. (fst c, (snd c)\<lparr>mc_references := mc_references (snd c) - 1\<rparr>))
                   (gate_controllers g)\<rparr>)"

text \<open>
  Eviction of the object from memory: the tables and the alarm survive, the controllers, the alarm
  memo of the ledger and the enforcement memo do not.
\<close>

definition evictGate :: "owner_relay_gate \<Rightarrow> owner_relay_gate" where
  "evictGate g =
     g\<lparr>gate_controllers := [], gate_ledger := (gate_ledger g)\<lparr>ol_alarmAt := None\<rparr>,
       gate_enforcement := (gate_enforcement g)\<lparr>es_memo := False\<rparr>\<rparr>"

subsection \<open>Runs\<close>

datatype gate_op =
    GAdmitRelay string string bool
  | GAdmitAndReserve admit_args
  | GSettle string string settle_args
  | GReleaseRelay string
  | GAdmitMint string bool
  | GCancel bool cancellation_identity
  | GBegin cancellation_identity
  | GReleaseManaged string
  | GEnforcement bool "json option"
  | GPush json
  | GAlarm
  | GEvict

fun gate_step :: "gate_op \<Rightarrow> ms \<Rightarrow> owner_relay_gate \<Rightarrow> owner_relay_gate" where
  "gate_step (GAdmitRelay aud i throttled) now g = snd (admitRelaySync aud i throttled now g)"
| "gate_step (GAdmitAndReserve args) now g = snd (admitAndReserve args now g)"
| "gate_step (GSettle gen jti args) now g = snd (settleCapability gen jti args g)"
| "gate_step (GReleaseRelay i) now g = releaseRelay i g"
| "gate_step (GAdmitMint aud throttled) now g = snd (gateAdmitMint aud throttled now g)"
| "gate_step (GCancel ok i) now g = snd (cancelManagedRequest ok i now g)"
| "gate_step (GBegin i) now g = snd (beginManagedRequest i now g)"
| "gate_step (GReleaseManaged key) now g = releaseManagedRequest key g"
| "gate_step (GEnforcement ok fetched) now g =
     (case admitOwnerEnforcement ok fetched (of_int now) (gate_enforcement g) of
        Inl _ \<Rightarrow> g | Inr (_, e) \<Rightarrow> g\<lparr>gate_enforcement := e\<rparr>)"
| "gate_step (GPush j) now g =
     (case applyOwnerEnforcement j (gate_enforcement g) of
        Inl _ \<Rightarrow> g | Inr (_, e) \<Rightarrow> g\<lparr>gate_enforcement := e\<rparr>)"
| "gate_step GAlarm now g = gateAlarm now g"
| "gate_step GEvict now g = evictGate g"

fun gate_run :: "(gate_op \<times> ms) list \<Rightarrow> owner_relay_gate \<Rightarrow> owner_relay_gate" where
  "gate_run [] g = g"
| "gate_run ((op, now) # ops) g = gate_run ops (gate_step op now g)"

text \<open>
  The invariant of the object: primary keys are unique, no more than eight requests are in flight,
  the owner's ledger is well formed, a controller is referenced, a request in flight was counted, and
  rows that expire have an alarm that will collect them.
\<close>

definition alarm_armed :: "owner_relay_gate \<Rightarrow> bool" where
  "alarm_armed g \<longleftrightarrow>
     (ol_ledger (gate_ledger g) \<noteq> [] \<or> gate_cancellations g \<noteq> [] \<or>
      ol_alarmAt (gate_ledger g) \<noteq> None \<longrightarrow> ol_alarm (gate_ledger g) \<noteq> None)"

definition relay_gate_wf :: "owner_relay_gate \<Rightarrow> bool" where
  "relay_gate_wf g \<longleftrightarrow>
     distinct (map fst (gate_in_flight g)) \<and> length (gate_in_flight g) \<le> 8 \<and>
     owner_ledger_wf (gate_ledger g) \<and>
     distinct (map fst (gate_cancellations g)) \<and>
     distinct (map fst (gate_controllers g)) \<and>
     (\<forall>c \<in> set (gate_controllers g). 1 \<le> mc_references (snd c)) \<and>
     alarm_armed g"

subsection \<open>Lemmas on admission\<close>

lemma owner_wf_alarm [simp]:
  "owner_ledger_wf (st\<lparr>ol_alarm := a\<rparr>) = owner_ledger_wf st"
  "owner_ledger_wf (st\<lparr>ol_alarmAt := a\<rparr>) = owner_ledger_wf st"
  by (simp_all add: owner_ledger_wf_def as_cap_ledger_def ledger_of_def)

lemma admitRelaySync_in_flight:
  assumes "admitRelaySync aud i throttled now g = (res, g')"
  shows "(case res of
      GateOk False \<Rightarrow>
        gate_in_flight g' = sql_delete
          (\<lambda>r. snd r \<le> now - OWNER_IN_FLIGHT_ABANDON_AFTER_MS) (gate_in_flight g) @ [(i, now)] \<and>
        find_row fst i (sql_delete
          (\<lambda>r. snd r \<le> now - OWNER_IN_FLIGHT_ABANDON_AFTER_MS) (gate_in_flight g)) = None \<and>
        int (length (gate_in_flight g')) \<le>
          scaledLimit (inFlight (GATEWAY_OWNER_RELAY_LIMITS (limitsAudienceFor aud))) throttled
    | _ \<Rightarrow> gate_in_flight g' = sql_delete
          (\<lambda>r. snd r \<le> now - OWNER_IN_FLIGHT_ABANDON_AFTER_MS) (gate_in_flight g))"
  using assms by (auto simp: admitRelaySync_def Let_def simp del: not_None_eq split: if_splits)

lemma admitRelaySync_frame:
  assumes "admitRelaySync aud i throttled now g = (res, g')"
  shows "gate_ledger g' = gate_ledger g \<and> gate_cancellations g' = gate_cancellations g \<and>
    gate_controllers g' = gate_controllers g \<and> gate_mint_admissions g' = gate_mint_admissions g \<and>
    gate_enforcement g' = gate_enforcement g"
  using assms by (auto simp: admitRelaySync_def Let_def split: if_splits)

lemma in_flight_limit: "scaledLimit (inFlight (GATEWAY_OWNER_RELAY_LIMITS a)) throttled \<le> 8"
  using scaledLimit_le [of "inFlight (GATEWAY_OWNER_RELAY_LIMITS a)" throttled]
    relay_limit_bounds(1) [of a] by simp

lemma admitRelaySync_wf:
  assumes "relay_gate_wf g" and "admitRelaySync aud i throttled now g = (res, g')"
  shows "relay_gate_wf g'"
proof -
  let ?pruned = "sql_delete (\<lambda>r. snd r \<le> now - OWNER_IN_FLIGHT_ABANDON_AFTER_MS) (gate_in_flight g)"
  have "distinct (map fst ?pruned)" "length ?pruned \<le> 8"
    using assms(1) order_trans [OF length_sql_delete]
    by (auto simp: relay_gate_wf_def distinct_map_sql_delete)
  then have "distinct (map fst (gate_in_flight g'))" "length (gate_in_flight g') \<le> 8"
    using admitRelaySync_in_flight [OF assms(2)] in_flight_limit [of "limitsAudienceFor aud" throttled]
    by (auto simp: find_row_None split: gate_admission.splits bool.splits)
  then show ?thesis
    using assms(1) admitRelaySync_frame [OF assms(2)] by (simp add: relay_gate_wf_def alarm_armed_def)
qed

lemma releaseRelay_wf: "relay_gate_wf g \<Longrightarrow> relay_gate_wf (releaseRelay i g)"
  using order_trans [OF length_sql_delete]
  by (auto simp: relay_gate_wf_def releaseRelay_def distinct_map_sql_delete alarm_armed_def)

lemma ownerArmAlarm_armed:
  assumes "ol_alarmAt st = None \<or> ol_alarm st \<noteq> None"
  shows "ol_ledger (ownerArmAlarm now st) \<noteq> [] \<or> ol_alarmAt (ownerArmAlarm now st) \<noteq> None
    \<longrightarrow> ol_alarm (ownerArmAlarm now st) \<noteq> None"
    and "ol_alarm st \<noteq> None \<longrightarrow> ol_alarm (ownerArmAlarm now st) \<noteq> None"
  using assms by (auto simp: ownerArmAlarm_def Let_def split: option.splits)

lemma ownerReserve_alarm:
  "ol_alarmAt (snd (ownerReserveSync args now st)) = ol_alarmAt st"
  "ol_alarm (snd (ownerReserveSync args now st)) = ol_alarm st"
  by (auto simp: ownerReserveSync_def ownerFinishReserve_def ownerOpenLedger_def Let_def
      split: option.splits reserve_result.splits)

lemma ownerSettle_alarm:
  "ol_alarmAt (snd (ownerSettle jti args st)) = ol_alarmAt st"
  "ol_alarm (snd (ownerSettle jti args st)) = ol_alarm st"
  "(ol_ledger (snd (ownerSettle jti args st)) = []) = (ol_ledger st = [])"
  by (auto simp: ownerSettle_def Let_def sql_update_def split: option.splits prod.splits if_splits)

lemma arm_ledger_wf:
  assumes "relay_gate_wf g" and "owner_ledger_wf l"
    and "ol_alarmAt l = ol_alarmAt (gate_ledger g)" and "ol_alarm l = ol_alarm (gate_ledger g)"
  shows "relay_gate_wf (g\<lparr>gate_ledger := ownerArmAlarm now l\<rparr>)"
proof -
  have pre: "ol_alarmAt l = None \<or> ol_alarm l \<noteq> None"
    using assms(1,3,4) by (auto simp: relay_gate_wf_def alarm_armed_def)
  show ?thesis
    using assms ownerArmAlarm_armed [OF pre, of now]
    by (auto simp: relay_gate_wf_def alarm_armed_def ownerArmAlarm_wf simp del: not_None_eq)
qed

lemma admitAndReserve_wf:
  assumes "relay_gate_wf g"
  shows "relay_gate_wf (snd (admitAndReserve args now g))"
proof -
  obtain res g1 where g1: "admitRelaySync (aa_audience args) (admission_id args)
      (aa_throttled args) now g = (res, g1)" by (cases "admitRelaySync (aa_audience args)
      (admission_id args) (aa_throttled args) now g")
  have wf1: "relay_gate_wf g1" by (rule admitRelaySync_wf [OF assms g1])
  then have led: "owner_ledger_wf (gate_ledger g1)" by (simp add: relay_gate_wf_def)
  have rel: "relay_gate_wf (releaseRelay i g1)" for i by (rule releaseRelay_wf [OF wf1])
  have arm: "relay_gate_wf (h\<lparr>gate_ledger := ownerArmAlarm now
      (snd (ownerReserveSync a now (gate_ledger g1)))\<rparr>)"
    if "relay_gate_wf h" "gate_ledger h = gate_ledger g1" for h a
    by (rule arm_ledger_wf) (simp_all add: that ownerReserve_alarm ownerReserve_wf led)
  have arm0: "relay_gate_wf (g1\<lparr>gate_ledger := ownerArmAlarm now (gate_ledger g1)\<rparr>)"
    by (rule arm_ledger_wf) (simp_all add: wf1 led)
  have swap: "releaseRelay i (h\<lparr>gate_ledger := l\<rparr>) = (releaseRelay i h)\<lparr>gate_ledger := l\<rparr>"
    "gate_ledger (releaseRelay i h) = gate_ledger h" for i h l
    by (simp_all add: releaseRelay_def)
  show ?thesis
  proof (cases res)
    case (GateOk dup)
    then show ?thesis
      using arm [OF wf1] arm [OF rel]
      by (auto simp: admitAndReserve_def g1 Let_def swap split: prod.split)
        (metis snd_conv)+
  qed (simp_all add: admitAndReserve_def g1 arm0)
qed

lemma settleCapability_wf:
  "relay_gate_wf g \<Longrightarrow> relay_gate_wf (snd (settleCapability gen jti args g))"
  using ownerSettle_alarm [of "capability_key gen jti" args "gate_ledger g"]
    ownerSettle_wf [of "gate_ledger g" "capability_key gen jti" args]
  by (auto simp: settleCapability_def relay_gate_wf_def alarm_armed_def simp del: not_None_eq
      split: prod.split)

lemma gateAdmitMint_frame:
  "relay_gate_wf (snd (gateAdmitMint aud throttled now g)) = relay_gate_wf g"
  by (simp add: gateAdmitMint_def Let_def relay_gate_wf_def alarm_armed_def)

subsection \<open>Lemmas on cancellation\<close>

lemma sql_delete_Nil: "sql_delete p t \<noteq> [] \<Longrightarrow> t \<noteq> []"
  by (auto simp: sql_delete_def)

lemma armCancellationAlarm_wf:
  assumes "owner_ledger_wf (gate_ledger g)" and "distinct (map fst (gate_in_flight g))"
    "length (gate_in_flight g) \<le> 8" "distinct (map fst (gate_cancellations g))"
    "distinct (map fst (gate_controllers g))"
    "\<forall>c \<in> set (gate_controllers g). 1 \<le> mc_references (snd c)"
    and "ol_ledger (gate_ledger g) \<noteq> [] \<or> ol_alarmAt (gate_ledger g) \<noteq> None \<longrightarrow>
      ol_alarm (gate_ledger g) \<noteq> None"
  shows "relay_gate_wf (armCancellationAlarm now g)"
  using assms
  by (auto simp: armCancellationAlarm_def relay_gate_wf_def alarm_armed_def Let_def
      split: option.split)

lemma upsert_keys:
  "distinct (map fst t) \<Longrightarrow> distinct (map fst (upsertCancellation key e t))"
  by (auto simp: upsertCancellation_def map_sql_update_key find_row_None split: option.split)

lemma cancelManagedRequest_wf:
  assumes "relay_gate_wf g"
  shows "relay_gate_wf (snd (cancelManagedRequest ok i now g))"
proof (cases "ok \<and> now < ci_expiresAt i")
  case True
  have "relay_gate_wf (armCancellationAlarm now (g
      \<lparr>gate_cancellations := upsertCancellation (managedCancellationKey i) (ci_expiresAt i)
         (sql_delete (\<lambda>c. snd c \<le> now) (gate_cancellations g)),
       gate_controllers := sql_update (\<lambda>c. fst c = managedCancellationKey i)
         (\<lambda>c. (fst c, (snd c)\<lparr>mc_aborted := True\<rparr>)) (gate_controllers g)\<rparr>))"
    by (rule armCancellationAlarm_wf)
      (use assms in \<open>auto simp: relay_gate_wf_def alarm_armed_def map_sql_update_key
         set_sql_update upsert_keys distinct_map_sql_delete\<close>)
  then show ?thesis using True by (simp add: cancelManagedRequest_def Let_def)
qed (use assms in \<open>auto simp: cancelManagedRequest_def\<close>)

lemma gateAlarm_wf:
  assumes "relay_gate_wf g"
  shows "relay_gate_wf (gateAlarm now g)"
proof -
  let ?l = "(gate_ledger g)\<lparr>ol_alarm := None\<rparr>"
  have wf: "owner_ledger_wf (ownerAlarm now ?l)"
    using assms by (intro ownerAlarm_wf) (simp add: relay_gate_wf_def)
  have armed: "ol_ledger (ownerAlarm now ?l) \<noteq> [] \<or> ol_alarmAt (ownerAlarm now ?l) \<noteq> None \<longrightarrow>
      ol_alarm (ownerAlarm now ?l) \<noteq> None"
    unfolding ownerAlarm_def Let_def by (rule ownerArmAlarm_armed) simp
  show ?thesis
    unfolding gateAlarm_def
    by (rule armCancellationAlarm_wf)
      (use assms wf armed in \<open>auto simp: relay_gate_wf_def distinct_map_sql_delete\<close>)
qed

lemma beginManagedRequest_wf:
  assumes "relay_gate_wf g"
  shows "relay_gate_wf (snd (beginManagedRequest i now g))"
  using assms
  by (force simp: beginManagedRequest_def Let_def relay_gate_wf_def alarm_armed_def
      map_sql_update_key set_sql_update find_row_None split: option.splits)

lemma releaseManagedRequest_wf:
  assumes "relay_gate_wf g"
  shows "relay_gate_wf (releaseManagedRequest key g)"
proof -
  have ge: "mc_references (snd c) - 1 \<ge> 1"
    if "find_row fst key (gate_controllers g) = Some (k, a)" "mc_references a - 1 \<noteq> 0"
      "c \<in> set (gate_controllers g)" "fst c = key" for k a c
  proof -
    have "find_row fst (fst c) (gate_controllers g) = Some c"
      using assms that(3) by (intro find_row_distinct) (simp_all add: relay_gate_wf_def)
    then have "snd c = a" using that by auto
    then show ?thesis using assms that by (auto simp: relay_gate_wf_def dest!: find_row_Some)
  qed
  show ?thesis
    using assms ge
    by (force simp: releaseManagedRequest_def relay_gate_wf_def alarm_armed_def map_sql_update_key
        set_sql_update distinct_map_sql_delete split: option.splits)
qed

lemma evictGate_wf: "relay_gate_wf g \<Longrightarrow> relay_gate_wf (evictGate g)"
  by (auto simp: evictGate_def relay_gate_wf_def alarm_armed_def)

lemma gate_step_wf: "relay_gate_wf g \<Longrightarrow> relay_gate_wf (gate_step op now g)"
proof (cases op)
  case (GAdmitRelay aud i throttled)
  then show "relay_gate_wf g \<Longrightarrow> relay_gate_wf (gate_step op now g)"
    by (auto intro: admitRelaySync_wf prod.collapse [symmetric])
qed (auto simp: admitAndReserve_wf settleCapability_wf releaseRelay_wf gateAdmitMint_frame
    cancelManagedRequest_wf beginManagedRequest_wf releaseManagedRequest_wf gateAlarm_wf
    evictGate_wf relay_gate_wf_def [of "gate_enforcement_update _ _"]
    relay_gate_wf_def [of g] alarm_armed_def split: sum.split)

lemma gate_run_wf: "relay_gate_wf g \<Longrightarrow> relay_gate_wf (gate_run ops g)"
  by (induction ops g rule: gate_run.induct) (simp_all add: gate_step_wf)

lemma gate_run_append: "gate_run (xs @ ys) g = gate_run ys (gate_run xs g)"
  by (induction xs g rule: gate_run.induct) simp_all

lemma empty_gate_wf: "relay_gate_wf empty_gate"
  using empty_owner_ledger_wf
  by (simp add: relay_gate_wf_def empty_gate_def alarm_armed_def empty_owner_ledger_def)

subsection \<open>The limiter contract\<close>

fun relay_counted :: "gate_op \<Rightarrow> ms \<Rightarrow> owner_relay_gate \<Rightarrow> bool" where
  "relay_counted (GAdmitRelay aud i throttled) now g =
     (fst (admitRelaySync aud i throttled now g) = GateOk False)"
| "relay_counted (GAdmitAndReserve args) now g =
     (fst (fst (admitAndReserve args now g)) = GateOk False)"
| "relay_counted _ now g = False"

fun mint_counted :: "gate_op \<Rightarrow> ms \<Rightarrow> owner_relay_gate \<Rightarrow> bool" where
  "mint_counted (GAdmitMint aud throttled) now g =
     (fst (gateAdmitMint aud throttled now g) = GateOk False)"
| "mint_counted _ now g = False"

definition relay_minute_step :: "gate_op \<Rightarrow> ms \<Rightarrow> owner_relay_gate \<Rightarrow> bool \<times> owner_relay_gate" where
  "relay_minute_step op now g = (relay_counted op now g, gate_step op now g)"

definition mint_hour_step :: "gate_op \<Rightarrow> ms \<Rightarrow> owner_relay_gate \<Rightarrow> bool \<times> owner_relay_gate" where
  "mint_hour_step op now g = (mint_counted op now g, gate_step op now g)"

fun relay_cap :: "gate_op \<Rightarrow> int" where
  "relay_cap (GAdmitRelay aud i throttled) =
     scaledLimit (perMinute (GATEWAY_OWNER_RELAY_LIMITS (limitsAudienceFor aud))) throttled"
| "relay_cap (GAdmitAndReserve args) =
     scaledLimit (perMinute (GATEWAY_OWNER_RELAY_LIMITS (limitsAudienceFor (aa_audience args))))
       (aa_throttled args)"
| "relay_cap _ = 0"

fun mint_cap :: "gate_op \<Rightarrow> int" where
  "mint_cap (GAdmitMint aud throttled) =
     scaledLimit (mintsPerHour (GATEWAY_OWNER_RELAY_LIMITS (limitsAudienceFor aud))) throttled"
| "mint_cap _ = 0"

lemma admitRelaySync_log:
  assumes "admitRelaySync aud i throttled now g = (res, g')"
  shows "gate_relay_admissions g' =
      filter (\<lambda>t. now - MINUTE_MS < t) (gate_relay_admissions g) @
      (if res = GateOk False then [now] else []) \<and>
    (res = GateOk False \<longrightarrow>
      int (length (filter (\<lambda>t. now - MINUTE_MS < t) (gate_relay_admissions g))) <
        scaledLimit (perMinute (GATEWAY_OWNER_RELAY_LIMITS (limitsAudienceFor aud))) throttled)"
  using assms by (auto simp: admitRelaySync_def Let_def sql_delete_def not_le split: if_splits)

lemma admitAndReserve_log:
  "gate_relay_admissions (snd (admitAndReserve args now g)) =
     gate_relay_admissions (snd (admitRelaySync (aa_audience args) (admission_id args)
       (aa_throttled args) now g))"
  "gate_mint_admissions (snd (admitAndReserve args now g)) = gate_mint_admissions g"
  "fst (fst (admitAndReserve args now g)) =
     fst (admitRelaySync (aa_audience args) (admission_id args) (aa_throttled args) now g)"
proof -
  obtain res g1 where g1: "admitRelaySync (aa_audience args) (admission_id args)
      (aa_throttled args) now g = (res, g1)" by fastforce
  then have "gate_mint_admissions g1 = gate_mint_admissions g"
    using admitRelaySync_frame by blast
  then show "gate_relay_admissions (snd (admitAndReserve args now g)) =
     gate_relay_admissions (snd (admitRelaySync (aa_audience args) (admission_id args)
       (aa_throttled args) now g))"
  "gate_mint_admissions (snd (admitAndReserve args now g)) = gate_mint_admissions g"
  "fst (fst (admitAndReserve args now g)) =
     fst (admitRelaySync (aa_audience args) (admission_id args) (aa_throttled args) now g)"
    by (simp_all add: admitAndReserve_def g1 Let_def releaseRelay_def
        split: prod.split gate_admission.split)
qed

lemma other_logs:
  "gate_relay_admissions (snd (settleCapability gen jti sargs g)) = gate_relay_admissions g"
  "gate_mint_admissions (snd (settleCapability gen jti sargs g)) = gate_mint_admissions g"
  "gate_relay_admissions (snd (gateAdmitMint aud throttled now g)) = gate_relay_admissions g"
  "gate_relay_admissions (armCancellationAlarm now g) = gate_relay_admissions g"
  "gate_mint_admissions (armCancellationAlarm now g) = gate_mint_admissions g"
  "gate_relay_admissions (releaseManagedRequest key g) = gate_relay_admissions g"
  "gate_mint_admissions (releaseManagedRequest key g) = gate_mint_admissions g"
  "gate_relay_admissions (snd (beginManagedRequest ident now g)) = gate_relay_admissions g"
  "gate_mint_admissions (snd (beginManagedRequest ident now g)) = gate_mint_admissions g"
  by (auto simp: settleCapability_def gateAdmitMint_def armCancellationAlarm_def Let_def
      releaseManagedRequest_def beginManagedRequest_def split: prod.split option.split)

lemma cap_nonzero [simp]:
  "scaledLimit (perMinute (GATEWAY_OWNER_RELAY_LIMITS a)) throttled \<noteq> 0"
  "scaledLimit (mintsPerHour (GATEWAY_OWNER_RELAY_LIMITS a)) throttled \<noteq> 0"
  using scaledLimit_pos [OF relay_limit_bounds(2) [of a, THEN conjunct1], of throttled]
    scaledLimit_pos [OF relay_limit_bounds(3) [of a, THEN conjunct1], of throttled] by linarith+

lemmas step_log_simps = other_logs admitAndReserve_log releaseRelay_def cancelManagedRequest_def
  gateAlarm_def evictGate_def Let_def

lemma other_step_log:
  assumes "relay_cap op = 0"
  shows "gate_relay_admissions (gate_step op now g) = gate_relay_admissions g"
  using assms by (cases op) (auto simp: step_log_simps split: sum.split)

lemma other_step_mint_log:
  assumes "mint_cap op = 0"
  shows "gate_mint_admissions (gate_step op now g) = gate_mint_admissions g"
proof (cases op)
  case (GAdmitRelay aud i throttled)
  then show ?thesis
    using admitRelaySync_frame [of aud i throttled now g]
    by (cases "admitRelaySync aud i throttled now g") simp
qed (use assms in \<open>auto simp: step_log_simps split: sum.split\<close>)

lemma relay_step_log:
  assumes "relay_cap op \<noteq> 0"
  shows "gate_relay_admissions (gate_step op now g) =
      filter (\<lambda>t. now - MINUTE_MS < t) (gate_relay_admissions g) @
      (if relay_counted op now g then [now] else []) \<and>
    (relay_counted op now g \<longrightarrow>
      int (length (filter (\<lambda>t. now - MINUTE_MS < t) (gate_relay_admissions g))) < relay_cap op)"
proof (cases op)
  case (GAdmitRelay aud i throttled)
  then show ?thesis
    using admitRelaySync_log [of aud i throttled now g]
    by (cases "admitRelaySync aud i throttled now g") auto
next
  case (GAdmitAndReserve args)
  then show ?thesis
    using admitRelaySync_log [of "aa_audience args" "admission_id args" "aa_throttled args" now g]
    by (cases "admitRelaySync (aa_audience args) (admission_id args) (aa_throttled args) now g")
      (auto simp: admitAndReserve_log)
qed (use assms in simp_all)

lemma mint_step_log:
  assumes "mint_cap op \<noteq> 0"
  shows "gate_mint_admissions (gate_step op now g) =
      filter (\<lambda>t. now - HOUR_MS < t) (gate_mint_admissions g) @
      (if mint_counted op now g then [now] else []) \<and>
    (mint_counted op now g \<longrightarrow>
      int (length (filter (\<lambda>t. now - HOUR_MS < t) (gate_mint_admissions g))) < mint_cap op)"
  using assms by (cases op) (auto simp: gateAdmitMint_def Let_def sql_delete_def not_le)

lemma counted_cap:
  "relay_counted op now g \<Longrightarrow> relay_cap op \<noteq> 0" "mint_counted op now g \<Longrightarrow> mint_cap op \<noteq> 0"
  by (cases op; simp)+

interpretation relay_minute: sliding_window relay_minute_step gate_relay_admissions relay_cap
  MINUTE_MS MINUTE_MS
proof unfold_locales
  show "0 < MINUTE_MS" "MINUTE_MS \<le> MINUTE_MS" by (simp_all add: MINUTE_MS_def)
next
  fix op now g g'
  show "relay_minute_step op now g = (False, g') \<Longrightarrow> gate_relay_admissions g' = gate_relay_admissions g \<or>
      gate_relay_admissions g' = filter (\<lambda>a. now - MINUTE_MS < a) (gate_relay_admissions g)"
    by (cases "relay_cap op = 0")
      (auto simp: relay_minute_step_def other_step_log dest: relay_step_log [of op now g])
next
  fix op now g g'
  show "relay_minute_step op now g = (True, g') \<Longrightarrow>
      gate_relay_admissions g' = filter (\<lambda>a. now - MINUTE_MS < a) (gate_relay_admissions g) @ [now] \<and>
      int (length (filter (\<lambda>a. now - MINUTE_MS < a) (gate_relay_admissions g))) < relay_cap op"
    using counted_cap(1) [of op now g] relay_step_log [of op now g] by (auto simp: relay_minute_step_def)
qed

interpretation mint_hour: sliding_window mint_hour_step gate_mint_admissions mint_cap HOUR_MS HOUR_MS
proof unfold_locales
  show "0 < HOUR_MS" "HOUR_MS \<le> HOUR_MS" by (simp_all add: HOUR_MS_def)
next
  fix op now g g'
  show "mint_hour_step op now g = (False, g') \<Longrightarrow> gate_mint_admissions g' = gate_mint_admissions g \<or>
      gate_mint_admissions g' = filter (\<lambda>a. now - HOUR_MS < a) (gate_mint_admissions g)"
    by (cases "mint_cap op = 0")
      (auto simp: mint_hour_step_def other_step_mint_log dest: mint_step_log [of op now g])
next
  fix op now g g'
  show "mint_hour_step op now g = (True, g') \<Longrightarrow>
      gate_mint_admissions g' = filter (\<lambda>a. now - HOUR_MS < a) (gate_mint_admissions g) @ [now] \<and>
      int (length (filter (\<lambda>a. now - HOUR_MS < a) (gate_mint_admissions g))) < mint_cap op"
    using counted_cap(2) [of op now g] mint_step_log [of op now g] by (auto simp: mint_hour_step_def)
qed

fun op_audience :: "gate_op \<Rightarrow> string option" where
  "op_audience (GAdmitRelay aud i throttled) = Some aud"
| "op_audience (GAdmitAndReserve args) = Some (aa_audience args)"
| "op_audience (GAdmitMint aud throttled) = Some aud"
| "op_audience _ = None"

lemma op_caps:
  assumes "\<forall>aud. op_audience op = Some aud \<longrightarrow> limitsAudienceFor aud = a"
  shows "relay_cap op \<le> perMinute (GATEWAY_OWNER_RELAY_LIMITS a)"
    and "mint_cap op \<le> mintsPerHour (GATEWAY_OWNER_RELAY_LIMITS a)"
  using assms relay_limit_bounds [of a] scaledLimit_le by (cases op; auto)+

subsection \<open>Slots, isolation and tombstones\<close>

lemma reserve_local:
  "ledger_of j (snd (ownerReserveSync args now st)) \<noteq> ledger_of j st \<Longrightarrow> j = ra_jti args"
  using ownerReserve_refines [of args now st _ _ "as_cap_ledger (ra_jti args) st"]
  by (metis as_cap_ledger_core prod.collapse)

lemma settle_local:
  "ledger_of j (snd (ownerSettle jti args st)) \<noteq> ledger_of j st \<Longrightarrow> j = jti"
  using ownerSettle_refines [of jti args st _ _ "as_cap_ledger jti st"]
  by (metis as_cap_ledger_core prod.collapse)

lemma capability_key_inj [simp]:
  "capability_key g j = capability_key g' j' \<longleftrightarrow> g = g' \<and> j = j'"
  by (simp add: capability_key_def)

lemma admitAndReserve_ledger_of:
  "ledger_of k (gate_ledger (snd (admitAndReserve args now g))) \<noteq> ledger_of k (gate_ledger g) \<Longrightarrow>
   k = capability_key (aa_generation args) (ra_jti (aa_reservation args))"
proof -
  obtain res g1 where g1: "admitRelaySync (aa_audience args) (admission_id args)
      (aa_throttled args) now g = (res, g1)" by fastforce
  then have "gate_ledger g1 = gate_ledger g" using admitRelaySync_frame by blast
  then show "ledger_of k (gate_ledger (snd (admitAndReserve args now g))) \<noteq>
      ledger_of k (gate_ledger g) \<Longrightarrow> ?thesis"
    using reserve_local [of k "(aa_reservation args)\<lparr>ra_requestId := aa_requestId args,
        ra_jti := capability_key (aa_generation args) (ra_jti (aa_reservation args))\<rparr>" now
        "gate_ledger g"]
    by (simp add: admitAndReserve_def g1 Let_def releaseRelay_def
        split: prod.splits gate_admission.splits if_splits)
qed

lemma settleCapability_ledger:
  "gate_ledger (snd (settleCapability gen jti args g)) =
     snd (ownerSettle (capability_key gen jti) args (gate_ledger g))"
  by (simp add: settleCapability_def split: prod.split)

text \<open>
  What a cancelled request leaves until its capability expires: one tombstone with that expiry, and
  no controller whose signal is not aborted.
\<close>

definition tombstone :: "string \<Rightarrow> ms \<Rightarrow> owner_relay_gate \<Rightarrow> bool" where
  "tombstone key e g \<longleftrightarrow>
     (key, e) \<in> set (gate_cancellations g) \<and>
     (\<forall>c \<in> set (gate_controllers g). fst c = key \<longrightarrow> mc_aborted (snd c))"

definition uniform_expiry :: "string \<Rightarrow> ms \<Rightarrow> owner_relay_gate \<Rightarrow> bool" where
  "uniform_expiry key e g \<longleftrightarrow> (\<forall>c \<in> set (gate_cancellations g). fst c = key \<longrightarrow> snd c = e)"

definition consistent_cancel :: "string \<Rightarrow> ms \<Rightarrow> gate_op \<Rightarrow> bool" where
  "consistent_cancel key e op \<longleftrightarrow>
     (case op of GCancel ok i \<Rightarrow> managedCancellationKey i = key \<longrightarrow> ci_expiresAt i = e | _ \<Rightarrow> True)"

lemma armCancellationAlarm_frame [simp]:
  "gate_cancellations (armCancellationAlarm now g) = gate_cancellations g"
  "gate_controllers (armCancellationAlarm now g) = gate_controllers g"
  by (simp_all add: armCancellationAlarm_def Let_def split: option.split)

lemma cancellation_frame [simp]:
  "gate_cancellations (snd (admitAndReserve args now g)) = gate_cancellations g"
  "gate_controllers (snd (admitAndReserve args now g)) = gate_controllers g"
  "gate_cancellations (snd (admitRelaySync aud i throttled now g)) = gate_cancellations g"
  "gate_controllers (snd (admitRelaySync aud i throttled now g)) = gate_controllers g"
  "gate_cancellations (snd (settleCapability gen jti sargs g)) = gate_cancellations g"
  "gate_controllers (snd (settleCapability gen jti sargs g)) = gate_controllers g"
  "gate_cancellations (snd (gateAdmitMint aud throttled now g)) = gate_cancellations g"
  "gate_controllers (snd (gateAdmitMint aud throttled now g)) = gate_controllers g"
  "gate_cancellations (releaseManagedRequest key g) = gate_cancellations g"
  "gate_cancellations (snd (beginManagedRequest ident now g)) = gate_cancellations g"
proof -
  have frame: "gate_cancellations (snd (admitRelaySync aud i throttled now g)) = gate_cancellations g \<and>
      gate_controllers (snd (admitRelaySync aud i throttled now g)) = gate_controllers g"
    for aud i throttled
    using admitRelaySync_frame [of aud i throttled now g, OF prod.collapse [symmetric]] by simp
  obtain res g1 where g1: "admitRelaySync (aa_audience args) (admission_id args)
      (aa_throttled args) now g = (res, g1)" by fastforce
  show "gate_cancellations (snd (admitAndReserve args now g)) = gate_cancellations g"
    "gate_controllers (snd (admitAndReserve args now g)) = gate_controllers g"
    using frame [of "aa_audience args" "admission_id args" "aa_throttled args"]
    by (simp_all add: admitAndReserve_def g1 Let_def releaseRelay_def
        split: prod.split gate_admission.split)
  show "gate_cancellations (snd (admitRelaySync aud i throttled now g)) = gate_cancellations g"
    "gate_controllers (snd (admitRelaySync aud i throttled now g)) = gate_controllers g"
    using frame by simp_all
qed (simp_all add: settleCapability_def gateAdmitMint_def releaseManagedRequest_def
    beginManagedRequest_def Let_def split: prod.split option.split)

lemma set_upsert:
  "set (upsertCancellation key e t) =
     (if key \<in> fst ` set t then (\<lambda>c. if fst c = key then (fst c, min (snd c) e) else c) ` set t
      else insert (key, e) (set t))"
  by (auto simp: upsertCancellation_def set_sql_update find_row_None dest: find_row_Some
      split: option.split)

lemma step_uniform:
  assumes "uniform_expiry key e g" and "consistent_cancel key e op"
  shows "uniform_expiry key e (gate_step op now g)"
  using assms
  by (cases op) (auto simp: uniform_expiry_def consistent_cancel_def cancelManagedRequest_def
      releaseRelay_def gateAlarm_def evictGate_def Let_def set_upsert split: sum.split if_splits)

lemma begin_tombstone:
  "tombstone key e g \<Longrightarrow> now < e \<Longrightarrow> managedCancellationKey i = key \<Longrightarrow>
   beginManagedRequest i now g = (None, g)"
  by (auto simp: tombstone_def beginManagedRequest_def find_None_iff)

lemma begin_other:
  assumes "tombstone key e g" and "managedCancellationKey i \<noteq> key"
  shows "tombstone key e (snd (beginManagedRequest i now g))"
  using assms
  by (auto simp: tombstone_def beginManagedRequest_def Let_def set_sql_update split: option.split)

lemma step_tombstone:
  assumes "tombstone key e g" "uniform_expiry key e g" "consistent_cancel key e op" "now < e"
  shows "tombstone key e (gate_step op now g)"
proof (cases op)
  case (GBegin i)
  then show ?thesis
    using assms(1,4) begin_tombstone [of key e g now i] begin_other [of key e g i now]
    by (cases "managedCancellationKey i = key") auto
next
  case (GCancel ok i)
  then show ?thesis
    using assms
    by (force simp: tombstone_def uniform_expiry_def consistent_cancel_def cancelManagedRequest_def
        Let_def set_upsert set_sql_update)
next
  case (GReleaseManaged k)
  then show ?thesis
    using assms(1)
    by (auto simp: tombstone_def releaseManagedRequest_def set_sql_update split: option.split)
qed (use assms in \<open>auto simp: tombstone_def releaseRelay_def gateAlarm_def evictGate_def
      split: sum.split\<close>)

lemma run_tombstone:
  assumes "tombstone key e g" "uniform_expiry key e g"
    and "\<forall>(op, t) \<in> set ops. consistent_cancel key e op \<and> t < e"
  shows "tombstone key e (gate_run ops g)"
  using assms
  by (induction ops g rule: gate_run.induct) (simp_all add: step_tombstone step_uniform)

lemma run_uniform:
  assumes "uniform_expiry key e g" and "\<forall>(op, t) \<in> set ops. consistent_cancel key e op"
  shows "uniform_expiry key e (gate_run ops g)"
  using assms by (induction ops g rule: gate_run.induct) (simp_all add: step_uniform)

lemma cancel_tombstone:
  assumes "uniform_expiry (managedCancellationKey i) (ci_expiresAt i) g" and "now < ci_expiresAt i"
  shows "tombstone (managedCancellationKey i) (ci_expiresAt i) (gate_step (GCancel True i) now g)"
  using assms
  by (force simp: tombstone_def uniform_expiry_def cancelManagedRequest_def Let_def set_upsert
      set_sql_update)

subsection \<open>Properties\<close>

text \<open>
  whatever an owner's clients do, in any order and with evictions in between, the gate keeps its
  invariant: at most eight requests are in flight, each under one id; every capability's ledger is
  well formed; every controller is referenced; and whenever ledger rows or cancellations are left to
  collect, an alarm is scheduled.
\<close>

lemma relay_gate_reachable_wf: "relay_gate_wf (gate_run ops empty_gate)"
  by (rule gate_run_wf) (rule empty_gate_wf)

text \<open>
  an owner of tier \<open>a\<close> is never admitted to more relayed requests in a rolling minute, nor to
  more minted capabilities in a rolling hour, than the tier's policy says, whatever else reaches the
  gate in between.
\<close>

lemma owner_relay_rate:
  assumes "sorted (map snd calls)"
    and "\<forall>c \<in> set calls. \<forall>aud. op_audience (fst c) = Some aud \<longrightarrow> limitsAudienceFor aud = a"
  shows "in_window MINUTE_MS t (fst (admissions relay_minute_step calls empty_gate))
           \<le> perMinute (GATEWAY_OWNER_RELAY_LIMITS a) \<and>
         in_window HOUR_MS t (fst (admissions mint_hour_step calls empty_gate))
           \<le> mintsPerHour (GATEWAY_OWNER_RELAY_LIMITS a)"
  using assms relay_limit_bounds [of a]
  by (auto intro!: relay_minute.rate_bound mint_hour.rate_bound op_caps simp: empty_gate_def)

text \<open>
  admission and reservation agree. A request that the owner gate refuses touches no ledger and
  holds no slot; a request that passes holds a slot exactly when its reservation was granted or it is a
  retry of a request already in flight, so a refused or replayed reservation never leaks a slot.
\<close>

lemma admit_and_reserve_slots:
  "case admitAndReserve args now g of
     ((GateOk duplicate, reservation), g') \<Rightarrow>
       (\<exists>r. reservation = Some r \<and>
          (admission_id args \<in> fst ` set (gate_in_flight g') \<longleftrightarrow> is_reserved r \<or> duplicate))
   | ((_, reservation), g') \<Rightarrow>
       reservation = None \<and> admission_id args \<notin> fst ` set (gate_in_flight g') \<and>
       (\<forall>j. ledger_of j (gate_ledger g') = ledger_of j (gate_ledger g))"
proof -
  obtain res g1 where g1: "admitRelaySync (aa_audience args) (admission_id args)
      (aa_throttled args) now g = (res, g1)" by fastforce
  have slot: "admission_id args \<in> fst ` set (gate_in_flight g1) \<longleftrightarrow> (\<exists>dup. res = GateOk dup)"
    using g1 by (auto simp: admitRelaySync_def Let_def find_row_None simp del: not_None_eq
        split: if_splits)
  have "gate_ledger g1 = gate_ledger g" using admitRelaySync_frame [OF g1] by simp
  then show ?thesis
    using slot
    by (auto simp: admitAndReserve_def g1 Let_def releaseRelay_def split: gate_admission.split prod.split)
qed

text \<open>
  the ledgers of different capabilities never interfere: admitting or settling a request of one
  generation and capability id changes no row of any other pair, although all pairs share the store.
\<close>

lemma owner_capabilities_isolated:
  "{k. ledger_of (capability_key (fst k) (snd k)) (gate_ledger (snd (admitAndReserve args now g)))
       \<noteq> ledger_of (capability_key (fst k) (snd k)) (gate_ledger g)}
     \<subseteq> {(aa_generation args, ra_jti (aa_reservation args))} \<and>
   {k. ledger_of (capability_key (fst k) (snd k)) (gate_ledger (snd (settleCapability gen jti sargs g)))
       \<noteq> ledger_of (capability_key (fst k) (snd k)) (gate_ledger g)}
     \<subseteq> {(gen, jti)}"
  by (auto dest!: admitAndReserve_ledger_of settle_local simp: settleCapability_ledger)

text \<open>
  C11: once a managed request is cancelled it stays cancelled until its capability expires: whatever
  happens in between, a later attempt to begin it is refused and every controller it still has is
  aborted. The hypothesis on the other cancellations holds because a capability has one expiry.
\<close>

theorem canceled_request_never_begins:
  assumes "\<forall>(op, t) \<in> set (before @ after).
      consistent_cancel (managedCancellationKey i) (ci_expiresAt i) op \<and> t < ci_expiresAt i"
    and "t0 < ci_expiresAt i" and "now < ci_expiresAt i"
  shows "let g = gate_run (before @ (GCancel True i, t0) # after) empty_gate in
    fst (beginManagedRequest i now g) = None \<and>
    (\<forall>c \<in> set (gate_controllers g). fst c = managedCancellationKey i \<longrightarrow> mc_aborted (snd c))"
proof -
  let ?k = "managedCancellationKey i" and ?e = "ci_expiresAt i"
  let ?g0 = "gate_run before empty_gate"
  have u0: "uniform_expiry ?k ?e ?g0"
    using assms(1) by (intro run_uniform) (auto simp: uniform_expiry_def empty_gate_def)
  have u1: "uniform_expiry ?k ?e (gate_step (GCancel True i) t0 ?g0)"
    by (rule step_uniform [OF u0]) (simp add: consistent_cancel_def)
  have "tombstone ?k ?e (gate_run after (gate_step (GCancel True i) t0 ?g0))"
    using assms(1) by (intro run_tombstone cancel_tombstone u0 u1 assms(2)) auto
  then have "tombstone ?k ?e (gate_run (before @ (GCancel True i, t0) # after) empty_gate)"
    by (simp add: gate_run_append)
  then show ?thesis
    using begin_tombstone [OF _ assms(3) refl] by (simp add: Let_def tombstone_def)
qed

definition sample_identity :: cancellation_identity where
  "sample_identity = \<lparr>ci_ownerId = ''o'', ci_ownerGeneration = ''g'', ci_capabilityId = ''j'',
     ci_requestId = ''r'', ci_turnId = ''t'', ci_conversationId = ''c'', ci_expiresAt = 100\<rparr>"

theorem canceled_request_never_begins_witness:
  "fst (beginManagedRequest sample_identity 50
     (gate_run ([(GBegin sample_identity, 1)] @ (GCancel True sample_identity, 2) #
        [(GAlarm, 20), (GEvict, 30)]) empty_gate)) = None"
  using canceled_request_never_begins [of "[(GBegin sample_identity, 1)]" "[(GAlarm, 20), (GEvict, 30)]"
      sample_identity 2 50]
  by (simp add: Let_def consistent_cancel_def sample_identity_def)

end
