(* ===== verification/Owner_Generation.thy ===== *)
theory Owner_Generation
  imports Prelude
begin

text \<open>
  The decisions of an owner's lifecycle fence, \<open>workers/cloud-builder/src/owner-generation.ts\<close>: how a
  generation is read from a request, and what a purge \<open>begin\<close> and \<open>release\<close> do in each state of the
  fence. \<open>undefined\<close> is \<open>None\<close>; a present value of any JSON type is \<open>Some\<close>.
\<close>

definition normalizeOwnerGeneration :: "json option \<Rightarrow> string option" where
  "normalizeOwnerGeneration value =
     (case value of
        Some (JStr s) \<Rightarrow>
          (let normalized = js_trim s in
           if normalized \<noteq> [] \<and> length normalized \<le> 512 then Some normalized else None)
      | _ \<Rightarrow> None)"

definition ownerGenerationMatches :: "string option \<Rightarrow> json option \<Rightarrow> bool" where
  "ownerGenerationMatches expected incoming \<longleftrightarrow>
     expected \<noteq> None \<and> expected \<noteq> Some [] \<and> normalizeOwnerGeneration incoming = expected"

definition mayReusePendingOwnerLookup :: "bool \<Rightarrow> bool" where
  "mayReusePendingOwnerLookup forceGenerationRefresh = (\<not> forceGenerationRefresh)"

datatype purge_mode = Temporary | Permanent

datatype fence_state = FenceOpen | FenceBlocked

datatype begin_disposition =
    BeginStart purge_mode bool
  | BeginResume bool bool
  | BeginReject

record begin_args =
  ba_state :: fence_state
  ba_generation :: string
  ba_beginRequestId :: "string option"
  ba_lastReleasedGeneration :: "string option"
  ba_rejoinedFromGeneration :: "string option"
  ba_requestId :: "json option"
  ba_expectedGeneration :: "json option"
  ba_requestedMode :: purge_mode

definition ownerPurgeBeginDisposition :: "begin_args \<Rightarrow> begin_disposition" where
  "ownerPurgeBeginDisposition args =
     (let requestId = normalizeOwnerGeneration (ba_requestId args);
          hasExpectedGeneration = (ba_expectedGeneration args \<noteq> None);
          expectedGeneration = normalizeOwnerGeneration (ba_expectedGeneration args)
      in if requestId = None \<or> (hasExpectedGeneration \<and> expectedGeneration = None)
         then BeginReject
         else if ba_state args = FenceOpen then
           (if \<not> hasExpectedGeneration then BeginStart (ba_requestedMode args) False
            else if expectedGeneration = ba_lastReleasedGeneration args
            then BeginStart Temporary True
            else BeginReject)
         else if expectedGeneration = None then
           (if requestId = ba_beginRequestId args
            then BeginResume (ba_requestedMode args = Permanent) False
            else BeginReject)
         else if expectedGeneration = Some (ba_generation args)
         then BeginResume (ba_requestedMode args = Permanent) False
         else if expectedGeneration = ba_rejoinedFromGeneration args
         then BeginResume False True
         else BeginReject)"

datatype release_disposition = Release | AlreadyReleased | ReleaseReject

definition ownerPurgeReleaseDisposition ::
  "fence_state \<Rightarrow> purge_mode option \<Rightarrow> string \<Rightarrow> string option \<Rightarrow> json option \<Rightarrow> nat \<Rightarrow>
   release_disposition" where
  "ownerPurgeReleaseDisposition state mode generation lastReleased requested activeLeaseCount =
     (let requestedGeneration = normalizeOwnerGeneration requested in
      if requestedGeneration = None then ReleaseReject
      else if state = FenceOpen \<and> lastReleased = requestedGeneration then AlreadyReleased
      else if state = FenceBlocked \<and> mode = Some Temporary \<and>
              requestedGeneration = Some generation \<and> activeLeaseCount = 0
      then Release
      else ReleaseReject)"

lemma normalizeOwnerGeneration_None [simp]: "normalizeOwnerGeneration None = None"
  by (simp add: normalizeOwnerGeneration_def)

lemma normalizeOwnerGeneration_id:
  "normalizeOwnerGeneration v = Some g \<Longrightarrow> normalizeOwnerGeneration (Some (JStr g)) = Some g"
  by (auto simp: normalizeOwnerGeneration_def Let_def split: option.splits json.splits if_splits)

lemma release_needs:
  "ownerPurgeReleaseDisposition state mode generation lastReleased requested n = Release \<longleftrightarrow>
     state = FenceBlocked \<and> mode = Some Temporary \<and>
     normalizeOwnerGeneration requested = Some generation \<and> n = 0"
  by (auto simp: ownerPurgeReleaseDisposition_def Let_def)

lemma begin_start_open:
  "ownerPurgeBeginDisposition args = BeginStart mode rejoined \<Longrightarrow>
   ba_state args = FenceOpen \<and> normalizeOwnerGeneration (ba_requestId args) \<noteq> None \<and>
   (rejoined \<longrightarrow> mode = Temporary \<and>
      normalizeOwnerGeneration (ba_expectedGeneration args) = ba_lastReleasedGeneration args \<and>
      ba_lastReleasedGeneration args \<noteq> None) \<and>
   (\<not> rejoined \<longrightarrow> ba_expectedGeneration args = None \<and> mode = ba_requestedMode args)"
  by (auto simp: ownerPurgeBeginDisposition_def Let_def split: if_splits)

lemma begin_resume_blocked:
  "ownerPurgeBeginDisposition args = BeginResume upgrade rejoined \<Longrightarrow> ba_state args = FenceBlocked"
  by (cases "ba_state args") (auto simp: ownerPurgeBeginDisposition_def Let_def split: if_splits)

end
