(* ===== verification/Owner_Fence_Store.thy ===== *)
theory Owner_Fence_Store
  imports Owner_Generation "HOL-Library.Char_ord" "HOL-Library.List_Lexorder"
    "HOL-Library.Product_Lexorder"
begin

text \<open>
  The lease table of one owner fence, \<open>workers/cloud-builder/src/owner-fence-store.ts\<close>. Every
  operation is synchronous on the object's SQLite; a thrown \<open>OwnerFenceLeaseValidationError\<close> is the
  left value of the result. The store's options are the defaults, which are what the fence uses. The
  CHECK constraints of the table are the types of the row, and its primary key is never violated
  because an insert follows a look-up of the same id.
\<close>

definition OWNER_FENCE_LEASE_SCHEMA_VERSION :: int where "OWNER_FENCE_LEASE_SCHEMA_VERSION = 1"
definition OWNER_FENCE_DEFAULT_MAX_LEASE_MS :: ms where
  "OWNER_FENCE_DEFAULT_MAX_LEASE_MS = 30 * 60000"
definition OWNER_FENCE_CLOCK_SKEW_MS :: ms where "OWNER_FENCE_CLOCK_SKEW_MS = 5 * 60000"
definition OWNER_FENCE_RETIRED_RETENTION_MS :: ms where
  "OWNER_FENCE_RETIRED_RETENTION_MS = 2 * 60 * 60000"
definition OWNER_FENCE_RETIRED_PRUNE_LIMIT :: nat where "OWNER_FENCE_RETIRED_PRUNE_LIMIT = 256"
definition OWNER_FENCE_LEGACY_GRACE_MS :: ms where "OWNER_FENCE_LEGACY_GRACE_MS = 60 * 60000"
definition OWNER_FENCE_LEGACY_MIRROR_MAX_ENTRIES :: nat where
  "OWNER_FENCE_LEGACY_MIRROR_MAX_ENTRIES = 512"

lemmas fence_constants = OWNER_FENCE_LEASE_SCHEMA_VERSION_def OWNER_FENCE_DEFAULT_MAX_LEASE_MS_def
  OWNER_FENCE_CLOCK_SKEW_MS_def OWNER_FENCE_RETIRED_RETENTION_MS_def
  OWNER_FENCE_RETIRED_PRUNE_LIMIT_def OWNER_FENCE_LEGACY_GRACE_MS_def
  OWNER_FENCE_LEGACY_MIRROR_MAX_ENTRIES_def

datatype lease_namespace = NsBuild | NsOrchestrator | NsActivity

datatype lease_role = RoleRun | RoleAux | RoleOrchestrator | RoleActivity

datatype lease_state = LeaseActive | LeaseRetired

record lease_identity =
  leaseId :: string
  ownerId :: string
  ownerGeneration :: string
  reservationGeneration :: string
  sessionId :: string
  turnId :: string
  namespace :: lease_namespace
  role :: lease_role

record fence_lease = lease_identity +
  lstate :: lease_state
  expiresAt :: ms
  createdAt :: ms
  renewedAt :: ms
  retiredAt :: "ms option"

record legacy_lease =
  lg_leaseId :: string
  lg_sessionId :: string
  lg_turnId :: string
  lg_namespace :: string
  lg_role :: string
  lg_ownerGeneration :: "string option"
  lg_reservationGeneration :: "string option"
  lg_expiresAt :: "jsnum option"

type_synonym legacy_mirror = "(string \<times> legacy_lease) list"

record fence_store =
  fs_version :: int
  fs_leases :: "fence_lease list"

definition empty_fence_store :: fence_store where
  "empty_fence_store = \<lparr>fs_version = 0, fs_leases = []\<rparr>"

datatype fence_error = ValidationError string | MirrorExceeded | RetirementFailed | HookFailed

subsection \<open>Validation\<close>

fun namespace_text :: "lease_namespace \<Rightarrow> string" where
  "namespace_text NsBuild = ''build''"
| "namespace_text NsOrchestrator = ''orchestrator''"
| "namespace_text NsActivity = ''activity''"

fun role_text :: "lease_role \<Rightarrow> string" where
  "role_text RoleRun = ''run''"
| "role_text RoleAux = ''aux''"
| "role_text RoleOrchestrator = ''orchestrator''"
| "role_text RoleActivity = ''activity''"

definition parse_namespace :: "string \<Rightarrow> lease_namespace option" where
  "parse_namespace s = find (\<lambda>n. namespace_text n = s) [NsBuild, NsOrchestrator, NsActivity]"

definition parse_role :: "string \<Rightarrow> lease_role option" where
  "parse_role s =
     find (\<lambda>n. role_text n = s) [RoleRun, RoleAux, RoleOrchestrator, RoleActivity]"

text \<open>\<open>Number.isSafeInteger(value) && value >= 0\<close>, giving the integer.\<close>

definition safeTime :: "jsnum \<Rightarrow> ms option" where
  "safeTime v =
     (case v of
        Fin x \<Rightarrow> if of_int \<lfloor>x\<rfloor> = x \<and> safe_integer \<lfloor>x\<rfloor> \<and> 0 \<le> \<lfloor>x\<rfloor> then Some \<lfloor>x\<rfloor> else None
      | _ \<Rightarrow> None)"

definition assertSafeTime :: "ms \<Rightarrow> bool" where
  "assertSafeTime value \<longleftrightarrow> safe_integer value \<and> 0 \<le> value"

definition assertText :: "string \<Rightarrow> bool" where
  "assertText value \<longleftrightarrow>
     1 \<le> length value \<and> length value \<le> 512 \<and> (\<forall>c \<in> set value. \<not> js_control c)"

definition assertIdentity :: "lease_identity \<Rightarrow> string option" where
  "assertIdentity i =
     map_option fst (find (\<lambda>x. \<not> assertText (snd x))
       [(''leaseId'', leaseId i), (''ownerId'', ownerId i),
        (''ownerGeneration'', ownerGeneration i),
        (''reservationGeneration'', reservationGeneration i),
        (''sessionId'', sessionId i), (''turnId'', turnId i)])"

definition exactIdentityMatches :: "fence_lease \<Rightarrow> lease_identity \<Rightarrow> bool" where
  "exactIdentityMatches l i \<longleftrightarrow>
     leaseId l = leaseId i \<and> ownerId l = ownerId i \<and>
     ownerGeneration l = ownerGeneration i \<and>
     reservationGeneration l = reservationGeneration i \<and>
     sessionId l = sessionId i \<and> turnId l = turnId i \<and> namespace l = namespace i \<and>
     role l = role i"

definition boundedExpiry :: "jsnum \<Rightarrow> ms \<Rightarrow> ms \<Rightarrow> fence_error + ms" where
  "boundedExpiry requested now maxLeaseMs =
     (if \<not> assertSafeTime now then Inl (ValidationError ''now is invalid.'')
      else case safeTime requested of
             None \<Rightarrow> Inl (ValidationError ''expiresAt is invalid.'')
           | Some e \<Rightarrow>
               if e \<le> now \<or> e > now + maxLeaseMs + OWNER_FENCE_CLOCK_SKEW_MS
               then Inl (ValidationError ''expiresAt is out of bounds.'')
               else Inr (min e (now + maxLeaseMs)))"

subsection \<open>Operations\<close>

definition initializeStore :: "ms \<Rightarrow> fence_store \<Rightarrow> fence_error + fence_store" where
  "initializeStore now s =
     (if \<not> assertSafeTime now then Inl (ValidationError ''now is invalid.'')
      else Inr (if fs_version s < OWNER_FENCE_LEASE_SCHEMA_VERSION
                then s\<lparr>fs_version := OWNER_FENCE_LEASE_SCHEMA_VERSION\<rparr> else s))"

abbreviation leaseRow :: "string \<Rightarrow> fence_store \<Rightarrow> fence_lease option" where
  "leaseRow i s \<equiv> find_row leaseId i (fs_leases s)"

definition leaseOf :: "string \<Rightarrow> fence_store \<Rightarrow> fence_error + fence_lease option" where
  "leaseOf i s =
     (if assertText i then Inr (leaseRow i s) else Inl (ValidationError ''leaseId is invalid.''))"

definition is_active :: "fence_lease \<Rightarrow> bool" where
  "is_active l \<longleftrightarrow> lstate l = LeaseActive"

definition due :: "ms \<Rightarrow> fence_lease \<Rightarrow> bool" where
  "due now l \<longleftrightarrow> is_active l \<and> expiresAt l \<le> now"

definition retire :: "ms \<Rightarrow> fence_lease \<Rightarrow> fence_lease" where
  "retire now l = l\<lparr>lstate := LeaseRetired, retiredAt := Some now\<rparr>"

definition expireDueLeases ::
  "ms \<Rightarrow> fence_store \<Rightarrow> fence_error + fence_lease list \<times> fence_store" where
  "expireDueLeases now s =
     (if \<not> assertSafeTime now then Inl (ValidationError ''now is invalid.'')
      else
        let dueRows = sort_key (\<lambda>l. (expiresAt l, leaseId l)) (filter (due now) (fs_leases s)) in
        if dueRows = [] then Inr ([], s)
        else Inr (map (retire now) dueRows,
                  s\<lparr>fs_leases := sql_update (due now) (retire now) (fs_leases s)\<rparr>))"

definition activeLease ::
  "string \<Rightarrow> ms \<Rightarrow> fence_store \<Rightarrow> fence_error + fence_lease option \<times> fence_store" where
  "activeLease i now s =
     (case expireDueLeases now s of
        Inl e \<Rightarrow> Inl e
      | Inr (_, s1) \<Rightarrow>
          (case leaseOf i s1 of
             Inl e \<Rightarrow> Inl e
           | Inr (Some l) \<Rightarrow> Inr (if is_active l then Some l else None, s1)
           | Inr None \<Rightarrow> Inr (None, s1)))"

definition active_rows :: "fence_store \<Rightarrow> fence_lease list" where
  "active_rows s = sort_key (\<lambda>l. (createdAt l, leaseId l)) (filter is_active (fs_leases s))"

definition activeLeases ::
  "ms \<Rightarrow> fence_store \<Rightarrow> fence_error + fence_lease list \<times> fence_store" where
  "activeLeases now s =
     (case expireDueLeases now s of Inl e \<Rightarrow> Inl e | Inr (_, s1) \<Rightarrow> Inr (active_rows s1, s1))"

definition activeLeaseCount :: "ms \<Rightarrow> fence_store \<Rightarrow> fence_error + nat \<times> fence_store" where
  "activeLeaseCount now s =
     (case expireDueLeases now s of
        Inl e \<Rightarrow> Inl e
      | Inr (_, s1) \<Rightarrow> Inr (length (filter is_active (fs_leases s1)), s1))"

datatype registration_result =
    Registered fence_lease
  | Replayed fence_lease
  | LeaseIdConflict fence_lease
  | LeaseRetiredConflict fence_lease

definition new_lease :: "lease_identity \<Rightarrow> ms \<Rightarrow> ms \<Rightarrow> fence_lease" where
  "new_lease i e now =
     \<lparr>leaseId = leaseId i, ownerId = ownerId i, ownerGeneration = ownerGeneration i,
      reservationGeneration = reservationGeneration i, sessionId = sessionId i,
      turnId = turnId i, namespace = namespace i, role = role i, lstate = LeaseActive,
      expiresAt = e, createdAt = now, renewedAt = now, retiredAt = None\<rparr>"

definition registerLeaseExactBounded ::
  "lease_identity \<Rightarrow> jsnum \<Rightarrow> ms \<Rightarrow> ms \<Rightarrow> fence_store \<Rightarrow>
   fence_error + registration_result \<times> fence_store" where
  "registerLeaseExactBounded i requested now maxLeaseMs s =
     (case assertIdentity i of
        Some field \<Rightarrow> Inl (ValidationError (field @ '' is invalid.''))
      | None \<Rightarrow>
          (case boundedExpiry requested now maxLeaseMs of
             Inl e \<Rightarrow> Inl e
           | Inr bounded \<Rightarrow>
               (case expireDueLeases now s of
                  Inl e \<Rightarrow> Inl e
                | Inr (_, s1) \<Rightarrow>
                    (case leaseRow (leaseId i) s1 of
                       Some existing \<Rightarrow>
                         Inr (if \<not> exactIdentityMatches existing i then LeaseIdConflict existing
                              else if \<not> is_active existing then LeaseRetiredConflict existing
                              else Replayed existing, s1)
                     | None \<Rightarrow>
                         Inr (Registered (new_lease i bounded now),
                              s1\<lparr>fs_leases := fs_leases s1 @ [new_lease i bounded now]\<rparr>)))))"

definition registerLeaseExact ::
  "lease_identity \<Rightarrow> jsnum \<Rightarrow> ms \<Rightarrow> fence_store \<Rightarrow>
   fence_error + registration_result \<times> fence_store" where
  "registerLeaseExact i requested now s =
     registerLeaseExactBounded i requested now OWNER_FENCE_DEFAULT_MAX_LEASE_MS s"

datatype mutation_result =
    Renewed fence_lease
  | Retired fence_lease
  | LeaseMissing
  | LeaseExpired fence_lease
  | AlreadyRetired fence_lease
  | LeaseIdentityMismatch fence_lease

definition update_active :: "string \<Rightarrow> (fence_lease \<Rightarrow> fence_lease) \<Rightarrow> fence_store \<Rightarrow> fence_store" where
  "update_active i f s =
     s\<lparr>fs_leases := sql_update (\<lambda>l. leaseId l = i \<and> is_active l) f (fs_leases s)\<rparr>"

definition retireExpired :: "string \<Rightarrow> ms \<Rightarrow> fence_store \<Rightarrow> fence_store" where
  "retireExpired i now s =
     s\<lparr>fs_leases := sql_update (\<lambda>l. leaseId l = i \<and> due now l) (retire now) (fs_leases s)\<rparr>"

definition renewLeaseExact ::
  "lease_identity \<Rightarrow> jsnum \<Rightarrow> ms \<Rightarrow> fence_store \<Rightarrow> fence_error + mutation_result \<times> fence_store" where
  "renewLeaseExact i requested now s =
     (case assertIdentity i of
        Some field \<Rightarrow> Inl (ValidationError (field @ '' is invalid.''))
      | None \<Rightarrow>
          (case boundedExpiry requested now OWNER_FENCE_DEFAULT_MAX_LEASE_MS of
             Inl e \<Rightarrow> Inl e
           | Inr bounded \<Rightarrow>
               (case leaseRow (leaseId i) s of
                  None \<Rightarrow> Inr (LeaseMissing, s)
                | Some existing \<Rightarrow>
                    if \<not> exactIdentityMatches existing i then Inr (LeaseIdentityMismatch existing, s)
                    else if \<not> is_active existing then Inr (AlreadyRetired existing, s)
                    else if expiresAt existing \<le> now
                    then let s1 = retireExpired (leaseId i) now s
                         in Inr (LeaseExpired (the (leaseRow (leaseId i) s1)), s1)
                    else let s1 = update_active (leaseId i)
                                    (\<lambda>l. l\<lparr>expiresAt := bounded, renewedAt := now\<rparr>) s
                         in Inr (Renewed (the (leaseRow (leaseId i) s1)), s1))))"

definition retireLeaseExact ::
  "lease_identity \<Rightarrow> ms \<Rightarrow> fence_store \<Rightarrow> fence_error + mutation_result \<times> fence_store" where
  "retireLeaseExact i now s =
     (case assertIdentity i of
        Some field \<Rightarrow> Inl (ValidationError (field @ '' is invalid.''))
      | None \<Rightarrow>
          if \<not> assertSafeTime now then Inl (ValidationError ''now is invalid.'')
          else
            (case leaseRow (leaseId i) s of
               None \<Rightarrow> Inr (LeaseMissing, s)
             | Some existing \<Rightarrow>
                 if \<not> exactIdentityMatches existing i then Inr (LeaseIdentityMismatch existing, s)
                 else if \<not> is_active existing then Inr (AlreadyRetired existing, s)
                 else let s1 = update_active (leaseId i) (retire now) s
                      in Inr (Retired (the (leaseRow (leaseId i) s1)), s1)))"

definition nextExpiry :: "fence_store \<Rightarrow> ms option" where
  "nextExpiry s = sql_min (map expiresAt (filter is_active (fs_leases s)))"

definition pruneRetiredLeases :: "ms \<Rightarrow> fence_store \<Rightarrow> fence_error + fence_store" where
  "pruneRetiredLeases now s =
     (if \<not> assertSafeTime now then Inl (ValidationError ''now is invalid.'')
      else
        let old = filter (\<lambda>l. lstate l = LeaseRetired \<and> retiredAt l \<noteq> None \<and>
                    the (retiredAt l) \<le> now - OWNER_FENCE_RETIRED_RETENTION_MS) (fs_leases s);
            chosen = map leaseId (take OWNER_FENCE_RETIRED_PRUNE_LIMIT
                       (sort_key (\<lambda>l. the (retiredAt l)) old))
        in Inr (s\<lparr>fs_leases := sql_delete (\<lambda>l. leaseId l \<in> set chosen) (fs_leases s)\<rparr>))"

definition ownerFenceLeaseToLegacyLease :: "fence_lease \<Rightarrow> legacy_lease" where
  "ownerFenceLeaseToLegacyLease l =
     \<lparr>lg_leaseId = leaseId l, lg_sessionId = sessionId l, lg_turnId = turnId l,
      lg_namespace = namespace_text (namespace l), lg_role = role_text (role l),
      lg_ownerGeneration = Some (ownerGeneration l),
      lg_reservationGeneration = Some (reservationGeneration l),
      lg_expiresAt = Some (Fin (of_int (expiresAt l)))\<rparr>"

definition mirror_of :: "fence_store \<Rightarrow> legacy_mirror" where
  "mirror_of s = map (\<lambda>l. (leaseId l, ownerFenceLeaseToLegacyLease l)) (active_rows s)"

text \<open>\<open>Inr (None, s)\<close> is the answer \<open>too_many_active_leases\<close>.\<close>

definition boundedLegacyActiveMirror ::
  "ms \<Rightarrow> fence_store \<Rightarrow> fence_error + legacy_mirror option \<times> fence_store" where
  "boundedLegacyActiveMirror now s =
     (case activeLeases now s of
        Inl e \<Rightarrow> Inl e
      | Inr (leases, s1) \<Rightarrow>
          if length leases > OWNER_FENCE_LEGACY_MIRROR_MAX_ENTRIES then Inr (None, s1)
          else Inr (Some (map (\<lambda>l. (leaseId l, ownerFenceLeaseToLegacyLease l)) leases), s1))"

subsection \<open>Migration of the legacy map\<close>

record migration_result =
  mg_inserted :: nat
  mg_replayed :: nat
  mg_expired :: nat
  mg_invalid :: "string list"
  mg_conflicts :: "string list"

definition legacy_expiry :: "ms \<Rightarrow> legacy_lease \<Rightarrow> ms option" where
  "legacy_expiry now lg =
     (case lg_expiresAt lg of
        None \<Rightarrow> Some (min (now + OWNER_FENCE_LEGACY_GRACE_MS) (now + OWNER_FENCE_LEGACY_GRACE_MS))
      | Some v \<Rightarrow>
          (case safeTime v of
             Some e \<Rightarrow> if e \<le> now then None else Some (min e (now + OWNER_FENCE_LEGACY_GRACE_MS))
           | None \<Rightarrow> None))"

definition migrateEntry ::
  "string \<Rightarrow> string \<Rightarrow> ms \<Rightarrow> string \<times> legacy_lease \<Rightarrow> migration_result \<times> fence_store \<Rightarrow>
   migration_result \<times> fence_store" where
  "migrateEntry owner fenceGeneration now entry acc =
     (case (entry, acc) of
        ((mapLeaseId, lg), (m, s)) \<Rightarrow>
          (case (lg_ownerGeneration lg, parse_namespace (lg_namespace lg), parse_role (lg_role lg)) of
             (Some gen, Some ns, Some rl) \<Rightarrow>
               if mapLeaseId \<noteq> lg_leaseId lg \<or> gen = []
               then (m\<lparr>mg_invalid := mg_invalid m @ [mapLeaseId]\<rparr>, s)
               else
                 (case legacy_expiry now lg of
                    None \<Rightarrow> (m\<lparr>mg_expired := mg_expired m + 1\<rparr>, s)
                  | Some e \<Rightarrow>
                      (case registerLeaseExactBounded
                              \<lparr>leaseId = lg_leaseId lg, ownerId = owner, ownerGeneration = gen,
                               reservationGeneration =
                                 coalesce (lg_reservationGeneration lg) fenceGeneration,
                               sessionId = lg_sessionId lg, turnId = lg_turnId lg,
                               namespace = ns, role = rl\<rparr>
                              (Fin (of_int e)) now OWNER_FENCE_LEGACY_GRACE_MS s of
                         Inl _ \<Rightarrow> (m\<lparr>mg_invalid := mg_invalid m @ [mapLeaseId]\<rparr>, s)
                       | Inr (Registered _, s1) \<Rightarrow> (m\<lparr>mg_inserted := mg_inserted m + 1\<rparr>, s1)
                       | Inr (Replayed _, s1) \<Rightarrow> (m\<lparr>mg_replayed := mg_replayed m + 1\<rparr>, s1)
                       | Inr (_, s1) \<Rightarrow> (m\<lparr>mg_conflicts := mg_conflicts m @ [mapLeaseId]\<rparr>, s1)))
           | _ \<Rightarrow> (m\<lparr>mg_invalid := mg_invalid m @ [mapLeaseId]\<rparr>, s)))"

text \<open>\<open>entries\<close> are the map's entries in the order of \<open>localeCompare\<close>.\<close>

definition migrateLegacyActiveMirror ::
  "string \<Rightarrow> string \<Rightarrow> legacy_mirror \<Rightarrow> ms \<Rightarrow> fence_store \<Rightarrow>
   fence_error + migration_result \<times> fence_store" where
  "migrateLegacyActiveMirror owner fenceGeneration entries now s =
     (if \<not> assertText owner then Inl (ValidationError ''ownerId is invalid.'')
      else if \<not> assertText fenceGeneration
      then Inl (ValidationError ''fenceGeneration is invalid.'')
      else if \<not> assertSafeTime now then Inl (ValidationError ''now is invalid.'')
      else Inr (fold (migrateEntry owner fenceGeneration now) entries
                  (\<lparr>mg_inserted = 0, mg_replayed = 0, mg_expired = 0, mg_invalid = [],
                    mg_conflicts = []\<rparr>, s)))"

subsection \<open>The invariant of the table\<close>

definition lease_ok :: "fence_lease \<Rightarrow> bool" where
  "lease_ok l \<longleftrightarrow>
     (is_active l \<longleftrightarrow> retiredAt l = None) \<and> renewedAt l < expiresAt l \<and>
     expiresAt l \<le> renewedAt l + OWNER_FENCE_LEGACY_GRACE_MS"

definition store_wf :: "fence_store \<Rightarrow> bool" where
  "store_wf s \<longleftrightarrow> distinct (map leaseId (fs_leases s)) \<and> (\<forall>l \<in> set (fs_leases s). lease_ok l)"

lemma retire_simps [simp]:
  "leaseId (retire now l) = leaseId l" "is_active (retire now l) = False"
  "expiresAt (retire now l) = expiresAt l" "retiredAt (retire now l) = Some now"
  "lease_identity.truncate (retire now l) = lease_identity.truncate l"
  by (simp_all add: retire_def is_active_def lease_identity.truncate_def)

lemma retire_ok: "lease_ok l \<Longrightarrow> lease_ok (retire now l)"
  by (auto simp: lease_ok_def retire_def is_active_def)

lemma expire_result:
  assumes "expireDueLeases now s = Inr (ds, s')"
  shows "s' = s\<lparr>fs_leases := sql_update (due now) (retire now) (fs_leases s)\<rparr>"
    and "ds = [] \<longleftrightarrow> s' = s"
proof -
  have neq: "retire now l \<noteq> l" if "due now l" for l
    using that by (metis due_def retire_simps(2))
  have none: "filter (due now) t = [] \<longleftrightarrow> sql_update (due now) (retire now) t = t" for t
    using neq by (auto simp: sql_update_eq_iff filter_empty_conv)
  show "s' = s\<lparr>fs_leases := sql_update (due now) (retire now) (fs_leases s)\<rparr>"
    using assms none [of "fs_leases s"]
    by (auto simp: expireDueLeases_def Let_def split: if_splits)
  show "ds = [] \<longleftrightarrow> s' = s"
    using assms none [of "fs_leases s"]
    by (cases s) (auto simp: expireDueLeases_def Let_def split: if_splits)
qed

lemma update_rows_wf:
  assumes "store_wf s" and "\<And>l. leaseId (f l) = leaseId l"
    and "\<And>l. l \<in> set (fs_leases s) \<Longrightarrow> p l \<Longrightarrow> lease_ok (f l)"
  shows "store_wf (s\<lparr>fs_leases := sql_update p f (fs_leases s)\<rparr>)"
  using assms by (auto simp: store_wf_def map_sql_update_key set_sql_update)

lemma expire_wf: "store_wf s \<Longrightarrow> expireDueLeases now s = Inr (ds, s') \<Longrightarrow> store_wf s'"
  using update_rows_wf [of s "retire now" "due now"] expire_result(1) [of now s ds s']
  by (auto simp: store_wf_def retire_ok)

lemma boundedExpiry_bounds:
  assumes "boundedExpiry v now m = Inr e" and "0 < m"
  shows "now < e \<and> e \<le> now + m \<and> (\<exists>x. safeTime v = Some x \<and> e \<le> x)"
  using assms by (auto simp: boundedExpiry_def split: if_splits option.splits)

lemma register_cases:
  assumes "registerLeaseExactBounded i v now m s = Inr (r, s')"
  obtains (existing) ds l where "expireDueLeases now s = Inr (ds, s')"
      "leaseRow (leaseId i) s' = Some l"
      "r = (if \<not> exactIdentityMatches l i then LeaseIdConflict l
            else if \<not> is_active l then LeaseRetiredConflict l else Replayed l)"
  | (new) ds s1 e where "expireDueLeases now s = Inr (ds, s1)" "leaseRow (leaseId i) s1 = None"
      "boundedExpiry v now m = Inr e" "r = Registered (new_lease i e now)"
      "s' = s1\<lparr>fs_leases := fs_leases s1 @ [new_lease i e now]\<rparr>"
  using assms that
  by (auto simp: registerLeaseExactBounded_def split: option.splits sum.splits prod.splits)

lemma new_lease_simps [simp]:
  "leaseId (new_lease i e now) = leaseId i" "is_active (new_lease i e now)"
  "expiresAt (new_lease i e now) = e" "createdAt (new_lease i e now) = now"
  by (simp_all add: new_lease_def is_active_def)

lemma register_wf:
  assumes "store_wf s" and "registerLeaseExactBounded i v now m s = Inr (r, s')"
    and "0 < m" and "m \<le> OWNER_FENCE_LEGACY_GRACE_MS"
  shows "store_wf s'"
  using assms(2)
proof (cases rule: register_cases)
  case (existing ds l)
  then show ?thesis using expire_wf assms(1) by blast
next
  case (new ds s1 e)
  have "lease_ok (new_lease i e now)"
    using boundedExpiry_bounds [OF new(3) assms(3)] assms(4)
    by (auto simp: lease_ok_def new_lease_def is_active_def)
  moreover have "store_wf s1" using expire_wf assms(1) new(1) by blast
  ultimately show ?thesis using new by (auto simp: store_wf_def find_row_None)
qed

lemma update_active_wf:
  assumes "store_wf s" and "\<And>l. leaseId (f l) = leaseId l"
    and "\<And>l. l \<in> set (fs_leases s) \<Longrightarrow> is_active l \<Longrightarrow> lease_ok l \<Longrightarrow> lease_ok (f l)"
  shows "store_wf (update_active i f s)"
  unfolding update_active_def using assms by (intro update_rows_wf) (auto simp: store_wf_def)

lemma renew_wf:
  assumes "store_wf s" and "renewLeaseExact i v now s = Inr (r, s')"
  shows "store_wf s'"
proof -
  have ret: "store_wf (retireExpired k now s)" for k
    unfolding retireExpired_def using assms(1)
    by (intro update_rows_wf) (auto simp: store_wf_def retire_ok)
  have upd: "store_wf (update_active k (\<lambda>l. l\<lparr>expiresAt := e, renewedAt := now\<rparr>) s)"
    if "boundedExpiry v now OWNER_FENCE_DEFAULT_MAX_LEASE_MS = Inr e" for k e
    using assms(1) boundedExpiry_bounds [OF that]
    by (intro update_active_wf) (auto simp: lease_ok_def is_active_def fence_constants)
  show ?thesis
    using assms ret upd
    by (auto simp: renewLeaseExact_def Let_def split: option.splits sum.splits if_splits)
qed

lemma retireLease_wf:
  assumes "store_wf s" and "retireLeaseExact i now s = Inr (r, s')"
  shows "store_wf s'"
proof -
  have "store_wf (update_active k (retire now) s)" for k
    using assms(1) by (intro update_active_wf) (auto simp: retire_ok)
  then show ?thesis
    using assms by (auto simp: retireLeaseExact_def Let_def split: option.splits if_splits)
qed

lemma prune_store_wf: "store_wf s \<Longrightarrow> pruneRetiredLeases now s = Inr s' \<Longrightarrow> store_wf s'"
  by (auto simp: pruneRetiredLeases_def Let_def store_wf_def distinct_map_sql_delete split: if_splits)

text \<open>With unique ids, pruning removes retired rows only.\<close>

lemma prune_active:
  assumes "store_wf s" and "pruneRetiredLeases now s = Inr s'"
  shows "filter is_active (fs_leases s') = filter is_active (fs_leases s)"
proof -
  define old where "old = filter (\<lambda>l. lstate l = LeaseRetired \<and> retiredAt l \<noteq> None \<and>
      the (retiredAt l) \<le> now - OWNER_FENCE_RETIRED_RETENTION_MS) (fs_leases s)"
  define chosen where "chosen = map leaseId (take OWNER_FENCE_RETIRED_PRUNE_LIMIT
      (sort_key (\<lambda>l. the (retiredAt l)) old))"
  have s': "s' = s\<lparr>fs_leases := sql_delete (\<lambda>l. leaseId l \<in> set chosen) (fs_leases s)\<rparr>"
    using assms(2) by (auto simp: pruneRetiredLeases_def Let_def chosen_def old_def split: if_splits)
  have "leaseId l \<notin> set chosen" if l: "l \<in> set (fs_leases s)" "is_active l" for l
  proof
    assume "leaseId l \<in> set chosen"
    then obtain k where k: "k \<in> set old" "leaseId k = leaseId l"
      by (auto simp: chosen_def dest!: in_set_takeD)
    then have "k = l"
      using assms(1) l(1) by (auto simp: store_wf_def old_def distinct_map inj_on_def)
    then show False using k(1) l(2) by (simp add: old_def is_active_def)
  qed
  then show ?thesis by (auto simp: s' sql_delete_def intro!: filter_cong)
qed

subsection \<open>Runs of the store\<close>

datatype store_op =
    SExpire ms
  | SRegister lease_identity jsnum ms
  | SRenew lease_identity jsnum ms
  | SRetire lease_identity ms
  | SPrune ms
  | SMigrate string string legacy_mirror ms

definition store_after :: "'e + 'r \<times> 's \<Rightarrow> 's \<Rightarrow> 's" where
  "store_after x s = (case x of Inl _ \<Rightarrow> s | Inr (_, s') \<Rightarrow> s')"

fun store_step :: "store_op \<Rightarrow> fence_store \<Rightarrow> fence_store" where
  "store_step (SExpire now) s = store_after (expireDueLeases now s) s"
| "store_step (SRegister i v now) s = store_after (registerLeaseExact i v now s) s"
| "store_step (SRenew i v now) s = store_after (renewLeaseExact i v now s) s"
| "store_step (SRetire i now) s = store_after (retireLeaseExact i now s) s"
| "store_step (SPrune now) s = (case pruneRetiredLeases now s of Inl _ \<Rightarrow> s | Inr s' \<Rightarrow> s')"
| "store_step (SMigrate owner gen entries now) s =
     store_after (migrateLegacyActiveMirror owner gen entries now s) s"

lemma store_after_cases: "store_after x s = s \<or> (\<exists>r. x = Inr (r, store_after x s))"
  by (auto simp: store_after_def split: sum.split)

lemma grace_bounds:
  "0 < OWNER_FENCE_LEGACY_GRACE_MS" "0 < OWNER_FENCE_DEFAULT_MAX_LEASE_MS"
  "OWNER_FENCE_DEFAULT_MAX_LEASE_MS \<le> OWNER_FENCE_LEGACY_GRACE_MS"
  by (simp_all add: fence_constants)

text \<open>What an operation may do to the row of one id: \<open>row_moves\<close> is the life cycle of a lease.\<close>

definition row_moves :: "fence_lease option \<Rightarrow> fence_lease option \<Rightarrow> bool" where
  "row_moves x y \<longleftrightarrow>
     (case (x, y) of
        (None, _) \<Rightarrow> True
      | (Some l, None) \<Rightarrow> \<not> is_active l
      | (Some l, Some l') \<Rightarrow>
          lease_identity.truncate l' = lease_identity.truncate l \<and> (\<not> is_active l \<longrightarrow> l' = l))"

lemma row_moves_refl [simp]: "row_moves x x"
  by (simp add: row_moves_def split: option.split)

lemma row_moves_trans:
  "row_moves x y \<Longrightarrow> row_moves y z \<Longrightarrow> (x \<noteq> None \<Longrightarrow> y \<noteq> None \<and> z \<noteq> None) \<Longrightarrow> row_moves x z"
  by (auto simp: row_moves_def split: option.splits)

lemma expire_row:
  assumes "expireDueLeases now s = Inr (ds, s')"
  shows "leaseRow i s' = map_option (\<lambda>l. if due now l then retire now l else l) (leaseRow i s)"
    and "row_moves (leaseRow i s) (leaseRow i s')"
  using expire_result(1) [OF assms]
  by (auto simp: find_row_update_where row_moves_def due_def split: option.split)

lemma register_row:
  assumes "registerLeaseExactBounded i v now m s = Inr (r, s')"
  shows "row_moves (leaseRow k s) (leaseRow k s') \<and> (leaseRow k s \<noteq> None \<longrightarrow> leaseRow k s' \<noteq> None)"
  using assms
proof (cases rule: register_cases)
  case (existing ds l)
  then show ?thesis using expire_row [of now s ds s' k] by simp
next
  case (new ds s1 e)
  show ?thesis
  proof (cases "leaseRow k s1")
    case None
    then have "leaseRow k s = None" using expire_row(1) [OF new(1), of k] by simp
    then show ?thesis by (simp add: row_moves_def)
  next
    case (Some l)
    then show ?thesis using expire_row(2) [OF new(1), of k] by (simp add: new(5) find_row_append)
  qed
qed

lemma update_active_row:
  assumes "\<And>l. leaseId (f l) = leaseId l"
    and "\<And>l. lease_identity.truncate (f l) = lease_identity.truncate l"
  shows "row_moves (leaseRow k s) (leaseRow k (update_active i f s))"
  using assms by (auto simp: update_active_def find_row_update_where row_moves_def split: option.split)

lemma renew_row:
  assumes "renewLeaseExact i v now s = Inr (r, s')"
  shows "row_moves (leaseRow k s) (leaseRow k s')"
proof -
  have "row_moves (leaseRow k s) (leaseRow k (retireExpired j now s))" for j
    by (auto simp: retireExpired_def find_row_update_where row_moves_def due_def split: option.split)
  then show ?thesis
    using assms update_active_row [of "\<lambda>l. l\<lparr>expiresAt := _, renewedAt := now\<rparr>" k s]
    by (auto simp: renewLeaseExact_def Let_def lease_identity.truncate_def
        split: option.splits sum.splits if_splits)
qed

lemma retireLease_row:
  assumes "retireLeaseExact i now s = Inr (r, s')"
  shows "row_moves (leaseRow k s) (leaseRow k s')"
  using assms update_active_row [of "retire now" k s]
  by (auto simp: retireLeaseExact_def Let_def split: option.splits if_splits)

lemma prune_row:
  assumes "store_wf s" and "pruneRetiredLeases now s = Inr s'"
  shows "row_moves (leaseRow k s) (leaseRow k s')"
proof -
  obtain K where s': "fs_leases s' = sql_delete (\<lambda>l. leaseId l \<in> K) (fs_leases s)"
    using assms(2) by (auto simp: pruneRetiredLeases_def Let_def split: if_splits)
  have "l \<in> set (fs_leases s')" if "leaseRow k s = Some l" "is_active l" for l
    using that prune_active [OF assms] by (metis (mono_tags) filter_set find_row_Some mem_Collect_eq set_filter)
  then show ?thesis
    by (auto simp: s' find_row_delete_keys row_moves_def split: option.split dest: find_row_Some)
qed

lemma migrateEntry_keeps:
  assumes "store_wf s" and "migrateEntry owner gen now entry (m, s) = (m', s')"
  shows "store_wf s' \<and> row_moves (leaseRow k s) (leaseRow k s') \<and>
    (leaseRow k s \<noteq> None \<longrightarrow> leaseRow k s' \<noteq> None)"
proof -
  have "store_wf s2 \<and> row_moves (leaseRow k s) (leaseRow k s2) \<and>
      (leaseRow k s \<noteq> None \<longrightarrow> leaseRow k s2 \<noteq> None)"
    if "registerLeaseExactBounded i v now OWNER_FENCE_LEGACY_GRACE_MS s = Inr (r, s2)" for i v r s2
    using register_wf [OF assms(1) that] register_row [OF that, of k] grace_bounds by simp
  then show ?thesis
    using assms
    by (auto simp: migrateEntry_def split: prod.splits option.splits if_splits sum.splits
        registration_result.splits)
qed

lemma migrate_fold_keeps:
  assumes "store_wf s" and "fold (migrateEntry owner gen now) entries (m, s) = (m', s')"
  shows "store_wf s' \<and> row_moves (leaseRow k s) (leaseRow k s') \<and>
    (leaseRow k s \<noteq> None \<longrightarrow> leaseRow k s' \<noteq> None)"
  using assms
proof (induction entries arbitrary: m s)
  case (Cons e es)
  obtain m1 s1 where s1: "migrateEntry owner gen now e (m, s) = (m1, s1)" by fastforce
  have k1: "store_wf s1 \<and> row_moves (leaseRow k s) (leaseRow k s1) \<and>
      (leaseRow k s \<noteq> None \<longrightarrow> leaseRow k s1 \<noteq> None)"
    by (rule migrateEntry_keeps [OF Cons.prems(1) s1])
  have k2: "store_wf s' \<and> row_moves (leaseRow k s1) (leaseRow k s') \<and>
      (leaseRow k s1 \<noteq> None \<longrightarrow> leaseRow k s' \<noteq> None)"
    using Cons.IH [of s1 m1] k1 Cons.prems(2) s1 by simp
  show ?case using k1 k2 row_moves_trans [of "leaseRow k s" "leaseRow k s1" "leaseRow k s'"] by blast
qed simp

lemma migrate_keeps:
  assumes "store_wf s" and "migrateLegacyActiveMirror owner gen entries now s = Inr (m, s')"
  shows "store_wf s' \<and> row_moves (leaseRow k s) (leaseRow k s')"
  using assms(2) migrate_fold_keeps [OF assms(1)]
  by (auto simp: migrateLegacyActiveMirror_def split: if_splits)

lemma store_step_keeps:
  assumes "store_wf s"
  shows "store_wf (store_step op s) \<and> row_moves (leaseRow k s) (leaseRow k (store_step op s))"
proof (cases op)
  case (SPrune now)
  then show ?thesis using assms prune_store_wf prune_row by (auto split: sum.split)
next
  case (SMigrate owner gen entries now)
  then show ?thesis using assms migrate_keeps by (auto simp: store_after_def split: sum.split)
qed (use assms grace_bounds in \<open>auto simp: store_after_def registerLeaseExact_def split: sum.split
      intro: expire_wf register_wf renew_wf retireLease_wf expire_row(2) register_row [THEN conjunct1]
        renew_row retireLease_row\<close>)

interpretation lease_table: row_lifecycle store_step store_wf leaseRow lease_identity.truncate is_active
proof
  show "\<And>s op. store_wf s \<Longrightarrow> store_wf (store_step op s)" using store_step_keeps by blast
next
  fix s k r op
  assume "store_wf s" "leaseRow k s = Some r"
  then have moves: "row_moves (Some r) (leaseRow k (store_step op s))"
    using store_step_keeps [of s op k] by simp
  show "is_active r \<Longrightarrow> \<exists>r'. leaseRow k (store_step op s) = Some r' \<and>
      lease_identity.truncate r' = lease_identity.truncate r"
    using moves by (auto simp: row_moves_def split: option.splits)
  show "\<not> is_active r \<Longrightarrow> leaseRow k (store_step op s) = Some r \<or> leaseRow k (store_step op s) = None"
    using moves by (auto simp: row_moves_def split: option.splits)
qed

lemma empty_store_wf: "store_wf empty_fence_store"
  by (simp add: store_wf_def empty_fence_store_def)

subsection \<open>Properties\<close>

text \<open>
  a lease id is never handed to somebody else and a finished lease never comes back: as long as the
  row of an id stays in the table, its identity does not change, and once it is retired it does not
  change at all.
\<close>

lemma lease_identity_stable:
  assumes "leaseRow k (fold store_step before empty_fence_store) = Some l"
    and "\<forall>n \<le> length after.
      leaseRow k (fold store_step (take n after) (fold store_step before empty_fence_store)) \<noteq> None"
  shows "\<exists>l'. leaseRow k (fold store_step (before @ after) empty_fence_store) = Some l' \<and>
    lease_identity.truncate l' = lease_identity.truncate l \<and> (\<not> is_active l \<longrightarrow> l' = l)"
  using lease_table.present_ident [OF lease_table.run_inv [OF empty_store_wf] assms(1), of after] assms(2)
  by simp

definition sample_lease :: lease_identity where
  "sample_lease = \<lparr>leaseId = ''l'', ownerId = ''o'', ownerGeneration = ''g'',
     reservationGeneration = ''f'', sessionId = ''s'', turnId = ''t'', namespace = NsBuild,
     role = RoleRun\<rparr>"

lemma sample_registered:
  "store_after (registerLeaseExact sample_lease (Fin 1000) 0 empty_fence_store) empty_fence_store =
     empty_fence_store\<lparr>fs_leases := [new_lease sample_lease 1000 0]\<rparr>"
  by (simp add: store_after_def registerLeaseExact_def registerLeaseExactBounded_def assertIdentity_def
      assertText_def js_control_def boundedExpiry_def assertSafeTime_def safeTime_def
      safe_integer_def expireDueLeases_def sample_lease_def empty_fence_store_def fence_constants)

text \<open>
  a granted lease is bounded by this object's own clock: whatever expiry a caller asks for, a
  registration or renewal that succeeds lasts beyond now and at most thirty minutes, never longer than
  asked, and every other expiry is refused.
\<close>

lemma lease_expiry_bounded:
  "(\<forall>e. boundedExpiry v now OWNER_FENCE_DEFAULT_MAX_LEASE_MS = Inr e \<longrightarrow>
      now < e \<and> e \<le> now + 30 * 60000 \<and> of_int e \<le> (case v of Fin x \<Rightarrow> x | _ \<Rightarrow> 0)) \<and>
   (isl (boundedExpiry v now OWNER_FENCE_DEFAULT_MAX_LEASE_MS) \<longleftrightarrow>
      \<not> assertSafeTime now \<or> (\<forall>e. safeTime v = Some e \<longrightarrow> e \<le> now \<or> now + 35 * 60000 < e))"
  by (auto simp: boundedExpiry_def safeTime_def fence_constants split: jsnum.splits if_splits option.splits)

end
