(* ===== verification/Owner_Fence_Host.thy ===== *)
theory Owner_Fence_Host
  imports Owner_Fence_Store
begin

text \<open>
  The owner fence of cloud-builder, \<open>workers/cloud-builder/src/owner-fence-do.ts\<close>: the routes by
  which work of an owner takes, renews and returns leases, and by which a purge of the owner closes
  the fence and opens it again. One request is one atomic step: the runtime delivers no other event while
  storage calls are pending, and the caller runs \<open>begin\<close>, whose hook calls other objects, in
  \<open>blockConcurrencyWhile\<close> (\<open>owner-gate/gate-base.ts\<close>, \<open>fetchOwnerFence\<close>).

  \<open>uuid0\<close> and \<open>uuid1\<close> are the values of \<open>crypto.randomUUID()\<close> in a request, \<open>hookOk\<close> says whether the
  hook before an authority change succeeded, and \<open>localeSort\<close> orders the entries of the legacy map. The
  routes under \<open>turn-state/\<close> are not modelled.
\<close>

definition OWNER_FENCE_LEASE_TTL_MS :: ms where "OWNER_FENCE_LEASE_TTL_MS = 30 * 60000"

record owner_purge_fence =
  pf_ownerId :: "string option"
  pf_generation :: string
  pf_beginRequestId :: "string option"
  pf_lastReleasedGeneration :: "string option"
  pf_rejoinedFromGeneration :: "string option"
  pf_state :: fence_state
  pf_mode :: "purge_mode option"
  pf_version2 :: bool
  pf_active :: legacy_mirror

record fence_body =
  fb_ownerId :: "string option"
  fb_generation :: "json option"
  fb_expectedGeneration :: "json option"
  fb_requestId :: "json option"
  fb_leaseId :: "string option"
  fb_ownerGeneration :: "json option"
  fb_mode :: "string option"
  fb_sessionId :: "string option"
  fb_turnId :: "string option"
  fb_namespace :: "string option"
  fb_role :: "string option"
  fb_expiresAt :: "json option"

record fence_host =
  fh_fence :: "owner_purge_fence option"
  fh_store :: fence_store
  fh_alarm :: "ms option"

definition empty_fence_host :: fence_host where
  "empty_fence_host = \<lparr>fh_fence = None, fh_store = empty_fence_store, fh_alarm = None\<rparr>"

datatype fence_response =
    RIdentityMismatch
  | RMigrationBlocked
  | RLeaseCapacity
  | RPurgeActive bool
  | RInvalidLease
  | RLeaseConflict
  | RRegistered string ms
  | RAlreadyUnregistered
  | RUnregistered
  | RLeaseMismatch
  | RFenceChanged
  | RLeaseOk ms
  | RBlocked legacy_mirror "string option"
  | RGenerationInactive
  | RCannotJoin
  | RBegun string "purge_mode option" legacy_mirror bool
  | RAlreadyReleased string
  | RCannotRelease
  | RReleased string
  | RNotFound
  | RThrew fence_error

definition truthy :: "string option \<Rightarrow> bool" where
  "truthy s \<longleftrightarrow> s \<noteq> None \<and> s \<noteq> Some []"

definition new_fence :: "string \<Rightarrow> owner_purge_fence" where
  "new_fence uuid =
     \<lparr>pf_ownerId = None, pf_generation = uuid, pf_beginRequestId = None,
      pf_lastReleasedGeneration = None, pf_rejoinedFromGeneration = None, pf_state = FenceOpen,
      pf_mode = None, pf_version2 = False, pf_active = []\<rparr>"

subsection \<open>Shared steps\<close>

text \<open>Set the alarm to the next expiry unless an earlier one is set.\<close>

definition armFence :: "fence_host \<Rightarrow> fence_host" where
  "armFence h =
     (case nextExpiry (fh_store h) of
        None \<Rightarrow> h
      | Some nxt \<Rightarrow>
          if fh_alarm h = None \<or> the (fh_alarm h) > nxt then h\<lparr>fh_alarm := Some nxt\<rparr> else h)"

text \<open>The tail of a transaction: rebuild the mirror, write the fence.\<close>

definition commitMirror ::
  "ms \<Rightarrow> owner_purge_fence \<Rightarrow> fence_store \<Rightarrow> fence_host \<Rightarrow>
   fence_error + owner_purge_fence \<times> fence_host" where
  "commitMirror now current st h =
     (case boundedLegacyActiveMirror now st of
        Inl e \<Rightarrow> Inl e
      | Inr (None, _) \<Rightarrow> Inl MirrorExceeded
      | Inr (Some mirror, st1) \<Rightarrow>
          let c = current\<lparr>pf_active := mirror\<rparr>
          in Inr (c, h\<lparr>fh_store := st1, fh_fence := Some c\<rparr>))"

definition migrateFence ::
  "(legacy_mirror \<Rightarrow> legacy_mirror) \<Rightarrow> string \<Rightarrow> ms \<Rightarrow> owner_purge_fence \<Rightarrow> fence_host \<Rightarrow>
   (fence_response \<times> fence_host) + owner_purge_fence \<times> fence_host" where
  "migrateFence localeSort scoped now current h =
     (let c1 = (if pf_ownerId current = None then current\<lparr>pf_ownerId := Some scoped\<rparr> else current) in
      case (if pf_version2 c1 then Inr (True, c1, fh_store h)
            else case migrateLegacyActiveMirror scoped (pf_generation c1)
                        (localeSort (pf_active c1)) now (fh_store h) of
                   Inl e \<Rightarrow> Inl e
                 | Inr (m, st) \<Rightarrow>
                     Inr (mg_invalid m = [] \<and> mg_conflicts m = [], c1\<lparr>pf_version2 := True\<rparr>, st)) of
        Inl e \<Rightarrow> Inl (RThrew e, h)
      | Inr (ok, c2, st) \<Rightarrow>
          if \<not> ok then Inl (RMigrationBlocked, h\<lparr>fh_store := st\<rparr>)
          else
            (case boundedLegacyActiveMirror now st of
               Inl e \<Rightarrow> Inl (RThrew e, h)
             | Inr (None, st1) \<Rightarrow> Inl (RMigrationBlocked, h\<lparr>fh_store := st1\<rparr>)
             | Inr (Some mirror, st1) \<Rightarrow>
                 let c3 = c2\<lparr>pf_active := mirror\<rparr>
                 in Inr (c3, armFence (h\<lparr>fh_store := st1, fh_fence := Some c3\<rparr>))))"

definition expireFence ::
  "ms \<Rightarrow> owner_purge_fence \<Rightarrow> fence_host \<Rightarrow>
   (fence_response \<times> fence_host) + owner_purge_fence \<times> fence_host" where
  "expireFence now current h =
     (case expireDueLeases now (fh_store h) of
        Inl e \<Rightarrow> Inl (RThrew e, h)
      | Inr (expired, st) \<Rightarrow>
          if expired = [] then Inr (current, h)
          else
            (case boundedLegacyActiveMirror now st of
               Inl e \<Rightarrow> Inl (RThrew e, h\<lparr>fh_store := st\<rparr>)
             | Inr (None, st1) \<Rightarrow> Inl (RLeaseCapacity, h\<lparr>fh_store := st1\<rparr>)
             | Inr (Some mirror, st1) \<Rightarrow>
                 let c = current\<lparr>pf_active := mirror\<rparr>
                 in Inr (c, h\<lparr>fh_store := st1, fh_fence := Some c\<rparr>)))"

definition scopedOwnerOk :: "string \<Rightarrow> owner_purge_fence \<Rightarrow> bool" where
  "scopedOwnerOk scoped current \<longleftrightarrow>
     scoped \<noteq> [] \<and> length scoped \<le> 512 \<and> (\<forall>c \<in> set scoped. \<not> js_control c) \<and>
     (pf_ownerId current = None \<or> pf_ownerId current = Some scoped)"

definition prepareFence ::
  "(legacy_mirror \<Rightarrow> legacy_mirror) \<Rightarrow> string option \<Rightarrow> ms \<Rightarrow> string \<Rightarrow> fence_host \<Rightarrow>
   (fence_response \<times> fence_host) + string \<times> owner_purge_fence \<times> fence_host" where
  "prepareFence localeSort owner now uuid0 h =
     (let current = coalesce (fh_fence h) (new_fence uuid0);
          scoped = js_trim (coalesce owner [])
      in if \<not> scopedOwnerOk scoped current then Inl (RIdentityMismatch, h)
         else
           (case initializeStore now (fh_store h) of
              Inl e \<Rightarrow> Inl (RThrew e, h)
            | Inr st \<Rightarrow>
                let h0 = h\<lparr>fh_store := st\<rparr> in
                (case (if pf_ownerId current = None \<or> \<not> pf_version2 current
                       then migrateFence localeSort scoped now current h0
                       else expireFence now current h0) of
                   Inl r \<Rightarrow> Inl r
                 | Inr (c, h1) \<Rightarrow> Inr (scoped, c, h1))))"

subsection \<open>Routes\<close>

definition requested_namespace :: "string option \<Rightarrow> lease_namespace" where
  "requested_namespace ns =
     (if ns = Some ''orchestrator'' then NsOrchestrator
      else if ns = Some ''activity'' then NsActivity else NsBuild)"

definition requested_role :: "string option \<Rightarrow> lease_role" where
  "requested_role r =
     (if r = Some ''run'' then RoleRun else if r = Some ''orchestrator'' then RoleOrchestrator
      else if r = Some ''activity'' then RoleActivity else RoleAux)"

definition requested_expiry :: "json option \<Rightarrow> ms \<Rightarrow> jsnum" where
  "requested_expiry v now =
     (case v of
        Some (JNum (Fin x)) \<Rightarrow>
          if x > of_int now then Fin x else Fin (of_int (now + OWNER_FENCE_LEASE_TTL_MS))
      | _ \<Rightarrow> Fin (of_int (now + OWNER_FENCE_LEASE_TTL_MS)))"

text \<open>The transaction of \<open>register\<close>; \<open>None\<close> is the conflict, which keeps what was pruned.\<close>

definition registerTxn ::
  "lease_identity \<Rightarrow> jsnum \<Rightarrow> ms \<Rightarrow> owner_purge_fence \<Rightarrow> fence_host \<Rightarrow>
   fence_error + fence_lease option \<times> fence_host" where
  "registerTxn i requested now current h =
     (case pruneRetiredLeases now (fh_store h) of
        Inl e \<Rightarrow> Inl e
      | Inr st1 \<Rightarrow>
          (case registerLeaseExact i requested now st1 of
             Inl e \<Rightarrow> Inl e
           | Inr (LeaseIdConflict _, st2) \<Rightarrow> Inr (None, h\<lparr>fh_store := st2\<rparr>)
           | Inr (LeaseRetiredConflict _, st2) \<Rightarrow> Inr (None, h\<lparr>fh_store := st2\<rparr>)
           | Inr (Registered l, st2) \<Rightarrow>
               (case commitMirror now current st2 h of
                  Inl e \<Rightarrow> Inl e | Inr (_, h1) \<Rightarrow> Inr (Some l, armFence h1))
           | Inr (Replayed l, st2) \<Rightarrow>
               (case renewLeaseExact (lease_identity.truncate l) requested now st2 of
                  Inl e \<Rightarrow> Inl e
                | Inr (res, st3) \<Rightarrow>
                    (case commitMirror now current st3 h of
                       Inl e \<Rightarrow> Inl e
                     | Inr (_, h1) \<Rightarrow>
                         Inr (Some (case res of Renewed l' \<Rightarrow> l' | _ \<Rightarrow> l), armFence h1)))))"

definition fenceRegister ::
  "string \<Rightarrow> fence_body \<Rightarrow> ms \<Rightarrow> owner_purge_fence \<Rightarrow> fence_host \<Rightarrow> fence_response \<times> fence_host" where
  "fenceRegister scoped body now current h =
     (let gen = normalizeOwnerGeneration (fb_ownerGeneration body) in
      if pf_state current \<noteq> FenceOpen then (RPurgeActive (pf_mode current = Some Permanent), h)
      else if (fb_generation body \<noteq> None \<and>
               fb_generation body \<noteq> Some (JStr (pf_generation current))) \<or>
              \<not> truthy (fb_leaseId body) \<or> \<not> truthy (fb_sessionId body) \<or>
              \<not> truthy (fb_turnId body) \<or> gen = None
      then (RInvalidLease, h)
      else
        let i = \<lparr>leaseId = the (fb_leaseId body), ownerId = scoped, ownerGeneration = the gen,
                 reservationGeneration = pf_generation current,
                 sessionId = the (fb_sessionId body), turnId = the (fb_turnId body),
                 namespace = requested_namespace (fb_namespace body),
                 role = requested_role (fb_role body)\<rparr>;
            requested = requested_expiry (fb_expiresAt body) now
        in case activeLease (leaseId i) now (fh_store h) of
             Inl e \<Rightarrow> (RThrew e, h)
           | Inr (existing, st) \<Rightarrow>
               (case activeLeaseCount now st of
                  Inl e \<Rightarrow> (RThrew e, h\<lparr>fh_store := st\<rparr>)
                | Inr (n, st') \<Rightarrow>
                    let h1 = h\<lparr>fh_store := st'\<rparr> in
                    if existing = None \<and> n \<ge> 512 then (RLeaseCapacity, h1)
                    else
                      (case registerTxn i requested now current h1 of
                         Inl e \<Rightarrow> (RThrew e, h1)
                       | Inr (None, h2) \<Rightarrow> (RLeaseConflict, h2)
                       | Inr (Some l, h2) \<Rightarrow>
                           (RRegistered (pf_generation current) (expiresAt l), h2))))"

definition fenceUnregister ::
  "fence_body \<Rightarrow> ms \<Rightarrow> owner_purge_fence \<Rightarrow> fence_host \<Rightarrow> fence_response \<times> fence_host" where
  "fenceUnregister body now current h =
     (if \<not> truthy (fb_leaseId body) \<or> \<not> truthy (fb_sessionId body) \<or> \<not> truthy (fb_turnId body)
      then (RInvalidLease, h)
      else
        (case leaseOf (the (fb_leaseId body)) (fh_store h) of
           Inl e \<Rightarrow> (RThrew e, h)
         | Inr None \<Rightarrow> (RAlreadyUnregistered, h)
         | Inr (Some active) \<Rightarrow>
             if \<not> is_active active then (RAlreadyUnregistered, h)
             else if Some (sessionId active) \<noteq> fb_sessionId body \<or>
                     Some (turnId active) \<noteq> fb_turnId body \<or>
                     \<not> ownerGenerationMatches (Some (ownerGeneration active))
                          (fb_ownerGeneration body)
             then (RLeaseMismatch, h)
             else
               (case retireLeaseExact (lease_identity.truncate active) now (fh_store h) of
                  Inl e \<Rightarrow> (RThrew e, h)
                | Inr (res, st) \<Rightarrow>
                    (case res of
                       Retired _ \<Rightarrow>
                         (case commitMirror now current st h of
                            Inl e \<Rightarrow> (RThrew e, h) | Inr (_, h1) \<Rightarrow> (RUnregistered, h1))
                     | AlreadyRetired _ \<Rightarrow>
                         (case commitMirror now current st h of
                            Inl e \<Rightarrow> (RThrew e, h) | Inr (_, h1) \<Rightarrow> (RUnregistered, h1))
                     | _ \<Rightarrow> (RThrew RetirementFailed, h)))))"

text \<open>The renewal transaction that \<open>renew\<close> and \<open>assert\<close> share.\<close>

definition renewTxn ::
  "fence_lease \<Rightarrow> ms \<Rightarrow> owner_purge_fence \<Rightarrow> fence_host \<Rightarrow> fence_response \<times> fence_host" where
  "renewTxn l now current h =
     (case renewLeaseExact (lease_identity.truncate l)
             (Fin (of_int (now + OWNER_FENCE_LEASE_TTL_MS))) now (fh_store h) of
        Inl e \<Rightarrow> (RThrew e, h)
      | Inr (Renewed l', st) \<Rightarrow>
          (case commitMirror now current st h of
             Inl e \<Rightarrow> (RThrew e, h)
           | Inr (_, h1) \<Rightarrow> (RLeaseOk (expiresAt l'), armFence h1))
      | Inr (_, st) \<Rightarrow> (RFenceChanged, h\<lparr>fh_store := st\<rparr>))"

definition fenceRenew ::
  "fence_body \<Rightarrow> ms \<Rightarrow> owner_purge_fence \<Rightarrow> fence_host \<Rightarrow> fence_response \<times> fence_host" where
  "fenceRenew body now current h =
     (if pf_state current \<noteq> FenceOpen \<or> fb_generation body \<noteq> Some (JStr (pf_generation current)) \<or>
         \<not> truthy (fb_leaseId body) \<or> \<not> truthy (fb_sessionId body) \<or> \<not> truthy (fb_turnId body)
      then (RFenceChanged, h)
      else
        (case activeLease (the (fb_leaseId body)) now (fh_store h) of
           Inl e \<Rightarrow> (RThrew e, h)
         | Inr (None, st) \<Rightarrow> (RLeaseMismatch, h\<lparr>fh_store := st\<rparr>)
         | Inr (Some l, st) \<Rightarrow>
             let h1 = h\<lparr>fh_store := st\<rparr> in
             if Some (sessionId l) \<noteq> fb_sessionId body \<or> Some (turnId l) \<noteq> fb_turnId body \<or>
                \<not> ownerGenerationMatches (Some (ownerGeneration l)) (fb_ownerGeneration body)
             then (RLeaseMismatch, h1)
             else renewTxn l now current h1))"

definition fenceAssert ::
  "fence_body \<Rightarrow> ms \<Rightarrow> owner_purge_fence \<Rightarrow> fence_host \<Rightarrow> fence_response \<times> fence_host" where
  "fenceAssert body now current h =
     (if pf_state current \<noteq> FenceOpen \<or> fb_generation body \<noteq> Some (JStr (pf_generation current)) \<or>
         \<not> truthy (fb_leaseId body)
      then (RFenceChanged, h)
      else
        (case activeLease (the (fb_leaseId body)) now (fh_store h) of
           Inl e \<Rightarrow> (RThrew e, h)
         | Inr (None, st) \<Rightarrow> (RFenceChanged, h\<lparr>fh_store := st\<rparr>)
         | Inr (Some l, st) \<Rightarrow>
             let h1 = h\<lparr>fh_store := st\<rparr> in
             if \<not> ownerGenerationMatches (Some (ownerGeneration l)) (fb_ownerGeneration body)
             then (RFenceChanged, h1)
             else if 2 * (expiresAt l - now) > OWNER_FENCE_LEASE_TTL_MS
             then (RLeaseOk (expiresAt l), h1)
             else renewTxn l now current h1))"

definition fenceAssertBlocked ::
  "fence_body \<Rightarrow> owner_purge_fence \<Rightarrow> fence_host \<Rightarrow> fence_response \<times> fence_host" where
  "fenceAssertBlocked body current h =
     (if pf_state current = FenceBlocked \<and>
         fb_generation body = Some (JStr (pf_generation current))
      then (RBlocked (pf_active current)
              (if truthy (pf_beginRequestId current) then pf_beginRequestId current else None), h)
      else (RGenerationInactive, h))"

definition requested_mode :: "fence_body \<Rightarrow> purge_mode" where
  "requested_mode body = (if fb_mode body = Some ''permanent'' then Permanent else Temporary)"

definition begin_args_of :: "fence_body \<Rightarrow> owner_purge_fence \<Rightarrow> begin_args" where
  "begin_args_of body current =
     \<lparr>ba_state = pf_state current, ba_generation = pf_generation current,
      ba_beginRequestId = pf_beginRequestId current,
      ba_lastReleasedGeneration = pf_lastReleasedGeneration current,
      ba_rejoinedFromGeneration = pf_rejoinedFromGeneration current,
      ba_requestId = fb_requestId body, ba_expectedGeneration = fb_expectedGeneration body,
      ba_requestedMode = requested_mode body\<rparr>"

definition fenceBegin ::
  "bool \<Rightarrow> string \<Rightarrow> fence_body \<Rightarrow> owner_purge_fence \<Rightarrow> fence_host \<Rightarrow> fence_response \<times> fence_host" where
  "fenceBegin hookOk uuid1 body current h =
     (case ownerPurgeBeginDisposition (begin_args_of body current) of
        BeginReject \<Rightarrow> (RCannotJoin, h)
      | BeginStart mode rejoined \<Rightarrow>
          if \<not> hookOk then (RThrew HookFailed, h)
          else
            let c = current\<lparr>pf_generation := uuid1,
                      pf_beginRequestId := normalizeOwnerGeneration (fb_requestId body),
                      pf_state := FenceBlocked, pf_mode := Some mode,
                      pf_rejoinedFromGeneration :=
                        (if rejoined then normalizeOwnerGeneration (fb_expectedGeneration body)
                         else None)\<rparr>
            in (RBegun (pf_generation c) (pf_mode c) (pf_active c) rejoined,
                h\<lparr>fh_fence := Some c\<rparr>)
      | BeginResume upgrade rejoined \<Rightarrow>
          if upgrade \<and> \<not> hookOk then (RThrew HookFailed, h)
          else
            let c = (if upgrade then current\<lparr>pf_mode := Some Permanent\<rparr> else current)
            in (RBegun (pf_generation c) (pf_mode c) (pf_active c) rejoined,
                h\<lparr>fh_fence := Some c\<rparr>))"

definition fenceRelease ::
  "string \<Rightarrow> fence_body \<Rightarrow> ms \<Rightarrow> owner_purge_fence \<Rightarrow> fence_host \<Rightarrow> fence_response \<times> fence_host" where
  "fenceRelease uuid1 body now current h =
     (case activeLeaseCount now (fh_store h) of
        Inl e \<Rightarrow> (RThrew e, h)
      | Inr (n, st) \<Rightarrow>
          let h1 = h\<lparr>fh_store := st\<rparr> in
          (case ownerPurgeReleaseDisposition (pf_state current) (pf_mode current)
                  (pf_generation current) (pf_lastReleasedGeneration current)
                  (fb_generation body) n of
             AlreadyReleased \<Rightarrow> (RAlreadyReleased (pf_generation current), h1)
           | ReleaseReject \<Rightarrow> (RCannotRelease, h1)
           | Release \<Rightarrow>
               let c = current\<lparr>pf_lastReleasedGeneration := Some (pf_generation current),
                         pf_generation := uuid1, pf_state := FenceOpen,
                         pf_beginRequestId := None, pf_mode := None,
                         pf_rejoinedFromGeneration := None\<rparr>
               in (RReleased (pf_generation c), h1\<lparr>fh_fence := Some c\<rparr>)))"

record fence_request =
  fr_path :: string
  fr_body :: fence_body
  fr_now :: ms
  fr_uuid0 :: string
  fr_uuid1 :: string
  fr_hookOk :: bool

definition fenceFetch ::
  "(legacy_mirror \<Rightarrow> legacy_mirror) \<Rightarrow> fence_request \<Rightarrow> fence_host \<Rightarrow> fence_response \<times> fence_host" where
  "fenceFetch localeSort r h =
     (let path = fr_path r; body = fr_body r; now = fr_now r in
      case prepareFence localeSort (fb_ownerId body) now (fr_uuid0 r) h of
        Inl res \<Rightarrow> res
      | Inr (scoped, current, h1) \<Rightarrow>
          if path = ''register'' then fenceRegister scoped body now current h1
          else if path = ''unregister'' then fenceUnregister body now current h1
          else if path = ''renew'' then fenceRenew body now current h1
          else if path = ''assert'' then fenceAssert body now current h1
          else if path = ''assert-blocked'' then fenceAssertBlocked body current h1
          else if path = ''begin'' then fenceBegin (fr_hookOk r) (fr_uuid1 r) body current h1
          else if path = ''release'' then fenceRelease (fr_uuid1 r) body now current h1
          else (RNotFound, h1))"

text \<open>
  The alarm: \<open>None\<close> when the handler threw. The runtime has cleared the alarm; the caller sets it again
  to the deadline that is returned.
\<close>

definition fenceAlarm :: "ms \<Rightarrow> fence_host \<Rightarrow> (ms option \<times> fence_host) option" where
  "fenceAlarm now h =
     (case fh_fence h of
        None \<Rightarrow> Some (None, h)
      | Some fence \<Rightarrow>
          if \<not> pf_version2 fence then Some (None, h)
          else
            (case initializeStore now (fh_store h) of
               Inl _ \<Rightarrow> None
             | Inr st \<Rightarrow>
                 (case pruneRetiredLeases now st of
                    Inl _ \<Rightarrow> None
                  | Inr st1 \<Rightarrow>
                      (case expireDueLeases now st1 of
                         Inl _ \<Rightarrow> None
                       | Inr (_, st2) \<Rightarrow>
                           (case commitMirror now fence st2 h of
                              Inl _ \<Rightarrow> None
                            | Inr (_, h1) \<Rightarrow> Some (nextExpiry (fh_store h1), h1))))))"

definition fenceNextDeadline :: "fence_host \<Rightarrow> ms option" where
  "fenceNextDeadline h =
     (case fh_fence h of
        Some fence \<Rightarrow> if pf_version2 fence then nextExpiry (fh_store h) else None
      | None \<Rightarrow> None)"

text \<open>One delivery of the alarm, with the caller's rescheduling.\<close>

definition fireFenceAlarm :: "ms \<Rightarrow> fence_host \<Rightarrow> fence_host" where
  "fireFenceAlarm now h =
     (case fenceAlarm now (h\<lparr>fh_alarm := None\<rparr>) of
        None \<Rightarrow> h\<lparr>fh_alarm := fenceNextDeadline h\<rparr>
      | Some (deadline, h1) \<Rightarrow> h1\<lparr>fh_alarm := deadline\<rparr>)"

subsection \<open>The invariant\<close>

abbreviation active_count :: "fence_store \<Rightarrow> nat" where
  "active_count st \<equiv> length (filter is_active (fs_leases st))"

definition active_ids :: "fence_store \<Rightarrow> string set" where
  "active_ids st = leaseId ` set (filter is_active (fs_leases st))"

definition alarm_covers :: "fence_host \<Rightarrow> bool" where
  "alarm_covers h \<longleftrightarrow>
     (\<forall>l \<in> set (filter is_active (fs_leases (fh_store h))).
        \<exists>a. fh_alarm h = Some a \<and> a \<le> expiresAt l)"

definition fence_synced :: "owner_purge_fence \<Rightarrow> fence_host \<Rightarrow> bool" where
  "fence_synced c h \<longleftrightarrow>
     pf_ownerId c \<noteq> None \<and> pf_active c = mirror_of (fh_store h) \<and>
     active_count (fh_store h) \<le> 512 \<and> alarm_covers h"

definition fence_wf :: "fence_host \<Rightarrow> bool" where
  "fence_wf h \<longleftrightarrow>
     store_wf (fh_store h) \<and>
     (\<forall>c. fh_fence h = Some c \<longrightarrow> pf_version2 c \<longrightarrow> fence_synced c h)"

text \<open>No active row is due at \<open>now\<close>: what every request establishes before its route runs.\<close>

definition quiet :: "ms \<Rightarrow> fence_store \<Rightarrow> bool" where
  "quiet now st \<longleftrightarrow> assertSafeTime now \<and> (\<forall>l \<in> set (fs_leases st). \<not> due now l)"

text \<open>Everything of the fence but its mirror.\<close>

definition fence_core :: "owner_purge_fence \<Rightarrow> owner_purge_fence" where
  "fence_core c = c\<lparr>pf_active := []\<rparr>"

lemma fence_core_simps [simp]:
  "fence_core (c\<lparr>pf_active := m\<rparr>) = fence_core c"
  "pf_state (fence_core c) = pf_state c" "pf_mode (fence_core c) = pf_mode c"
  "pf_generation (fence_core c) = pf_generation c" "pf_version2 (fence_core c) = pf_version2 c"
  by (simp_all add: fence_core_def)

lemma fence_coreD:
  "fence_core c = fence_core d \<Longrightarrow> pf_state c = pf_state d \<and> pf_mode c = pf_mode d \<and>
     pf_generation c = pf_generation d \<and> pf_beginRequestId c = pf_beginRequestId d \<and>
     pf_lastReleasedGeneration c = pf_lastReleasedGeneration d \<and>
     pf_rejoinedFromGeneration c = pf_rejoinedFromGeneration d \<and>
     pf_ownerId c = pf_ownerId d \<and> pf_version2 c = pf_version2 d"
  by (cases c; cases d) (simp add: fence_core_def)

subsection \<open>Lemmas on the store inside a request\<close>

lemma expire_quiet: "quiet now st \<Longrightarrow> expireDueLeases now st = Inr ([], st)"
  by (auto simp: quiet_def expireDueLeases_def filter_empty_conv)

lemma expire_makes_quiet:
  assumes "expireDueLeases now st = Inr (ds, st')"
  shows "quiet now st'"
  using assms expire_result(1) [OF assms]
  by (auto simp: quiet_def set_sql_update due_def expireDueLeases_def split: if_splits)

lemma expire_active:
  assumes "expireDueLeases now st = Inr (ds, st')"
  shows "filter is_active (fs_leases st') =
      filter (\<lambda>l. is_active l \<and> \<not> due now l) (fs_leases st)"
    and "active_ids st' \<subseteq> active_ids st"
    and "active_count st' \<le> active_count st"
proof -
  show eq: "filter is_active (fs_leases st') =
      filter (\<lambda>l. is_active l \<and> \<not> due now l) (fs_leases st)"
  proof -
    have "filter is_active (sql_update (due now) (retire now) t) =
        filter (\<lambda>l. is_active l \<and> \<not> due now l) t" for t
      by (induction t) (auto simp: table_simps)
    then show ?thesis by (simp add: expire_result(1) [OF assms])
  qed
  show "active_ids st' \<subseteq> active_ids st"
    using arg_cong [OF eq, of set] by (auto simp: active_ids_def)
  show "active_count st' \<le> active_count st"
    unfolding eq by (rule length_filter_mono) simp
qed

lemma mirror_quiet:
  "quiet now st \<Longrightarrow> boundedLegacyActiveMirror now st =
     Inr (if active_count st > 512 then None else Some (mirror_of st), st)"
  by (simp add: boundedLegacyActiveMirror_def activeLeases_def expire_quiet mirror_of_def
      active_rows_def fence_constants)

lemma commit_quiet:
  "quiet now st \<Longrightarrow> commitMirror now c st h =
     (if active_count st > 512 then Inl MirrorExceeded
      else Inr (c\<lparr>pf_active := mirror_of st\<rparr>,
                h\<lparr>fh_store := st, fh_fence := Some (c\<lparr>pf_active := mirror_of st\<rparr>)\<rparr>))"
  by (simp add: commitMirror_def mirror_quiet Let_def)

lemma activeLease_quiet:
  "quiet now st \<Longrightarrow> activeLease i now st =
     (if assertText i
      then Inr (case leaseRow i st of Some l \<Rightarrow> if is_active l then Some l else None | None \<Rightarrow> None, st)
      else Inl (ValidationError ''leaseId is invalid.''))"
  by (simp add: activeLease_def expire_quiet leaseOf_def split: option.split)

lemma activeLeaseCount_quiet:
  "quiet now st \<Longrightarrow> activeLeaseCount now st = Inr (active_count st, st)"
  by (simp add: activeLeaseCount_def expire_quiet)

lemma armFence_simps [simp]:
  "fh_store (armFence h) = fh_store h" "fh_fence (armFence h) = fh_fence h"
  by (simp_all add: armFence_def split: option.split)

lemma armFence_covers [simp]: "alarm_covers (armFence h)"
proof -
  have "\<exists>m. nextExpiry (fh_store h) = Some m \<and> m \<le> expiresAt l"
    if "l \<in> set (fs_leases (fh_store h))" "is_active l" for l
    unfolding nextExpiry_def using that by (intro sql_min_le) auto
  then show ?thesis
    unfolding alarm_covers_def armFence_simps
    by (fastforce simp: armFence_def split: option.splits)
qed

lemma alarm_covers_subset:
  assumes "alarm_covers h" and "fh_alarm h' = fh_alarm h"
    and "\<And>l. l \<in> set (fs_leases (fh_store h')) \<Longrightarrow> is_active l \<Longrightarrow>
      \<exists>k \<in> set (fs_leases (fh_store h)). is_active k \<and> expiresAt k = expiresAt l"
  shows "alarm_covers h'"
  using assms unfolding alarm_covers_def set_filter mem_Collect_eq Ball_def by metis

lemma initialize_rows:
  "initializeStore now st = Inr st' \<Longrightarrow> fs_leases st' = fs_leases st \<and> assertSafeTime now"
  by (auto simp: initializeStore_def split: if_splits)

lemma rows_same:
  assumes "fs_leases st' = fs_leases st"
  shows "store_wf st' = store_wf st" "mirror_of st' = mirror_of st" "active_ids st' = active_ids st"
  using assms by (simp_all add: store_wf_def mirror_of_def active_rows_def active_ids_def)

lemma expire_total: "assertSafeTime now \<Longrightarrow> \<exists>ds st'. expireDueLeases now st = Inr (ds, st')"
  by (simp add: expireDueLeases_def Let_def)

lemma mirror_result:
  assumes "boundedLegacyActiveMirror now st = Inr (x, st1)"
  obtains ds where "expireDueLeases now st = Inr (ds, st1)"
    "x = (if active_count st1 > 512 then None else Some (mirror_of st1))"
  using assms that
  by (auto simp: boundedLegacyActiveMirror_def activeLeases_def mirror_of_def active_rows_def
      fence_constants split: sum.splits prod.splits if_splits)

subsection \<open>The preparation of a request\<close>

definition fence_of :: "string \<Rightarrow> fence_host \<Rightarrow> owner_purge_fence" where
  "fence_of uuid0 h = coalesce (fh_fence h) (new_fence uuid0)"

text \<open>What a prepared request knows.\<close>

definition prepared :: "string \<Rightarrow> ms \<Rightarrow> owner_purge_fence \<Rightarrow> fence_host \<Rightarrow> bool" where
  "prepared scoped now c h \<longleftrightarrow>
     fence_wf h \<and> fh_fence h = Some c \<and> pf_version2 c \<and> pf_ownerId c = Some scoped \<and>
     quiet now (fh_store h)"

lemma migrateFence_ok:
  assumes "store_wf (fh_store h)"
    and "migrateFence localeSort scoped now c0 h = Inr (c, h1)"
    and "pf_ownerId c0 = None \<or> pf_ownerId c0 = Some scoped"
  shows "prepared scoped now c h1 \<and>
    fence_core c = fence_core (c0\<lparr>pf_ownerId := Some scoped, pf_version2 := True\<rparr>)"
proof -
  let ?c1 = "if pf_ownerId c0 = None then c0\<lparr>pf_ownerId := Some scoped\<rparr> else c0"
  have owner: "pf_ownerId ?c1 = Some scoped" "?c1\<lparr>pf_version2 := True\<rparr> =
      c0\<lparr>pf_ownerId := Some scoped, pf_version2 := True\<rparr>"
    using assms(3) by (cases c0; auto)+
  obtain c2 st st1 mirror where c2: "c2 = ?c1\<lparr>pf_version2 := True\<rparr>" and "store_wf st" and
    m: "boundedLegacyActiveMirror now st = Inr (Some mirror, st1)" and
    c: "c = c2\<lparr>pf_active := mirror\<rparr>" and
    h1: "h1 = armFence (h\<lparr>fh_store := st1, fh_fence := Some c\<rparr>)"
  proof (cases "pf_version2 ?c1")
    case True
    then have "?c1\<lparr>pf_version2 := True\<rparr> = ?c1" by (cases ?c1) simp
    with True show thesis
      using assms(1,2) that [of ?c1 "fh_store h"]
      by (auto simp: migrateFence_def Let_def split: sum.splits option.splits prod.splits)
  next
    case False
    then obtain m st where st: "migrateLegacyActiveMirror scoped (pf_generation ?c1)
        (localeSort (pf_active ?c1)) now (fh_store h) = Inr (m, st)"
      using assms(2) by (auto simp: migrateFence_def Let_def split: sum.splits)
    then have "store_wf st" using migrate_keeps [OF assms(1)] by blast
    with False st show thesis
      using assms(2) that [of "?c1\<lparr>pf_version2 := True\<rparr>" st]
      by (auto simp: migrateFence_def Let_def split: sum.splits option.splits prod.splits if_splits)
  qed
  obtain ds where ex: "expireDueLeases now st = Inr (ds, st1)"
    and mi: "mirror = mirror_of st1" "active_count st1 \<le> 512"
    using mirror_result [OF m] by (metis not_le option.distinct(1) option.inject)
  have wf1: "store_wf st1" using expire_wf [OF \<open>store_wf st\<close> ex] .
  have "alarm_covers h1" by (simp add: h1)
  then show ?thesis
    using wf1 mi expire_makes_quiet [OF ex] owner(1)
    by (simp add: prepared_def fence_wf_def fence_synced_def h1 c c2 owner(2) del: if_split)
qed

lemma migrateFence_fail:
  assumes "store_wf (fh_store h)"
    and "migrateFence localeSort scoped now c0 h = Inl (r, h1)"
  shows "store_wf (fh_store h1) \<and> fh_fence h1 = fh_fence h"
proof -
  have "store_wf st1" if "boundedLegacyActiveMirror now st = Inr (x, st1)" "store_wf st" for st st1 x
    using that expire_wf by (auto elim!: mirror_result)
  moreover have "store_wf st" if "migrateLegacyActiveMirror a b e now (fh_store h) = Inr (m, st)"
    for a b e m st using migrate_keeps [OF assms(1) that] by simp
  ultimately show ?thesis
    using assms
    by (auto simp: migrateFence_def Let_def split: sum.splits option.splits prod.splits if_splits)
qed

lemma expireFence_ok:
  assumes "fence_wf h" and "fh_fence h = Some c0" and "pf_version2 c0" and "assertSafeTime now"
  shows "\<exists>c h1. expireFence now c0 h = Inr (c, h1) \<and> fence_core c = fence_core c0 \<and>
    fence_wf h1 \<and> fh_fence h1 = Some c \<and> quiet now (fh_store h1) \<and>
    active_ids (fh_store h1) \<subseteq> active_ids (fh_store h)"
proof -
  have syn: "fence_synced c0 h" "store_wf (fh_store h)" using assms by (simp_all add: fence_wf_def)
  obtain ds st where ex: "expireDueLeases now (fh_store h) = Inr (ds, st)"
    using expire_total [OF assms(4)] by blast
  note q = expire_makes_quiet [OF ex] and act = expire_active [OF ex]
  have n: "active_count st \<le> 512" using act(3) syn(1) by (simp add: fence_synced_def)
  show ?thesis
  proof (cases "ds = []")
    case True
    then have "st = fh_store h" using expire_result(2) [OF ex] by simp
    then show ?thesis using ex True assms q by (auto simp: expireFence_def)
  next
    case False
    let ?c = "c0\<lparr>pf_active := mirror_of st\<rparr>" and ?h = "h\<lparr>fh_store := st,
      fh_fence := Some (c0\<lparr>pf_active := mirror_of st\<rparr>)\<rparr>"
    have "expireFence now c0 h = Inr (?c, ?h)"
      using False n by (simp add: expireFence_def ex mirror_quiet [OF q] Let_def)
    moreover have "alarm_covers ?h"
      by (rule alarm_covers_subset [of h])
        (use syn(1) arg_cong [OF act(1), of set] in \<open>auto simp: fence_synced_def\<close>)
    then have "fence_wf ?h"
      using n syn expire_wf [OF syn(2) ex] by (simp add: fence_wf_def fence_synced_def)
    ultimately show ?thesis using act(2) q by fastforce
  qed
qed

lemma active_cong:
  assumes "filter is_active (fs_leases a) = filter is_active (fs_leases b)"
  shows "mirror_of a = mirror_of b" "active_ids a = active_ids b" "active_count a = active_count b"
  by (simp_all only: mirror_of_def active_rows_def active_ids_def assms)

lemma same_active_wf:
  assumes "fence_wf h" and "store_wf st"
    and "filter is_active (fs_leases st) = filter is_active (fs_leases (fh_store h))"
  shows "fence_wf (h\<lparr>fh_store := st\<rparr>)"
proof -
  have "alarm_covers (h\<lparr>fh_store := st\<rparr>) = alarm_covers h"
    unfolding alarm_covers_def by (simp add: assms(3) del: set_filter)
  then show ?thesis using assms active_cong [OF assms(3)] by (simp add: fence_wf_def fence_synced_def)
qed

lemma prepareFence_ok:
  assumes "fence_wf h" and "prepareFence localeSort owner now uuid0 h = Inr (scoped, c, h1)"
  shows "prepared scoped now c h1"
    and "fence_core c = fence_core ((fence_of uuid0 h)\<lparr>pf_ownerId := Some scoped, pf_version2 := True\<rparr>)"
    and "fh_fence h = Some c0 \<Longrightarrow> pf_version2 c0 \<Longrightarrow>
      active_ids (fh_store h1) \<subseteq> active_ids (fh_store h) \<and> fence_core c = fence_core c0"
proof -
  let ?c = "fence_of uuid0 h"
  obtain st where st: "initializeStore now (fh_store h) = Inr st" and ok: "scopedOwnerOk scoped ?c"
    and step: "(if pf_ownerId ?c = None \<or> \<not> pf_version2 ?c
        then migrateFence localeSort scoped now ?c (h\<lparr>fh_store := st\<rparr>)
        else expireFence now ?c (h\<lparr>fh_store := st\<rparr>)) = Inr (c, h1)"
    using assms(2)
    by (auto simp: prepareFence_def fence_of_def Let_def split: if_splits sum.splits)
  have rows: "fs_leases st = fs_leases (fh_store h)" "assertSafeTime now"
    using initialize_rows [OF st] by simp_all
  have wf0: "fence_wf (h\<lparr>fh_store := st\<rparr>)" "store_wf st"
    using assms(1) rows_same(1) [OF rows(1)] same_active_wf [OF assms(1)] rows(1)
    by (simp_all add: fence_wf_def)
  have "prepared scoped now c h1 \<and>
      fence_core c = fence_core (?c\<lparr>pf_ownerId := Some scoped, pf_version2 := True\<rparr>) \<and>
      (\<forall>c0. fh_fence h = Some c0 \<longrightarrow> pf_version2 c0 \<longrightarrow>
         active_ids (fh_store h1) \<subseteq> active_ids (fh_store h) \<and> fence_core c = fence_core c0)"
  proof (cases "pf_ownerId ?c = None \<or> \<not> pf_version2 ?c")
    case True
    have "\<not> pf_version2 c0" if "fh_fence h = Some c0" for c0
      using True that assms(1) by (auto simp: fence_of_def fence_wf_def fence_synced_def)
    then show ?thesis
      using migrateFence_ok [of "h\<lparr>fh_store := st\<rparr>" localeSort scoped now ?c c h1] True step ok wf0(2)
      by (auto simp: scopedOwnerOk_def)
  next
    case False
    then have owner: "pf_ownerId ?c = Some scoped" "pf_version2 ?c"
      using ok by (auto simp: scopedOwnerOk_def)
    then have fence: "fh_fence h = Some ?c"
      by (cases "fh_fence h") (simp_all add: fence_of_def new_fence_def)
    have id: "?c\<lparr>pf_ownerId := Some scoped, pf_version2 := True\<rparr> = ?c"
      using owner by (cases ?c) simp
    show ?thesis
      using expireFence_ok [OF wf0(1) _ owner(2) rows(2)] False step fence owner
        rows_same(3) [OF rows(1)]
      by (auto simp: prepared_def id dest: fence_coreD)
  qed
  then show "prepared scoped now c h1"
    "fence_core c = fence_core (?c\<lparr>pf_ownerId := Some scoped, pf_version2 := True\<rparr>)"
    "fh_fence h = Some c0 \<Longrightarrow> pf_version2 c0 \<Longrightarrow>
      active_ids (fh_store h1) \<subseteq> active_ids (fh_store h) \<and> fence_core c = fence_core c0"
    by blast+
qed

lemma prepareFence_fail:
  assumes "fence_wf h" and "prepareFence localeSort owner now uuid0 h = Inl (r, h1)"
  shows "fence_wf h1 \<and> fh_fence h1 = fh_fence h \<and>
    (\<forall>c0. fh_fence h = Some c0 \<longrightarrow> pf_version2 c0 \<longrightarrow> active_ids (fh_store h1) = active_ids (fh_store h))"
proof -
  let ?c = "fence_of uuid0 h"
  consider "h1 = h" | st where "initializeStore now (fh_store h) = Inr st"
      "(if pf_ownerId ?c = None \<or> \<not> pf_version2 ?c
        then migrateFence localeSort (js_trim (coalesce owner [])) now ?c (h\<lparr>fh_store := st\<rparr>)
        else expireFence now ?c (h\<lparr>fh_store := st\<rparr>)) = Inl (r, h1)"
    using assms(2)
    by (auto simp: prepareFence_def fence_of_def Let_def split: if_splits sum.splits)
  then show ?thesis
  proof cases
    case 1
    then show ?thesis using assms(1) by simp
  next
    case (2 st)
    have rows: "fs_leases st = fs_leases (fh_store h)" "assertSafeTime now"
      using initialize_rows [OF 2(1)] by simp_all
    have wf0: "fence_wf (h\<lparr>fh_store := st\<rparr>)" "store_wf st"
      using assms(1) rows_same(1) [OF rows(1)] same_active_wf [OF assms(1)] rows(1)
      by (simp_all add: fence_wf_def)
    show ?thesis
    proof (cases "pf_ownerId ?c = None \<or> \<not> pf_version2 ?c")
      case True
      have old: "\<not> pf_version2 c0" if "fh_fence h = Some c0" for c0
        using True that assms(1) by (auto simp: fence_of_def fence_wf_def fence_synced_def)
      have "store_wf (fh_store h1) \<and> fh_fence h1 = fh_fence h"
        using migrateFence_fail [of "h\<lparr>fh_store := st\<rparr>"] True 2(2) wf0(2) by fastforce
      then show ?thesis using old by (auto simp: fence_wf_def)
    next
      case False
      then have fence: "fh_fence h = Some ?c"
        by (cases "fh_fence h") (simp_all add: fence_of_def new_fence_def)
      then show ?thesis
        using expireFence_ok [OF wf0(1) _ _ rows(2), of ?c] False 2(2) by auto
    qed
  qed
qed

subsection \<open>The routes keep the invariant\<close>

lemma commit_armed:
  assumes "quiet now st" and "store_wf st" and "pf_ownerId c \<noteq> None"
    and "commitMirror now c st h = Inr (c', h')"
  shows "fence_wf (armFence h') \<and> fh_store h' = st \<and> fh_fence h' = Some c' \<and>
    fence_core c' = fence_core c"
  using assms by (auto simp: commit_quiet fence_wf_def fence_synced_def split: if_splits)

lemma prune_quiet:
  assumes "store_wf st" and "quiet now st" and "pruneRetiredLeases now st = Inr st'"
  shows "quiet now st' \<and> store_wf st' \<and>
    filter is_active (fs_leases st') = filter is_active (fs_leases st)"
proof -
  have "set (fs_leases st') \<subseteq> set (fs_leases st)"
    using assms(3) by (auto simp: pruneRetiredLeases_def Let_def split: if_splits)
  then show ?thesis
    using assms(2) prune_store_wf [OF assms(1,3)] prune_active [OF assms(1,3)] by (auto simp: quiet_def)
qed

lemma register_quiet:
  assumes "store_wf st" and "quiet now st" and "registerLeaseExact i v now st = Inr (r, st')"
  shows "quiet now st' \<and> store_wf st' \<and>
    ((\<exists>l. r = Registered l \<and> leaseId l = leaseId i \<and> leaseRow (leaseId i) st = None \<and>
          active_ids st' = insert (leaseId i) (active_ids st) \<and>
          active_count st' = Suc (active_count st))
     \<or> (st' = st \<and> (\<forall>l. r = Replayed l \<longrightarrow> leaseRow (leaseId i) st = Some l \<and> is_active l)))"
  using assms(3) [unfolded registerLeaseExact_def]
proof (cases rule: register_cases)
  case (existing ds l)
  then show ?thesis using assms(1,2) by (auto simp: expire_quiet split: if_splits)
next
  case (new ds s1 e)
  then have s1: "s1 = st" using assms(2) by (simp add: expire_quiet)
  have e: "now < e" using boundedExpiry_bounds [OF new(3)] by (simp add: fence_constants)
  have "store_wf st'"
    using register_wf [OF assms(1) assms(3) [unfolded registerLeaseExact_def]] grace_bounds by simp
  moreover have st': "fs_leases st' = fs_leases st @ [new_lease i e now]" by (simp add: new(5) s1)
  then have "quiet now st'" using assms(2) e by (auto simp: quiet_def due_def)
  moreover have "active_ids st' = insert (leaseId i) (active_ids st)"
    "active_count st' = Suc (active_count st)"
    by (simp_all add: st' active_ids_def)
  ultimately show ?thesis using new(2,4) s1 by simp
qed

lemma renew_cases:
  assumes "renewLeaseExact i v now st = Inr (r, st')"
  obtains (same) "st' = st"
  | (expired) l where "leaseRow (leaseId i) st = Some l" "is_active l" "expiresAt l \<le> now"
  | (renewed) k e l where "boundedExpiry v now OWNER_FENCE_DEFAULT_MAX_LEASE_MS = Inr e"
      "r = Renewed l" "st' = update_active k (\<lambda>l. l\<lparr>expiresAt := e, renewedAt := now\<rparr>) st"
  using assms that
  by (auto simp: renewLeaseExact_def Let_def split: option.splits sum.splits if_splits)

lemma renew_quiet:
  assumes "store_wf st" and "quiet now st" and "renewLeaseExact i v now st = Inr (r, st')"
  shows "quiet now st' \<and> store_wf st' \<and> active_ids st' = active_ids st \<and>
    active_count st' = active_count st \<and> ((\<exists>l. r = Renewed l) \<or> st' = st)"
proof -
  have upd: "quiet now (update_active k (\<lambda>l. l\<lparr>expiresAt := e, renewedAt := now\<rparr>) st)"
    "active_ids (update_active k (\<lambda>l. l\<lparr>expiresAt := e, renewedAt := now\<rparr>) st) = active_ids st"
    "active_count (update_active k (\<lambda>l. l\<lparr>expiresAt := e, renewedAt := now\<rparr>) st) = active_count st"
    if "now < e" for k e
  proof -
    let ?f = "\<lambda>l. l\<lparr>expiresAt := e, renewedAt := now\<rparr>"
    have act: "is_active (?f l) = is_active l" for l :: fence_lease by (simp add: is_active_def)
    have "map leaseId (filter is_active (sql_update p ?f t)) = map leaseId (filter is_active t)" for p t
      by (induction t) (auto simp: table_simps act)
    then have eq: "map leaseId (filter is_active (fs_leases (update_active k ?f st))) =
        map leaseId (filter is_active (fs_leases st))" by (simp add: update_active_def)
    show "active_ids (update_active k ?f st) = active_ids st"
      using arg_cong [OF eq, of set] by (simp add: active_ids_def)
    show "active_count (update_active k ?f st) = active_count st"
      using arg_cong [OF eq, of length] by simp
    show "quiet now (update_active k ?f st)"
      using assms(2) that by (auto simp: quiet_def update_active_def set_sql_update due_def act)
  qed
  have live: "now < expiresAt l" if "leaseRow k st = Some l" "is_active l" for k l
    using assms(2) find_row_Some [OF that(1)] that(2) by (auto simp: quiet_def due_def)
  have e: "now < e" if "boundedExpiry v now OWNER_FENCE_DEFAULT_MAX_LEASE_MS = Inr e" for e
    using boundedExpiry_bounds [OF that] by (simp add: fence_constants)
  from assms(3) show ?thesis
  proof (cases rule: renew_cases)
    case same
    then show ?thesis using assms(1,2) by simp
  next
    case (expired l)
    then show ?thesis using live [OF expired(1,2)] by simp
  next
    case (renewed k e l)
    then show ?thesis using upd [OF e, of e k] renew_wf [OF assms(1,3)] by simp
  qed
qed

lemma retire_quiet:
  assumes "store_wf st" and "quiet now st" and "retireLeaseExact i now st = Inr (r, st')"
  shows "quiet now st' \<and> store_wf st' \<and>
    set (filter is_active (fs_leases st')) \<subseteq> set (filter is_active (fs_leases st)) \<and>
    active_ids st' \<subseteq> active_ids st \<and> active_count st' \<le> active_count st"
proof -
  let ?st = "\<lambda>k. update_active k (retire now) st"
  have eq: "filter is_active (fs_leases (?st k)) =
      filter (\<lambda>l. is_active l \<and> leaseId l \<noteq> k) (fs_leases st)" for k
  proof -
    have "filter is_active (sql_update (\<lambda>l. leaseId l = k \<and> is_active l) (retire now) t) =
        filter (\<lambda>l. is_active l \<and> leaseId l \<noteq> k) t" for t
      by (induction t) (auto simp: table_simps)
    then show ?thesis by (simp add: update_active_def)
  qed
  have cnt: "active_count (?st k) \<le> active_count st" for k
    unfolding eq by (rule length_filter_mono) simp
  have q: "quiet now (?st k)" for k
    using assms(2) by (auto simp: quiet_def update_active_def set_sql_update due_def)
  have sub: "set (filter is_active (fs_leases (?st k))) \<subseteq> set (filter is_active (fs_leases st))"
    "active_ids (?st k) \<subseteq> active_ids st" for k
    unfolding active_ids_def eq by auto
  have "st' = st \<or> (\<exists>k. st' = ?st k)"
    using assms(3) by (auto simp: retireLeaseExact_def Let_def split: option.splits if_splits)
  then show ?thesis
    using assms(2) cnt q sub retireLease_wf [OF assms(1,3)] by (elim disjE exE) simp_all
qed

text \<open>
  What a route may do: keep the invariant, keep the fence but for its mirror, and, unless it registered
  the lease \<open>k\<close>, add nothing to the active leases.
\<close>

definition route_keeps :: "string set \<Rightarrow> owner_purge_fence \<Rightarrow> fence_host \<Rightarrow> fence_host \<Rightarrow> bool" where
  "route_keeps K c h h' \<longleftrightarrow>
     fence_wf h' \<and> (\<exists>c'. fh_fence h' = Some c' \<and> fence_core c' = fence_core c) \<and>
     active_ids (fh_store h') \<subseteq> active_ids (fh_store h) \<union> K"

lemma route_keeps_same [simp]: "prepared scoped now c h \<Longrightarrow> route_keeps K c h h"
  by (auto simp: route_keeps_def prepared_def)

lemma commit_route:
  assumes "prepared scoped now c h" and "quiet now st" "store_wf st"
    and "commitMirror now c st h1 = Inr (c', h')"
    and "active_ids st \<subseteq> active_ids (fh_store h) \<union> K"
  shows "route_keeps K c h (armFence h')"
  using commit_armed [OF assms(2,3) _ assms(4)] assms(1,5)
  by (auto simp: route_keeps_def prepared_def)

lemma registerTxn_keeps:
  assumes p: "prepared scoped now c h" and "registerTxn i v now c h = Inr (res, h')"
  shows "route_keeps {leaseId i} c h h'"
proof -
  have st0: "store_wf (fh_store h)" "quiet now (fh_store h)" using p by (simp_all add: prepared_def fence_wf_def)
  obtain st1 where st1: "pruneRetiredLeases now (fh_store h) = Inr st1"
    using assms(2) by (auto simp: registerTxn_def split: sum.splits)
  note pr = prune_quiet [OF st0 st1]
  obtain r st2 where st2: "registerLeaseExact i v now st1 = Inr (r, st2)"
    using assms(2) st1 by (auto simp: registerTxn_def split: sum.splits)
  note rg = register_quiet [OF pr [THEN conjunct2, THEN conjunct1] pr [THEN conjunct1] st2]
  have ids: "active_ids st1 = active_ids (fh_store h)" using pr active_cong(2) by blast
  have ids2: "active_ids st2 \<subseteq> active_ids (fh_store h) \<union> {leaseId i}" using rg ids by auto
  have conflict: "route_keeps {leaseId i} c h (h\<lparr>fh_store := st1\<rparr>)"
    using same_active_wf [of h st1] pr p ids by (auto simp: route_keeps_def prepared_def)
  have commit: "route_keeps {leaseId i} c h (armFence h1)"
    if "commitMirror now c st h = Inr (c1, h1)" "quiet now st" "store_wf st"
      "active_ids st = active_ids st2" for st c1 h1
    using that ids2 by (intro commit_route [OF p that(2,3,1)]) simp
  show ?thesis
  proof (cases r)
    case (Registered l)
    then show ?thesis
      using assms(2) st1 st2 commit rg
      by (auto simp: registerTxn_def split: sum.splits prod.splits)
  next
    case (Replayed l)
    then obtain res' st3 c1 h1 where st3: "renewLeaseExact (lease_identity.truncate l) v now st2 =
        Inr (res', st3)" and c1: "commitMirror now c st3 h = Inr (c1, h1)" and h': "h' = armFence h1"
      using assms(2) st1 st2 by (auto simp: registerTxn_def split: sum.splits prod.splits)
    show ?thesis
      using renew_quiet [OF _ _ st3] rg commit [OF c1] by (simp add: h')
  qed (use assms(2) st1 st2 rg conflict in \<open>auto simp: registerTxn_def split: sum.splits\<close>)
qed

lemma fenceRegister_keeps:
  assumes p: "prepared scoped now c h"
  shows "route_keeps (if pf_state c = FenceOpen then {the (fb_leaseId body)} else {}) c h
    (snd (fenceRegister scoped body now c h))"
proof -
  have q: "quiet now (fh_store h)" using p by (simp add: prepared_def)
  have same: "h\<lparr>fh_store := fh_store h\<rparr> = h" by (cases h) simp
  have txn: "route_keeps {leaseId i} c h h'" if "registerTxn i v now c h = Inr (res, h')" for i v res h'
    by (rule registerTxn_keeps [OF p that])
  show ?thesis
    using p txn
    by (auto simp: fenceRegister_def Let_def activeLease_quiet [OF q] activeLeaseCount_quiet [OF q] same
        split: sum.split prod.split option.split) (metis lease_identity.select_convs(1))+
qed

lemma commit_unarmed:
  assumes p: "prepared scoped now c h" and "quiet now st" "store_wf st"
    and sub: "set (filter is_active (fs_leases st)) \<subseteq> set (filter is_active (fs_leases (fh_store h)))"
    and "commitMirror now c st h = Inr (c', h')"
  shows "route_keeps {} c h h'"
proof -
  let ?c = "c\<lparr>pf_active := mirror_of st\<rparr>"
  have h': "h' = h\<lparr>fh_store := st, fh_fence := Some ?c\<rparr>" and n: "active_count st \<le> 512"
    using assms(5) by (auto simp: commit_quiet [OF assms(2)] split: if_splits)
  have old: "alarm_covers h" and owner: "pf_ownerId c \<noteq> None"
    using p unfolding prepared_def fence_wf_def fence_synced_def by blast+
  have "\<exists>k \<in> set (fs_leases (fh_store h)). is_active k \<and> expiresAt k = expiresAt l"
    if "l \<in> set (fs_leases st)" "is_active l" for l
    using subsetD [OF sub, of l] that by auto
  then have cov: "alarm_covers h'" by (intro alarm_covers_subset [OF old]) (simp_all add: h')
  have "fence_wf h'"
    using cov owner n assms(3) unfolding fence_wf_def fence_synced_def by (simp add: h')
  moreover have "active_ids st \<subseteq> active_ids (fh_store h)" using sub by (auto simp: active_ids_def)
  ultimately show ?thesis unfolding route_keeps_def by (simp add: h')
qed

lemma fenceUnregister_keeps:
  assumes p: "prepared scoped now c h"
  shows "route_keeps {} c h (snd (fenceUnregister body now c h))"
proof -
  have st0: "store_wf (fh_store h)" "quiet now (fh_store h)"
    using p by (simp_all add: prepared_def fence_wf_def)
  have "route_keeps {} c h h'"
    if "retireLeaseExact i now (fh_store h) = Inr (res, st)" "commitMirror now c st h = Inr (c', h')"
    for i res st c' h'
    using retire_quiet [OF st0 that(1)] by (intro commit_unarmed [OF p _ _ _ that(2)]) auto
  then show ?thesis
    using p by (auto simp: fenceUnregister_def split: sum.split option.split mutation_result.split prod.split)
qed

lemma renewTxn_keeps:
  assumes p: "prepared scoped now c h"
  shows "route_keeps {} c h (snd (renewTxn l now c h))"
proof -
  have st0: "store_wf (fh_store h)" "quiet now (fh_store h)"
    using p by (simp_all add: prepared_def fence_wf_def)
  have same: "h\<lparr>fh_store := fh_store h\<rparr> = h" by (cases h) simp
  show ?thesis
  proof (cases "renewLeaseExact (lease_identity.truncate l)
      (Fin (of_int (now + OWNER_FENCE_LEASE_TTL_MS))) now (fh_store h)")
    case (Inl e)
    then show ?thesis using p by (simp add: renewTxn_def)
  next
    case (Inr x)
    obtain r st where x: "x = (r, st)" by (cases x)
    note rq = renew_quiet [OF st0 Inr [unfolded x]]
    have commit: "route_keeps {} c h (armFence h')" if "commitMirror now c st h = Inr (c', h')" for c' h'
      using rq by (intro commit_route [OF p _ _ that]) auto
    show ?thesis
      using Inr x p commit rq same
      by (auto simp: renewTxn_def split: mutation_result.split sum.split prod.split)
  qed
qed

lemma fenceRenew_keeps:
  assumes p: "prepared scoped now c h"
  shows "route_keeps {} c h (snd (fenceRenew body now c h))"
proof -
  have q: "quiet now (fh_store h)" and same: "h\<lparr>fh_store := fh_store h\<rparr> = h"
    using p by (simp_all add: prepared_def)
  show ?thesis
    using p renewTxn_keeps [OF p]
    by (auto simp: fenceRenew_def Let_def activeLease_quiet [OF q] same split: option.split)
qed

lemma fenceAssert_keeps:
  assumes p: "prepared scoped now c h"
  shows "route_keeps {} c h (snd (fenceAssert body now c h))"
proof -
  have q: "quiet now (fh_store h)" and same: "h\<lparr>fh_store := fh_store h\<rparr> = h"
    using p by (simp_all add: prepared_def)
  show ?thesis
    using p renewTxn_keeps [OF p]
    by (auto simp: fenceAssert_def Let_def activeLease_quiet [OF q] same split: option.split)
qed

lemma put_fence_wf:
  assumes "fence_wf h" and "fh_fence h = Some c" and "pf_active c' = pf_active c"
    and "pf_ownerId c' = pf_ownerId c" and "pf_version2 c' = pf_version2 c"
  shows "fence_wf (h\<lparr>fh_fence := Some c'\<rparr>)"
  using assms by (simp add: fence_wf_def fence_synced_def alarm_covers_def)

lemma fenceBegin_keeps:
  assumes p: "prepared scoped now c h"
  shows "fence_wf (snd (fenceBegin ok uuid body c h)) \<and>
    fh_store (snd (fenceBegin ok uuid body c h)) = fh_store h \<and>
    (\<exists>c'. fh_fence (snd (fenceBegin ok uuid body c h)) = Some c' \<and>
       (c' = c \<or> (pf_state c = FenceOpen \<and> pf_state c' = FenceBlocked \<and> pf_generation c' = uuid \<and>
           pf_version2 c' = pf_version2 c) \<or>
        (pf_state c = FenceBlocked \<and> c' = c\<lparr>pf_mode := Some Permanent\<rparr>)))"
proof -
  have wf: "fence_wf h" "fh_fence h = Some c" using p by (simp_all add: prepared_def)
  show ?thesis
  proof (cases "ownerPurgeBeginDisposition (begin_args_of body c)")
    case (BeginStart mode rejoined)
    then have "pf_state c = FenceOpen"
      using begin_start_open [OF BeginStart] by (simp add: begin_args_of_def)
    then show ?thesis
      using wf BeginStart by (auto simp: fenceBegin_def Let_def intro!: put_fence_wf)
  next
    case (BeginResume upgrade rejoined)
    then have "pf_state c = FenceBlocked"
      using begin_resume_blocked [OF BeginResume] by (simp add: begin_args_of_def)
    then show ?thesis
      using wf BeginResume by (auto simp: fenceBegin_def Let_def intro!: put_fence_wf)
  qed (use wf in \<open>simp add: fenceBegin_def\<close>)
qed

lemma fenceRelease_keeps:
  assumes p: "prepared scoped now c h"
  shows "fence_wf (snd (fenceRelease uuid body now c h)) \<and>
    fh_store (snd (fenceRelease uuid body now c h)) = fh_store h \<and>
    (fh_fence (snd (fenceRelease uuid body now c h)) = Some c \<or>
     (\<exists>c'. fh_fence (snd (fenceRelease uuid body now c h)) = Some c' \<and>
        pf_state c = FenceBlocked \<and> pf_mode c = Some Temporary \<and>
        normalizeOwnerGeneration (fb_generation body) = Some (pf_generation c) \<and>
        active_ids (fh_store h) = {} \<and> pf_state c' = FenceOpen \<and> pf_generation c' = uuid \<and>
        pf_version2 c' = pf_version2 c))"
proof -
  have wf: "fence_wf h" "fh_fence h = Some c" "quiet now (fh_store h)"
    and same: "h\<lparr>fh_store := fh_store h\<rparr> = h"
    using p by (simp_all add: prepared_def)
  show ?thesis
  proof (cases "ownerPurgeReleaseDisposition (pf_state c) (pf_mode c) (pf_generation c)
      (pf_lastReleasedGeneration c) (fb_generation body) (active_count (fh_store h))")
    case Release
    let ?c = "c\<lparr>pf_lastReleasedGeneration := Some (pf_generation c), pf_generation := uuid,
      pf_state := FenceOpen, pf_beginRequestId := None, pf_mode := None,
      pf_rejoinedFromGeneration := None\<rparr>"
    have res: "snd (fenceRelease uuid body now c h) = h\<lparr>fh_fence := Some ?c\<rparr>"
      by (simp add: fenceRelease_def Let_def activeLeaseCount_quiet [OF wf(3)] Release)
    have "fence_wf (h\<lparr>fh_fence := Some ?c\<rparr>)" by (rule put_fence_wf [OF wf(1,2)]) simp_all
    then show ?thesis
      using Release unfolding res release_needs by (auto simp: active_ids_def filter_empty_conv)
  qed (use wf same in \<open>auto simp: fenceRelease_def Let_def activeLeaseCount_quiet\<close>)
qed

subsection \<open>One event\<close>

datatype fence_event = FRequest fence_request | FAlarm ms

fun fence_step ::
  "(legacy_mirror \<Rightarrow> legacy_mirror) \<Rightarrow> fence_event \<Rightarrow> fence_host \<Rightarrow> fence_host" where
  "fence_step localeSort (FRequest r) h = snd (fenceFetch localeSort r h)"
| "fence_step localeSort (FAlarm now) h = fireFenceAlarm now h"

text \<open>
  What one event may do to a fence that has been bound to its owner: nothing but take or drop leases;
  close the fence; make a purge permanent; or open the fence again.
\<close>

definition closes :: "string \<Rightarrow> owner_purge_fence \<Rightarrow> owner_purge_fence \<Rightarrow> bool" where
  "closes uuid c c' \<longleftrightarrow>
     pf_state c = FenceOpen \<and> pf_state c' = FenceBlocked \<and> pf_generation c' = uuid \<and>
     pf_version2 c' = pf_version2 c"

definition opens :: "fence_request \<Rightarrow> owner_purge_fence \<Rightarrow> owner_purge_fence \<Rightarrow> bool" where
  "opens r c c' \<longleftrightarrow>
     fr_path r = ''release'' \<and> pf_state c = FenceBlocked \<and> pf_mode c = Some Temporary \<and>
     normalizeOwnerGeneration (fb_generation (fr_body r)) = Some (pf_generation c) \<and>
     pf_state c' = FenceOpen \<and> pf_generation c' = fr_uuid1 r \<and> pf_version2 c' = pf_version2 c"

definition fence_moves ::
  "fence_request \<Rightarrow> owner_purge_fence \<Rightarrow> fence_host \<Rightarrow> owner_purge_fence \<Rightarrow> fence_host \<Rightarrow> bool" where
  "fence_moves r c h c' h' \<longleftrightarrow>
     (fence_core c' = fence_core c \<and>
        active_ids (fh_store h') \<subseteq> active_ids (fh_store h) \<union>
          (if fr_path r = ''register'' \<and> pf_state c = FenceOpen
           then {the (fb_leaseId (fr_body r))} else {})) \<or>
     (active_ids (fh_store h') \<subseteq> active_ids (fh_store h) \<and>
        fr_path r \<in> {''begin'', ''release''} \<and>
        (closes (fr_uuid1 r) c c' \<or>
         pf_state c = FenceBlocked \<and> fence_core c' = fence_core (c\<lparr>pf_mode := Some Permanent\<rparr>) \<or>
         opens r c c' \<and> active_ids (fh_store h') = {}))"

lemma route_moves:
  assumes p: "prepared scoped (fr_now r) c h"
    and "(if fr_path r = ''register'' then fenceRegister scoped (fr_body r) (fr_now r) c h
          else if fr_path r = ''unregister'' then fenceUnregister (fr_body r) (fr_now r) c h
          else if fr_path r = ''renew'' then fenceRenew (fr_body r) (fr_now r) c h
          else if fr_path r = ''assert'' then fenceAssert (fr_body r) (fr_now r) c h
          else if fr_path r = ''assert-blocked'' then fenceAssertBlocked (fr_body r) c h
          else if fr_path r = ''begin'' then fenceBegin (fr_hookOk r) (fr_uuid1 r) (fr_body r) c h
          else if fr_path r = ''release'' then fenceRelease (fr_uuid1 r) (fr_body r) (fr_now r) c h
          else (RNotFound, h)) = (res, h')"
  shows "fence_wf h' \<and> (\<exists>c'. fh_fence h' = Some c' \<and> fence_moves r c h c' h')"
proof -
  have keeps: "fence_wf h' \<and> (\<exists>c'. fh_fence h' = Some c' \<and> fence_moves r c h c' h')"
    if "route_keeps K c h h'"
      "K = (if fr_path r = ''register'' \<and> pf_state c = FenceOpen
            then {the (fb_leaseId (fr_body r))} else {})" for K
    using that by (auto simp: route_keeps_def fence_moves_def)
  have snd: "snd x = h'" if "x = (res, h')" for x :: "fence_response \<times> fence_host" using that by simp
  consider "fr_path r = ''register''" | "fr_path r = ''unregister''" | "fr_path r = ''renew''"
    | "fr_path r = ''assert''" | "fr_path r = ''begin''" | "fr_path r = ''release''"
    | "h' = h" "fr_path r \<noteq> ''register''"
    using assms(2) by (auto simp: fenceAssertBlocked_def split: if_splits)
  then show ?thesis
  proof cases
    case 1
    then show ?thesis using assms(2) fenceRegister_keeps [OF p, of "fr_body r"] by (intro keeps) auto
  next
    case 2
    then show ?thesis using assms(2) fenceUnregister_keeps [OF p, of "fr_body r"] by (intro keeps) auto
  next
    case 3
    then show ?thesis using assms(2) fenceRenew_keeps [OF p, of "fr_body r"] by (intro keeps) auto
  next
    case 4
    then show ?thesis using assms(2) fenceAssert_keeps [OF p, of "fr_body r"] by (intro keeps) auto
  next
    case 5
    then show ?thesis
      using assms(2) fenceBegin_keeps [OF p, of "fr_hookOk r" "fr_uuid1 r" "fr_body r"]
      by (auto simp: fence_moves_def closes_def)
  next
    case 6
    then show ?thesis
      using assms(2) fenceRelease_keeps [OF p, of "fr_uuid1 r" "fr_body r"] p
      by (auto simp: fence_moves_def opens_def prepared_def)
  next
    case 7
    then show ?thesis using p by (intro keeps) auto
  qed
qed

lemma fence_moves_prepared:
  assumes m: "fence_moves r c1 h1 c' h'" and sub: "active_ids (fh_store h1) \<subseteq> active_ids (fh_store h)"
    and core: "fence_core c1 = fence_core c"
  shows "fence_moves r c h c' h'"
proof -
  note same = fence_coreD [OF core]
  have perm: "fence_core (c1\<lparr>pf_mode := m\<rparr>) = fence_core (c\<lparr>pf_mode := m\<rparr>)" for m
    using core by (cases c; cases c1) (simp add: fence_core_def)
  have "closes (fr_uuid1 r) c1 c' = closes (fr_uuid1 r) c c'" "opens r c1 c' = opens r c c'"
    using same by (simp_all add: closes_def opens_def)
  then show ?thesis
    using m sub unfolding fence_moves_def perm core same [THEN conjunct1] by blast
qed

lemma fetch_moves:
  assumes "fence_wf h" and "fenceFetch localeSort r h = (res, h')"
  shows "fence_wf h' \<and> (\<forall>c. fh_fence h = Some c \<longrightarrow> pf_version2 c \<longrightarrow>
    (\<exists>c'. fh_fence h' = Some c' \<and> fence_moves r c h c' h'))"
proof (cases "prepareFence localeSort (fb_ownerId (fr_body r)) (fr_now r) (fr_uuid0 r) h")
  case (Inl x)
  then have "x = (res, h')" using assms(2) by (simp add: fenceFetch_def Let_def)
  then show ?thesis
    using prepareFence_fail [OF assms(1)] Inl by (fastforce simp: fence_moves_def)
next
  case (Inr x)
  obtain scoped c1 h1 where x: "x = (scoped, c1, h1)" by (cases x)
  note prep = prepareFence_ok [OF assms(1) Inr [unfolded x]]
  obtain c' where c': "fence_wf h'" "fh_fence h' = Some c'" "fence_moves r c1 h1 c' h'"
    using route_moves [OF prep(1), of res h'] assms(2) Inr x by (auto simp: fenceFetch_def Let_def)
  have "fence_moves r c h c' h'" if "fh_fence h = Some c" "pf_version2 c" for c
  proof -
    have sub: "active_ids (fh_store h1) \<subseteq> active_ids (fh_store h)" and core: "fence_core c1 = fence_core c"
      using prep(3) [OF that] by simp_all
    show ?thesis by (rule fence_moves_prepared [OF c'(3) sub core])
  qed
  then show ?thesis using c' by blast
qed

lemma next_deadline_covers:
  assumes "fh_alarm h = nextExpiry (fh_store h)"
  shows "alarm_covers h"
  unfolding alarm_covers_def assms nextExpiry_def by (auto intro!: sql_min_le)

lemma fireFenceAlarm_keeps:
  assumes "fence_wf h"
  shows "fence_wf (fireFenceAlarm now h) \<and>
    (\<forall>c. fh_fence h = Some c \<longrightarrow> (\<exists>c'. fh_fence (fireFenceAlarm now h) = Some c' \<and>
       fence_core c' = fence_core c \<and>
       active_ids (fh_store (fireFenceAlarm now h)) \<subseteq> active_ids (fh_store h)))"
proof (cases "\<exists>c. fh_fence h = Some c \<and> pf_version2 c")
  case False
  then show ?thesis
    using assms
    by (auto simp: fireFenceAlarm_def fenceAlarm_def fence_wf_def split: option.splits)
next
  case True
  then obtain c where c: "fh_fence h = Some c" "pf_version2 c" by blast
  have syn: "fence_synced c h" "store_wf (fh_store h)" using assms c by (simp_all add: fence_wf_def)
  show ?thesis
  proof (cases "fenceAlarm now (h\<lparr>fh_alarm := None\<rparr>)")
    case None
    have "alarm_covers (h\<lparr>fh_alarm := nextExpiry (fh_store h)\<rparr>)"
      by (rule next_deadline_covers) simp
    then show ?thesis
      using None syn c
      by (auto simp: fireFenceAlarm_def fenceNextDeadline_def fence_wf_def fence_synced_def)
  next
    case (Some x)
    then obtain st st1 ds st2 c' h1 where init: "initializeStore now (fh_store h) = Inr st"
      and pr: "pruneRetiredLeases now st = Inr st1" and ex: "expireDueLeases now st1 = Inr (ds, st2)"
      and cm: "commitMirror now c st2 (h\<lparr>fh_alarm := None\<rparr>) = Inr (c', h1)"
      and x: "x = (nextExpiry (fh_store h1), h1)"
      using c by (auto simp: fenceAlarm_def split: sum.splits)
    have rows: "fs_leases st = fs_leases (fh_store h)" using initialize_rows [OF init] by simp
    have wf: "store_wf st" using syn(2) rows_same(1) [OF rows] by simp
    have wf2: "store_wf st2" using expire_wf [OF prune_store_wf [OF wf pr] ex] .
    have ids: "active_ids st2 \<subseteq> active_ids (fh_store h)"
      using expire_active(2) [OF ex] active_cong(2) [OF prune_active [OF wf pr]]
        rows_same(3) [OF rows] by simp
    have h1: "h1 = h\<lparr>fh_alarm := None, fh_store := st2,
        fh_fence := Some (c\<lparr>pf_active := mirror_of st2\<rparr>)\<rparr>" and n: "active_count st2 \<le> 512"
      using cm by (auto simp: commit_quiet [OF expire_makes_quiet [OF ex]] split: if_splits)
    have fire: "fireFenceAlarm now h = h1\<lparr>fh_alarm := nextExpiry (fh_store h1)\<rparr>"
      using Some x by (simp add: fireFenceAlarm_def)
    have "alarm_covers (fireFenceAlarm now h)"
      by (rule next_deadline_covers) (simp add: fire)
    then show ?thesis
      using wf2 n ids syn(1) c by (simp add: fire h1 fence_wf_def fence_synced_def)
  qed
qed

text \<open>The states that can be reached from an empty object, and what holds in all of them.\<close>

definition fence_run ::
  "(legacy_mirror \<Rightarrow> legacy_mirror) \<Rightarrow> fence_event list \<Rightarrow> fence_host \<Rightarrow> fence_host" where
  "fence_run localeSort evs h = fold (fence_step localeSort) evs h"

definition fence_inv :: "fence_host \<Rightarrow> bool" where
  "fence_inv h \<longleftrightarrow> fence_wf h \<and> (\<forall>c. fh_fence h = Some c \<longrightarrow> pf_version2 c)"

lemma fetch_first:
  assumes "fence_wf h" and "fh_fence h = None" and "fenceFetch localeSort r h = (res, h')"
    and "fh_fence h' = Some c'"
  shows "pf_version2 c'"
proof (cases "prepareFence localeSort (fb_ownerId (fr_body r)) (fr_now r) (fr_uuid0 r) h")
  case (Inl x)
  then show ?thesis
    using prepareFence_fail [OF assms(1), of localeSort "fb_ownerId (fr_body r)" "fr_now r" "fr_uuid0 r"]
      assms by (auto simp: fenceFetch_def Let_def)
next
  case (Inr x)
  obtain scoped c1 h1 where x: "x = (scoped, c1, h1)" by (cases x)
  note prep = prepareFence_ok [OF assms(1) Inr [unfolded x]]
  have "\<exists>c'. fh_fence h' = Some c' \<and> fence_moves r c1 h1 c' h'"
    using route_moves [OF prep(1), of res h'] assms(3) Inr x by (auto simp: fenceFetch_def Let_def)
  then have "fence_moves r c1 h1 c' h'" using assms(4) by simp
  moreover have "pf_version2 c1" using prep(1) by (simp add: prepared_def)
  ultimately show ?thesis
    by (auto simp: fence_moves_def closes_def opens_def dest: fence_coreD)
qed

lemma fence_step_inv:
  assumes "fence_inv h"
  shows "fence_inv (fence_step localeSort ev h)"
proof (cases ev)
  case (FAlarm now)
  then show ?thesis
    using assms fireFenceAlarm_keeps [of h now]
    by (cases "fh_fence h")
      (auto simp: fence_inv_def fireFenceAlarm_def fenceAlarm_def dest: fence_coreD)
next
  case (FRequest r)
  obtain res h' where f: "fenceFetch localeSort r h = (res, h')" by fastforce
  have "pf_version2 c'" if "fh_fence h' = Some c'" for c'
  proof (cases "fh_fence h")
    case None
    then show ?thesis using fetch_first [OF _ None f that] assms by (simp add: fence_inv_def)
  next
    case (Some c)
    then have "fence_moves r c h c' h'" "pf_version2 c"
      using fetch_moves [OF _ f] assms that by (auto simp: fence_inv_def)
    then show ?thesis by (auto simp: fence_moves_def closes_def opens_def dest: fence_coreD)
  qed
  then show ?thesis using FRequest f fetch_moves [OF _ f] assms by (simp add: fence_inv_def)
qed

interpretation fence_object: invariant_system "fence_step localeSort" fence_inv for localeSort
  by unfold_locales (rule fence_step_inv)

lemma fence_run_inv: "fence_inv (fence_run localeSort evs empty_fence_host)"
  unfolding fence_run_def
  by (rule fence_object.run_inv)
    (simp add: fence_inv_def fence_wf_def empty_fence_host_def empty_store_wf)

end
