(* ===== verification/Owner_Fence.thy ===== *)
theory Owner_Fence
  imports Owner_Fence_Host
begin

text \<open>
  What the owner fence guarantees, over every sequence of requests and alarms from an empty object.
\<close>

lemma request_moves:
  assumes "fence_inv h" and "fh_fence h = Some c"
  shows "\<exists>c'. fh_fence (fence_step localeSort (FRequest r) h) = Some c' \<and>
    fence_moves r c h c' (fence_step localeSort (FRequest r) h)"
proof -
  obtain res h' where f: "fenceFetch localeSort r h = (res, h')" by fastforce
  then show ?thesis using fetch_moves [OF _ f] assms by (auto simp: fence_inv_def)
qed

lemma alarm_moves:
  assumes "fence_inv h" and "fh_fence h = Some c"
  shows "\<exists>c'. fh_fence (fence_step localeSort (FAlarm now) h) = Some c' \<and>
    fence_core c' = fence_core c \<and>
    active_ids (fh_store (fence_step localeSort (FAlarm now) h)) \<subseteq> active_ids (fh_store h)"
  using fireFenceAlarm_keeps [of h now] assms by (auto simp: fence_inv_def)

subsection \<open>The invariant\<close>


text \<open>
  C1: while a purge holds the fence closed no work of the owner gets in: no event adds an active lease,
  and the fence opens again only by a release of a temporary purge that names its generation, after the
  last lease is gone.
\<close>

theorem purge_excludes_work:
  assumes "h = fence_run localeSort evs empty_fence_host" and "fh_fence h = Some c"
    and "pf_state c = FenceBlocked"
  shows "\<exists>c'. fh_fence (fence_step localeSort ev h) = Some c' \<and>
    active_ids (fh_store (fence_step localeSort ev h)) \<subseteq> active_ids (fh_store h) \<and>
    (pf_state c' = FenceOpen \<longrightarrow>
       active_ids (fh_store (fence_step localeSort ev h)) = {} \<and> pf_mode c = Some Temporary \<and>
       (\<exists>r. ev = FRequest r \<and> fr_path r = ''release'' \<and>
          normalizeOwnerGeneration (fb_generation (fr_body r)) = Some (pf_generation c)))"
proof -
  have inv: "fence_inv h" using fence_run_inv assms(1) by simp
  show ?thesis
  proof (cases ev)
    case (FAlarm now)
    then show ?thesis
      using alarm_moves [OF inv assms(2), of localeSort now] assms(3) by (auto dest!: fence_coreD)
  next
    case (FRequest r)
    then show ?thesis
      using request_moves [OF inv assms(2), of localeSort r] assms(3)
      by (auto simp: fence_moves_def closes_def opens_def dest: fence_coreD)
  qed
qed

definition sample_body :: fence_body where
  "sample_body = \<lparr>fb_ownerId = Some ''o'', fb_generation = None, fb_expectedGeneration = None,
     fb_requestId = Some (JStr ''q''), fb_leaseId = Some ''l'', fb_ownerGeneration = Some (JStr ''g''),
     fb_mode = None, fb_sessionId = Some ''s'', fb_turnId = Some ''t'', fb_namespace = None,
     fb_role = None, fb_expiresAt = None\<rparr>"

definition sample_request :: "string \<Rightarrow> fence_body \<Rightarrow> ms \<Rightarrow> fence_request" where
  "sample_request path body now = \<lparr>fr_path = path, fr_body = body, fr_now = now,
     fr_uuid0 = ''u0'', fr_uuid1 = ''u1'', fr_hookOk = True\<rparr>"

definition sample_blocked :: "purge_mode \<Rightarrow> fence_host" where
  "sample_blocked mode =
     \<lparr>fh_fence = Some \<lparr>pf_ownerId = Some ''o'', pf_generation = ''u1'', pf_beginRequestId = Some ''q'',
        pf_lastReleasedGeneration = None, pf_rejoinedFromGeneration = None, pf_state = FenceBlocked,
        pf_mode = Some mode, pf_version2 = True, pf_active = []\<rparr>,
      fh_store = \<lparr>fs_version = 1, fs_leases = []\<rparr>, fh_alarm = None\<rparr>"

lemmas fence_eval = fenceFetch_def prepareFence_def scopedOwnerOk_def initializeStore_def
  migrateFence_def migrateLegacyActiveMirror_def boundedLegacyActiveMirror_def activeLeases_def
  expireDueLeases_def active_rows_def armFence_def nextExpiry_def assertText_def js_control_def
  assertSafeTime_def safe_integer_def js_trim_def js_space_def new_fence_def empty_fence_host_def
  empty_fence_store_def fence_constants Let_def

lemmas begin_eval = fenceBegin_def begin_args_of_def requested_mode_def
  ownerPurgeBeginDisposition_def normalizeOwnerGeneration_def

lemma sample_blocked_run:
  "fence_run (\<lambda>m. m) [FRequest (sample_request ''begin'' (sample_body\<lparr>fb_mode :=
     (if mode = Permanent then Some ''permanent'' else None)\<rparr>) 1000)] empty_fence_host =
   sample_blocked mode"
  by (cases mode)
    (simp_all add: fence_run_def sample_request_def sample_body_def sample_blocked_def fence_eval
      begin_eval)

abbreviation sample_events :: "purge_mode \<Rightarrow> fence_event list" where
  "sample_events mode \<equiv> [FRequest (sample_request ''begin'' (sample_body\<lparr>fb_mode :=
     (if mode = Permanent then Some ''permanent'' else None)\<rparr>) 1000)]"

theorem purge_excludes_work_witness:
  "\<exists>c'. fh_fence (fence_step (\<lambda>m. m) (FRequest (sample_request ''register'' sample_body 2000))
        (sample_blocked Temporary)) = Some c' \<and>
     active_ids (fh_store (fence_step (\<lambda>m. m)
        (FRequest (sample_request ''register'' sample_body 2000)) (sample_blocked Temporary))) \<subseteq> {}"
proof -
  have "fh_fence (sample_blocked Temporary) = Some (the (fh_fence (sample_blocked Temporary)))"
    "pf_state (the (fh_fence (sample_blocked Temporary))) = FenceBlocked"
    "active_ids (fh_store (sample_blocked Temporary)) = {}"
    by (simp_all add: sample_blocked_def active_ids_def)
  then show ?thesis
    using purge_excludes_work [OF sample_blocked_run [of Temporary, symmetric]] by metis
qed

subsection \<open>Permanent purges\<close>

definition permanently_closed :: "string \<Rightarrow> fence_host \<Rightarrow> bool" where
  "permanently_closed g h \<longleftrightarrow>
     (\<exists>c. fh_fence h = Some c \<and> pf_state c = FenceBlocked \<and> pf_mode c = Some Permanent \<and>
        pf_generation c = g)"

lemma permanent_step:
  assumes "fence_inv h \<and> permanently_closed g h"
  shows "fence_inv (fence_step localeSort ev h) \<and> permanently_closed g (fence_step localeSort ev h)"
proof -
  obtain c where c: "fh_fence h = Some c" "pf_state c = FenceBlocked" "pf_mode c = Some Permanent"
    "pf_generation c = g" using assms by (auto simp: permanently_closed_def)
  have "permanently_closed g (fence_step localeSort ev h)"
  proof (cases ev)
    case (FAlarm now)
    then show ?thesis
      using alarm_moves [of h c localeSort now] assms c
      by (auto simp: permanently_closed_def dest!: fence_coreD)
  next
    case (FRequest r)
    obtain c' where c': "fh_fence (fence_step localeSort ev h) = Some c'"
      "fence_moves r c h c' (fence_step localeSort ev h)"
      using request_moves [of h c localeSort r] assms c FRequest by auto
    then have "fence_core c' = fence_core c \<or> fence_core c' = fence_core (c\<lparr>pf_mode := Some Permanent\<rparr>)"
      using c by (auto simp: fence_moves_def closes_def opens_def)
    then show ?thesis using c c'(1) by (auto simp: permanently_closed_def dest!: fence_coreD)
  qed
  then show ?thesis using assms fence_step_inv by blast
qed

interpretation permanent_purge: invariant_system "fence_step localeSort"
  "\<lambda>h. fence_inv h \<and> permanently_closed g h" for localeSort g
  by unfold_locales (rule permanent_step)

lemma prepare_refusal:
  assumes "prepareFence localeSort owner now uuid0 h = Inl x"
  shows "fst x \<noteq> RRegistered gen e \<and> fst x \<noteq> RLeaseOk e \<and> fst x \<noteq> RBegun g m act rej"
  using assms
  by (auto simp: prepareFence_def migrateFence_def expireFence_def Let_def
      split: if_splits sum.splits option.splits)

lemma closed_register:
  assumes "fence_inv h" and "permanently_closed g h" and "fr_path r = ''register''"
  shows "fst (fenceFetch localeSort r h) \<noteq> RRegistered gen e"
proof (cases "prepareFence localeSort (fb_ownerId (fr_body r)) (fr_now r) (fr_uuid0 r) h")
  case (Inl x)
  then show ?thesis using prepare_refusal [OF Inl] by (simp add: fenceFetch_def Let_def)
next
  case (Inr x)
  obtain scoped c1 h1 where x: "x = (scoped, c1, h1)" by (cases x)
  obtain c where c: "fh_fence h = Some c" "pf_version2 c" "pf_state c = FenceBlocked"
    using assms(1,2) by (auto simp: permanently_closed_def fence_inv_def)
  have "fence_core c1 = fence_core c"
    using prepareFence_ok(3) [OF _ Inr [unfolded x] c(1,2)] assms(1) by (simp add: fence_inv_def)
  then have "pf_state c1 = FenceBlocked" using fence_coreD c(3) by metis
  then show ?thesis using assms(3) Inr x by (simp add: fenceFetch_def Let_def fenceRegister_def)
qed

text \<open>
  C14: a permanent purge is final: whatever is sent to the fence afterwards, it stays closed with the same
  generation, and no registration is ever granted again.
\<close>

theorem permanent_purge_final:
  assumes "permanently_closed g (fence_run localeSort before empty_fence_host)"
  shows "permanently_closed g (fence_run localeSort (before @ after) empty_fence_host) \<and>
    (\<forall>body now u0 u1 ok gen e.
       fst (fenceFetch localeSort \<lparr>fr_path = ''register'', fr_body = body, fr_now = now, fr_uuid0 = u0,
              fr_uuid1 = u1, fr_hookOk = ok\<rparr> (fence_run localeSort (before @ after) empty_fence_host))
         \<noteq> RRegistered gen e)"
proof -
  have "fence_inv (fence_run localeSort before empty_fence_host)" by (rule fence_run_inv)
  then have "permanently_closed g (fence_run localeSort (before @ after) empty_fence_host)"
    using permanent_purge.run_inv [of "fence_run localeSort before empty_fence_host" g localeSort after]
      assms by (simp add: fence_run_def)
  then show ?thesis using closed_register [OF fence_run_inv] by simp
qed

theorem permanent_purge_final_witness:
  "permanently_closed ''u1'' (fence_run (\<lambda>m. m) (sample_events Permanent @ [FAlarm 5000])
     empty_fence_host)"
proof -
  have "permanently_closed ''u1'' (fence_run (\<lambda>m. m) (sample_events Permanent) empty_fence_host)"
    by (simp only: sample_blocked_run) (simp add: permanently_closed_def sample_blocked_def)
  then show ?thesis by (rule permanent_purge_final [THEN conjunct1])
qed

subsection \<open>Generations\<close>

definition generation_gone :: "string \<Rightarrow> fence_host \<Rightarrow> bool" where
  "generation_gone g h \<longleftrightarrow> (\<exists>c. fh_fence h = Some c \<and> pf_generation c \<noteq> g)"

definition fresh_event :: "string \<Rightarrow> fence_event \<Rightarrow> bool" where
  "fresh_event g ev \<longleftrightarrow> (case ev of FRequest r \<Rightarrow> fr_uuid1 r \<noteq> g | FAlarm _ \<Rightarrow> True)"

lemma generation_gone_step:
  assumes "fence_inv h" "generation_gone g h" "fresh_event g ev"
  shows "generation_gone g (fence_step localeSort ev h)"
proof -
  obtain c where c: "fh_fence h = Some c" "pf_generation c \<noteq> g"
    using assms(2) by (auto simp: generation_gone_def)
  show ?thesis
  proof (cases ev)
    case (FAlarm now)
    then show ?thesis
      using alarm_moves [OF assms(1) c(1), of localeSort now] c(2)
      by (auto simp: generation_gone_def dest!: fence_coreD)
  next
    case (FRequest r)
    obtain c' where c': "fh_fence (fence_step localeSort ev h) = Some c'"
      "fence_moves r c h c' (fence_step localeSort ev h)"
      using request_moves [OF assms(1) c(1), of localeSort r] FRequest by auto
    then have "fence_core c' = fence_core c \<or> fence_core c' = fence_core (c\<lparr>pf_mode := Some Permanent\<rparr>)
        \<or> pf_generation c' = fr_uuid1 r"
      by (auto simp: fence_moves_def closes_def opens_def)
    then show ?thesis
      using c c'(1) assms(3) FRequest
      by (auto simp: generation_gone_def fresh_event_def dest!: fence_coreD)
  qed
qed

lemma generation_gone_run:
  assumes "fence_inv h" "generation_gone g h" "\<forall>ev \<in> set evs. fresh_event g ev"
  shows "generation_gone g (fence_run localeSort evs h) \<and> fence_inv (fence_run localeSort evs h)"
  using assms
proof (induction evs arbitrary: h)
  case (Cons ev evs)
  then show ?case
    using Cons.IH [of "fence_step localeSort ev h"]
      generation_gone_step [of h g ev localeSort] fence_step_inv [of h localeSort ev]
    by (simp add: fence_run_def)
qed (simp add: fence_run_def)

lemma stale_generation_refused:
  assumes "fence_inv h" "generation_gone g h" "fb_generation (fr_body r) = Some (JStr g)"
    and "fr_path r \<in> {''assert'', ''renew'', ''register''}"
  shows "fst (fenceFetch localeSort r h) \<noteq> RLeaseOk e \<and>
    fst (fenceFetch localeSort r h) \<noteq> RRegistered gen e"
proof (cases "prepareFence localeSort (fb_ownerId (fr_body r)) (fr_now r) (fr_uuid0 r) h")
  case (Inl x)
  then show ?thesis using prepare_refusal [OF Inl] by (simp add: fenceFetch_def Let_def)
next
  case (Inr x)
  obtain scoped c1 h1 where x: "x = (scoped, c1, h1)" by (cases x)
  obtain c where c: "fh_fence h = Some c" "pf_version2 c" "pf_generation c \<noteq> g"
    using assms(1,2) by (auto simp: generation_gone_def fence_inv_def)
  have "fence_core c1 = fence_core c"
    using prepareFence_ok(3) [OF _ Inr [unfolded x] c(1,2)] assms(1) by (simp add: fence_inv_def)
  then have "pf_generation c1 \<noteq> g" using fence_coreD c(3) by metis
  then show ?thesis
    using assms(3,4) Inr x
    by (auto simp: fenceFetch_def Let_def fenceRegister_def fenceAssert_def fenceRenew_def)
qed



subsection \<open>Lost responses\<close>

text \<open>Events between a begin and its retry: alarms and the requests of running work.\<close>

definition work_event :: "fence_event \<Rightarrow> bool" where
  "work_event ev \<longleftrightarrow>
     (case ev of FRequest r \<Rightarrow> fr_path r \<noteq> ''begin'' \<and> fr_path r \<noteq> ''release'' | FAlarm _ \<Rightarrow> True)"

lemma work_core:
  assumes "fence_inv h" "fh_fence h = Some c" "\<forall>ev \<in> set evs. work_event ev"
  shows "\<exists>c'. fh_fence (fence_run localeSort evs h) = Some c' \<and> fence_core c' = fence_core c \<and>
    fence_inv (fence_run localeSort evs h)"
  using assms
proof (induction evs arbitrary: h c)
  case (Cons ev evs)
  have "\<exists>c1. fh_fence (fence_step localeSort ev h) = Some c1 \<and> fence_core c1 = fence_core c"
  proof (cases ev)
    case (FAlarm now)
    then show ?thesis using alarm_moves [OF Cons.prems(1,2), of localeSort now] by auto
  next
    case (FRequest r)
    then show ?thesis
      using request_moves [OF Cons.prems(1,2), of localeSort r] Cons.prems(3)
      by (auto simp: fence_moves_def work_event_def)
  qed
  then obtain c1 where c1: "fh_fence (fence_step localeSort ev h) = Some c1"
    "fence_core c1 = fence_core c" by blast
  then show ?case
    using Cons.IH [OF fence_step_inv [OF Cons.prems(1)] c1(1)] Cons.prems(3)
    by (simp add: fence_run_def)
qed (simp add: fence_run_def)

lemma prepare_bound:
  assumes "fence_inv h" "fh_fence h = Some c" "pf_ownerId c = Some scoped"
    and "scoped = js_trim (coalesce owner [])" "scopedOwnerOk scoped c" "assertSafeTime now"
  shows "\<exists>c1 h1. prepareFence localeSort owner now uuid0 h = Inr (scoped, c1, h1) \<and>
    fence_core c1 = fence_core c"
proof -
  have v2: "pf_version2 c" and wf: "fence_wf h" using assms(1,2) by (simp_all add: fence_inv_def)
  obtain st where st: "initializeStore now (fh_store h) = Inr st"
    and rows: "fs_leases st = fs_leases (fh_store h)"
    using assms(6) by (auto simp: initializeStore_def)
  have "fence_wf (h\<lparr>fh_store := st\<rparr>)"
    using wf rows_same(1) [OF rows] by (intro same_active_wf) (simp_all add: fence_wf_def rows)
  then show ?thesis
    using expireFence_ok [of "h\<lparr>fh_store := st\<rparr>" c now] v2 assms
    by (auto simp: prepareFence_def st Let_def)
qed

text \<open>A fence that answered a begin knows that begin again.\<close>

definition begun :: "fence_body \<Rightarrow> string \<Rightarrow> purge_mode option \<Rightarrow> bool \<Rightarrow> owner_purge_fence \<Rightarrow> bool" where
  "begun body g m rej c \<longleftrightarrow>
     pf_generation c = g \<and> pf_mode c = m \<and>
     (\<exists>upgrade. ownerPurgeBeginDisposition (begin_args_of body c) = BeginResume upgrade rej \<and>
        (upgrade \<longrightarrow> m = Some Permanent))"

lemma begun_core: "fence_core c = fence_core d \<Longrightarrow> begun body g m rej c = begun body g m rej d"
  by (drule fence_coreD) (simp add: begun_def begin_args_of_def)

lemma begin_begun:
  assumes "fenceBegin ok uuid body c h = (RBegun g m act rej, h')"
    and "normalizeOwnerGeneration (fb_expectedGeneration body) \<noteq> Some uuid"
  shows "\<exists>c'. fh_fence h' = Some c' \<and> begun body g m rej c' \<and> pf_ownerId c' = pf_ownerId c"
proof (cases "ownerPurgeBeginDisposition (begin_args_of body c)")
  case (BeginStart mode rejoined)
  let ?c = "c\<lparr>pf_generation := uuid,
     pf_beginRequestId := normalizeOwnerGeneration (fb_requestId body), pf_state := FenceBlocked,
     pf_mode := Some mode, pf_rejoinedFromGeneration :=
       (if rejoined then normalizeOwnerGeneration (fb_expectedGeneration body) else None)\<rparr>"
  have res: "h' = h\<lparr>fh_fence := Some ?c\<rparr>" "g = uuid" "m = Some mode" "rej = rejoined"
    using assms(1) BeginStart by (auto simp: fenceBegin_def Let_def split: if_splits)
  have "begun body g m rej ?c"
    using assms(2) begin_start_open [OF BeginStart] res
    by (cases rejoined)
      (auto simp: begun_def begin_args_of_def ownerPurgeBeginDisposition_def Let_def)
  then show ?thesis using res(1) by (intro exI [of _ ?c]) simp
next
  case (BeginResume upgrade rejoined)
  have "ownerPurgeBeginDisposition (begin_args_of body (c\<lparr>pf_mode := x\<rparr>)) =
      BeginResume upgrade rejoined" for x
    using BeginResume by (simp add: begin_args_of_def)
  then show ?thesis
    using assms BeginResume by (auto simp: fenceBegin_def Let_def begun_def split: if_splits)
next
  case BeginReject
  then show ?thesis using assms(1) by (simp add: fenceBegin_def)
qed

lemma begun_replays:
  assumes "begun body g m rej c"
  shows "\<exists>act. fst (fenceBegin True uuid body c h) = RBegun g m act rej"
  using assms by (auto simp: begun_def fenceBegin_def Let_def)

text \<open>
  a purge begin whose answer was lost can be retried: however much work of the owner reaches the fence
  in between, the same request answers with the same generation, mode and rejoin flag, and opens no second
  purge.
\<close>

lemma begin_replay_idempotent:
  assumes "fenceFetch localeSort r (fence_run localeSort before empty_fence_host) =
      (RBegun g m act rej, h1)"
    and "fr_path r = ''begin''"
    and "normalizeOwnerGeneration (fb_expectedGeneration (fr_body r)) \<noteq> Some (fr_uuid1 r)"
    and "\<forall>ev \<in> set work. work_event ev" and "assertSafeTime now"
  shows "\<exists>act'. fst (fenceFetch localeSort
      (r\<lparr>fr_now := now, fr_uuid0 := u0, fr_uuid1 := u1, fr_hookOk := True\<rparr>)
      (fence_run localeSort work h1)) = RBegun g m act' rej"
proof -
  let ?h = "fence_run localeSort before empty_fence_host" and ?owner = "fb_ownerId (fr_body r)"
  have inv1: "fence_inv h1"
    using fence_step_inv [OF fence_run_inv, of localeSort "FRequest r" localeSort before] assms(1)
    by simp
  obtain scoped c0 h0 where prep: "prepareFence localeSort ?owner (fr_now r) (fr_uuid0 r) ?h =
      Inr (scoped, c0, h0)"
    and bg: "fenceBegin (fr_hookOk r) (fr_uuid1 r) (fr_body r) c0 h0 = (RBegun g m act rej, h1)"
  proof (cases "prepareFence localeSort ?owner (fr_now r) (fr_uuid0 r) ?h")
    case (Inl x)
    then show ?thesis
      using assms(1) prepare_refusal [OF Inl, of _ _ g m act rej] by (simp add: fenceFetch_def Let_def)
  next
    case (Inr x)
    then show ?thesis
      using assms(1,2) that by (cases x) (auto simp: fenceFetch_def Let_def)
  qed
  have ok: "scoped = js_trim (coalesce ?owner [])" "scopedOwnerOk scoped (fence_of (fr_uuid0 r) ?h)"
    using prep by (auto simp: prepareFence_def fence_of_def Let_def split: sum.splits if_splits)
  have owner: "pf_ownerId c0 = Some scoped"
    using prepareFence_ok(1) [OF _ prep] fence_run_inv by (simp add: prepared_def fence_inv_def)
  obtain c1 where c1: "fh_fence h1 = Some c1" "begun (fr_body r) g m rej c1" "pf_ownerId c1 = Some scoped"
    using begin_begun [OF bg assms(3)] owner by auto
  obtain c2 where c2: "fh_fence (fence_run localeSort work h1) = Some c2" "fence_core c2 = fence_core c1"
    "fence_inv (fence_run localeSort work h1)"
    using work_core [OF inv1 c1(1) assms(4)] by blast
  have "pf_ownerId c2 = Some scoped" using fence_coreD [OF c2(2)] c1(3) by simp
  moreover from this have "scopedOwnerOk scoped c2" using ok(2) by (simp add: scopedOwnerOk_def)
  ultimately obtain c3 h3 where p3: "prepareFence localeSort ?owner now u0 (fence_run localeSort work h1) =
      Inr (scoped, c3, h3)" and c3: "fence_core c3 = fence_core c2"
    using prepare_bound [OF c2(3,1) _ ok(1) _ assms(5)] by blast
  have "begun (fr_body r) g m rej c3" using c1(2) begun_core c2(2) c3 by metis
  then show ?thesis
    using begun_replays [of "fr_body r" g m rej c3 u1 h3] p3 assms(2) by (simp add: fenceFetch_def Let_def)
qed

end
