(* ===== verification/Dispatch_Policy.thy ===== *)
theory Dispatch_Policy
  imports Prelude
begin

text \<open>
  Placement policy of cloud-builder, \<open>workers/cloud-builder/src/dispatch-policy.ts\<close>: where a dispatch
  may run, which devices may be offered it, and the strict parsers of a submit request. A parser
  returns the message of its refusal on the left. Field names are those of
  \<open>packages/contracts/turn-plane/placement.ts\<close>.
\<close>

datatype execution_kind = KChat | KAgent
datatype execution_ingress = IDesktop | IMobile | IBrowser | ICloud | ISchedule
datatype execution_subject = SPortable | SComputer | SCloud
datatype execution_target_mode = TAutomatic | TCloud | TDevice
datatype execution_capability =
    CapChat | CapAgent | CapComputerUse | CapLocalFiles | CapLocalApps | CapAttachments
datatype dispatch_placement = OnComputer | OnCloud
datatype no_computer = ToCloud | ToBlocked

datatype dispatch_state =
    Offering | ComputerClaimed | ComputerAccepted | ComputerRunning | CloudCommitted | CloudRunning
  | CancelPending | ReconciliationRequired | Blocked | Completed | Failed | Canceled

definition TERMINAL_DISPATCH_STATES :: "dispatch_state list" where
  "TERMINAL_DISPATCH_STATES = [Completed, Failed, Canceled, Blocked]"

definition isTerminalDispatchState :: "dispatch_state \<Rightarrow> bool" where
  "isTerminalDispatchState state \<longleftrightarrow> state \<in> set TERMINAL_DISPATCH_STATES"

definition mayFallbackToCloud :: "dispatch_state \<Rightarrow> bool" where
  "mayFallbackToCloud state \<longleftrightarrow> state = Offering \<or> state = ComputerClaimed"

fun kind_text :: "execution_kind \<Rightarrow> string" where
  "kind_text KChat = ''chat''"
| "kind_text KAgent = ''agent''"

fun ingress_text :: "execution_ingress \<Rightarrow> string" where
  "ingress_text IDesktop = ''desktop''"
| "ingress_text IMobile = ''mobile''"
| "ingress_text IBrowser = ''browser''"
| "ingress_text ICloud = ''cloud''"
| "ingress_text ISchedule = ''schedule''"

fun subject_text :: "execution_subject \<Rightarrow> string" where
  "subject_text SPortable = ''portable''"
| "subject_text SComputer = ''computer''"
| "subject_text SCloud = ''cloud''"

fun target_text :: "execution_target_mode \<Rightarrow> string" where
  "target_text TAutomatic = ''automatic''"
| "target_text TCloud = ''cloud''"
| "target_text TDevice = ''device''"

fun capability_text :: "execution_capability \<Rightarrow> string" where
  "capability_text CapChat = ''chat''"
| "capability_text CapAgent = ''agent''"
| "capability_text CapComputerUse = ''computer-use''"
| "capability_text CapLocalFiles = ''local-files''"
| "capability_text CapLocalApps = ''local-apps''"
| "capability_text CapAttachments = ''attachments''"

definition EXECUTION_CAPABILITIES :: "execution_capability list" where
  "EXECUTION_CAPABILITIES =
     [CapChat, CapAgent, CapComputerUse, CapLocalFiles, CapLocalApps, CapAttachments]"

definition CLOUD_PROVIDED_CAPABILITIES :: "execution_capability list" where
  "CLOUD_PROVIDED_CAPABILITIES = [CapChat, CapAgent, CapAttachments]"

definition INGRESSES :: "execution_ingress list" where
  "INGRESSES = [IDesktop, IMobile, IBrowser, ICloud, ISchedule]"

definition SUBJECTS :: "execution_subject list" where
  "SUBJECTS = [SPortable, SComputer, SCloud]"

definition TARGET_MODES :: "execution_target_mode list" where
  "TARGET_MODES = [TAutomatic, TCloud, TDevice]"

definition kind_capability :: "execution_kind \<Rightarrow> execution_capability" where
  "kind_capability k = (case k of KChat \<Rightarrow> CapChat | KAgent \<Rightarrow> CapAgent)"

subsection \<open>The decision\<close>

datatype policy_decision =
    Commit dispatch_placement string
  | Offer no_computer string
  | PolicyBlocked string

definition decideDispatchPlacement ::
  "execution_ingress \<Rightarrow> execution_subject \<Rightarrow> execution_target_mode option \<Rightarrow> policy_decision" where
  "decideDispatchPlacement ingress subject targetMode =
     (if targetMode = Some TCloud then Commit OnCloud ''explicit-cloud''
      else if targetMode = Some TDevice
      then Offer (if subject = SComputer then ToBlocked else ToCloud) ''explicit-device''
      else if subject = SCloud then Commit OnCloud ''hosted-subject''
      else if ingress = IDesktop then Commit OnComputer ''desktop-ingress''
      else if ingress = IMobile
      then Offer ToCloud (if subject = SComputer
             then ''paired-computer-preferred-for-computer-work'' else ''paired-computer-preferred'')
      else if subject = SComputer then PolicyBlocked ''computer-unavailable-for-ingress''
      else Commit OnCloud (ingress_text ingress @ ''-ingress''))"

definition ingressMayClaimComputerSubject :: "execution_ingress \<Rightarrow> bool" where
  "ingressMayClaimComputerSubject ingress \<longleftrightarrow> ingress = IDesktop \<or> ingress = IMobile"

subsection \<open>Eligibility\<close>

definition DEVICE_PRESENCE_PROTOCOL_VERSION :: int where "DEVICE_PRESENCE_PROTOCOL_VERSION = 1"
definition DEVICE_PRESENCE_STALE_AFTER_MS :: ms where "DEVICE_PRESENCE_STALE_AFTER_MS = 60000"

record device_presence =
  dp_deviceId :: string
  dp_presenceSessionId :: string
  dp_connected :: bool
  dp_ready :: bool
  dp_capabilities :: "execution_capability list"
  dp_protocolVersion :: int
  dp_lastSeenAt :: ms

record device_registration =
  dr_deviceId :: string
  dr_publicKey :: string
  dr_remoteExecutionEnabled :: bool

definition hasCapabilities :: "execution_capability list \<Rightarrow> execution_capability list \<Rightarrow> bool" where
  "hasCapabilities advertised required \<longleftrightarrow> list_all (\<lambda>c. c \<in> set advertised) required"

definition isEligibleDevice ::
  "device_presence option \<Rightarrow> device_registration option \<Rightarrow> execution_capability list \<Rightarrow> ms \<Rightarrow> ms \<Rightarrow> bool"
  where
  "isEligibleDevice presence device required now staleAfterMs =
     (case (presence, device) of
        (Some p, Some d) \<Rightarrow>
          if \<not> dr_remoteExecutionEnabled d then False
          else if \<not> dp_connected p \<or> \<not> dp_ready p then False
          else if dp_protocolVersion p \<noteq> DEVICE_PRESENCE_PROTOCOL_VERSION then False
          else if dp_lastSeenAt p + staleAfterMs \<le> now then False
          else hasCapabilities (dp_capabilities p) required
      | _ \<Rightarrow> False)"

definition cloudUnsupportedCapabilities ::
  "execution_capability list \<Rightarrow> execution_capability list" where
  "cloudUnsupportedCapabilities required =
     filter (\<lambda>c. c \<notin> set CLOUD_PROVIDED_CAPABILITIES) required"

subsection \<open>Reading JSON\<close>

definition isRecord :: "json \<Rightarrow> bool" where
  "isRecord v \<longleftrightarrow> (case v of JObj _ \<Rightarrow> True | _ \<Rightarrow> False)"

text \<open>The trimmed string, or the empty one.\<close>

definition trimmed :: "json option \<Rightarrow> string" where
  "trimmed v = (case v of Some (JStr s) \<Rightarrow> js_trim s | _ \<Rightarrow> [])"

definition bounded :: "json option \<Rightarrow> nat \<Rightarrow> string" where
  "bounded v m = (let t = trimmed v in if 0 < length t \<and> length t \<le> m then t else [])"

definition parse_enum :: "('a \<Rightarrow> string) \<Rightarrow> 'a list \<Rightarrow> json option \<Rightarrow> 'a option" where
  "parse_enum text xs v = (case v of Some (JStr s) \<Rightarrow> find (\<lambda>x. text x = s) xs | _ \<Rightarrow> None)"

text \<open>\<open>[...new Set(xs)]\<close>: the first occurrence of every element.\<close>

fun js_unique :: "'a list \<Rightarrow> 'a list" where
  "js_unique [] = []"
| "js_unique (x # xs) = x # filter (\<lambda>y. y \<noteq> x) (js_unique xs)"

definition presentOrNull :: "json option \<Rightarrow> bool" where
  "presentOrNull v \<longleftrightarrow> v = None \<or> v = Some JNull"

text \<open>A JSON value whose \<open>String(...)\<close> is the given name (an array prints its elements).\<close>

fun stringifies_to :: "json \<Rightarrow> string \<Rightarrow> bool" where
  "stringifies_to (JStr s) n = (s = n)"
| "stringifies_to (JArr [x]) n = stringifies_to x n"
| "stringifies_to _ n = False"

record execution_selection =
  xs_engine :: json
  xs_provider :: json
  xs_model :: string
  xs_reasoningEffort :: string

definition MAX_EXECUTION_FIELD_LENGTH :: nat where "MAX_EXECUTION_FIELD_LENGTH = 2048"

definition parseCloudExecutionSelection :: "json \<Rightarrow> execution_selection option" where
  "parseCloudExecutionSelection v =
     (let ok = (\<lambda>s. js_trim s \<noteq> [] \<and> length s \<le> MAX_EXECUTION_FIELD_LENGTH) in
      case (jget ''model'' v, jget ''reasoningEffort'' v, jget ''engine'' v, jget ''provider'' v) of
        (Some (JStr model), Some (JStr effort), Some engine, Some provider) \<Rightarrow>
          if ok model \<and> ok effort \<and>
             list_ex (\<lambda>n. stringifies_to engine n \<and> stringifies_to provider n)
               [''stella'', ''anthropic'', ''chatgpt'']
          then Some \<lparr>xs_engine = engine, xs_provider = provider, xs_model = model,
                     xs_reasoningEffort = effort\<rparr>
          else None
      | _ \<Rightarrow> None)"

subsection \<open>The payload\<close>

definition MAX_DEVICE_ID_CHARS :: nat where "MAX_DEVICE_ID_CHARS = 256"
definition MAX_IDEMPOTENCY_KEY_CHARS :: nat where "MAX_IDEMPOTENCY_KEY_CHARS = 128"
definition MAX_CONVERSATION_ID_CHARS :: nat where "MAX_CONVERSATION_ID_CHARS = 256"
definition MAX_REQUIRED_CAPABILITIES :: nat where "MAX_REQUIRED_CAPABILITIES = 8"
definition MAX_DISPATCH_PROMPT_CHARS :: nat where "MAX_DISPATCH_PROMPT_CHARS = 8000"
definition MAX_DISPATCH_DESCRIPTION_CHARS :: nat where "MAX_DISPATCH_DESCRIPTION_CHARS = 1000"
definition MAX_DISPATCH_ATTACHMENTS :: nat where "MAX_DISPATCH_ATTACHMENTS = 4"

lemmas dispatch_limits = MAX_DEVICE_ID_CHARS_def MAX_IDEMPOTENCY_KEY_CHARS_def
  MAX_CONVERSATION_ID_CHARS_def MAX_REQUIRED_CAPABILITIES_def MAX_DISPATCH_PROMPT_CHARS_def
  MAX_DISPATCH_DESCRIPTION_CHARS_def MAX_DISPATCH_ATTACHMENTS_def

record dispatch_payload =
  pl_prompt :: string
  pl_conversationId :: string
  pl_clientMsgId :: string
  pl_userMessageEventId :: "string option"
  pl_locale :: "string option"
  pl_attachments :: "string list option"
  pl_execution :: "execution_selection option"
  pl_description :: "string option"
  pl_threadId :: "string option"
  pl_model :: "string option"
  pl_handoff :: bool

text \<open>An optional bounded string: refused when present and malformed.\<close>

definition optBounded :: "json option \<Rightarrow> nat \<Rightarrow> string \<Rightarrow> string + string option" where
  "optBounded v m message =
     (case v of
        None \<Rightarrow> Inr None
      | Some _ \<Rightarrow> if bounded v m = [] then Inl message else Inr (Some (bounded v m)))"

definition parseLocale :: "json option \<Rightarrow> string + string option" where
  "parseLocale v =
     (if presentOrNull v then Inr None
      else optBounded v 64 ''payload.locale is malformed.'')"

definition parseAttachments :: "json option \<Rightarrow> string + string list option" where
  "parseAttachments v =
     (if presentOrNull v then Inr None
      else case v of
        Some (JArr entries) \<Rightarrow>
          if length entries > MAX_DISPATCH_ATTACHMENTS
          then Inl ''payload.attachments must be at most 4 drive paths.''
          else
            let paths = map (\<lambda>e. bounded (Some e) 1024) entries in
            if list_ex (\<lambda>p. p = []) paths then Inl ''payload.attachments must be drive paths.''
            else Inr (if paths = [] then None else Some paths)
      | _ \<Rightarrow> Inl ''payload.attachments must be at most 4 drive paths.'')"

definition parseExecution :: "json option \<Rightarrow> string + execution_selection option" where
  "parseExecution v =
     (if presentOrNull v then Inr None
      else case parseCloudExecutionSelection (the v) of
             None \<Rightarrow> Inl ''payload.execution is malformed.''
           | Some x \<Rightarrow> Inr (Some x))"

definition parseDescription :: "json option \<Rightarrow> execution_kind \<Rightarrow> string + string option" where
  "parseDescription v kind =
     (if kind = KAgent then
        (if trimmed v = [] \<or> length (trimmed v) > MAX_DISPATCH_DESCRIPTION_CHARS
         then Inl ''payload.description must be 1-1000 characters for an agent dispatch.''
         else Inr (Some (trimmed v)))
      else optBounded v MAX_DISPATCH_DESCRIPTION_CHARS ''payload.description is malformed.'')"

definition parseHandoff :: "json option \<Rightarrow> execution_kind \<Rightarrow> string + bool" where
  "parseHandoff v kind =
     (if v = None then Inr False
      else if v \<noteq> Some (JBool True) \<or> kind \<noteq> KChat
      then Inl ''payload.handoff must be true on a chat dispatch.''
      else Inr True)"

definition sum_bind :: "'e + 'a \<Rightarrow> ('a \<Rightarrow> 'e + 'b) \<Rightarrow> 'e + 'b" where
  "sum_bind x f = (case x of Inl e \<Rightarrow> Inl e | Inr a \<Rightarrow> f a)"

definition parseDispatchPayload :: "json option \<Rightarrow> execution_kind \<Rightarrow> string + dispatch_payload" where
  "parseDispatchPayload value kind =
     (case value of
        Some (JObj obj) \<Rightarrow>
          let v = JObj obj; prompt = trimmed (jget ''prompt'' v);
              conversationId = bounded (jget ''conversationId'' v) MAX_CONVERSATION_ID_CHARS;
              clientMsgId = bounded (jget ''clientMsgId'' v) MAX_IDEMPOTENCY_KEY_CHARS
          in if jget ''schemaVersion'' v \<noteq> Some (JNum (Fin 1))
             then Inl ''payload.schemaVersion must be 1.''
             else if prompt = [] \<or> length prompt > MAX_DISPATCH_PROMPT_CHARS
             then Inl ''payload.prompt must be 1-8000 characters.''
             else if conversationId = [] then Inl ''payload.conversationId is required.''
             else if clientMsgId = [] then Inl ''payload.clientMsgId is required.''
             else
               sum_bind (optBounded (jget ''userMessageEventId'' v) 256
                           ''payload.userMessageEventId is malformed.'') (\<lambda>eventId.
               sum_bind (parseLocale (jget ''locale'' v)) (\<lambda>locale.
               sum_bind (parseAttachments (jget ''attachments'' v)) (\<lambda>attachments.
               sum_bind (parseExecution (jget ''execution'' v)) (\<lambda>execution.
               sum_bind (parseDescription (jget ''description'' v) kind) (\<lambda>description.
               sum_bind (parseHandoff (jget ''handoff'' v) kind) (\<lambda>handoff.
                 Inr \<lparr>pl_prompt = prompt, pl_conversationId = conversationId,
                      pl_clientMsgId = clientMsgId, pl_userMessageEventId = eventId,
                      pl_locale = locale, pl_attachments = attachments,
                      pl_execution = execution, pl_description = description,
                      pl_threadId = None, pl_model = None, pl_handoff = handoff\<rparr>))))))
      | _ \<Rightarrow> Inl ''payload must be an object.'')"

subsection \<open>The submit request\<close>

record dispatch_request =
  rq_idempotencyKey :: string
  rq_kind :: execution_kind
  rq_ingress :: execution_ingress
  rq_subject :: execution_subject
  rq_targetMode :: "execution_target_mode option"
  rq_targetDeviceId :: "string option"
  rq_requestingDeviceId :: "string option"
  rq_conversationId :: string
  rq_parentTurnId :: "string option"
  rq_threadId :: "string option"
  rq_requiredCapabilities :: "execution_capability list"
  rq_payload :: dispatch_payload

definition key_char :: "char \<Rightarrow> bool" where
  "key_char c \<longleftrightarrow>
     (let n = (of_char c :: nat) in
      (65 \<le> n \<and> n \<le> 90) \<or> (97 \<le> n \<and> n \<le> 122) \<or> (48 \<le> n \<and> n \<le> 57) \<or>
      c \<in> set ''._:-'')"

definition IDEMPOTENCY_KEY_PATTERN :: "string \<Rightarrow> bool" where
  "IDEMPOTENCY_KEY_PATTERN s \<longleftrightarrow> 8 \<le> length s \<and> length s \<le> 128 \<and> list_all key_char s"

definition parseCapabilities :: "json option \<Rightarrow> execution_capability list option" where
  "parseCapabilities v =
     (case v of
        None \<Rightarrow> Some []
      | Some (JArr raw) \<Rightarrow>
          let caps = map (\<lambda>c. parse_enum capability_text EXECUTION_CAPABILITIES (Some c)) raw in
          if length raw > MAX_REQUIRED_CAPABILITIES \<or> list_ex (\<lambda>c. c = None) caps then None
          else Some (map the caps)
      | _ \<Rightarrow> None)"

definition parseTargetMode :: "json option \<Rightarrow> string + execution_target_mode option" where
  "parseTargetMode v =
     (if v = None then Inr None
      else case parse_enum target_text TARGET_MODES v of
             None \<Rightarrow> Inl ''targetMode must be automatic, cloud, or device.''
           | Some m \<Rightarrow> Inr (Some m))"

definition parseDispatchSubmitRequest :: "json \<Rightarrow> string + dispatch_request" where
  "parseDispatchSubmitRequest v =
     (let idempotencyKey = trimmed (jget ''idempotencyKey'' v);
          kind = parse_enum kind_text [KChat, KAgent] (jget ''kind'' v);
          ingress = parse_enum ingress_text INGRESSES (jget ''ingress'' v);
          subject = parse_enum subject_text SUBJECTS (jget ''subject'' v);
          conversationId = bounded (jget ''conversationId'' v) MAX_CONVERSATION_ID_CHARS
      in if \<not> isRecord v then Inl ''A JSON object is required.''
      else if jget ''protocol'' v \<noteq> Some (JNum (Fin 1)) then Inl ''protocol must be 1.''
      else if \<not> IDEMPOTENCY_KEY_PATTERN idempotencyKey
      then Inl ''idempotencyKey must be 8-128 URL-safe characters.''
      else if kind = None then Inl ''kind must be chat or agent.''
      else if ingress = None then Inl ''ingress is not recognized.''
      else if subject = None then Inl ''subject must be portable, computer, or cloud.''
      else if \<not> ingressMayClaimComputerSubject (the ingress) \<and> the subject \<noteq> SCloud
      then Inl (ingress_text (the ingress) @ '' ingress cannot claim a local execution subject.'')
      else
        sum_bind (parseTargetMode (jget ''targetMode'' v)) (\<lambda>targetMode.
        sum_bind (optBounded (jget ''targetDeviceId'' v) MAX_DEVICE_ID_CHARS
                    ''targetDeviceId is malformed.'') (\<lambda>targetDeviceId.
          if (targetMode = Some TDevice) \<noteq> (targetDeviceId \<noteq> None)
          then Inl ''A device execution target requires exactly one device id.''
          else if conversationId = [] then Inl ''conversationId is required.''
          else
            (case parseCapabilities (jget ''requiredCapabilities'' v) of
               None \<Rightarrow> Inl ''requiredCapabilities contains an unsupported requirement.''
             | Some caps \<Rightarrow>
                 sum_bind (parseDispatchPayload (jget ''payload'' v) (the kind)) (\<lambda>payload.
                   if pl_conversationId payload \<noteq> conversationId
                   then Inl ''payload.conversationId does not match the dispatch.''
                   else
                     sum_bind (optBounded (jget ''requestingDeviceId'' v) MAX_DEVICE_ID_CHARS
                                 ''requestingDeviceId is malformed.'') (\<lambda>requestingDeviceId.
                     sum_bind (optBounded (jget ''parentTurnId'' v) 256
                                 ''parentTurnId is malformed.'') (\<lambda>parentTurnId.
                     sum_bind (optBounded (jget ''threadId'' v) 256
                                 ''threadId is malformed.'') (\<lambda>threadId.
                       Inr \<lparr>rq_idempotencyKey = idempotencyKey, rq_kind = the kind,
                            rq_ingress = the ingress, rq_subject = the subject,
                            rq_targetMode = targetMode, rq_targetDeviceId = targetDeviceId,
                            rq_requestingDeviceId = requestingDeviceId,
                            rq_conversationId = conversationId, rq_parentTurnId = parentTurnId,
                            rq_threadId = threadId,
                            rq_requiredCapabilities =
                              js_unique (kind_capability (the kind) # caps),
                            rq_payload = payload\<rparr>))))))))"

subsection \<open>Errors\<close>

datatype dispatch_error_code =
    EUnauthorized | EForbidden | EBadRequest | EConflict | ENotFound | EOwnerPurged
  | EGenerationStale | ECapabilityUnavailable | ESignInRequired | ESubscriptionRequired
  | EOwnerSuspended | EInternal

fun DISPATCH_ERROR_STATUS :: "dispatch_error_code \<Rightarrow> int" where
  "DISPATCH_ERROR_STATUS EUnauthorized = 401"
| "DISPATCH_ERROR_STATUS EForbidden = 403"
| "DISPATCH_ERROR_STATUS EBadRequest = 400"
| "DISPATCH_ERROR_STATUS EConflict = 409"
| "DISPATCH_ERROR_STATUS ENotFound = 404"
| "DISPATCH_ERROR_STATUS EOwnerPurged = 410"
| "DISPATCH_ERROR_STATUS EGenerationStale = 403"
| "DISPATCH_ERROR_STATUS ECapabilityUnavailable = 409"
| "DISPATCH_ERROR_STATUS ESignInRequired = 403"
| "DISPATCH_ERROR_STATUS ESubscriptionRequired = 403"
| "DISPATCH_ERROR_STATUS EOwnerSuspended = 403"
| "DISPATCH_ERROR_STATUS EInternal = 503"

subsection \<open>Well-formed requests\<close>

definition clean :: "nat \<Rightarrow> string \<Rightarrow> bool" where
  "clean m s \<longleftrightarrow> s \<noteq> [] \<and> length s \<le> m \<and> js_trim s = s"

definition selection_ok :: "execution_selection \<Rightarrow> bool" where
  "selection_ok x \<longleftrightarrow>
     js_trim (xs_model x) \<noteq> [] \<and> length (xs_model x) \<le> MAX_EXECUTION_FIELD_LENGTH \<and>
     js_trim (xs_reasoningEffort x) \<noteq> [] \<and>
     length (xs_reasoningEffort x) \<le> MAX_EXECUTION_FIELD_LENGTH \<and>
     list_ex (\<lambda>n. stringifies_to (xs_engine x) n \<and> stringifies_to (xs_provider x) n)
       [''stella'', ''anthropic'', ''chatgpt'']"

definition attachments_ok :: "string list \<Rightarrow> bool" where
  "attachments_ok ps \<longleftrightarrow>
     ps \<noteq> [] \<and> length ps \<le> MAX_DISPATCH_ATTACHMENTS \<and> list_all (clean 1024) ps"

definition payload_wf :: "execution_kind \<Rightarrow> dispatch_payload \<Rightarrow> bool" where
  "payload_wf kind p \<longleftrightarrow>
     clean MAX_DISPATCH_PROMPT_CHARS (pl_prompt p) \<and>
     clean MAX_CONVERSATION_ID_CHARS (pl_conversationId p) \<and>
     clean MAX_IDEMPOTENCY_KEY_CHARS (pl_clientMsgId p) \<and>
     pred_option (clean 256) (pl_userMessageEventId p) \<and>
     pred_option (clean 64) (pl_locale p) \<and>
     pred_option attachments_ok (pl_attachments p) \<and>
     pred_option selection_ok (pl_execution p) \<and>
     pred_option (clean MAX_DISPATCH_DESCRIPTION_CHARS) (pl_description p) \<and>
     (kind = KAgent \<longrightarrow> pl_description p \<noteq> None) \<and>
     pl_threadId p = None \<and> pl_model p = None \<and>
     (pl_handoff p \<longrightarrow> kind = KChat)"

definition request_wf :: "dispatch_request \<Rightarrow> bool" where
  "request_wf r \<longleftrightarrow>
     IDEMPOTENCY_KEY_PATTERN (rq_idempotencyKey r) \<and>
     (ingressMayClaimComputerSubject (rq_ingress r) \<or> rq_subject r = SCloud) \<and>
     (rq_targetMode r = Some TDevice \<longleftrightarrow> rq_targetDeviceId r \<noteq> None) \<and>
     pred_option (clean MAX_DEVICE_ID_CHARS) (rq_targetDeviceId r) \<and>
     pred_option (clean MAX_DEVICE_ID_CHARS) (rq_requestingDeviceId r) \<and>
     clean MAX_CONVERSATION_ID_CHARS (rq_conversationId r) \<and>
     pred_option (clean 256) (rq_parentTurnId r) \<and>
     pred_option (clean 256) (rq_threadId r) \<and>
     (\<exists>caps. rq_requiredCapabilities r = kind_capability (rq_kind r) # caps) \<and>
     distinct (rq_requiredCapabilities r) \<and>
     payload_wf (rq_kind r) (rq_payload r) \<and>
     pl_conversationId (rq_payload r) = rq_conversationId r"

text \<open>
  The JSON value whose text is the canonical payload: declaration order, absent and empty optionals left
  out. A request is written in the same way.
\<close>

definition opt_field :: "string \<Rightarrow> ('a \<Rightarrow> json) \<Rightarrow> 'a option \<Rightarrow> (string \<times> json) list" where
  "opt_field k f v = (case v of None \<Rightarrow> [] | Some x \<Rightarrow> [(k, f x)])"

definition non_empty :: "'a list option \<Rightarrow> 'a list option" where
  "non_empty v = (if v = Some [] then None else v)"

definition execution_json :: "execution_selection \<Rightarrow> json" where
  "execution_json x =
     JObj [(''engine'', xs_engine x), (''provider'', xs_provider x),
           (''model'', JStr (xs_model x)), (''reasoningEffort'', JStr (xs_reasoningEffort x))]"

definition canonicalDispatchPayload :: "dispatch_payload \<Rightarrow> json" where
  "canonicalDispatchPayload p =
     JObj ((''schemaVersion'', JNum (Fin 1)) # (''prompt'', JStr (pl_prompt p)) #
           (''conversationId'', JStr (pl_conversationId p)) #
           (''clientMsgId'', JStr (pl_clientMsgId p)) #
           opt_field ''userMessageEventId'' JStr (non_empty (pl_userMessageEventId p)) @
           opt_field ''locale'' JStr (non_empty (pl_locale p)) @
           opt_field ''attachments'' (\<lambda>ps. JArr (map JStr ps)) (non_empty (pl_attachments p)) @
           opt_field ''execution'' execution_json (pl_execution p) @
           opt_field ''description'' JStr (non_empty (pl_description p)) @
           opt_field ''threadId'' JStr (non_empty (pl_threadId p)) @
           opt_field ''model'' JStr (non_empty (pl_model p)) @
           opt_field ''handoff'' JBool (if pl_handoff p then Some True else None))"

definition request_json :: "dispatch_request \<Rightarrow> json" where
  "request_json r =
     JObj ((''protocol'', JNum (Fin 1)) # (''idempotencyKey'', JStr (rq_idempotencyKey r)) #
           (''kind'', JStr (kind_text (rq_kind r))) #
           (''ingress'', JStr (ingress_text (rq_ingress r))) #
           (''subject'', JStr (subject_text (rq_subject r))) #
           (''conversationId'', JStr (rq_conversationId r)) #
           (''requiredCapabilities'',
              JArr (map (\<lambda>c. JStr (capability_text c)) (rq_requiredCapabilities r))) #
           (''payload'', canonicalDispatchPayload (rq_payload r)) #
           opt_field ''targetMode'' (\<lambda>m. JStr (target_text m)) (rq_targetMode r) @
           opt_field ''targetDeviceId'' JStr (rq_targetDeviceId r) @
           opt_field ''requestingDeviceId'' JStr (rq_requestingDeviceId r) @
           opt_field ''parentTurnId'' JStr (rq_parentTurnId r) @
           opt_field ''threadId'' JStr (rq_threadId r))"

subsection \<open>Parsing lemmas\<close>

lemma sum_bind_simps [simp]:
  "sum_bind (Inl e) f = Inl e"
  "sum_bind (Inr a) f = f a"
  by (simp_all add: sum_bind_def)

lemma sum_bind_Inr_iff: "sum_bind x f = Inr y \<longleftrightarrow> (\<exists>a. x = Inr a \<and> f a = Inr y)"
  by (cases x) auto

lemma map_of_opt_field:
  "k \<noteq> k' \<Longrightarrow> map_of (opt_field k f v @ xs) k' = map_of xs k'"
  "map_of xs k = None \<Longrightarrow> map_of (opt_field k f v @ xs) k = map_option f v"
  "k \<noteq> k' \<Longrightarrow> map_of (opt_field k f v) k' = None"
  "map_of (opt_field k f v) k = map_option f v"
  by (auto simp: opt_field_def split: option.splits)

lemma js_unique_set [simp]: "set (js_unique xs) = set xs"
  by (induction xs) auto

lemma js_unique_distinct [simp]: "distinct (js_unique xs)"
  by (induction xs) auto

lemma js_unique_id: "distinct xs \<Longrightarrow> js_unique xs = xs"
proof (induction xs)
  case (Cons a xs)
  then have "filter (\<lambda>y. y \<noteq> a) xs = xs" by (auto intro!: filter_True)
  then show ?case using Cons by simp
qed simp

lemma js_unique_again: "distinct (x # xs) \<Longrightarrow> js_unique (x # x # xs) = x # xs"
  using js_unique_id [of "x # xs"] js_unique_id [of xs] by (simp add: filter_id_conv)

lemma trim_clean: "s \<noteq> [] \<Longrightarrow> length s \<le> m \<Longrightarrow> s = trimmed v \<Longrightarrow> clean m s"
  by (auto simp: clean_def trimmed_def split: option.splits json.splits)

lemma bounded_clean: "bounded v m \<noteq> [] \<Longrightarrow> clean m (bounded v m)"
  using trim_clean [of "trimmed v" m v] by (auto simp: bounded_def Let_def split: if_splits)

lemma bounded_of_clean [simp]: "clean m s \<Longrightarrow> bounded (Some (JStr s)) m = s"
  by (simp add: clean_def bounded_def trimmed_def)

lemma trimmed_JStr [simp]: "trimmed (Some (JStr s)) = js_trim s"
  by (simp add: trimmed_def)

lemma optBounded_sound: "optBounded v m msg = Inr s \<Longrightarrow> pred_option (clean m) s"
  by (auto simp: optBounded_def bounded_clean split: option.splits if_splits)

lemma optBounded_complete:
  "pred_option (clean m) s \<Longrightarrow> optBounded (map_option JStr s) m msg = Inr s"
  by (cases s) (auto simp: optBounded_def clean_def)

lemma parseLocale_sound: "parseLocale v = Inr s \<Longrightarrow> pred_option (clean 64) s"
  by (auto simp: parseLocale_def dest: optBounded_sound split: if_splits)

lemma parseLocale_complete: "pred_option (clean 64) s \<Longrightarrow> parseLocale (map_option JStr s) = Inr s"
  using optBounded_complete [of 64 s] by (cases s) (auto simp: parseLocale_def presentOrNull_def)

lemma parseAttachments_sound: "parseAttachments v = Inr s \<Longrightarrow> pred_option attachments_ok s"
  by (auto simp: parseAttachments_def attachments_ok_def Let_def list_all_iff list_ex_iff
           intro!: bounded_clean split: if_splits option.splits json.splits) (metis imageI)

lemma parseAttachments_complete:
  assumes "pred_option attachments_ok s"
  shows "parseAttachments (map_option (\<lambda>ps. JArr (map JStr ps)) s) = Inr s"
proof (cases s)
  case (Some ps)
  then have ok: "attachments_ok ps" using assms by simp
  then have paths: "map (\<lambda>e. bounded (Some (JStr e)) 1024) ps = ps"
    by (auto simp: attachments_ok_def list_all_iff intro: map_idI)
  have "\<not> list_ex (\<lambda>p. p = []) ps"
    using ok by (auto simp: attachments_ok_def list_all_iff list_ex_iff clean_def)
  then show ?thesis
    using ok paths Some
    by (auto simp: parseAttachments_def presentOrNull_def attachments_ok_def comp_def Let_def)
qed (simp add: parseAttachments_def presentOrNull_def)

lemma parseCloudExecutionSelection_sound:
  "parseCloudExecutionSelection v = Some x \<Longrightarrow> selection_ok x"
  by (auto simp: parseCloudExecutionSelection_def selection_ok_def Let_def
           split: option.splits json.splits if_splits)

lemma parseCloudExecutionSelection_complete:
  "selection_ok x \<Longrightarrow> parseCloudExecutionSelection (execution_json x) = Some x"
  by (simp add: parseCloudExecutionSelection_def selection_ok_def execution_json_def jget_def Let_def)

lemma parseExecution_sound: "parseExecution v = Inr s \<Longrightarrow> pred_option selection_ok s"
  by (cases s) (auto simp: parseExecution_def intro: parseCloudExecutionSelection_sound
                     split: if_splits option.splits)

lemma parseExecution_complete:
  assumes "pred_option selection_ok s"
  shows "parseExecution (map_option execution_json s) = Inr s"
proof (cases s)
  case (Some x)
  then show ?thesis
    using assms parseCloudExecutionSelection_complete [of x]
    by (simp add: parseExecution_def presentOrNull_def execution_json_def)
qed (simp add: parseExecution_def presentOrNull_def)

lemma parseDescription_sound:
  assumes "parseDescription v kind = Inr s"
  shows "pred_option (clean MAX_DISPATCH_DESCRIPTION_CHARS) s" "kind = KAgent \<longrightarrow> s \<noteq> None"
  using assms trim_clean [of "trimmed v" MAX_DISPATCH_DESCRIPTION_CHARS v]
  by (auto simp: parseDescription_def dest: optBounded_sound split: if_splits)

lemma parseDescription_complete:
  assumes "pred_option (clean MAX_DISPATCH_DESCRIPTION_CHARS) s" "kind = KAgent \<longrightarrow> s \<noteq> None"
  shows "parseDescription (map_option JStr s) kind = Inr s"
  using assms optBounded_complete [of MAX_DISPATCH_DESCRIPTION_CHARS s]
  by (cases s) (auto simp: parseDescription_def clean_def)

lemma parseHandoff_sound: "parseHandoff v kind = Inr b \<Longrightarrow> b \<longrightarrow> kind = KChat"
  by (auto simp: parseHandoff_def split: if_splits)

lemma parseHandoff_complete:
  "(b \<longrightarrow> kind = KChat) \<Longrightarrow>
   parseHandoff (map_option JBool (if b then Some True else None)) kind = Inr b"
  by (cases b) (simp_all add: parseHandoff_def)

lemma parsePayload_sound:
  assumes "parseDispatchPayload v kind = Inr p"
  shows "payload_wf kind p"
  using assms
  by (auto simp: parseDispatchPayload_def payload_wf_def Let_def sum_bind_Inr_iff
           intro: trim_clean bounded_clean
           dest: optBounded_sound parseLocale_sound parseAttachments_sound parseExecution_sound
             parseDescription_sound parseHandoff_sound
           split: option.splits json.splits if_splits)

lemma parsePayload_complete:
  assumes "payload_wf kind p"
  shows "parseDispatchPayload (Some (canonicalDispatchPayload p)) kind = Inr p"
proof -
  note wf = assms [unfolded payload_wf_def]
  have "js_trim (pl_prompt p) = pl_prompt p" "pl_prompt p \<noteq> []"
    "\<not> MAX_DISPATCH_PROMPT_CHARS < length (pl_prompt p)"
    "pl_conversationId p \<noteq> []" "pl_clientMsgId p \<noteq> []"
    using wf by (simp_all add: clean_def)
  moreover have "non_empty (pl_userMessageEventId p) = pl_userMessageEventId p"
    "non_empty (pl_locale p) = pl_locale p" "non_empty (pl_attachments p) = pl_attachments p"
    "non_empty (pl_description p) = pl_description p"
    using wf by (auto simp: non_empty_def clean_def attachments_ok_def)
  ultimately show ?thesis using wf
    by (simp add: parseDispatchPayload_def canonicalDispatchPayload_def jget_def map_of_opt_field Let_def
          optBounded_complete parseLocale_complete parseAttachments_complete
          parseExecution_complete parseDescription_complete parseHandoff_complete del: map_of_append)
qed

lemma parse_enum_text [simp]:
  "parse_enum kind_text [KChat, KAgent] (Some (JStr (kind_text k))) = Some k"
  "parse_enum ingress_text INGRESSES (Some (JStr (ingress_text i))) = Some i"
  "parse_enum subject_text SUBJECTS (Some (JStr (subject_text j))) = Some j"
  "parse_enum target_text TARGET_MODES (Some (JStr (target_text m))) = Some m"
  "parse_enum capability_text EXECUTION_CAPABILITIES (Some (JStr (capability_text c))) = Some c"
  subgoal by (cases k) (simp_all add: parse_enum_def)
  subgoal by (cases i) (simp_all add: parse_enum_def INGRESSES_def)
  subgoal by (cases j) (simp_all add: parse_enum_def SUBJECTS_def)
  subgoal by (cases m) (simp_all add: parse_enum_def TARGET_MODES_def)
  subgoal by (cases c) (simp_all add: parse_enum_def EXECUTION_CAPABILITIES_def)
  done

lemma parseTargetMode_complete:
  "parseTargetMode (map_option (\<lambda>m. JStr (target_text m)) t) = Inr t"
  by (cases t) (simp_all add: parseTargetMode_def)

lemma capability_count: "distinct (caps :: execution_capability list) \<Longrightarrow> length caps \<le> 6"
proof -
  assume "distinct caps"
  moreover have "set caps \<subseteq> set EXECUTION_CAPABILITIES"
  proof
    fix c :: execution_capability
    show "c \<in> set EXECUTION_CAPABILITIES" by (cases c) (simp_all add: EXECUTION_CAPABILITIES_def)
  qed
  then have "card (set caps) \<le> 6"
    using card_mono [of "set EXECUTION_CAPABILITIES" "set caps"] by (simp add: EXECUTION_CAPABILITIES_def)
  ultimately show ?thesis by (simp add: distinct_card)
qed

lemma parseCapabilities_complete:
  assumes "distinct caps"
  shows "parseCapabilities (Some (JArr (map (\<lambda>c. JStr (capability_text c)) caps))) = Some caps"
  using capability_count [OF assms]
  by (auto simp: parseCapabilities_def MAX_REQUIRED_CAPABILITIES_def comp_def list_ex_iff)

lemma key_char_no_space: "key_char c \<Longrightarrow> \<not> js_space c"
  by (auto simp: key_char_def js_space_def Let_def)

lemma js_trim_no_space:
  assumes "list_all (\<lambda>c. \<not> js_space c) s"
  shows "js_trim s = s"
proof -
  have id: "dropWhile js_space t = t" if "list_all (\<lambda>c. \<not> js_space c) t" for t
    using that by (cases t) auto
  have "list_all (\<lambda>c. \<not> js_space c) (rev s)" using assms by (simp add: list_all_iff)
  then show ?thesis using id [of s] id [of "rev s"] assms by (simp add: js_trim_def)
qed

lemma key_trim: "IDEMPOTENCY_KEY_PATTERN s \<Longrightarrow> js_trim s = s"
  by (rule js_trim_no_space) (auto simp: IDEMPOTENCY_KEY_PATTERN_def list_all_iff dest: key_char_no_space)

text \<open>What a successful parse went through.\<close>

lemma parseSubmit_elim:
  assumes "parseDispatchSubmitRequest v = Inr r"
  obtains caps where
    "IDEMPOTENCY_KEY_PATTERN (rq_idempotencyKey r)"
    "ingressMayClaimComputerSubject (rq_ingress r) \<or> rq_subject r = SCloud"
    "rq_targetMode r = Some TDevice \<longleftrightarrow> rq_targetDeviceId r \<noteq> None"
    "optBounded (jget ''targetDeviceId'' v) MAX_DEVICE_ID_CHARS ''targetDeviceId is malformed.'' =
       Inr (rq_targetDeviceId r)"
    "optBounded (jget ''requestingDeviceId'' v) MAX_DEVICE_ID_CHARS
       ''requestingDeviceId is malformed.'' = Inr (rq_requestingDeviceId r)"
    "optBounded (jget ''parentTurnId'' v) 256 ''parentTurnId is malformed.'' = Inr (rq_parentTurnId r)"
    "optBounded (jget ''threadId'' v) 256 ''threadId is malformed.'' = Inr (rq_threadId r)"
    "rq_conversationId r = bounded (jget ''conversationId'' v) MAX_CONVERSATION_ID_CHARS"
    "rq_conversationId r \<noteq> []"
    "rq_requiredCapabilities r = js_unique (kind_capability (rq_kind r) # caps)"
    "parseDispatchPayload (jget ''payload'' v) (rq_kind r) = Inr (rq_payload r)"
    "pl_conversationId (rq_payload r) = rq_conversationId r"
  using assms
  by (auto simp: parseDispatchSubmitRequest_def Let_def sum_bind_Inr_iff
           split: if_splits option.splits)

lemma submit_sound:
  assumes "parseDispatchSubmitRequest v = Inr r"
  shows "request_wf r"
proof -
  obtain caps where h:
    "IDEMPOTENCY_KEY_PATTERN (rq_idempotencyKey r)"
    "ingressMayClaimComputerSubject (rq_ingress r) \<or> rq_subject r = SCloud"
    "rq_targetMode r = Some TDevice \<longleftrightarrow> rq_targetDeviceId r \<noteq> None"
    "pred_option (clean MAX_DEVICE_ID_CHARS) (rq_targetDeviceId r)"
    "pred_option (clean MAX_DEVICE_ID_CHARS) (rq_requestingDeviceId r)"
    "pred_option (clean 256) (rq_parentTurnId r)" "pred_option (clean 256) (rq_threadId r)"
    "clean MAX_CONVERSATION_ID_CHARS (rq_conversationId r)"
    and caps: "rq_requiredCapabilities r = js_unique (kind_capability (rq_kind r) # caps)"
    and payload: "payload_wf (rq_kind r) (rq_payload r)"
    "pl_conversationId (rq_payload r) = rq_conversationId r"
    using parseSubmit_elim [OF assms]
    by (metis bounded_clean optBounded_sound parsePayload_sound)
  have "distinct (rq_requiredCapabilities r)" unfolding caps by (rule js_unique_distinct)
  moreover have "\<exists>cs. rq_requiredCapabilities r = kind_capability (rq_kind r) # cs"
    unfolding caps by simp
  ultimately show ?thesis unfolding request_wf_def using h payload by blast
qed

lemma submit_complete:
  assumes "request_wf r"
  shows "parseDispatchSubmitRequest (request_json r) = Inr r"
proof -
  note wf = assms [unfolded request_wf_def]
  then obtain caps where caps: "rq_requiredCapabilities r = kind_capability (rq_kind r) # caps"
    and d: "distinct (kind_capability (rq_kind r) # caps)" by auto
  have "js_trim (rq_idempotencyKey r) = rq_idempotencyKey r" "rq_conversationId r \<noteq> []"
    "\<not> ingressMayClaimComputerSubject (rq_ingress r) \<longrightarrow> rq_subject r = SCloud"
    "\<not> (rq_targetMode r = Some TDevice) \<noteq> (rq_targetDeviceId r \<noteq> None)"
    using wf key_trim by (auto simp: clean_def)
  moreover have "js_unique (kind_capability (rq_kind r) # rq_requiredCapabilities r) = rq_requiredCapabilities r"
    "parseCapabilities (Some (JArr (map (\<lambda>c. JStr (capability_text c)) (rq_requiredCapabilities r)))) =
       Some (rq_requiredCapabilities r)"
    unfolding caps using js_unique_again [OF d] parseCapabilities_complete [OF d] by blast+
  ultimately show ?thesis using wf
    by (simp add: parseDispatchSubmitRequest_def request_json_def jget_def isRecord_def map_of_opt_field
          Let_def optBounded_complete parseTargetMode_complete parsePayload_complete
          del: map_of_append js_unique.simps)
qed

subsection \<open>Properties\<close>

text \<open>
  the submit parser accepts exactly the well-formed dispatches: whatever JSON is submitted, an accepted
  dispatch has a URL-safe idempotency key of 8 to 128 characters, identifiers that are trimmed, non-empty
  and bounded, a local subject only from an ingress with a device behind it, a target device exactly when
  the target is a device, distinct required capabilities headed by the kind of work, and a payload of the
  same conversation, which for agent work has a description and is never a handoff; and every such
  dispatch is the reading of some JSON.
\<close>

lemma submit_parse_exact: "(\<exists>v. parseDispatchSubmitRequest v = Inr r) \<longleftrightarrow> request_wf r"
  using submit_sound submit_complete by blast

text \<open>
  the reading of a submitted dispatch is canonical: written back as JSON and parsed again it is
  unchanged, so a stored request replays to the same verdict; and nothing but a well-formed dispatch
  survives that round trip.
\<close>

lemma submit_roundtrip: "parseDispatchSubmitRequest (request_json r) = Inr r \<longleftrightarrow> request_wf r"
  using submit_sound submit_complete by blast

text \<open>
  where an accepted dispatch goes. Work goes to the cloud unconditionally exactly when its owner asked
  for the cloud or the subject is hosted and no device was picked; it is bound to the asking computer
  exactly when it comes from the desktop application about local work with no explicit target; everything
  else is offered to a computer first, and only work about a computer that picked one is then refused
  rather than run in the cloud. The policy's refusal is unreachable: the parser has already turned away the
  ingresses it is for.
\<close>

lemma accepted_placement:
  assumes "parseDispatchSubmitRequest v = Inr r"
  shows "case decideDispatchPlacement (rq_ingress r) (rq_subject r) (rq_targetMode r) of
           Commit OnCloud _ \<Rightarrow>
             rq_targetMode r = Some TCloud \<or> (rq_targetMode r \<noteq> Some TDevice \<and> rq_subject r = SCloud)
         | Commit OnComputer _ \<Rightarrow>
             rq_ingress r = IDesktop \<and> rq_subject r \<noteq> SCloud \<and>
             rq_targetMode r \<noteq> Some TCloud \<and> rq_targetMode r \<noteq> Some TDevice
         | Offer ToBlocked _ \<Rightarrow> rq_targetMode r = Some TDevice \<and> rq_subject r = SComputer
         | Offer ToCloud _ \<Rightarrow>
             (rq_targetMode r = Some TDevice \<and> rq_subject r \<noteq> SComputer) \<or>
             (rq_ingress r = IMobile \<and> rq_subject r \<noteq> SCloud \<and> rq_targetMode r \<noteq> Some TCloud \<and>
              rq_targetMode r \<noteq> Some TDevice)
         | PolicyBlocked _ \<Rightarrow> False"
proof -
  have "ingressMayClaimComputerSubject (rq_ingress r) \<or> rq_subject r = SCloud"
    using submit_sound [OF assms] by (simp add: request_wf_def)
  then show ?thesis
    by (auto simp: decideDispatchPlacement_def ingressMayClaimComputerSubject_def)
qed

definition sample_submit :: json where
  "sample_submit =
     JObj [(''protocol'', JNum (Fin 1)), (''idempotencyKey'', JStr ''msg-0001''),
           (''kind'', JStr ''chat''), (''ingress'', JStr ''mobile''), (''subject'', JStr ''portable''),
           (''conversationId'', JStr ''c1''),
           (''payload'', JObj [(''schemaVersion'', JNum (Fin 1)), (''prompt'', JStr '' hi ''),
              (''conversationId'', JStr ''c1''), (''clientMsgId'', JStr ''m1'')])]"

lemmas parse_evaluation = parseDispatchSubmitRequest_def parseDispatchPayload_def jget_def isRecord_def
  IDEMPOTENCY_KEY_PATTERN_def key_char_def parse_enum_def INGRESSES_def SUBJECTS_def
  ingressMayClaimComputerSubject_def parseTargetMode_def optBounded_def parseCapabilities_def
  bounded_def js_trim_def js_space_def dispatch_limits presentOrNull_def parseLocale_def
  parseAttachments_def parseExecution_def parseDescription_def parseHandoff_def kind_capability_def

lemma sample_submit_parses: "\<exists>r. parseDispatchSubmitRequest sample_submit = Inr r \<and>
    rq_ingress r = IMobile \<and> rq_subject r = SPortable \<and> rq_targetMode r = None"
  by (simp add: sample_submit_def parse_evaluation Let_def)

end
