(* ===== verification/Dispatch_Gate.thy ===== *)
theory Dispatch_Gate
  imports Dispatch_Policy Capability_Ledger
begin

text \<open>
  The dispatch part of the owner gate object: \<open>owner-gate/dispatch.ts\<close> (offers, executor frames, claims and
  the expiry of leases), \<open>owner-gate/cloud-dispatch.ts\<close> (the cloud branch) and the submit, status and
  cancel calls of \<open>owner-gate.ts\<close>, under \<open>workers/cloud-builder/src\<close>.

  The state is the object's tables. A call to another object suspends the handler that makes it, and other
  events of the gate may run before the answer: such a handler is cut at the call, what it needs to go on
  (the row as it was read, the time it started) is kept in \<open>dg_calls\<close>, and the rest of it is the step that
  takes the answer. The expiry loop of the alarm reads its rows once and then awaits between them, so the
  rows still to be handled are kept in \<open>dg_expiring\<close>. Everything between two such points is one step.

  What the gate reads from elsewhere is an argument: the owner snapshot (\<open>None\<close> when reading it throws),
  device presence, the answer of the colocated fence to a lease registration, random identifiers, and the
  SHA-256 of a text. Frames sent to sockets are not modelled, except for what an executor frame is answered.
\<close>

subsection \<open>Rows\<close>

definition DISPATCH_OFFER_WINDOW_MS :: ms where "DISPATCH_OFFER_WINDOW_MS = 4000"
definition DISPATCH_CLAIM_LEASE_MS :: ms where "DISPATCH_CLAIM_LEASE_MS = 30000"
definition DISPATCH_ACCEPTED_LEASE_MS :: ms where "DISPATCH_ACCEPTED_LEASE_MS = 120000"
definition DISPATCH_PAYLOAD_TTL_MS :: ms where "DISPATCH_PAYLOAD_TTL_MS = 900000"
definition DISPATCH_CLOUD_RETRY_DELAY_MS :: ms where "DISPATCH_CLOUD_RETRY_DELAY_MS = 1000"
definition DISPATCH_CLOUD_MAX_ATTEMPTS :: int where "DISPATCH_CLOUD_MAX_ATTEMPTS = 2"
definition OWNER_GATE_RUNNING_GRACE_MS :: ms where "OWNER_GATE_RUNNING_GRACE_MS = 60000"
definition MAX_OFFERS_PER_DISPATCH :: nat where "MAX_OFFERS_PER_DISPATCH = 8"
definition MAX_DISPATCH_PAYLOAD_BYTES :: int where "MAX_DISPATCH_PAYLOAD_BYTES = 128 * 1024"

lemmas dispatch_timings = DISPATCH_OFFER_WINDOW_MS_def DISPATCH_CLAIM_LEASE_MS_def
  DISPATCH_ACCEPTED_LEASE_MS_def DISPATCH_PAYLOAD_TTL_MS_def DISPATCH_CLOUD_RETRY_DELAY_MS_def

text \<open>
  The routing facts that a replay must match. The code compares their JSON texts, which for arrays of
  strings are equal exactly when the arrays are.
\<close>

record routing_fingerprint =
  fp_kind :: execution_kind
  fp_ingress :: execution_ingress
  fp_subject :: execution_subject
  fp_targetMode :: execution_target_mode
  fp_targetDeviceId :: string
  fp_conversationId :: string
  fp_parentTurnId :: string
  fp_threadId :: string
  fp_requestingDeviceId :: string
  fp_pairGrantDeviceId :: string
  fp_requiredCapabilities :: "execution_capability list"
  fp_payloadHash :: string

record dispatch_row =
  d_id :: string
  d_key :: string
  d_generation :: string
  d_kind :: execution_kind
  d_ingress :: execution_ingress
  d_subject :: execution_subject
  d_targetMode :: execution_target_mode
  d_targetDevice :: "string option"
  d_conversation :: string
  d_parentTurn :: "string option"
  d_thread :: "string option"
  d_requestingDevice :: "string option"
  d_pairGrant :: "string option"
  d_required :: "execution_capability list"
  d_fingerprint :: routing_fingerprint
  d_state :: dispatch_state
  d_placement :: "dispatch_placement option"
  d_executor :: "string option"
  d_session :: "string option"
  d_onNoComputer :: no_computer
  d_revision :: int
  d_fallback :: "string option"
  d_cancelRequest :: "string option"
  d_cancelReason :: "string option"
  d_errorCode :: "string option"
  d_errorMessage :: "string option"
  d_result :: "string option"
  d_cloudTurn :: "string option"
  d_cloudThread :: "string option"
  d_payload :: "dispatch_payload option"
  d_payloadHash :: string
  d_payloadExpires :: "ms option"
  d_offerDeadline :: "ms option"
  d_lease :: "ms option"
  d_startedAt :: "ms option"
  d_attempts :: int
  d_retryAt :: "ms option"
  d_gateHeld :: bool
  d_createdAt :: ms
  d_updatedAt :: ms

datatype offer_status = OfferOpen | OfferClaimed | OfferWithdrawn

record dispatch_offer =
  o_dispatch :: string
  o_device :: string
  o_session :: string
  o_status :: offer_status
  o_expiresAt :: ms
  o_createdAt :: ms
  o_updatedAt :: ms

datatype outcome = OutCompleted | OutFailed | OutCanceled

fun outcome_state :: "outcome \<Rightarrow> dispatch_state" where
  "outcome_state OutCompleted = Completed"
| "outcome_state OutFailed = Failed"
| "outcome_state OutCanceled = Canceled"

record cloud_terminal =
  ct_turn :: string
  ct_generation :: string
  ct_outcome :: outcome
  ct_result :: "string option"
  ct_error :: "string option"
  ct_createdAt :: ms

record running_row =
  rn_turn :: string
  rn_lane :: execution_kind
  rn_conversation :: string
  rn_startedAt :: ms

datatype handoff_phase = Allocating | Registered | Retired

record cloud_handoff =
  ho_phase :: handoff_phase
  ho_turn :: string
  ho_lease :: string

text \<open>A suspended handler: what the call was for, the row as the handler read it, and its time.\<close>

datatype call_kind =
    CallContext string string
  | CallGrant string string
  | CallChat "(string \<times> string) option"
  | CallAgent string
  | CallPi string

record cloud_call =
  cc_kind :: call_kind
  cc_row :: dispatch_row
  cc_now :: ms

record dispatch_gate =
  dg_rows :: "dispatch_row list"
  dg_offers :: "dispatch_offer list"
  dg_terminals :: "cloud_terminal list"
  dg_running :: "running_row list"
  dg_handoffs :: "(string \<times> cloud_handoff) list"
  dg_calls :: "cloud_call list"
  dg_expiring :: "(ms \<times> dispatch_row) list"
  dg_settled :: "dispatch_row list"

definition empty_dispatch_gate :: dispatch_gate where
  "empty_dispatch_gate =
     \<lparr>dg_rows = [], dg_offers = [], dg_terminals = [], dg_running = [], dg_handoffs = [],
      dg_calls = [], dg_expiring = [], dg_settled = []\<rparr>"

subsection \<open>What the gate reads\<close>

datatype remote_execution = Unconfigured | Asking | Enabled | Declined

fun remote_text :: "remote_execution \<Rightarrow> string" where
  "remote_text Unconfigured = ''unconfigured''"
| "remote_text Asking = ''asking''"
| "remote_text Enabled = ''enabled''"
| "remote_text Declined = ''declined''"

record owner_snapshot =
  sn_generation :: string
  sn_suspended :: bool
  sn_writable :: bool
  sn_cloudSandbox :: bool
  sn_devices :: "(device_registration \<times> remote_execution option) list"
  sn_paired :: "(string \<times> string) list"
  sn_execution :: execution_selection

datatype snapshot_error = SnapshotPurged | SnapshotInternal

record gate_env =
  ge_snapshot :: "bool \<Rightarrow> snapshot_error + owner_snapshot"
  ge_presence :: "string \<Rightarrow> device_presence option"
  ge_leaseRegistered :: bool
  ge_retireOk :: bool
  ge_uuid :: string
  ge_uuid' :: string
  ge_turnTimeoutMs :: ms
  ge_sha256Hex :: "string \<Rightarrow> string"

abbreviation snapshotAllowsCloudSandbox :: "owner_snapshot \<Rightarrow> bool" where
  "snapshotAllowsCloudSandbox s \<equiv> sn_cloudSandbox s"

subsection \<open>Rows, offers and devices\<close>

definition dispatchRow :: "string \<Rightarrow> dispatch_gate \<Rightarrow> dispatch_row option" where
  "dispatchRow i g = find_row d_id i (dg_rows g)"

definition patchRow :: "(dispatch_row \<Rightarrow> dispatch_row) \<Rightarrow> ms \<Rightarrow> dispatch_row \<Rightarrow> dispatch_row" where
  "patchRow patch now r = (patch r)\<lparr>d_revision := d_revision r + 1, d_updatedAt := now\<rparr>"

text \<open>Rows handed to \<open>reportDeviceAgentSettled\<close> are kept in \<open>dg_settled\<close>.\<close>

definition patchDispatch ::
  "dispatch_row \<Rightarrow> (dispatch_row \<Rightarrow> dispatch_row) \<Rightarrow> ms \<Rightarrow> dispatch_gate \<Rightarrow> dispatch_row \<times> dispatch_gate" where
  "patchDispatch row patch now g =
     (let g1 = g\<lparr>dg_rows := sql_update (\<lambda>r. d_id r = d_id row) (patchRow patch now) (dg_rows g)\<rparr>;
          nxt = coalesce (dispatchRow (d_id row) g1) row
      in (nxt, if \<not> isTerminalDispatchState (d_state row) \<and> isTerminalDispatchState (d_state nxt)
               then g1\<lparr>dg_settled := dg_settled g1 @ [nxt]\<rparr> else g1))"

text \<open>A direct \<open>UPDATE dispatches SET ... WHERE dispatch_id = ?\<close>, without a revision.\<close>

definition updateDispatch ::
  "string \<Rightarrow> (dispatch_row \<Rightarrow> dispatch_row) \<Rightarrow> dispatch_gate \<Rightarrow> dispatch_gate" where
  "updateDispatch i f g = g\<lparr>dg_rows := sql_update (\<lambda>r. d_id r = i) f (dg_rows g)\<rparr>"

definition openOffers :: "string \<Rightarrow> dispatch_gate \<Rightarrow> dispatch_offer list" where
  "openOffers i g = filter (\<lambda>x. o_dispatch x = i \<and> o_status x = OfferOpen) (dg_offers g)"

definition withdrawOffers :: "string \<Rightarrow> string option \<Rightarrow> ms \<Rightarrow> dispatch_gate \<Rightarrow> dispatch_gate" where
  "withdrawOffers i keepDeviceId now g =
     g\<lparr>dg_offers := sql_update
          (\<lambda>x. o_dispatch x = i \<and> o_status x = OfferOpen \<and> Some (o_device x) \<noteq> keepDeviceId)
          (\<lambda>x. x\<lparr>o_status := OfferWithdrawn, o_updatedAt := now\<rparr>) (dg_offers g)\<rparr>"

definition setOffer :: "string \<Rightarrow> string \<Rightarrow> offer_status \<Rightarrow> ms \<Rightarrow> dispatch_gate \<Rightarrow> dispatch_gate" where
  "setOffer i device status now g =
     g\<lparr>dg_offers := sql_update (\<lambda>x. o_dispatch x = i \<and> o_device x = device)
          (\<lambda>x. x\<lparr>o_status := status, o_updatedAt := now\<rparr>) (dg_offers g)\<rparr>"

definition openOffer ::
  "string \<Rightarrow> device_presence \<Rightarrow> ms \<Rightarrow> ms \<Rightarrow> dispatch_offer list \<Rightarrow> dispatch_offer list" where
  "openOffer i device expiresAt now t =
     (let at_key = (\<lambda>x. o_dispatch x = i \<and> o_device x = dp_deviceId device) in
      if find at_key t = None
      then t @ [\<lparr>o_dispatch = i, o_device = dp_deviceId device, o_session = dp_presenceSessionId device,
                 o_status = OfferOpen, o_expiresAt = expiresAt, o_createdAt = now,
                 o_updatedAt = now\<rparr>]
      else sql_update at_key
             (\<lambda>x. x\<lparr>o_session := dp_presenceSessionId device, o_status := OfferOpen,
                   o_expiresAt := expiresAt, o_updatedAt := now\<rparr>) t)"

text \<open>A later registration of the same device id replaces an earlier one in the lookup map.\<close>

definition registrationOf :: "owner_snapshot \<Rightarrow> string \<Rightarrow> device_registration option" where
  "registrationOf s i = map_option fst (find (\<lambda>d. dr_deviceId (fst d) = i) (rev (sn_devices s)))"

definition eligibleDevices ::
  "gate_env \<Rightarrow> owner_snapshot \<Rightarrow> string list \<Rightarrow> execution_capability list \<Rightarrow> ms \<Rightarrow> device_presence list"
  where
  "eligibleDevices env s deviceIds required now =
     take MAX_OFFERS_PER_DISPATCH
       (map (\<lambda>i. the (ge_presence env i))
         (filter (\<lambda>i. isEligibleDevice (ge_presence env i) (registrationOf s i) required now
                        DEVICE_PRESENCE_STALE_AFTER_MS) deviceIds))"

definition offerCandidateIds ::
  "execution_ingress \<Rightarrow> string option \<Rightarrow> string option \<Rightarrow> execution_target_mode \<Rightarrow> string option \<Rightarrow>
   owner_snapshot \<Rightarrow> string list" where
  "offerCandidateIds ingress requesting pairGrant targetMode targetDevice s =
     (if ingress = IMobile \<and> requesting \<noteq> None
      then js_unique (map snd (filter (\<lambda>p. Some (fst p) = requesting \<and>
                                (pairGrant = None \<or> Some (snd p) = pairGrant)) (sn_paired s)))
      else if ingress \<noteq> IMobile \<and> targetMode = TDevice \<and> targetDevice \<noteq> None
      then [the targetDevice]
      else [])"

definition deviceRemoteExecution ::
  "gate_env \<Rightarrow> string option \<Rightarrow> snapshot_error + remote_execution option" where
  "deviceRemoteExecution env device =
     (case device of
        None \<Rightarrow> Inr None
      | Some i \<Rightarrow>
          if i = [] then Inr None
          else (case ge_snapshot env False of
             Inl e \<Rightarrow> Inl e
           | Inr s \<Rightarrow>
               (case find (\<lambda>d. dr_deviceId (fst d) = i) (sn_devices s) of
                  None \<Rightarrow> Inr None
                | Some (d, remote) \<Rightarrow>
                    Inr (Some (coalesce remote
                      (if dr_remoteExecutionEnabled d then Enabled else Unconfigured))))))"

text \<open>
  The fallback reason, error code and message of a device that was picked and cannot take the work. An
  empty device id counts as none.
\<close>

type_synonym refusal = "string \<times> string \<times> string"

definition DEVICE_NOT_ACCEPTING :: string where
  "DEVICE_NOT_ACCEPTING = ''The selected computer is online but isn't accepting work right now. It may still be starting up, be signed out, have cloud sync off, or not allow work from other devices.''"

definition CLOUD_SANDBOX_SUBSCRIPTION_REQUIRED_MESSAGE :: string where
  "CLOUD_SANDBOX_SUBSCRIPTION_REQUIRED_MESSAGE = ''Running in the cloud needs a Stella subscription.''"

definition selectedDeviceRefusal ::
  "gate_env \<Rightarrow> string option \<Rightarrow> ms \<Rightarrow> remote_execution option \<Rightarrow> refusal option" where
  "selectedDeviceRefusal env device now remote =
     (let presence = (case device of None \<Rightarrow> None | Some i \<Rightarrow> if i = [] then None else ge_presence env i) in
      if remote \<noteq> None \<and> remote \<noteq> Some Enabled
      then Some (''selected-device-'' @ remote_text (the remote), ''SELECTED_DEVICE_NEEDS_CONSENT'',
        if remote = Some Declined
        then ''That computer is set not to accept work from your other devices. Enable it in the device list, or allow it on that computer.''
        else ''That computer has not agreed to run work sent from elsewhere yet. It is asking on its own screen; you can also tap Enable for it in the device list.'')
      else if presence = None \<or> \<not> dp_connected (the presence) \<or>
              dp_lastSeenAt (the presence) + DEVICE_PRESENCE_STALE_AFTER_MS \<le> now
      then Some (''selected-device-offline'', ''SELECTED_DEVICE_OFFLINE'',
                 ''The selected computer is offline.'')
      else if \<not> dp_ready (the presence)
      then Some (''selected-device-unavailable'', ''SELECTED_DEVICE_UNAVAILABLE'', DEVICE_NOT_ACCEPTING)
      else None)"

subsection \<open>Admission\<close>

fun error_code_text :: "dispatch_error_code \<Rightarrow> string" where
  "error_code_text EUnauthorized = ''unauthorized''"
| "error_code_text EForbidden = ''forbidden''"
| "error_code_text EBadRequest = ''bad_request''"
| "error_code_text EConflict = ''conflict''"
| "error_code_text ENotFound = ''not_found''"
| "error_code_text EOwnerPurged = ''owner_purged''"
| "error_code_text EGenerationStale = ''generation_stale''"
| "error_code_text ECapabilityUnavailable = ''capability_unavailable''"
| "error_code_text ESignInRequired = ''sign_in_required''"
| "error_code_text ESubscriptionRequired = ''subscription_required''"
| "error_code_text EOwnerSuspended = ''owner_suspended''"
| "error_code_text EInternal = ''internal''"

type_synonym gate_refusal = "dispatch_error_code \<times> string"

text \<open>
  The checks that \<open>admit\<close> and \<open>submitSnapshot\<close> share: the snapshot, read again when the generation differs
  from the one the caller pinned, the suspension and the write fence.
\<close>

definition readSnapshot :: "gate_env \<Rightarrow> string option \<Rightarrow> snapshot_error + owner_snapshot" where
  "readSnapshot env expected =
     (case ge_snapshot env False of
        Inl e \<Rightarrow> Inl e
      | Inr s \<Rightarrow>
          if expected \<noteq> None \<and> expected \<noteq> Some [] \<and> expected \<noteq> Some (sn_generation s)
          then ge_snapshot env True else Inr s)"

definition checkSnapshot :: "gate_env \<Rightarrow> string option \<Rightarrow> string \<Rightarrow> gate_refusal + owner_snapshot" where
  "checkSnapshot env expected unavailable =
     (case readSnapshot env expected of
        Inl SnapshotPurged \<Rightarrow> Inl (EOwnerPurged, ''This account's cloud data is no longer available.'')
      | Inl SnapshotInternal \<Rightarrow> Inl (EInternal, unavailable)
      | Inr s \<Rightarrow>
          if expected \<noteq> None \<and> expected \<noteq> Some [] \<and> expected \<noteq> Some (sn_generation s)
          then Inl (EGenerationStale, ''This cloud owner generation is no longer current.'')
          else if sn_suspended s
          then Inl (EOwnerSuspended, ''This account can't use Stella's cloud right now.'')
          else if \<not> sn_writable s
          then Inl (EOwnerPurged, ''This account's cloud data is being reset or deleted.'')
          else Inr s)"

definition submitSnapshot :: "gate_env \<Rightarrow> string option \<Rightarrow> gate_refusal + owner_snapshot" where
  "submitSnapshot env expected =
     checkSnapshot env expected ''Stella can't check your plan right now. Try again shortly.''"

definition pruneRunning :: "gate_env \<Rightarrow> ms \<Rightarrow> dispatch_gate \<Rightarrow> dispatch_gate" where
  "pruneRunning env now g =
     g\<lparr>dg_running := sql_delete
          (\<lambda>r. rn_startedAt r < now - (ge_turnTimeoutMs env + OWNER_GATE_RUNNING_GRACE_MS)) (dg_running g)\<rparr>"

definition admit ::
  "gate_env \<Rightarrow> execution_kind \<Rightarrow> string \<Rightarrow> string \<Rightarrow> string option \<Rightarrow> bool \<Rightarrow> ms \<Rightarrow> dispatch_gate \<Rightarrow>
   (gate_refusal + owner_snapshot) \<times> dispatch_gate" where
  "admit env lane turn conversation expected deferSandbox now g =
     (let turnId = js_trim turn in
      if turnId = []
      then (Inl (EInternal, ''Owner gate admission requires a lane and turn id.''), g)
      else case checkSnapshot env expected
             ''Stella can't check your account right now. Try again shortly.'' of
        Inl e \<Rightarrow> (Inl e, g)
      | Inr s \<Rightarrow>
          if lane = KAgent \<and> \<not> deferSandbox \<and> \<not> snapshotAllowsCloudSandbox s
          then (Inl (ESubscriptionRequired, CLOUD_SANDBOX_SUBSCRIPTION_REQUIRED_MESSAGE), g)
          else
            let g1 = pruneRunning env now g in
            if find_row rn_turn turnId (dg_running g1) \<noteq> None then (Inr s, g1)
            else (Inr s, g1\<lparr>dg_running := dg_running g1 @
                   [\<lparr>rn_turn = turnId, rn_lane = lane, rn_conversation = conversation,
                     rn_startedAt = now\<rparr>]\<rparr>))"

definition releaseTurn :: "string \<Rightarrow> dispatch_gate \<Rightarrow> dispatch_gate" where
  "releaseTurn turn g =
     g\<lparr>dg_running := sql_delete (\<lambda>r. rn_turn r = js_trim turn) (dg_running g)\<rparr>"

definition handoffOf :: "string \<Rightarrow> dispatch_gate \<Rightarrow> cloud_handoff option" where
  "handoffOf i g = map_of (dg_handoffs g) i"

definition putHandoff :: "string \<Rightarrow> handoff_phase \<Rightarrow> string \<Rightarrow> string \<Rightarrow> dispatch_gate \<Rightarrow> dispatch_gate" where
  "putHandoff i phase turn lease g =
     g\<lparr>dg_handoffs := (i, \<lparr>ho_phase = phase, ho_turn = turn, ho_lease = lease\<rparr>) #
          sql_delete (\<lambda>h. fst h = i) (dg_handoffs g)\<rparr>"

definition releaseGate :: "dispatch_row \<Rightarrow> dispatch_gate \<Rightarrow> dispatch_gate" where
  "releaseGate row g =
     (if \<not> d_gateHeld row then g
      else
        let turn = (case handoffOf (d_id row) g of Some h \<Rightarrow> ho_turn h | None \<Rightarrow> d_id row)
        in updateDispatch (d_id row) (\<lambda>r. r\<lparr>d_gateHeld := False\<rparr>) (releaseTurn turn g))"

text \<open>The unregistration of a fence lease through the gate retires the handoff it belongs to.\<close>

definition unregisteredLease :: "string \<Rightarrow> string \<Rightarrow> dispatch_gate \<Rightarrow> dispatch_gate" where
  "unregisteredLease turn lease g =
     (case find (\<lambda>h. ho_turn (snd h) = turn \<and> ho_lease (snd h) = lease) (dg_handoffs g) of
        None \<Rightarrow> g
      | Some (i, _) \<Rightarrow>
          updateDispatch i (\<lambda>r. r\<lparr>d_gateHeld := False\<rparr>)
            (releaseTurn turn (putHandoff i Retired turn lease g)))"

subsection \<open>The cloud branch\<close>

definition suspendCall :: "call_kind \<Rightarrow> dispatch_row \<Rightarrow> ms \<Rightarrow> dispatch_gate \<Rightarrow> dispatch_gate" where
  "suspendCall k row now g =
     g\<lparr>dg_calls := dg_calls g @ [\<lparr>cc_kind = k, cc_row = row, cc_now = now\<rparr>]\<rparr>"

definition cloudRefusal ::
  "dispatch_row \<Rightarrow> int \<Rightarrow> string \<Rightarrow> string \<Rightarrow> ms \<Rightarrow> dispatch_gate \<Rightarrow> dispatch_gate" where
  "cloudRefusal row status code message now g =
     (if status = 503 \<and> d_attempts row < DISPATCH_CLOUD_MAX_ATTEMPTS
      then snd (patchDispatch row
             (\<lambda>r. r\<lparr>d_retryAt := Some (now + DISPATCH_CLOUD_RETRY_DELAY_MS),
                   d_lease := Some (now + DISPATCH_ACCEPTED_LEASE_MS),
                   d_errorCode := Some code, d_errorMessage := Some message\<rparr>) now g)
      else
        let (failed, g1) = patchDispatch row
              (\<lambda>r. r\<lparr>d_state := Failed, d_payload := None, d_payloadExpires := None, d_lease := None,
                    d_errorCode := Some code, d_errorMessage := Some message\<rparr>) now g
        in releaseGate failed g1)"

definition startedPatch ::
  "string option \<Rightarrow> string option \<Rightarrow> ms \<Rightarrow> dispatch_row \<Rightarrow> dispatch_row" where
  "startedPatch turn thread now r =
     r\<lparr>d_state := CloudRunning, d_placement := Some OnCloud, d_cloudTurn := turn,
       d_retryAt := None, d_errorCode := None, d_errorMessage := None,
       d_cloudThread := (if thread = None then d_cloudThread r else thread),
       d_payload := None, d_payloadExpires := None, d_lease := None, d_startedAt := Some now\<rparr>"

text \<open>The tail of a chat start once its handoff is registered.\<close>

definition startRegistered ::
  "gate_env \<Rightarrow> dispatch_row \<Rightarrow> string \<Rightarrow> string \<Rightarrow> ms \<Rightarrow> dispatch_gate \<Rightarrow> dispatch_gate" where
  "startRegistered env row turn lease now g =
     (if map_option d_state (dispatchRow (d_id row) g) = Some CloudCommitted
      then suspendCall (CallChat (Some (turn, lease))) row now
             (updateDispatch (d_id row) (\<lambda>r. r\<lparr>d_cloudTurn := Some turn\<rparr>) g)
      else if ge_retireOk env
      then releaseGate (coalesce (dispatchRow (d_id row) g) row) (putHandoff (d_id row) Retired turn lease g)
      else g)"

definition startCloudChat ::
  "gate_env \<Rightarrow> dispatch_row \<Rightarrow> ms \<Rightarrow> dispatch_gate \<Rightarrow> dispatch_gate" where
  "startCloudChat env row now g0 =
     (let g = (if handoffOf (d_id row) g0 = None \<and> d_attempts row = 1
               then putHandoff (d_id row) Allocating (ge_uuid env) (ge_uuid' env) g0 else g0);
          refuse = (\<lambda>row e. cloudRefusal row (DISPATCH_ERROR_STATUS (fst e)) (error_code_text (fst e))
                              (snd e) now)
      in case handoffOf (d_id row) g of
           None \<Rightarrow> suspendCall (CallChat None) row now g
         | Some h \<Rightarrow>
             (case ho_phase h of
                Retired \<Rightarrow> refuse row (EOwnerPurged, ''This cloud admission was retired.'') g
              | Allocating \<Rightarrow>
                  (case admit env KChat (ho_turn h) (d_conversation row)
                          (Some (d_generation row)) False now g of
                     (Inl e, g1) \<Rightarrow> refuse row e g1
                   | (Inr s, g1) \<Rightarrow>
                       if sn_generation s = d_generation row \<and> ge_leaseRegistered env
                       then suspendCall (CallContext (ho_turn h) (ho_lease h)) row now g1
                       else refuse (row\<lparr>d_gateHeld := True\<rparr>)
                              (EOwnerPurged, ''This account's cloud admission is unavailable.'')
                              (updateDispatch (d_id row) (\<lambda>r. r\<lparr>d_gateHeld := True\<rparr>) g1))
              | Registered \<Rightarrow> startRegistered env row (ho_turn h) (ho_lease h) now g))"

definition runsAsPiAgent :: "execution_selection \<Rightarrow> bool" where
  "runsAsPiAgent x \<longleftrightarrow> xs_engine x = JStr ''stella'' \<or> xs_engine x = JStr ''chatgpt''"

definition startCloudAgent ::
  "gate_env \<Rightarrow> dispatch_row \<Rightarrow> dispatch_payload \<Rightarrow> ms \<Rightarrow> dispatch_gate \<Rightarrow> dispatch_gate" where
  "startCloudAgent env row payload now g =
     (case ge_snapshot env False of
        Inl _ \<Rightarrow> g
      | Inr s \<Rightarrow>
          let threadId = ''thr-'' @ take 18 (ge_uuid env);
              execution = coalesce (pl_execution payload) (sn_execution s)
          in suspendCall (if runsAsPiAgent execution then CallPi threadId else CallAgent threadId)
               row now g)"

fun join :: "string \<Rightarrow> string list \<Rightarrow> string" where
  "join sep [] = []"
| "join sep [x] = x"
| "join sep (x # xs) = x @ sep @ join sep xs"

definition runCloudBranch :: "gate_env \<Rightarrow> dispatch_row \<Rightarrow> ms \<Rightarrow> dispatch_gate \<Rightarrow> dispatch_gate" where
  "runCloudBranch env row now g =
     (let unsupported = cloudUnsupportedCapabilities (d_required row) in
      if d_state row \<noteq> CloudCommitted then g
      else if unsupported \<noteq> []
      then
        let (failed, g1) = patchDispatch row
              (\<lambda>r. r\<lparr>d_state := Failed, d_payload := None, d_payloadExpires := None, d_lease := None,
                    d_errorCode := Some ''CLOUD_CAPABILITY_UNAVAILABLE'',
                    d_errorMessage := Some
                      (''The cloud sandbox cannot provide the required device capability: '' @
                       join '', '' (map capability_text unsupported) @ ''.'')\<rparr>) now g
        in releaseGate failed g1
      else case d_payload row of
        None \<Rightarrow>
          let (failed, g1) = patchDispatch row
                (\<lambda>r. r\<lparr>d_state := Failed, d_lease := None,
                      d_errorCode := Some ''CLOUD_PAYLOAD_UNAVAILABLE'',
                      d_errorMessage := Some ''The dispatch payload is no longer available.''\<rparr>) now g
          in releaseGate failed g1
      | Some payload \<Rightarrow>
          let g1 = updateDispatch (d_id row)
                     (\<lambda>r. r\<lparr>d_attempts := d_attempts r + 1, d_retryAt := None\<rparr>) g;
              attempting = coalesce (dispatchRow (d_id row) g1) row
          in if d_kind row = KChat then startCloudChat env attempting now g1
             else startCloudAgent env attempting payload now g1)"

text \<open>The answer to a call: refusals carry the status, code and message; a transport failure throws.\<close>

datatype cloud_reply =
    ReplyStarted "string option" "string option"
  | ReplyRefused int string string
  | ReplyThrew

text \<open>The rest of a chat start, of a container agent's start and of a conversation agent's start.\<close>

definition resumeChat ::
  "gate_env \<Rightarrow> (string \<times> string) option \<Rightarrow> dispatch_row \<Rightarrow> ms \<Rightarrow> cloud_reply \<Rightarrow> dispatch_gate \<Rightarrow> dispatch_gate" where
  "resumeChat env registered row now reply g =
     (case reply of
        ReplyThrew \<Rightarrow> g
      | ReplyRefused status code message \<Rightarrow>
          if registered \<noteq> None \<and> 400 \<le> status \<and> status < 500
          then if ge_retireOk env
               then cloudRefusal row status code message now
                      (putHandoff (d_id row) Retired (fst (the registered)) (snd (the registered)) g)
               else g
          else cloudRefusal row status code message now g
      | ReplyStarted turn _ \<Rightarrow>
          if registered \<noteq> None \<and> turn \<noteq> Some (fst (the registered)) then g
          else if (case dispatchRow (d_id row) g of None \<Rightarrow> False | Some current \<Rightarrow> d_state current \<noteq> CloudCommitted)
          then g
          else snd (patchDispatch row (startedPatch turn None now) now g))"

definition resumeAgent ::
  "string \<Rightarrow> dispatch_row \<Rightarrow> ms \<Rightarrow> cloud_reply \<Rightarrow> dispatch_gate \<Rightarrow> dispatch_gate" where
  "resumeAgent threadId row now reply g =
     (case reply of
        ReplyThrew \<Rightarrow> g
      | ReplyRefused status code message \<Rightarrow> cloudRefusal row status code message now g
      | ReplyStarted turn thread \<Rightarrow>
          snd (patchDispatch row
                 (startedPatch (Some (coalesce turn (d_id row))) (Some (coalesce thread threadId)) now) now g))"

definition resumePiAgent ::
  "string \<Rightarrow> dispatch_row \<Rightarrow> ms \<Rightarrow> cloud_reply \<Rightarrow> dispatch_gate \<Rightarrow> dispatch_gate" where
  "resumePiAgent threadId row now reply g =
     (case reply of
        ReplyStarted _ _ \<Rightarrow>
          snd (patchDispatch row (startedPatch (Some (d_id row)) (Some threadId) now) now (releaseGate row g))
      | _ \<Rightarrow> g)"

definition resumeGrant ::
  "gate_env \<Rightarrow> string \<Rightarrow> string \<Rightarrow> dispatch_row \<Rightarrow> ms \<Rightarrow> cloud_reply \<Rightarrow> dispatch_gate \<Rightarrow> dispatch_gate" where
  "resumeGrant env turn lease row now reply g =
     (if reply = ReplyThrew then g
      else if map_option ho_phase (handoffOf (d_id row) g) = Some Retired
      then cloudRefusal row (DISPATCH_ERROR_STATUS EOwnerPurged) (error_code_text EOwnerPurged)
             ''This cloud admission was retired.'' now (releaseTurn turn g)
      else startRegistered env row turn lease now (putHandoff (d_id row) Registered turn lease g))"

lemmas resume_defs = resumeChat_def resumeAgent_def resumePiAgent_def resumeGrant_def

definition resumeCall ::
  "gate_env \<Rightarrow> cloud_call \<Rightarrow> cloud_reply \<Rightarrow> dispatch_gate \<Rightarrow> dispatch_gate" where
  "resumeCall env c reply g =
     (let row = cc_row c; now = cc_now c in
      case cc_kind c of
        CallContext turn lease \<Rightarrow>
          suspendCall (CallGrant turn lease) (row\<lparr>d_gateHeld := True\<rparr>) now
            (updateDispatch (d_id row) (\<lambda>r. r\<lparr>d_gateHeld := True\<rparr>) g)
      | CallGrant turn lease \<Rightarrow> resumeGrant env turn lease row now reply g
      | CallChat registered \<Rightarrow> resumeChat env registered row now reply g
      | CallAgent threadId \<Rightarrow> resumeAgent threadId row now reply g
      | CallPi threadId \<Rightarrow> resumePiAgent threadId row now reply g)"

subsection \<open>Falling back\<close>

text \<open>The first component is false when the handler throws, after the offers were withdrawn.\<close>

definition blockPatch :: "refusal \<Rightarrow> dispatch_row \<Rightarrow> dispatch_row" where
  "blockPatch e r =
     r\<lparr>d_state := Blocked, d_executor := None, d_session := None, d_offerDeadline := None,
       d_lease := None, d_payload := None, d_payloadExpires := None, d_fallback := Some (fst e),
       d_errorCode := Some (fst (snd e)), d_errorMessage := Some (snd (snd e))\<rparr>"

definition commitPatch :: "string \<Rightarrow> ms \<Rightarrow> dispatch_row \<Rightarrow> dispatch_row" where
  "commitPatch reason now r =
     r\<lparr>d_state := CloudCommitted, d_placement := Some OnCloud, d_executor := None, d_session := None,
       d_offerDeadline := None, d_lease := Some (now + DISPATCH_ACCEPTED_LEASE_MS),
       d_fallback := Some reason\<rparr>"

definition blockDispatch :: "dispatch_row \<Rightarrow> refusal \<Rightarrow> ms \<Rightarrow> dispatch_gate \<Rightarrow> dispatch_gate" where
  "blockDispatch row e now g =
     (let (blocked, g1) = patchDispatch row (blockPatch e) now g in releaseGate blocked g1)"

definition resolveUnaccepted ::
  "gate_env \<Rightarrow> dispatch_row \<Rightarrow> ms \<Rightarrow> string \<Rightarrow> dispatch_gate \<Rightarrow> bool \<times> dispatch_gate" where
  "resolveUnaccepted env row now reason g0 =
     (if d_state row \<noteq> Offering \<and> d_state row \<noteq> ComputerClaimed then (True, g0)
      else
        let g = withdrawOffers (d_id row) None now g0 in
        if d_onNoComputer row = ToCloud \<and> d_kind row = KAgent \<and>
           (case ge_snapshot env False of Inl _ \<Rightarrow> False | Inr s \<Rightarrow> \<not> snapshotAllowsCloudSandbox s)
        then (True, blockDispatch row (''subscription-required'', ''SUBSCRIPTION_REQUIRED'',
                      CLOUD_SANDBOX_SUBSCRIPTION_REQUIRED_MESSAGE) now g)
        else if d_onNoComputer row = ToCloud
        then
          let (committed, g1) = patchDispatch row (commitPatch reason now) now g
          in (True, runCloudBranch env committed now g1)
        else if d_targetMode row = TDevice
        then
          (case deviceRemoteExecution env (d_targetDevice row) of
             Inl _ \<Rightarrow> (False, g)
           | Inr remote \<Rightarrow>
               (True, blockDispatch row
                  (coalesce (selectedDeviceRefusal env (d_targetDevice row) now remote)
                     (''selected-device-unavailable'', ''SELECTED_DEVICE_UNAVAILABLE'',
                      ''The selected computer did not accept the request.'')) now g))
        else
          (True, blockDispatch row
             (''no-eligible-paired-computer'', ''COMPUTER_REQUIRED_UNAVAILABLE'',
              ''This work requires your paired computer, but no eligible computer is reachable.'') now g))"

subsection \<open>Executor frames\<close>

datatype executor_frame =
    FClaim string
  | FRelease string
  | FAck
  | FRunning
  | FRenew
  | FComplete "outcome option" "string option" string string
  | FSteerAck

datatype frame_reply =
    FrNone
  | FrClosed
  | FrDenied dispatch_error_code
  | FrClaimed ms bool
  | FrThrew

definition handleClaim ::
  "gate_env \<Rightarrow> string \<Rightarrow> string \<Rightarrow> dispatch_row \<Rightarrow> string \<Rightarrow> ms \<Rightarrow> dispatch_gate \<Rightarrow> frame_reply \<times> dispatch_gate"
  where
  "handleClaim env device session row request now g =
     (if take 128 (js_trim request) = [] then (FrClosed, g)
      else if d_state row = ComputerClaimed \<and> d_executor row = Some device \<and>
              d_session row = Some session \<and> d_cancelRequest row = None
      then (FrClaimed (coalesce (d_lease row) now) True, g)
      else if d_state row \<noteq> Offering \<or> d_offerDeadline row = None \<or> the (d_offerDeadline row) \<le> now
      then (FrDenied EConflict, g)
      else if \<not> list_ex (\<lambda>x. o_device x = device \<and> o_session x = session) (openOffers (d_id row) g)
      then (FrDenied EForbidden, g)
      else case ge_snapshot env False of
        Inl _ \<Rightarrow> (FrThrew, g)
      | Inr s \<Rightarrow>
          if eligibleDevices env s [device] (d_required row) now = [] then (FrDenied EConflict, g)
          else
            let g1 = withdrawOffers (d_id row) (Some device) now
                       (setOffer (d_id row) device OfferClaimed now g);
                claimExpiresAt = now + DISPATCH_CLAIM_LEASE_MS;
                (_, g2) = patchDispatch row
                  (\<lambda>r. r\<lparr>d_state := ComputerClaimed, d_executor := Some device,
                        d_session := Some session, d_lease := Some claimExpiresAt\<rparr>) now g1
            in (FrClaimed claimExpiresAt False, g2))"

definition handleRelease ::
  "gate_env \<Rightarrow> string \<Rightarrow> dispatch_row \<Rightarrow> string \<Rightarrow> ms \<Rightarrow> dispatch_gate \<Rightarrow> frame_reply \<times> dispatch_gate" where
  "handleRelease env device row reason now g =
     (if d_state row \<noteq> ComputerClaimed then (FrDenied EConflict, g)
      else
        let (released, g1) = patchDispatch row
              (\<lambda>r. r\<lparr>d_state := Offering, d_executor := None, d_session := None, d_lease := None\<rparr>) now g;
            g2 = setOffer (d_id released) device OfferWithdrawn now g1;
            (ok, g3) = resolveUnaccepted env released now
              (''computer-claim-released:'' @ take 160 reason) g2
        in (if ok then FrNone else FrThrew, g3))"

definition handleAck :: "dispatch_row \<Rightarrow> ms \<Rightarrow> dispatch_gate \<Rightarrow> frame_reply \<times> dispatch_gate" where
  "handleAck row now g =
     (if d_state row \<in> {ComputerAccepted, ComputerRunning, ReconciliationRequired} then (FrNone, g)
      else if d_state row \<noteq> ComputerClaimed \<or> d_lease row = None \<or> the (d_lease row) \<le> now
      then (FrDenied EConflict, g)
      else (FrNone, snd (patchDispatch row
             (\<lambda>r. r\<lparr>d_state := ComputerAccepted, d_placement := Some OnComputer, d_payload := None,
                   d_payloadExpires := None, d_lease := Some (now + DISPATCH_ACCEPTED_LEASE_MS)\<rparr>) now g)))"

definition handleRunning :: "dispatch_row \<Rightarrow> ms \<Rightarrow> dispatch_gate \<Rightarrow> frame_reply \<times> dispatch_gate" where
  "handleRunning row now g =
     (if d_state row \<notin> {ComputerAccepted, ComputerRunning, ReconciliationRequired}
      then (FrDenied EConflict, g)
      else (FrNone, snd (patchDispatch row
             (\<lambda>r. r\<lparr>d_state := ComputerRunning, d_startedAt := Some (coalesce (d_startedAt row) now),
                   d_lease := Some (now + DISPATCH_ACCEPTED_LEASE_MS)\<rparr>) now g)))"

definition handleRenew :: "dispatch_row \<Rightarrow> ms \<Rightarrow> dispatch_gate \<Rightarrow> frame_reply \<times> dispatch_gate" where
  "handleRenew row now g =
     (if d_state row \<notin> {ComputerAccepted, ComputerRunning, CancelPending, ReconciliationRequired}
      then (FrDenied EConflict, g)
      else
        let state = (if d_state row = ReconciliationRequired
                     then if d_startedAt row \<noteq> None \<and> d_startedAt row \<noteq> Some 0
                          then ComputerRunning else ComputerAccepted
                     else d_state row)
        in (FrNone, snd (patchDispatch row
             (\<lambda>r. r\<lparr>d_state := state, d_lease := Some (now + DISPATCH_ACCEPTED_LEASE_MS)\<rparr>) now g)))"

definition handleComplete ::
  "dispatch_row \<Rightarrow> outcome option \<Rightarrow> string option \<Rightarrow> string \<Rightarrow> string \<Rightarrow> ms \<Rightarrow> dispatch_gate \<Rightarrow>
   frame_reply \<times> dispatch_gate" where
  "handleComplete row result resultJson errorCode errorMessage now g =
     (case result of
        None \<Rightarrow> (FrDenied EBadRequest, g)
      | Some out \<Rightarrow>
          if isTerminalDispatchState (d_state row) then (FrNone, g)
          else if d_state row \<notin> {ComputerAccepted, ComputerRunning, CancelPending, ReconciliationRequired}
          then (FrDenied EConflict, g)
          else
            let (terminal, g1) = patchDispatch row
                  (\<lambda>r. r\<lparr>d_state := outcome_state out, d_result := resultJson, d_payload := None,
                        d_payloadExpires := None, d_lease := None,
                        d_errorCode := (if errorCode = [] then d_errorCode r
                                        else Some (take 128 errorCode)),
                        d_errorMessage := (if errorMessage = [] then d_errorMessage r
                                           else Some (take 1024 errorMessage))\<rparr>) now g
            in (FrNone, releaseGate terminal g1))"

definition handleExecutorFrame ::
  "gate_env \<Rightarrow> string \<Rightarrow> string \<Rightarrow> string \<Rightarrow> executor_frame \<Rightarrow> ms \<Rightarrow> dispatch_gate \<Rightarrow>
   frame_reply \<times> dispatch_gate" where
  "handleExecutorFrame env device session dispatchId frame now g =
     (if js_trim dispatchId = [] then (FrClosed, g)
      else case dispatchRow (js_trim dispatchId) g of
        None \<Rightarrow> (FrDenied ENotFound, g)
      | Some row \<Rightarrow>
          (case frame of
             FSteerAck \<Rightarrow> (FrNone, g)
           | FClaim request \<Rightarrow> handleClaim env device session row request now g
           | _ \<Rightarrow>
               if d_executor row \<noteq> Some device \<or> d_session row \<noteq> Some session
               then (FrDenied EForbidden, g)
               else (case frame of
                   FRelease reason \<Rightarrow> handleRelease env device row reason now g
                 | FAck \<Rightarrow> handleAck row now g
                 | FRunning \<Rightarrow> handleRunning row now g
                 | FRenew \<Rightarrow> handleRenew row now g
                 | FComplete out result code message \<Rightarrow>
                     handleComplete row out result code message now g
                 | _ \<Rightarrow> (FrClosed, g))))"

subsection \<open>Expiry\<close>

definition lapsed :: "ms option \<Rightarrow> ms \<Rightarrow> bool" where
  "lapsed t now \<longleftrightarrow> (case t of None \<Rightarrow> False | Some x \<Rightarrow> x \<le> now)"

definition dueDispatch :: "ms \<Rightarrow> dispatch_row \<Rightarrow> bool" where
  "dueDispatch now r \<longleftrightarrow>
     (d_state r = Offering \<and> lapsed (d_offerDeadline r) now) \<or>
     (d_state r = CloudCommitted \<and> lapsed (d_retryAt r) now) \<or>
     (d_state r \<in> {ComputerClaimed, ComputerAccepted, ComputerRunning, CloudCommitted, CancelPending} \<and>
      lapsed (d_lease r) now) \<or>
     (d_payload r \<noteq> None \<and> lapsed (d_payloadExpires r) now)"

definition expiredDispatches :: "ms \<Rightarrow> dispatch_gate \<Rightarrow> dispatch_row list" where
  "expiredDispatches now g = take 64 (sort_key d_updatedAt (filter (dueDispatch now) (dg_rows g)))"

fun state_text :: "dispatch_state \<Rightarrow> string" where
  "state_text Offering = ''offering''"
| "state_text ComputerClaimed = ''computer_claimed''"
| "state_text ComputerAccepted = ''computer_accepted''"
| "state_text ComputerRunning = ''computer_running''"
| "state_text CloudCommitted = ''cloud_committed''"
| "state_text CloudRunning = ''cloud_running''"
| "state_text CancelPending = ''cancel_pending''"
| "state_text ReconciliationRequired = ''reconciliation_required''"
| "state_text Blocked = ''blocked''"
| "state_text Completed = ''completed''"
| "state_text Failed = ''failed''"
| "state_text Canceled = ''canceled''"

text \<open>One turn of the loop, on a row as it was read when the loop began.\<close>

definition expireDispatch :: "gate_env \<Rightarrow> ms \<Rightarrow> dispatch_row \<Rightarrow> dispatch_gate \<Rightarrow> bool \<times> dispatch_gate" where
  "expireDispatch env now row g =
     (if d_state row = Offering \<and> lapsed (d_offerDeadline row) now
      then resolveUnaccepted env row now ''computer-offer-expired-unaccepted'' g
      else if d_state row = CloudCommitted \<and> lapsed (d_retryAt row) now
      then (True, runCloudBranch env row now g)
      else if d_state row = ComputerClaimed \<and> lapsed (d_lease row) now
      then resolveUnaccepted env row now ''computer-claim-expired'' g
      else if lapsed (d_lease row) now \<and>
              d_state row \<in> {ComputerAccepted, ComputerRunning, CloudCommitted, CancelPending}
      then (True, snd (patchDispatch row
             (\<lambda>r. r\<lparr>d_state := ReconciliationRequired, d_lease := None,
                   d_fallback := Some (state_text (d_state row) @ ''-lease-expired'')\<rparr>) now g))
      else if d_payload row \<noteq> None
      then (True, updateDispatch (d_id row) (\<lambda>r. r\<lparr>d_payload := None, d_payloadExpires := None\<rparr>) g)
      else (True, g))"

subsection \<open>JSON text\<close>

text \<open>\<open>JSON.stringify\<close>; the only numbers written here are integers.\<close>

fun nat_text :: "nat \<Rightarrow> string" where
  "nat_text n = (if n < 10 then [hex_digit n] else nat_text (n div 10) @ [hex_digit (n mod 10)])"

declare nat_text.simps [simp del]

definition number_text :: "jsnum \<Rightarrow> string" where
  "number_text n =
     (case n of
        Fin q \<Rightarrow> (if \<lfloor>q\<rfloor> < 0 then ''-'' @ nat_text (nat (- \<lfloor>q\<rfloor>)) else nat_text (nat \<lfloor>q\<rfloor>))
      | _ \<Rightarrow> ''null'')"

fun json_text :: "json \<Rightarrow> string" where
  "json_text JNull = ''null''"
| "json_text (JBool b) = (if b then ''true'' else ''false'')"
| "json_text (JNum n) = number_text n"
| "json_text (JStr s) = json_quote s"
| "json_text (JArr xs) = ''['' @ join '','' (map json_text xs) @ '']''"
| "json_text (JObj kvs) =
     ''{'' @ join '','' (map (\<lambda>kv. json_quote (fst kv) @ '':'' @ json_text (snd kv)) kvs) @ ''}''"

definition canonicalDispatchPayloadJson :: "dispatch_payload \<Rightarrow> string" where
  "canonicalDispatchPayloadJson p = json_text (canonicalDispatchPayload p)"

subsection \<open>Submit\<close>

datatype submit_result =
    SubmitReplayed dispatch_row
  | SubmitAccepted string
  | SubmitFailed dispatch_error_code
  | SubmitThrew

definition trimmed_id :: "string option \<Rightarrow> string option" where
  "trimmed_id v =
     (case v of None \<Rightarrow> None | Some s \<Rightarrow> if js_trim s = [] then None else Some (js_trim s))"

definition requestFingerprint ::
  "dispatch_request \<Rightarrow> string option \<Rightarrow> string \<Rightarrow> routing_fingerprint" where
  "requestFingerprint request pairGrant payloadHash =
     \<lparr>fp_kind = rq_kind request, fp_ingress = rq_ingress request, fp_subject = rq_subject request,
      fp_targetMode = coalesce (rq_targetMode request) TAutomatic,
      fp_targetDeviceId = coalesce (rq_targetDeviceId request) [],
      fp_conversationId = rq_conversationId request,
      fp_parentTurnId = coalesce (rq_parentTurnId request) [],
      fp_threadId = coalesce (rq_threadId request) [],
      fp_requestingDeviceId = coalesce (trimmed_id (rq_requestingDeviceId request)) [],
      fp_pairGrantDeviceId = coalesce (trimmed_id pairGrant) [],
      fp_requiredCapabilities = rq_requiredCapabilities request,
      fp_payloadHash = payloadHash\<rparr>"

text \<open>
  Where a new dispatch starts: its state, placement, executor and session, fallback policy and reason, the
  refusal it is blocked with, the offer deadline and the lease.
\<close>

record initial_route =
  ir_state :: dispatch_state
  ir_placement :: "dispatch_placement option"
  ir_executor :: "string option"
  ir_session :: "string option"
  ir_onNoComputer :: no_computer
  ir_fallback :: "string option"
  ir_errorCode :: "string option"
  ir_errorMessage :: "string option"
  ir_offerDeadline :: "ms option"
  ir_lease :: "ms option"

definition blocked_route :: "no_computer \<Rightarrow> refusal \<Rightarrow> initial_route" where
  "blocked_route onNone e =
     \<lparr>ir_state = Blocked, ir_placement = None, ir_executor = None, ir_session = None,
      ir_onNoComputer = onNone, ir_fallback = Some (fst e), ir_errorCode = Some (fst (snd e)),
      ir_errorMessage = Some (snd (snd e)), ir_offerDeadline = None, ir_lease = None\<rparr>"

definition open_route ::
  "dispatch_state \<Rightarrow> dispatch_placement option \<Rightarrow> no_computer \<Rightarrow> string \<Rightarrow> ms option \<Rightarrow> ms option \<Rightarrow>
   initial_route" where
  "open_route state place onNone reason deadline lease =
     \<lparr>ir_state = state, ir_placement = place, ir_executor = None, ir_session = None,
      ir_onNoComputer = onNone, ir_fallback = Some reason, ir_errorCode = None, ir_errorMessage = None,
      ir_offerDeadline = deadline, ir_lease = lease\<rparr>"

definition initialRoute ::
  "gate_env \<Rightarrow> dispatch_request \<Rightarrow> policy_decision \<Rightarrow> string option \<Rightarrow> remote_execution option \<Rightarrow>
   device_presence list \<Rightarrow> ms \<Rightarrow> initial_route" where
  "initialRoute env request decision requesting consent candidates now =
     (let bysubject = (if rq_subject request = SComputer then ToBlocked else ToCloud);
          lease = Some (now + DISPATCH_ACCEPTED_LEASE_MS)
      in case decision of
           Commit OnCloud reason \<Rightarrow> open_route CloudCommitted (Some OnCloud) bysubject reason None lease
         | Commit OnComputer reason \<Rightarrow>
             (open_route ComputerAccepted (Some OnComputer) bysubject reason None lease)
               \<lparr>ir_executor := requesting,
                ir_session := map_option dp_presenceSessionId (ge_presence env (the requesting))\<rparr>
         | PolicyBlocked reason \<Rightarrow>
             blocked_route ToBlocked (reason, ''COMPUTER_REQUIRED_UNAVAILABLE'',
               ''This work requires a computer, but this execution surface cannot safely provide one.'')
         | Offer onNone reason \<Rightarrow>
             if candidates \<noteq> []
             then open_route Offering None onNone reason (Some (now + DISPATCH_OFFER_WINDOW_MS)) None
             else if onNone = ToCloud
             then open_route CloudCommitted (Some OnCloud) onNone ''no-eligible-paired-computer'' None lease
             else if rq_targetMode request = Some TDevice
             then blocked_route onNone
                    (coalesce (selectedDeviceRefusal env (rq_targetDeviceId request) now consent)
                       (''selected-device-unavailable'', ''SELECTED_DEVICE_UNAVAILABLE'',
                        DEVICE_NOT_ACCEPTING))
             else blocked_route onNone
                    (''no-eligible-paired-computer'', ''COMPUTER_REQUIRED_UNAVAILABLE'',
                     ''This work requires your paired computer, but no eligible computer is reachable.''))"

definition new_dispatch ::
  "string \<Rightarrow> dispatch_request \<Rightarrow> string option \<Rightarrow> string \<Rightarrow> string \<Rightarrow> bool \<Rightarrow> initial_route \<Rightarrow> ms \<Rightarrow>
   dispatch_row" where
  "new_dispatch i request pairGrant generation payloadHash gateHeld route now =
     (let keepsPayload = (ir_state route \<noteq> Blocked \<and> ir_state route \<noteq> ComputerAccepted) in
      \<lparr>d_id = i, d_key = rq_idempotencyKey request, d_generation = generation,
       d_kind = rq_kind request, d_ingress = rq_ingress request, d_subject = rq_subject request,
       d_targetMode = coalesce (rq_targetMode request) TAutomatic,
       d_targetDevice = rq_targetDeviceId request, d_conversation = rq_conversationId request,
       d_parentTurn = rq_parentTurnId request, d_thread = rq_threadId request,
       d_requestingDevice = trimmed_id (rq_requestingDeviceId request),
       d_pairGrant = trimmed_id pairGrant, d_required = rq_requiredCapabilities request,
       d_fingerprint = requestFingerprint request pairGrant payloadHash,
       d_state = ir_state route, d_placement = ir_placement route, d_executor = ir_executor route,
       d_session = ir_session route, d_onNoComputer = ir_onNoComputer route, d_revision = 1,
       d_fallback = ir_fallback route, d_cancelRequest = None, d_cancelReason = None,
       d_errorCode = ir_errorCode route, d_errorMessage = ir_errorMessage route, d_result = None,
       d_cloudTurn = None, d_cloudThread = None,
       d_payload = (if keepsPayload then Some (rq_payload request) else None),
       d_payloadHash = payloadHash,
       d_payloadExpires = (if keepsPayload then Some (now + DISPATCH_PAYLOAD_TTL_MS) else None),
       d_offerDeadline = ir_offerDeadline route, d_lease = ir_lease route, d_startedAt = None,
       d_attempts = 0, d_retryAt = None, d_gateHeld = (gateHeld \<and> ir_state route \<noteq> Blocked),
       d_createdAt = now, d_updatedAt = now\<rparr>)"

definition submitAdmission ::
  "gate_env \<Rightarrow> dispatch_request \<Rightarrow> string \<Rightarrow> string option \<Rightarrow> ms \<Rightarrow> dispatch_gate \<Rightarrow>
   (gate_refusal + owner_snapshot) \<times> dispatch_gate" where
  "submitAdmission env request i expected now g =
     (if rq_kind request = KAgent then admit env KAgent i (rq_conversationId request) expected True now g
      else (submitSnapshot env expected, g))"

text \<open>The effects that follow the insertion of the row.\<close>

definition routeDispatch ::
  "gate_env \<Rightarrow> dispatch_row \<Rightarrow> bool \<Rightarrow> device_presence list \<Rightarrow> ms \<Rightarrow> dispatch_gate \<Rightarrow> dispatch_gate" where
  "routeDispatch env row gateHeld candidates now g =
     (case d_state row of
        Blocked \<Rightarrow> if gateHeld then releaseTurn (d_id row) g else g
      | Offering \<Rightarrow>
          g\<lparr>dg_offers := fold (\<lambda>c. openOffer (d_id row) c (the (d_offerDeadline row)) now)
               candidates (dg_offers g)\<rparr>
      | CloudCommitted \<Rightarrow> runCloudBranch env row now g
      | _ \<Rightarrow> g)"

definition refuseSubmit ::
  "dispatch_request \<Rightarrow> string \<Rightarrow> dispatch_error_code \<Rightarrow> dispatch_gate \<Rightarrow> submit_result \<times> dispatch_gate" where
  "refuseSubmit request i code g =
     (SubmitFailed code, if rq_kind request = KAgent then releaseTurn i g else g)"

text \<open>From the decision on: where the dispatch starts, the last refusals, the row and its effects.\<close>

definition insertDispatch ::
  "gate_env \<Rightarrow> dispatch_request \<Rightarrow> string \<Rightarrow> owner_snapshot \<Rightarrow> string option \<Rightarrow> string \<Rightarrow> policy_decision \<Rightarrow>
   remote_execution option \<Rightarrow> device_presence list \<Rightarrow> ms \<Rightarrow> dispatch_gate \<Rightarrow> submit_result \<times> dispatch_gate" where
  "insertDispatch env request i s pairGrant payloadHash decision consent candidates now g =
     (let gateHeld = (rq_kind request = KAgent);
          requesting = trimmed_id (rq_requestingDeviceId request);
          route = initialRoute env request decision requesting consent candidates now;
          row = new_dispatch i request pairGrant (sn_generation s) payloadHash gateHeld route now
      in if (case decision of Commit OnComputer _ \<Rightarrow> True | _ \<Rightarrow> False) \<and> requesting = None
         then refuseSubmit request i EBadRequest g
         else if gateHeld \<and> ir_state route = CloudCommitted \<and> \<not> snapshotAllowsCloudSandbox s
         then refuseSubmit request i ESubscriptionRequired g
         else if dispatchRow i g \<noteq> None then (SubmitThrew, g)
         else (SubmitAccepted i,
               routeDispatch env row gateHeld candidates now (g\<lparr>dg_rows := dg_rows g @ [row]\<rparr>)))"

definition submitAdmitted ::
  "gate_env \<Rightarrow> dispatch_request \<Rightarrow> string \<Rightarrow> owner_snapshot \<Rightarrow> string option \<Rightarrow> string \<Rightarrow> ms \<Rightarrow>
   dispatch_gate \<Rightarrow> submit_result \<times> dispatch_gate" where
  "submitAdmitted env request i s pairGrant payloadHash now g =
     (let requesting = trimmed_id (rq_requestingDeviceId request);
          targetMode = coalesce (rq_targetMode request) TAutomatic;
          decision = decideDispatchPlacement (rq_ingress request) (rq_subject request) (Some targetMode);
          offered = (case decision of Offer _ _ \<Rightarrow> True | _ \<Rightarrow> False);
          candidates = (if offered
            then eligibleDevices env s
                   (offerCandidateIds (rq_ingress request) requesting (trimmed_id pairGrant)
                      targetMode (rq_targetDeviceId request) s)
                   (rq_requiredCapabilities request) now
            else [])
      in if offered \<and> rq_ingress request = IMobile \<and> (requesting \<noteq> None) \<noteq> (trimmed_id pairGrant \<noteq> None)
         then refuseSubmit request i EBadRequest g
         else if offered \<and> targetMode = TDevice \<and> rq_ingress request = IMobile \<and>
                 rq_targetDeviceId request \<noteq> trimmed_id pairGrant
         then refuseSubmit request i EForbidden g
         else case (if targetMode = TDevice
                    then deviceRemoteExecution env (rq_targetDeviceId request) else Inr None) of
           Inl _ \<Rightarrow> (SubmitThrew, g)
         | Inr consent \<Rightarrow>
             insertDispatch env request i s pairGrant payloadHash decision consent candidates now g)"

definition submit ::
  "gate_env \<Rightarrow> string \<Rightarrow> dispatch_request \<Rightarrow> string option \<Rightarrow> string option \<Rightarrow> ms \<Rightarrow> dispatch_gate \<Rightarrow>
   submit_result \<times> dispatch_gate" where
  "submit env uuid request expected pairGrant now g =
     (let payloadJson = canonicalDispatchPayloadJson (rq_payload request);
          payloadHash = ge_sha256Hex env payloadJson;
          i = ''dsp:'' @ uuid
      in if utf8_length payloadJson > MAX_DISPATCH_PAYLOAD_BYTES then (SubmitFailed EBadRequest, g)
         else case find_row d_key (rq_idempotencyKey request) (dg_rows g) of
           Some existing \<Rightarrow>
             if d_fingerprint existing \<noteq> requestFingerprint request pairGrant payloadHash
             then (SubmitFailed EConflict, g)
             else (SubmitReplayed existing, g)
         | None \<Rightarrow>
             (case submitAdmission env request i expected now g of
                (Inl e, g1) \<Rightarrow> (SubmitFailed (fst e), g1)
              | (Inr s, g1) \<Rightarrow> submitAdmitted env request i s pairGrant payloadHash now g1))"

subsection \<open>Status and cancellation\<close>

text \<open>The truth value of \<open>row.cloud_turn_id\<close>: the empty string counts as absent.\<close>

definition hasCloudTurn :: "dispatch_row \<Rightarrow> bool" where
  "hasCloudTurn r \<longleftrightarrow> d_cloudTurn r \<noteq> None \<and> d_cloudTurn r \<noteq> Some []"

datatype status_result = StatusFailed dispatch_error_code | StatusRow dispatch_row

definition dispatchStatus :: "string \<Rightarrow> ms \<Rightarrow> dispatch_gate \<Rightarrow> status_result \<times> dispatch_gate" where
  "dispatchStatus dispatchId now g =
     (case dispatchRow (js_trim dispatchId) g of
        None \<Rightarrow> (StatusFailed ENotFound, g)
      | Some row \<Rightarrow>
          (case (if d_placement row = Some OnCloud \<and> hasCloudTurn row
                 then find (\<lambda>t. Some (ct_turn t) = d_cloudTurn row \<and> ct_generation t = d_generation row)
                        (dg_terminals g)
                 else None) of
             Some receipt \<Rightarrow>
               if isTerminalDispatchState (d_state row) then (StatusRow row, g)
               else
                 let (nxt, g1) = patchDispatch row
                       (\<lambda>r. r\<lparr>d_state := outcome_state (ct_outcome receipt),
                             d_errorMessage := ct_error receipt, d_payload := None,
                             d_payloadExpires := None, d_lease := None\<rparr>) now g
                 in (StatusRow nxt, releaseGate nxt g1)
           | None \<Rightarrow> (StatusRow row, g)))"

definition recordCloudDispatchTerminal ::
  "string \<Rightarrow> string \<Rightarrow> outcome \<Rightarrow> string option \<Rightarrow> string option \<Rightarrow> ms \<Rightarrow> dispatch_gate \<Rightarrow> dispatch_gate" where
  "recordCloudDispatchTerminal turn generation out resultJson errorMessage now g =
     (let g1 = (if list_ex (\<lambda>t. ct_turn t = turn \<and> ct_generation t = generation) (dg_terminals g) then g
                else g\<lparr>dg_terminals := dg_terminals g @
                       [\<lparr>ct_turn = turn, ct_generation = generation, ct_outcome = out,
                         ct_result = resultJson, ct_error = errorMessage, ct_createdAt = now\<rparr>]\<rparr>)
      in case find (\<lambda>r. d_cloudTurn r = Some turn \<and> d_generation r = generation \<and>
                        d_placement r = Some OnCloud) (dg_rows g1) of
           None \<Rightarrow> g1
         | Some r \<Rightarrow> snd (dispatchStatus (d_id r) now g1))"

definition cancelPatch :: "string \<Rightarrow> string \<Rightarrow> bool \<Rightarrow> dispatch_row \<Rightarrow> dispatch_row" where
  "cancelPatch request reason outright r =
     (let r1 = r\<lparr>d_state := (if outright then Canceled else CancelPending),
                 d_cancelRequest := Some request,
                 d_cancelReason := (if reason = [] then d_cancelReason r else Some reason)\<rparr>
      in if outright
         then r1\<lparr>d_payload := None, d_payloadExpires := None, d_offerDeadline := None, d_lease := None,
                 d_executor := None, d_session := None\<rparr>
         else r1)"

definition cancelDispatch ::
  "string \<Rightarrow> string \<Rightarrow> string \<Rightarrow> ms \<Rightarrow> dispatch_gate \<Rightarrow> status_result \<times> dispatch_gate" where
  "cancelDispatch dispatchId cancelRequestId reason now g =
     (case dispatchRow (js_trim dispatchId) g of
        None \<Rightarrow> (StatusFailed ENotFound, g)
      | Some row \<Rightarrow>
          let request = take 128 (js_trim cancelRequestId) in
          if request = [] then (StatusFailed EBadRequest, g)
          else if d_cancelRequest row \<noteq> None \<and> d_cancelRequest row \<noteq> Some request
          then (StatusFailed EConflict, g)
          else if isTerminalDispatchState (d_state row) then (StatusRow row, g)
          else
            let outright = (d_state row = Offering \<or> d_state row = ComputerClaimed \<or>
                            (d_state row = CloudCommitted \<and> \<not> hasCloudTurn row));
                g1 = withdrawOffers (d_id row) None now g;
                (nxt, g2) = patchDispatch row
                  (cancelPatch request (take 512 (js_trim reason)) outright) now g1
            in (StatusRow nxt, if outright then releaseGate nxt g2 else g2))"

subsection \<open>Events\<close>

datatype dispatch_event =
    ESubmit string dispatch_request "string option" "string option"
  | EFrame string string string executor_frame
  | ECancel string string string
  | EStatus string
  | EReceipt string string outcome "string option" "string option"
  | EUnregister string string
  | EAlarm
  | EExpire
  | EReply nat cloud_reply

fun dispatch_handle :: "gate_env \<Rightarrow> dispatch_event \<Rightarrow> ms \<Rightarrow> dispatch_gate \<Rightarrow> dispatch_gate" where
  "dispatch_handle env (ESubmit uuid request expected pairGrant) now g =
     snd (submit env uuid request expected pairGrant now g)"
| "dispatch_handle env (EFrame device session i frame) now g =
     snd (handleExecutorFrame env device session i frame now g)"
| "dispatch_handle env (ECancel i request reason) now g = snd (cancelDispatch i request reason now g)"
| "dispatch_handle env (EStatus i) now g = snd (dispatchStatus i now g)"
| "dispatch_handle env (EReceipt turn generation out resultJson errorMessage) now g =
     recordCloudDispatchTerminal turn generation out resultJson errorMessage now g"
| "dispatch_handle env (EUnregister turn lease) now g = unregisteredLease turn lease g"
| "dispatch_handle env EAlarm now g =
     (if dg_expiring g = [] then g\<lparr>dg_expiring := map (\<lambda>r. (now, r)) (expiredDispatches now g)\<rparr> else g)"
| "dispatch_handle env EExpire now g =
     (case dg_expiring g of
        [] \<Rightarrow> g
      | (t, row) # rest \<Rightarrow>
          (case expireDispatch env t row (g\<lparr>dg_expiring := rest\<rparr>) of
             (True, g1) \<Rightarrow> g1
           | (False, g1) \<Rightarrow> g1\<lparr>dg_expiring := []\<rparr>))"
| "dispatch_handle env (EReply n reply) now g =
     (if n < length (dg_calls g)
      then resumeCall env (dg_calls g ! n) reply
             (g\<lparr>dg_calls := take n (dg_calls g) @ drop (Suc n) (dg_calls g)\<rparr>)
      else g)"

text \<open>The reachable states of the gate, with the time of its last event: events come in time order.\<close>

inductive dispatch_reachable :: "ms \<Rightarrow> dispatch_gate \<Rightarrow> bool" where
  start: "dispatch_reachable t empty_dispatch_gate"
| step: "dispatch_reachable t g \<Longrightarrow> t \<le> now \<Longrightarrow>
    dispatch_reachable now (dispatch_handle env ev now g)"

end
