(* ===== verification/Dispatch_Invariant.thy ===== *)
theory Dispatch_Invariant
  imports Dispatch_Gate
begin

text \<open>
  The invariant of the dispatch tables and what every step keeps of a row. A handler that goes on after a
  call, and the expiry loop, work on rows as they were read earlier: the invariant says how far the
  stored row can have moved on in the meantime.
\<close>

subsection \<open>The invariant\<close>

definition row_ok :: "dispatch_row \<Rightarrow> bool" where
  "row_ok r \<longleftrightarrow>
     (case d_placement r of
        None \<Rightarrow> d_state r \<in> {Offering, ComputerClaimed, Blocked, Canceled}
      | Some OnComputer \<Rightarrow>
          d_state r \<in> {ComputerAccepted, ComputerRunning, CancelPending, ReconciliationRequired, Completed,
                        Failed, Canceled} \<and> d_payload r = None
      | Some OnCloud \<Rightarrow>
          d_state r \<notin> {Offering, ComputerClaimed, ComputerAccepted, ComputerRunning} \<and>
          d_executor r = None) \<and>
     (d_state r = Offering \<longrightarrow> d_executor r = None) \<and>
     (d_executor r \<noteq> None \<longrightarrow> d_state r = ComputerClaimed \<or> d_placement r = Some OnComputer) \<and>
     (isTerminalDispatchState (d_state r) \<or> d_state r = CloudRunning \<longrightarrow> d_payload r = None) \<and>
     1 \<le> d_revision r"

text \<open>An unaccepted row whose offer or claim had lapsed at the time of the alarm.\<close>

definition unaccepted_due :: "ms \<Rightarrow> dispatch_row \<Rightarrow> bool" where
  "unaccepted_due t q \<longleftrightarrow>
     (d_state q = Offering \<and> lapsed (d_offerDeadline q) t) \<or>
     (d_state q = ComputerClaimed \<and> lapsed (d_lease q) t)"

text \<open>
  What the stored row \<open>r\<close> can be when \<open>q\<close> is the same row as the alarm at \<open>t\<close> read it: no computer has
  accepted it, nor can one any more; and a placement that it had is the placement it has.
\<close>

definition stale_row :: "ms \<Rightarrow> dispatch_row \<Rightarrow> bool \<Rightarrow> dispatch_row \<Rightarrow> bool" where
  "stale_row t q noOffer r \<longleftrightarrow>
     row_ok q \<and> (d_payload q = None \<longrightarrow> d_payload r = None) \<and>
     (d_placement q \<noteq> None \<longrightarrow> d_placement r = d_placement q) \<and>
     (unaccepted_due t q \<longrightarrow>
        d_placement r \<noteq> Some OnComputer \<and>
        (d_state r = Offering \<longrightarrow> noOffer \<or> lapsed (d_offerDeadline r) t) \<and>
        (d_state r = ComputerClaimed \<longrightarrow> lapsed (d_lease r) t))"

definition rows_ok :: "dispatch_gate \<Rightarrow> bool" where
  "rows_ok g \<longleftrightarrow>
     distinct (map d_id (dg_rows g)) \<and> distinct (map d_key (dg_rows g)) \<and>
     (\<forall>i r. dispatchRow i g = Some r \<longrightarrow>
        row_ok r \<and> (d_state r \<noteq> Offering \<longrightarrow> openOffers i g = [])) \<and>
     (\<forall>x \<in> set (dg_offers g). dispatchRow (o_dispatch x) g \<noteq> None)"

definition calls_ok :: "dispatch_gate \<Rightarrow> bool" where
  "calls_ok g \<longleftrightarrow>
     (\<forall>c \<in> set (dg_calls g). \<exists>r. dispatchRow (d_id (cc_row c)) g = Some r \<and> d_placement r = Some OnCloud)"

definition expiring_ok :: "ms \<Rightarrow> dispatch_gate \<Rightarrow> bool" where
  "expiring_ok t g \<longleftrightarrow>
     (\<forall>(u, q) \<in> set (dg_expiring g). u \<le> t \<and>
        (\<exists>r. dispatchRow (d_id q) g = Some r \<and> stale_row u q (openOffers (d_id q) g = []) r))"

definition dispatch_inv :: "ms \<Rightarrow> dispatch_gate \<Rightarrow> bool" where
  "dispatch_inv t g \<longleftrightarrow> rows_ok g \<and> calls_ok g \<and> expiring_ok t g"

definition row_ident ::
  "dispatch_row \<Rightarrow> string \<times> string \<times> string \<times> execution_kind \<times> routing_fingerprint" where
  "row_ident r = (d_id r, d_key r, d_generation r, d_kind r, d_fingerprint r)"

definition row_kept :: "dispatch_row \<Rightarrow> dispatch_row \<Rightarrow> bool" where
  "row_kept r r' \<longleftrightarrow>
     row_ident r' = row_ident r \<and> (d_placement r \<noteq> None \<longrightarrow> d_placement r' = d_placement r) \<and>
     d_revision r \<le> d_revision r' \<and> (d_state r' \<noteq> d_state r \<longrightarrow> d_revision r < d_revision r')"

definition gate_keeps :: "dispatch_gate \<Rightarrow> dispatch_gate \<Rightarrow> bool" where
  "gate_keeps g g' \<longleftrightarrow>
     (\<forall>i r. dispatchRow i g = Some r \<longrightarrow> (\<exists>r'. dispatchRow i g' = Some r' \<and> row_kept r r'))"

text \<open>A state reached from \<open>g0\<close> within a step: the invariant holds and every row of \<open>g0\<close> was kept.\<close>

definition good :: "ms \<Rightarrow> dispatch_gate \<Rightarrow> dispatch_gate \<Rightarrow> bool" where
  "good t g0 g \<longleftrightarrow> dispatch_inv t g \<and> gate_keeps g0 g"

subsection \<open>Elementary updates\<close>

lemma row_kept_refl [simp]: "row_kept r r"
  by (simp add: row_kept_def)

lemma row_kept_trans: "row_kept a b \<Longrightarrow> row_kept b c \<Longrightarrow> row_kept a c"
  by (auto simp: row_kept_def)

lemma row_ident_id: "row_ident a = row_ident b \<Longrightarrow> d_id a = d_id b \<and> d_key a = d_key b"
  by (simp add: row_ident_def)

lemma gate_keeps_refl [simp]: "gate_keeps g g"
  by (simp add: gate_keeps_def)

lemma dispatchRow_id: "dispatchRow i g = Some r \<Longrightarrow> d_id r = i"
  using find_row_Some by (fastforce simp: dispatchRow_def)

lemma dispatchRow_simps [simp]:
  "dispatchRow i (g\<lparr>dg_offers := a\<rparr>) = dispatchRow i g"
  "dispatchRow i (g\<lparr>dg_terminals := t\<rparr>) = dispatchRow i g"
  "dispatchRow i (g\<lparr>dg_running := b\<rparr>) = dispatchRow i g"
  "dispatchRow i (g\<lparr>dg_handoffs := c\<rparr>) = dispatchRow i g"
  "dispatchRow i (g\<lparr>dg_calls := d\<rparr>) = dispatchRow i g"
  "dispatchRow i (g\<lparr>dg_expiring := e\<rparr>) = dispatchRow i g"
  "dispatchRow i (g\<lparr>dg_settled := f\<rparr>) = dispatchRow i g"
  by (simp_all add: dispatchRow_def)

lemma openOffers_simps [simp]:
  "openOffers i (g\<lparr>dg_rows := a\<rparr>) = openOffers i g"
  "openOffers i (g\<lparr>dg_terminals := t\<rparr>) = openOffers i g"
  "openOffers i (g\<lparr>dg_running := b\<rparr>) = openOffers i g"
  "openOffers i (g\<lparr>dg_handoffs := c\<rparr>) = openOffers i g"
  "openOffers i (g\<lparr>dg_calls := d\<rparr>) = openOffers i g"
  "openOffers i (g\<lparr>dg_expiring := e\<rparr>) = openOffers i g"
  "openOffers i (g\<lparr>dg_settled := f\<rparr>) = openOffers i g"
  by (simp_all add: openOffers_def)

lemmas inv_defs = dispatch_inv_def rows_ok_def calls_ok_def expiring_ok_def

lemma good_frame [simp]:
  "good t g0 (g\<lparr>dg_terminals := t'\<rparr>) = good t g0 g"
  "good t g0 (g\<lparr>dg_running := b\<rparr>) = good t g0 g"
  "good t g0 (g\<lparr>dg_handoffs := c\<rparr>) = good t g0 g"
  "good t g0 (g\<lparr>dg_settled := f\<rparr>) = good t g0 g"
  by (simp_all add: good_def inv_defs gate_keeps_def)

lemma dispatchRow_update:
  "(\<And>r. d_id (f r) = d_id r) \<Longrightarrow>
   dispatchRow j (g\<lparr>dg_rows := sql_update (\<lambda>r. d_id r = i) f (dg_rows g)\<rparr>) =
     (if j = i then map_option f (dispatchRow j g) else dispatchRow j g)"
  by (simp add: dispatchRow_def find_row_update)

text \<open>
  One row is rewritten by \<open>f\<close> and offers of the same dispatch are noOffer at the same time.
\<close>

lemma good_update:
  assumes good: "good t g0 g" and ident: "\<And>r. row_ident (f r) = row_ident r"
    and known: "\<And>x. x \<in> set offs \<Longrightarrow> \<exists>y \<in> set (dg_offers g). o_dispatch x = o_dispatch y"
    and other: "\<And>j. j \<noteq> i \<Longrightarrow> openOffers j (g\<lparr>dg_offers := offs\<rparr>) = openOffers j g"
    and row: "\<And>r. dispatchRow i g = Some r \<Longrightarrow> row_ok (f r) \<and> row_kept r (f r) \<and>
          (d_state (f r) \<noteq> Offering \<longrightarrow> openOffers i (g\<lparr>dg_offers := offs\<rparr>) = [])"
    and stale: "\<And>r u q. dispatchRow i g = Some r \<Longrightarrow> (u, q) \<in> set (dg_expiring g) \<Longrightarrow> d_id q = i \<Longrightarrow>
          u \<le> t \<Longrightarrow> stale_row u q (openOffers i g = []) r \<Longrightarrow>
          stale_row u q (openOffers i (g\<lparr>dg_offers := offs\<rparr>) = []) (f r)"
  shows "good t g0 (g\<lparr>dg_rows := sql_update (\<lambda>r. d_id r = i) f (dg_rows g), dg_offers := offs\<rparr>)"
    (is "good t g0 ?g'")
proof -
  have id: "\<And>r. d_id (f r) = d_id r" "\<And>r. d_key (f r) = d_key r" using ident row_ident_id by blast+
  have look: "dispatchRow j ?g' = (if j = i then map_option f (dispatchRow j g) else dispatchRow j g)"
    for j using dispatchRow_update [OF id(1)] by simp
  have offers: "openOffers j ?g' =
      (if j = i then openOffers i (g\<lparr>dg_offers := offs\<rparr>) else openOffers j g)" for j
    using other [of j] by (simp add: openOffers_def)
  have inv: "rows_ok g" "calls_ok g" "expiring_ok t g" and keeps: "gate_keeps g0 g"
    using good by (auto simp: good_def dispatch_inv_def)
  have "row_ok r \<and> (d_state r \<noteq> Offering \<longrightarrow> openOffers j ?g' = [])" if "dispatchRow j ?g' = Some r" for j r
  proof (cases "j = i")
    case True
    then show ?thesis using that row unfolding look offers by auto
  next
    case False
    then show ?thesis using that inv(1) unfolding look offers rows_ok_def by auto
  qed
  moreover have "dispatchRow (o_dispatch x) ?g' \<noteq> None" if x: "x \<in> set offs" for x
  proof -
    obtain y where "y \<in> set (dg_offers g)" "o_dispatch x = o_dispatch y" using known [OF x] by blast
    then have "dispatchRow (o_dispatch x) g \<noteq> None" using inv(1) by (simp add: rows_ok_def)
    then show ?thesis unfolding look by auto
  qed
  ultimately have "rows_ok ?g'"
    using inv(1) by (simp add: rows_ok_def map_sql_update_key id)
  moreover have "calls_ok ?g'"
    unfolding calls_ok_def
  proof
    fix c assume "c \<in> set (dg_calls ?g')"
    then obtain r where "dispatchRow (d_id (cc_row c)) g = Some r" "d_placement r = Some OnCloud"
      using inv(2) by (auto simp: calls_ok_def)
    then show "\<exists>r. dispatchRow (d_id (cc_row c)) ?g' = Some r \<and> d_placement r = Some OnCloud"
      using row unfolding look by (cases "d_id (cc_row c) = i") (auto simp: row_kept_def)
  qed
  moreover have "expiring_ok t ?g'"
    unfolding expiring_ok_def
  proof (clarify, intro conjI)
    fix u q assume uq: "(u, q) \<in> set (dg_expiring ?g')"
    then obtain r where r: "u \<le> t" "dispatchRow (d_id q) g = Some r"
        "stale_row u q (openOffers (d_id q) g = []) r"
      using inv(3) by (auto simp: expiring_ok_def)
    show "u \<le> t" by (rule r(1))
    show "\<exists>r. dispatchRow (d_id q) ?g' = Some r \<and> stale_row u q (openOffers (d_id q) ?g' = []) r"
      using r uq stale unfolding look offers by (cases "d_id q = i") auto
  qed
  moreover have "gate_keeps g0 ?g'"
    unfolding gate_keeps_def
  proof (intro allI impI)
    fix j r assume "dispatchRow j g0 = Some r"
    then obtain r' where r': "dispatchRow j g = Some r'" "row_kept r r'"
      using keeps by (auto simp: gate_keeps_def)
    then show "\<exists>r''. dispatchRow j ?g' = Some r'' \<and> row_kept r r''"
      using row unfolding look by (cases "j = i") (auto intro: row_kept_trans)
  qed
  ultimately show ?thesis by (simp add: good_def dispatch_inv_def)
qed

lemma good_rows:
  assumes "good t g0 g" and "\<And>r. row_ident (f r) = row_ident r"
    and "\<And>r. dispatchRow i g = Some r \<Longrightarrow> row_ok (f r) \<and> row_kept r (f r) \<and>
          (d_state (f r) \<noteq> Offering \<longrightarrow> openOffers i g = [])"
    and "\<And>r u q. dispatchRow i g = Some r \<Longrightarrow> (u, q) \<in> set (dg_expiring g) \<Longrightarrow> d_id q = i \<Longrightarrow>
          u \<le> t \<Longrightarrow> stale_row u q (openOffers i g = []) r \<Longrightarrow> stale_row u q (openOffers i g = []) (f r)"
  shows "good t g0 (g\<lparr>dg_rows := sql_update (\<lambda>r. d_id r = i) f (dg_rows g)\<rparr>)"
  using good_update [of t g0 g f "dg_offers g" i] assms by auto

lemma patchRow_ident: "row_ident (patch r) = row_ident r \<Longrightarrow> row_ident (patchRow patch now r) = row_ident r"
  by (simp add: row_ident_def patchRow_def)

lemma patchDispatch_result:
  assumes "\<And>r. row_ident (patch r) = row_ident r" and "dispatchRow (d_id row) g = Some r"
  shows "fst (patchDispatch row patch now g) = patchRow patch now r"
    and "dispatchRow (d_id row) (snd (patchDispatch row patch now g)) = Some (patchRow patch now r)"
proof -
  have "d_id (patchRow patch now r) = d_id r" for r
    using assms(1) [of r] by (simp add: patchRow_def row_ident_def)
  note look = dispatchRow_update [OF this]
  show "fst (patchDispatch row patch now g) = patchRow patch now r"
    using assms(2) by (simp add: patchDispatch_def Let_def look)
  show "dispatchRow (d_id row) (snd (patchDispatch row patch now g)) = Some (patchRow patch now r)"
    using assms(2) by (simp add: patchDispatch_def Let_def look)
qed

lemma good_patch:
  assumes "good t g0 g" and ident: "\<And>r. row_ident (patch r) = row_ident r"
    and row: "\<And>r. dispatchRow (d_id row) g = Some r \<Longrightarrow> row_ok (patchRow patch now r) \<and>
          (d_placement r \<noteq> None \<longrightarrow> d_placement (patch r) = d_placement r) \<and>
          (d_state (patch r) \<noteq> Offering \<longrightarrow> openOffers (d_id row) g = [])"
    and stale: "\<And>r u q. dispatchRow (d_id row) g = Some r \<Longrightarrow> (u, q) \<in> set (dg_expiring g) \<Longrightarrow>
          d_id q = d_id row \<Longrightarrow> u \<le> t \<Longrightarrow> stale_row u q (openOffers (d_id row) g = []) r \<Longrightarrow>
          stale_row u q (openOffers (d_id row) g = []) (patchRow patch now r)"
  shows "good t g0 (snd (patchDispatch row patch now g))"
proof -
  have "good t g0 (g\<lparr>dg_rows := sql_update (\<lambda>r. d_id r = d_id row) (patchRow patch now) (dg_rows g)\<rparr>)"
  proof (rule good_rows [OF assms(1) patchRow_ident [OF ident] _ stale])
    fix r assume "dispatchRow (d_id row) g = Some r"
    then show "row_ok (patchRow patch now r) \<and> row_kept r (patchRow patch now r) \<and>
        (d_state (patchRow patch now r) \<noteq> Offering \<longrightarrow> openOffers (d_id row) g = [])"
      using row [of r] ident [of r] by (auto simp: row_kept_def patchRow_def row_ident_def)
  qed
  then show ?thesis by (simp add: patchDispatch_def Let_def)
qed

lemma stale_row_placed:
  assumes "stale_row u q noOffer r" and "d_placement r = Some p" and "d_placement r' = Some p"
    and "row_ok r'" and "d_payload r = None \<longrightarrow> d_payload r' = None"
  shows "stale_row u q noOffer r'"
  using assms by (cases p) (auto simp: stale_row_def row_ok_def)

text \<open>A row that has a placement keeps it: such a patch is harmless whatever the loop still holds.\<close>

lemma good_patch_placed:
  assumes "good t g0 g" and "\<And>r. row_ident (patch r) = row_ident r"
    and row: "\<And>r. dispatchRow (d_id row) g = Some r \<Longrightarrow> row_ok r \<Longrightarrow>
          d_placement r = Some p \<and> d_placement (patch r) = Some p \<and> row_ok (patchRow patch now r) \<and>
          (d_payload r = None \<longrightarrow> d_payload (patch r) = None)"
  shows "good t g0 (snd (patchDispatch row patch now g))"
proof (rule good_patch [OF assms(1,2)])
  fix r assume r: "dispatchRow (d_id row) g = Some r"
  then have ok: "row_ok r" "d_state r \<noteq> Offering \<longrightarrow> openOffers (d_id row) g = []"
    using assms(1) by (auto simp: good_def inv_defs)
  have not: "d_state r \<noteq> Offering" using row [OF r ok(1)] ok(1) by (cases p) (auto simp: row_ok_def)
  show "row_ok (patchRow patch now r) \<and> (d_placement r \<noteq> None \<longrightarrow> d_placement (patch r) = d_placement r) \<and>
      (d_state (patch r) \<noteq> Offering \<longrightarrow> openOffers (d_id row) g = [])"
    using row [OF r ok(1)] ok not by simp
  show "stale_row u q (openOffers (d_id row) g = []) (patchRow patch now r)"
    if "stale_row u q (openOffers (d_id row) g = []) r" for u q
    using stale_row_placed [OF that, of p "patchRow patch now r"] row [OF r ok(1)] by (simp add: patchRow_def)
qed

text \<open>An update that touches neither the state of a dispatch nor what its deadlines are.\<close>

definition neutral :: "(dispatch_row \<Rightarrow> dispatch_row) \<Rightarrow> bool" where
  "neutral f \<longleftrightarrow>
     (\<forall>r. row_ident (f r) = row_ident r \<and> d_state (f r) = d_state r \<and> d_placement (f r) = d_placement r \<and>
          d_executor (f r) = d_executor r \<and> d_offerDeadline (f r) = d_offerDeadline r \<and>
          d_lease (f r) = d_lease r \<and> d_revision (f r) = d_revision r \<and>
          (d_payload (f r) = d_payload r \<or> d_payload (f r) = None))"

lemma neutral_updates [simp]:
  "neutral (d_gateHeld_update h)" "neutral (d_cloudTurn_update c)"
  "neutral (\<lambda>r. r\<lparr>d_attempts := d_attempts r + 1, d_retryAt := None\<rparr>)"
  "neutral (\<lambda>r. r\<lparr>d_payload := None, d_payloadExpires := None\<rparr>)"
  by (simp_all add: neutral_def row_ident_def)

lemma good_neutral:
  assumes "good t g0 g" and f: "neutral f"
  shows "good t g0 (updateDispatch i f g)"
  unfolding updateDispatch_def
proof (rule good_rows [OF assms(1)])
  show "row_ident (f r) = row_ident r" for r using f by (simp add: neutral_def)
  fix r assume r: "dispatchRow i g = Some r"
  have same: "row_ident (f r) = row_ident r" "d_state (f r) = d_state r" "d_placement (f r) = d_placement r"
    "d_executor (f r) = d_executor r" "d_offerDeadline (f r) = d_offerDeadline r"
    "d_lease (f r) = d_lease r" "d_revision (f r) = d_revision r"
    and payload: "d_payload r = None \<longrightarrow> d_payload (f r) = None"
    using f [unfolded neutral_def, rule_format, of r] by auto
  have "row_ok r" "d_state r \<noteq> Offering \<longrightarrow> openOffers i g = []"
    using assms(1) r by (auto simp: good_def inv_defs)
  moreover have "row_ok (f r)" if "row_ok r"
    using that payload unfolding row_ok_def same by (auto split: option.splits dispatch_placement.splits)
  ultimately show "row_ok (f r) \<and> row_kept r (f r) \<and> (d_state (f r) \<noteq> Offering \<longrightarrow> openOffers i g = [])"
    by (simp add: row_kept_def same)
  show "stale_row u q noOffer (f r)" if "stale_row u q noOffer r" for u q noOffer
    using that payload by (simp add: stale_row_def same)
qed

lemma dg_offers_set:
  "dg_offers (setOffer i device st now g) = sql_update (\<lambda>x. o_dispatch x = i \<and> o_device x = device)
     (\<lambda>x. x\<lparr>o_status := st, o_updatedAt := now\<rparr>) (dg_offers g)"
  "dg_offers (withdrawOffers i keep now g) = sql_update
     (\<lambda>x. o_dispatch x = i \<and> o_status x = OfferOpen \<and> Some (o_device x) \<noteq> keep)
     (\<lambda>x. x\<lparr>o_status := OfferWithdrawn, o_updatedAt := now\<rparr>) (dg_offers g)"
  by (simp_all add: setOffer_def withdrawOffers_def)

lemma openOffers_other:
  assumes "j \<noteq> i"
  shows "openOffers j (setOffer i device st now g) = openOffers j g"
    and "openOffers j (withdrawOffers i keep now g) = openOffers j g"
  unfolding openOffers_def dg_offers_set
  by (rule filter_sql_update_other; use assms in auto)+

lemma openOffers_none:
  "openOffers i (withdrawOffers i None now g) = []"
  "openOffers i (withdrawOffers i (Some device) now (setOffer i device OfferClaimed now g)) = []"
  "openOffers i g = [] \<Longrightarrow> openOffers i (setOffer i device OfferWithdrawn now g) = []"
  unfolding openOffers_def filter_empty_conv dg_offers_set set_sql_update ball_simps
  by (simp_all del: not_None_eq) blast

lemma offers_known:
  "x \<in> set (dg_offers (setOffer i device st now g)) \<Longrightarrow> \<exists>y \<in> set (dg_offers g). o_dispatch x = o_dispatch y"
  "x \<in> set (dg_offers (withdrawOffers i keep now g)) \<Longrightarrow> \<exists>y \<in> set (dg_offers g). o_dispatch x = o_dispatch y"
  unfolding dg_offers_set set_sql_update by force+

text \<open>Offers of one dispatch are rewritten, none of them being open afterwards.\<close>

lemma good_offers_closed:
  assumes "good t g0 g"
    and known: "\<And>x. x \<in> set offs \<Longrightarrow> \<exists>y \<in> set (dg_offers g). o_dispatch x = o_dispatch y"
    and other: "\<And>j. j \<noteq> i \<Longrightarrow> openOffers j (g\<lparr>dg_offers := offs\<rparr>) = openOffers j g"
    and none: "openOffers i (g\<lparr>dg_offers := offs\<rparr>) = []"
  shows "good t g0 (g\<lparr>dg_offers := offs\<rparr>)"
proof -
  have "good t g0 (g\<lparr>dg_rows := sql_update (\<lambda>r. d_id r = i) (\<lambda>r. r) (dg_rows g), dg_offers := offs\<rparr>)"
  proof (rule good_update [OF assms(1) _ known other])
    fix r assume r: "dispatchRow i g = Some r"
    show "row_ok r \<and> row_kept r r \<and> (d_state r \<noteq> Offering \<longrightarrow> openOffers i (g\<lparr>dg_offers := offs\<rparr>) = [])"
      using assms(1) r none by (auto simp: good_def inv_defs)
    show "stale_row u q (openOffers i (g\<lparr>dg_offers := offs\<rparr>) = []) r"
      if "stale_row u q (openOffers i g = []) r" for u q
      using that none by (auto simp: stale_row_def)
  qed auto
  then show ?thesis by (simp add: sql_update_id)
qed

lemma good_withdraw:
  assumes "good t g0 g"
  shows "good t g0 (withdrawOffers i None now g)"
proof -
  have w: "withdrawOffers i None now g = g\<lparr>dg_offers := dg_offers (withdrawOffers i None now g)\<rparr>"
    by (simp add: withdrawOffers_def)
  show ?thesis
    by (subst w, rule good_offers_closed [OF assms, where i = i])
       (simp_all add: w [symmetric] openOffers_none openOffers_other(2) offers_known(2))
qed

subsection \<open>The cloud branch\<close>

definition placed_cloud :: "string \<Rightarrow> dispatch_gate \<Rightarrow> bool" where
  "placed_cloud i g \<longleftrightarrow> (\<exists>r. dispatchRow i g = Some r \<and> d_placement r = Some OnCloud)"

lemma good_refl: "dispatch_inv t g \<Longrightarrow> good t g g"
  by (simp add: good_def)

lemma good_trans: "good t g0 g \<Longrightarrow> good t g g' \<Longrightarrow> good t g0 g'"
  unfolding good_def gate_keeps_def by (meson row_kept_trans)

lemma good_inv: "good t g0 g \<Longrightarrow> dispatch_inv t g"
  by (simp add: good_def)

lemma good_placed: "good t g0 g \<Longrightarrow> placed_cloud i g0 \<Longrightarrow> placed_cloud i g"
  unfolding good_def gate_keeps_def placed_cloud_def row_kept_def by (metis option.discI)

lemma good_row: "good t g0 g \<Longrightarrow> dispatchRow i g = Some r \<Longrightarrow> row_ok r"
  by (auto simp: good_def inv_defs)

lemma good_releaseTurn [simp]: "good t g0 (releaseTurn turn g) = good t g0 g"
  by (simp add: releaseTurn_def)

lemma good_putHandoff [simp]: "good t g0 (putHandoff i phase turn lease g) = good t g0 g"
  by (simp add: putHandoff_def)

lemma good_admit: "admit env lane turn conv expected later now g = (x, g') \<Longrightarrow> good t g0 g' = good t g0 g"
  by (auto simp: admit_def pruneRunning_def Let_def split: if_splits sum.splits)

lemma good_releaseGate: "good t g0 g \<Longrightarrow> good t g0 (releaseGate row g)"
  by (simp add: releaseGate_def Let_def good_neutral)

lemma good_suspend:
  assumes "good t g0 g" and "placed_cloud (d_id row) g"
  shows "good t g0 (suspendCall k row now g)"
  using assms by (auto simp: suspendCall_def good_def inv_defs gate_keeps_def placed_cloud_def)

text \<open>A patch of a dispatch that is placed in the cloud.\<close>

definition cloud_patch :: "(dispatch_row \<Rightarrow> dispatch_row) \<Rightarrow> bool" where
  "cloud_patch f \<longleftrightarrow>
     (\<forall>r. row_ident (f r) = row_ident r \<and> d_placement (f r) \<in> {d_placement r, Some OnCloud} \<and>
          d_executor (f r) = d_executor r \<and> d_revision (f r) = d_revision r \<and>
          (d_payload (f r) = d_payload r \<or> d_payload (f r) = None) \<and>
          (d_state (f r) = d_state r \<or> d_state (f r) = ReconciliationRequired \<or>
           d_state (f r) = CancelPending \<or>
           d_payload (f r) = None \<and> d_state (f r) \<in> {CloudRunning, Completed, Failed, Canceled}))"

lemma row_ok_cloud:
  assumes "d_placement r = Some OnCloud"
  shows "row_ok r \<longleftrightarrow>
    d_state r \<in> {CloudCommitted, CancelPending, ReconciliationRequired} \<and> d_executor r = None \<and>
      1 \<le> d_revision r \<or>
    d_state r \<in> {CloudRunning, Blocked, Completed, Failed, Canceled} \<and> d_executor r = None \<and>
      1 \<le> d_revision r \<and> d_payload r = None"
  using assms
  by (cases "d_state r") (auto simp: row_ok_def isTerminalDispatchState_def TERMINAL_DISPATCH_STATES_def)

lemma good_cloud_patch:
  assumes "good t g0 g" and "placed_cloud (d_id row) g" and f: "cloud_patch f"
  shows "good t g0 (snd (patchDispatch row f now g))"
proof (rule good_patch_placed [OF assms(1)])
  show "row_ident (f r) = row_ident r" for r using f by (simp add: cloud_patch_def)
  fix r assume r: "dispatchRow (d_id row) g = Some r" "row_ok r"
  then have place: "d_placement r = Some OnCloud" using assms(2) by (simp add: placed_cloud_def)
  note fr = f [unfolded cloud_patch_def, rule_format, of r]
  then have place': "d_placement (patchRow f now r) = Some OnCloud" using place by (auto simp: patchRow_def)
  have "row_ok (patchRow f now r)"
    using fr r(2) unfolding row_ok_cloud [OF place] row_ok_cloud [OF place']
    by (auto simp: patchRow_def)
  moreover have "d_payload r = None \<longrightarrow> d_payload (f r) = None" using fr by auto
  ultimately show "d_placement r = Some OnCloud \<and> d_placement (f r) = Some OnCloud \<and>
      row_ok (patchRow f now r) \<and> (d_payload r = None \<longrightarrow> d_payload (f r) = None)"
    using place place' by (simp add: patchRow_def)
qed

lemma cloudRefusal_good:
  assumes "good t g0 g" and "placed_cloud (d_id row) g"
  shows "good t g0 (cloudRefusal row status code message now g)"
  unfolding cloudRefusal_def
  by (auto simp: case_prod_beta Let_def cloud_patch_def row_ident_def
           intro!: good_releaseGate good_cloud_patch assms)

lemma startedPatch_cloud: "cloud_patch (startedPatch turn thread now)"
  by (simp add: cloud_patch_def startedPatch_def row_ident_def)

lemma placed_updateDispatch [simp]:
  assumes "neutral f"
  shows "placed_cloud i (updateDispatch j f g) = placed_cloud i g"
proof -
  have "d_id (f r) = d_id r" "d_placement (f r) = d_placement r" for r
    using assms by (simp_all add: neutral_def row_ident_def)
  then show ?thesis
    by (auto simp: placed_cloud_def updateDispatch_def dispatchRow_update split: if_splits)
qed

lemma placed_frame [simp]:
  "placed_cloud i (putHandoff j phase turn lease g) = placed_cloud i g"
  "placed_cloud i (releaseTurn turn g) = placed_cloud i g"
  by (simp_all add: placed_cloud_def putHandoff_def releaseTurn_def)

lemma startRegistered_good:
  assumes "good t g0 g" and "placed_cloud (d_id row) g"
  shows "good t g0 (startRegistered env row turn lease now g)"
  using assms
  by (auto simp: startRegistered_def intro!: good_suspend good_neutral good_releaseGate split: option.splits)

lemma startCloudChat_good:
  assumes "good t g0 g" and "placed_cloud (d_id row) g"
  shows "good t g0 (startCloudChat env row now g)"
proof -
  define g1 where "g1 = (if handoffOf (d_id row) g = None \<and> d_attempts row = 1
               then putHandoff (d_id row) Allocating (ge_uuid env) (ge_uuid' env) g else g)"
  have g1: "good t g0 g1" "placed_cloud (d_id row) g1" using assms by (simp_all add: g1_def)
  have admit: "good t g0 g2 \<and> placed_cloud (d_id row) g2"
    if "admit env lane turn conv expected later now g1 = (x, g2)" for lane turn conv expected later x g2
    using good_admit [OF that] g1(1) good_admit [OF that] good_placed [OF _ g1(2)] good_refl [OF good_inv [OF g1(1)]]
    by metis
  show ?thesis
    using g1 admit
    by (auto simp: startCloudChat_def Let_def g1_def [symmetric]
             intro!: good_suspend startRegistered_good cloudRefusal_good good_neutral
             split: option.splits handoff_phase.splits prod.splits sum.splits if_splits)
qed

lemma startCloudAgent_good:
  assumes "good t g0 g" and "placed_cloud (d_id row) g"
  shows "good t g0 (startCloudAgent env row payload now g)"
  using assms by (auto simp: startCloudAgent_def Let_def intro!: good_suspend split: sum.splits)

lemma runCloudBranch_good:
  assumes good: "good t g0 g" and placed: "placed_cloud (d_id row) g"
    and payload: "\<And>r. dispatchRow (d_id row) g = Some r \<Longrightarrow> d_payload row = None \<Longrightarrow> d_payload r = None"
  shows "good t g0 (runCloudBranch env row now g)"
proof (cases "d_payload row")
  case None
  have "good t g0 (snd (patchDispatch row
      (\<lambda>r. r\<lparr>d_state := Failed, d_lease := None, d_errorCode := Some c, d_errorMessage := Some m\<rparr>) now g))"
    for c m
  proof (rule good_patch_placed [OF good, of _ _ OnCloud])
    fix r assume r: "dispatchRow (d_id row) g = Some r" "row_ok r"
    then have p: "d_placement r = Some OnCloud" using placed by (simp add: placed_cloud_def)
    then show "d_placement r = Some OnCloud \<and>
      d_placement (r\<lparr>d_state := Failed, d_lease := None, d_errorCode := Some c, d_errorMessage := Some m\<rparr>)
        = Some OnCloud \<and>
      row_ok (patchRow (\<lambda>r. r\<lparr>d_state := Failed, d_lease := None, d_errorCode := Some c,
        d_errorMessage := Some m\<rparr>) now r) \<and> (d_payload r = None \<longrightarrow>
      d_payload (r\<lparr>d_state := Failed, d_lease := None, d_errorCode := Some c, d_errorMessage := Some m\<rparr>) = None)"
      using payload [OF r(1) None] r(2) by (auto simp: row_ok_def patchRow_def)
  qed (simp add: row_ident_def)
  note unavailable = this
  have "good t g0 (releaseGate row' (snd (patchDispatch row
      (\<lambda>r. r\<lparr>d_state := Failed, d_payload := None, d_payloadExpires := None, d_lease := None,
            d_errorCode := Some c, d_errorMessage := Some m\<rparr>) now g)))" for row' c m
    by (intro good_releaseGate good_cloud_patch good placed) (simp add: cloud_patch_def row_ident_def)
  then show ?thesis using None good good_releaseGate [OF unavailable]
    by (simp add: runCloudBranch_def Let_def case_prod_beta)
next
  case (Some p)
  define g1 where "g1 = updateDispatch (d_id row)
                     (\<lambda>r. r\<lparr>d_attempts := d_attempts r + 1, d_retryAt := None\<rparr>) g"
  have g1: "good t g0 g1" "placed_cloud (d_id row) g1"
    using good placed by (simp_all add: g1_def good_neutral)
  have id: "d_id (coalesce (dispatchRow (d_id row) g1) row) = d_id row"
    by (cases "dispatchRow (d_id row) g1") (auto dest: dispatchRow_id)
  show ?thesis using Some good placed g1
    by (auto simp: runCloudBranch_def Let_def case_prod_beta g1_def [symmetric] id cloud_patch_def row_ident_def
             intro!: good_releaseGate good_cloud_patch startCloudChat_good startCloudAgent_good)
qed

lemma resumeCall_good:
  assumes "good t g0 g" and "placed_cloud (d_id (cc_row c)) g"
  shows "good t g0 (resumeCall env c reply g)"
proof -
  note intros = good_suspend good_neutral good_releaseGate cloudRefusal_good startRegistered_good
    good_cloud_patch startedPatch_cloud assms
  have "placed_cloud (d_id (cc_row c)) (releaseGate (cc_row c) g)"
    using good_placed [OF good_releaseGate [OF good_refl [OF good_inv [OF assms(1)]]]] assms(2) by simp
  then show ?thesis using assms
    by (cases "cc_kind c"; cases reply)
       (auto simp: resumeCall_def resume_defs Let_def intro!: intros split: option.splits)
qed

subsection \<open>Falling back\<close>

text \<open>
  The invariant only asks of the work lists that their entries are sound, so dropping entries is harmless.
\<close>

lemma good_calls_subset:
  "good t g0 g \<Longrightarrow> set cs \<subseteq> set (dg_calls g) \<Longrightarrow> good t g0 (g\<lparr>dg_calls := cs\<rparr>)"
  by (auto simp: good_def inv_defs gate_keeps_def)

lemma good_expiring_subset:
  "good t g0 g \<Longrightarrow> set es \<subseteq> set (dg_expiring g) \<Longrightarrow> good t g0 (g\<lparr>dg_expiring := es\<rparr>)"
  by (force simp: good_def inv_defs gate_keeps_def)

text \<open>A row that no computer accepted is taken out of the hands of the computers.\<close>

definition unaccepted :: "string \<Rightarrow> dispatch_gate \<Rightarrow> bool" where
  "unaccepted i g \<longleftrightarrow> (\<exists>r. dispatchRow i g = Some r \<and> d_placement r \<noteq> Some OnComputer)"

definition withdraw_patch :: "(dispatch_row \<Rightarrow> dispatch_row) \<Rightarrow> bool" where
  "withdraw_patch f \<longleftrightarrow>
     (\<forall>r. row_ident (f r) = row_ident r \<and> d_executor (f r) = None \<and> d_revision (f r) = d_revision r \<and>
          (d_state (f r) \<in> {Blocked, Canceled} \<and> d_placement (f r) = d_placement r \<and> d_payload (f r) = None \<or>
           d_state (f r) = CloudCommitted \<and> d_placement (f r) = Some OnCloud \<and> d_payload (f r) = d_payload r))"

lemma withdraw_patches [simp]:
  "withdraw_patch (blockPatch e)" "withdraw_patch (commitPatch reason now)"
  "withdraw_patch (cancelPatch request reason' True)"
  by (auto simp: withdraw_patch_def blockPatch_def commitPatch_def cancelPatch_def row_ident_def Let_def)

lemma terminal_simps [simp]:
  "isTerminalDispatchState s \<longleftrightarrow> s \<in> {Blocked, Completed, Failed, Canceled}"
  by (auto simp: isTerminalDispatchState_def TERMINAL_DISPATCH_STATES_def)

lemma good_withdraw_patch:
  assumes good: "good t g0 g" and un: "unaccepted (d_id row) g" and f: "withdraw_patch f"
    and none: "openOffers (d_id row) g = []"
  shows "good t g0 (snd (patchDispatch row f now g))"
proof (rule good_patch [OF good])
  show "row_ident (f r) = row_ident r" for r using f by (simp add: withdraw_patch_def)
  fix r assume r: "dispatchRow (d_id row) g = Some r"
  have rok: "row_ok r" using good_row [OF good r] .
  have place: "d_placement r = None \<or> d_placement r = Some OnCloud"
    using un r by (cases "d_placement r"; cases "the (d_placement r)") (auto simp: unaccepted_def)
  have rev: "1 \<le> d_revision r" using rok by (simp add: row_ok_def)
  note fr = f [unfolded withdraw_patch_def, rule_format, of r]
  have ok: "row_ok (patchRow f now r)"
    using fr place rev by (elim conjE disjE) (auto simp: row_ok_def patchRow_def)
  have keep: "d_placement r \<noteq> None \<longrightarrow> d_placement (f r) = d_placement r" using fr place by auto
  show "row_ok (patchRow f now r) \<and> (d_placement r \<noteq> None \<longrightarrow> d_placement (f r) = d_placement r) \<and>
      (d_state (f r) \<noteq> Offering \<longrightarrow> openOffers (d_id row) g = [])"
    using ok keep none by simp
  show "stale_row u q (openOffers (d_id row) g = []) (patchRow f now r)"
    if s: "stale_row u q (openOffers (d_id row) g = []) r" for u q
  proof -
    have "d_payload q = None \<longrightarrow> d_payload (f r) = None" using fr s by (auto simp: stale_row_def)
    moreover have "d_placement q \<noteq> None \<longrightarrow> d_placement (f r) = d_placement q"
      using keep s by (auto simp: stale_row_def)
    moreover have "d_placement (f r) \<noteq> Some OnComputer" using fr place by auto
    moreover have "d_state (f r) \<noteq> Offering" "d_state (f r) \<noteq> ComputerClaimed" using fr by auto
    ultimately show ?thesis using s by (simp add: stale_row_def patchRow_def)
  qed
qed

lemma withdraw_simps [simp]:
  "dispatchRow i (withdrawOffers j keep now g) = dispatchRow i g"
  "unaccepted i (withdrawOffers j keep now g) = unaccepted i g"
  by (simp_all add: unaccepted_def withdrawOffers_def)

lemma blockDispatch_good:
  assumes "good t g0 g" and "unaccepted (d_id row) g" and "openOffers (d_id row) g = []"
  shows "good t g0 (blockDispatch row e now g)"
  using assms by (auto simp: blockDispatch_def case_prod_beta Let_def intro!: good_releaseGate good_withdraw_patch)

lemma commit_good:
  assumes "good t g0 g" and un: "unaccepted (d_id row) g" and "openOffers (d_id row) g = []"
    and "patchDispatch row (commitPatch reason now) now g = (committed, g1)"
  shows "good t g0 (runCloudBranch env committed now g1)"
proof -
  obtain r where r: "dispatchRow (d_id row) g = Some r" using un by (auto simp: unaccepted_def)
  have ident: "row_ident (commitPatch reason now x) = row_ident x" for x
    by (simp add: commitPatch_def row_ident_def)
  have res: "committed = patchRow (commitPatch reason now) now r"
      "dispatchRow (d_id row) g1 = Some (patchRow (commitPatch reason now) now r)"
    using patchDispatch_result [OF ident r, of now] assms(4) by simp_all
  have id: "d_id committed = d_id row"
    using dispatchRow_id [OF r] by (simp add: res(1) patchRow_def commitPatch_def)
  have good: "good t g0 g1" using good_withdraw_patch [OF assms(1,2) _ assms(3), of "commitPatch reason now" now] assms(4)
    by simp
  show ?thesis
  proof (rule runCloudBranch_good [OF good])
    show "placed_cloud (d_id committed) g1"
      using res id by (simp add: placed_cloud_def patchRow_def commitPatch_def)
    show "d_payload r' = None" if "dispatchRow (d_id committed) g1 = Some r'" "d_payload committed = None" for r'
      using that res id by simp
  qed
qed

lemma resolveUnaccepted_good:
  assumes "good t g0 g" and "unaccepted (d_id row) g"
  shows "good t g0 (snd (resolveUnaccepted env row now reason g))"
proof -
  define g1 where "g1 = withdrawOffers (d_id row) None now g"
  have g1: "good t g0 g1" "unaccepted (d_id row) g1" "openOffers (d_id row) g1 = []"
    using assms good_withdraw [OF assms(1)] openOffers_none(1) by (simp_all add: g1_def)
  show ?thesis
    using assms(1) g1 commit_good [OF g1] blockDispatch_good [OF g1]
    by (auto simp: resolveUnaccepted_def Let_def g1_def [symmetric] split: prod.splits sum.splits)
qed

subsection \<open>Executor frames\<close>

lemma row_ok_computer:
  assumes "d_placement r = Some OnComputer"
  shows "row_ok r \<longleftrightarrow>
    d_state r \<in> {ComputerAccepted, ComputerRunning, CancelPending, ReconciliationRequired, Completed, Failed,
                  Canceled} \<and> d_payload r = None \<and> 1 \<le> d_revision r"
  using assms by (cases "d_state r") (auto simp: row_ok_def)

lemma row_ok_open:
  assumes "row_ok r" and "d_state r = Offering \<or> d_state r = ComputerClaimed"
  shows "d_placement r = None"
  using assms by (auto simp: row_ok_def split: option.splits dispatch_placement.splits)

lemma row_ok_placed:
  assumes "row_ok r" and "d_state r \<notin> {Offering, ComputerClaimed, Blocked, Canceled}"
  shows "\<exists>p. d_placement r = Some p"
  using assms by (cases "d_placement r") (simp_all add: row_ok_def)

lemma executing_placed:
  assumes "row_ok r" and "d_executor r \<noteq> None" and "d_state r \<noteq> ComputerClaimed"
  shows "d_placement r = Some OnComputer"
  using assms by (auto simp: row_ok_def)

text \<open>A patch of a dispatch that a computer holds.\<close>

lemma good_computer_patch:
  assumes good: "good t g0 g" and row: "dispatchRow (d_id row) g = Some row"
    and place: "d_placement row = Some OnComputer"
    and f: "\<And>r. row_ident (f r) = row_ident r" "\<And>r. d_placement (f r) = d_placement r"
      "\<And>r. d_revision (f r) = d_revision r" "\<And>r. d_payload r = None \<Longrightarrow> d_payload (f r) = None"
    and st: "d_state (f row) \<in> {ComputerAccepted, ComputerRunning, CancelPending, ReconciliationRequired,
                  Completed, Failed, Canceled}"
  shows "good t g0 (snd (patchDispatch row f now g))"
proof (rule good_patch_placed [OF good f(1)])
  fix r assume r: "dispatchRow (d_id row) g = Some r" "row_ok r"
  then have "r = row" using row by simp
  moreover have pl': "d_placement (patchRow f now row) = Some OnComputer" using place f(2) by (simp add: patchRow_def)
  moreover have "d_payload row = None" "1 \<le> d_revision row"
    using r(2) \<open>r = row\<close> by (simp_all add: row_ok_computer [OF place])
  moreover have "row_ok (patchRow f now row)"
    using calculation f(4) [of row] st unfolding row_ok_computer [OF pl'] by (simp add: patchRow_def)
  ultimately show "d_placement r = Some OnComputer \<and> d_placement (f r) = Some OnComputer \<and>
      row_ok (patchRow f now r) \<and> (d_payload r = None \<longrightarrow> d_payload (f r) = None)"
    using place f by simp
qed

text \<open>The loop holds no lapsed copy of a dispatch that a computer may still claim or accept.\<close>

definition fresh :: "string \<Rightarrow> dispatch_gate \<Rightarrow> bool" where
  "fresh i g \<longleftrightarrow> (\<forall>(u, q) \<in> set (dg_expiring g). d_id q = i \<longrightarrow> \<not> unaccepted_due u q \<and> d_placement q = None)"

lemma fresh_open:
  assumes good: "good t g0 g" and row: "dispatchRow i g = Some row" and "t \<le> now"
    and st: "d_state row = Offering \<and> \<not> lapsed (d_offerDeadline row) now \<and> openOffers i g \<noteq> [] \<or>
      d_state row = ComputerClaimed \<and> \<not> lapsed (d_lease row) now"
  shows "fresh i g"
  unfolding fresh_def
proof clarify
  fix u q assume uq: "(u, q) \<in> set (dg_expiring g)" "i = d_id q"
  then have s: "u \<le> t" "stale_row u q (openOffers i g = []) row"
    using good row by (auto simp: good_def inv_defs)
  have none: "d_placement row = None" using row_ok_open [OF good_row [OF good row]] st by auto
  have "\<not> unaccepted_due u q"
    using s st \<open>t \<le> now\<close> by (auto simp: stale_row_def lapsed_def split: option.splits)
  moreover have "d_placement q = None" using s(2) none by (auto simp: stale_row_def)
  ultimately show "\<not> unaccepted_due u q \<and> d_placement q = None" by simp
qed

lemma good_fresh_patch:
  assumes good: "good t g0 g" and row: "dispatchRow (d_id row) g = Some row" and "fresh (d_id row) g"
    and none: "openOffers (d_id row) g = []" and pl: "d_placement row = None"
    and ident: "\<And>r. row_ident (f r) = row_ident r" and ok: "row_ok (patchRow f now row)"
    and pay: "d_payload row = None \<longrightarrow> d_payload (f row) = None"
  shows "good t g0 (snd (patchDispatch row f now g))"
proof (rule good_patch [OF good ident])
  fix r assume "dispatchRow (d_id row) g = Some r"
  then have r: "r = row" using row by simp
  show "row_ok (patchRow f now r) \<and> (d_placement r \<noteq> None \<longrightarrow> d_placement (f r) = d_placement r) \<and>
      (d_state (f r) \<noteq> Offering \<longrightarrow> openOffers (d_id row) g = [])"
    using r ok none pl by simp
  fix u q assume "(u, q) \<in> set (dg_expiring g)" "d_id q = d_id row"
    and s: "stale_row u q (openOffers (d_id row) g = []) r"
  then have "\<not> unaccepted_due u q \<and> d_placement q = None" using assms(3) by (auto simp: fresh_def)
  then show "stale_row u q (openOffers (d_id row) g = []) (patchRow f now r)"
    using s pay r by (simp add: stale_row_def patchRow_def)
qed

lemma setOffer_simps [simp]:
  "dispatchRow i (setOffer j device st now g) = dispatchRow i g"
  "unaccepted i (setOffer j device st now g) = unaccepted i g"
  "fresh i (setOffer j device st now g) = fresh i g"
  "fresh i (withdrawOffers j keep now g) = fresh i g"
  by (simp_all add: unaccepted_def setOffer_def fresh_def withdrawOffers_def)

lemma claim_offers_good:
  assumes "good t g0 g"
  shows "good t g0 (withdrawOffers i (Some device) now (setOffer i device OfferClaimed now g))" (is "good t g0 ?g1")
proof -
  have g1: "?g1 = g\<lparr>dg_offers := dg_offers ?g1\<rparr>" by (simp add: withdrawOffers_def setOffer_def)
  have known: "\<exists>y \<in> set (dg_offers g). o_dispatch x = o_dispatch y" if "x \<in> set (dg_offers ?g1)" for x
    using offers_known(2) [OF that] offers_known(1) by metis
  show ?thesis
    by (subst g1, rule good_offers_closed [OF assms, where i = i])
       (simp_all add: g1 [symmetric] openOffers_none openOffers_other known)
qed

lemma handleClaim_good:
  assumes good: "good t g0 g" and row: "dispatchRow (d_id row) g = Some row" and "t \<le> now"
  shows "good t g0 (snd (handleClaim env device session row request now g))"
proof (cases "d_state row = Offering \<and> \<not> lapsed (d_offerDeadline row) now \<and> openOffers (d_id row) g \<noteq> []")
  case True
  let ?g1 = "withdrawOffers (d_id row) (Some device) now (setOffer (d_id row) device OfferClaimed now g)"
  let ?f = "\<lambda>r. r\<lparr>d_state := ComputerClaimed, d_executor := Some device, d_session := Some session,
                        d_lease := Some (now + DISPATCH_CLAIM_LEASE_MS)\<rparr>"
  note g1 = claim_offers_good [OF good, of "d_id row" device now] openOffers_none(2) [of "d_id row" device now g]
  have rok: "row_ok row" using good_row [OF good row] .
  have pl: "d_placement row = None" using row_ok_open [OF rok] True by simp
  have "good t g0 (snd (patchDispatch row ?f now ?g1))"
  proof (rule good_fresh_patch [OF g1(1)])
    show "fresh (d_id row) ?g1" using fresh_open [OF good row \<open>t \<le> now\<close>] True by simp
    show "row_ok (patchRow ?f now row)" using rok pl by (auto simp: row_ok_def patchRow_def)
  qed (use g1(2) row pl in \<open>simp_all add: row_ident_def\<close>)
  then show ?thesis using good
    by (auto simp: handleClaim_def Let_def case_prod_beta split: sum.splits)
next
  case False
  then show ?thesis using good
    by (auto simp: handleClaim_def Let_def case_prod_beta lapsed_def split: sum.splits option.splits)
qed

lemma handleAck_good:
  assumes good: "good t g0 g" and row: "dispatchRow (d_id row) g = Some row" and "t \<le> now"
  shows "good t g0 (snd (handleAck row now g))"
proof (cases "d_state row = ComputerClaimed \<and> \<not> lapsed (d_lease row) now")
  case True
  have rok: "row_ok row" using good_row [OF good row] .
  have pl: "d_placement row = None" using row_ok_open [OF rok] True by simp
  have none: "openOffers (d_id row) g = []" using good row True by (auto simp: good_def inv_defs)
  have fresh: "fresh (d_id row) g" using fresh_open [OF good row \<open>t \<le> now\<close>] True by simp
  let ?f = "\<lambda>r. r\<lparr>d_state := ComputerAccepted, d_placement := Some OnComputer, d_payload := None,
                   d_payloadExpires := None, d_lease := Some (now + DISPATCH_ACCEPTED_LEASE_MS)\<rparr>"
  have "row_ok (patchRow ?f now row)" using rok by (simp add: row_ok_def patchRow_def)
  then have "good t g0 (snd (patchDispatch row ?f now g))"
    by (intro good_fresh_patch [OF good row fresh none pl]) (simp_all add: row_ident_def)
  then show ?thesis using good True by (simp add: handleAck_def)
next
  case False
  then show ?thesis using good by (auto simp: handleAck_def lapsed_def split: option.splits)
qed

lemma handleRelease_good:
  assumes good: "good t g0 g" and row: "dispatchRow (d_id row) g = Some row"
  shows "good t g0 (snd (handleRelease env device row reason now g))"
proof (cases "d_state row = ComputerClaimed")
  case True
  define f where
    "f = (\<lambda>r :: dispatch_row. r\<lparr>d_state := Offering, d_executor := None, d_session := None, d_lease := None\<rparr>)"
  obtain released g1 where p: "patchDispatch row f now g = (released, g1)" by fastforce
  have rok: "row_ok row" using good_row [OF good row] .
  have pl: "d_placement row = None" using row_ok_open [OF rok] True by simp
  have none: "openOffers (d_id row) g = []" using good row True by (auto simp: good_def inv_defs)
  have ident: "row_ident (f r) = row_ident r" for r by (simp add: f_def row_ident_def)
  have rel: "released = patchRow f now row" "dispatchRow (d_id row) g1 = Some (patchRow f now row)"
    using patchDispatch_result [OF ident row, of now] p by simp_all
  have id: "d_id released = d_id row" by (simp add: rel(1) patchRow_def f_def)
  have "good t g0 (snd (patchDispatch row f now g))"
  proof (rule good_patch [OF good ident])
    fix r assume "dispatchRow (d_id row) g = Some r"
    then have r: "r = row" using row by simp
    show "row_ok (patchRow f now r) \<and> (d_placement r \<noteq> None \<longrightarrow> d_placement (f r) = d_placement r) \<and>
      (d_state (f r) \<noteq> Offering \<longrightarrow> openOffers (d_id row) g = [])"
      using rok pl by (auto simp: row_ok_def patchRow_def r f_def)
    show "stale_row u q (openOffers (d_id row) g = []) (patchRow f now r)"
      if "stale_row u q (openOffers (d_id row) g = []) r" for u q
      using that pl none by (auto simp: stale_row_def patchRow_def r f_def)
  qed
  then have g1: "good t g0 g1" by (simp add: p)
  have offers: "dg_offers g1 = dg_offers g"
    using p by (auto simp: patchDispatch_def Let_def split: if_splits)
  have w: "setOffer (d_id row) device OfferWithdrawn now g1 =
      g1\<lparr>dg_offers := dg_offers (setOffer (d_id row) device OfferWithdrawn now g1)\<rparr>" by (simp add: setOffer_def)
  have "openOffers (d_id row) g1 = []" using none offers by (simp add: openOffers_def)
  then have "good t g0 (setOffer (d_id row) device OfferWithdrawn now g1)"
    by (subst w, intro good_offers_closed [OF g1, where i = "d_id row"])
       (simp_all add: w [symmetric] openOffers_none openOffers_other offers_known)
  moreover have "unaccepted (d_id row) g1" using rel(2) pl by (simp add: unaccepted_def patchRow_def f_def)
  ultimately show ?thesis
    using True resolveUnaccepted_good [of t g0 "setOffer (d_id row) device OfferWithdrawn now g1" released] id
    by (simp add: handleRelease_def Let_def case_prod_beta p [unfolded f_def])
qed (use good in \<open>simp add: handleRelease_def\<close>)

lemma handleComputer_good:
  assumes good: "good t g0 g" and row: "dispatchRow (d_id row) g = Some row"
    and ex: "d_executor row \<noteq> None"
  shows "good t g0 (snd (handleRunning row now g))" and "good t g0 (snd (handleRenew row now g))"
    and "good t g0 (snd (handleComplete row out result code message now g))"
proof -
  have pl: "d_state row \<noteq> ComputerClaimed \<Longrightarrow> d_placement row = Some OnComputer"
    using executing_placed [OF good_row [OF good row] ex] .
  show "good t g0 (snd (handleRunning row now g))"
    using good by (auto simp: handleRunning_def row_ident_def intro!: good_computer_patch row pl)
  show "good t g0 (snd (handleRenew row now g))"
    using good by (auto simp: handleRenew_def row_ident_def intro!: good_computer_patch row pl)
  have "outcome_state x \<noteq> Completed \<Longrightarrow> outcome_state x \<noteq> Failed \<Longrightarrow> outcome_state x = Canceled" for x
    by (cases x) auto
  then show "good t g0 (snd (handleComplete row out result code message now g))"
    using good
    by (auto simp: handleComplete_def row_ident_def case_prod_beta Let_def
             intro!: good_releaseGate good_computer_patch row pl split: option.splits)
qed

lemma handleExecutorFrame_good:
  assumes good: "good t g0 g" and "t \<le> now"
  shows "good t g0 (snd (handleExecutorFrame env device session i frame now g))"
proof (cases "dispatchRow (js_trim i) g")
  case (Some row)
  then have row: "dispatchRow (d_id row) g = Some row" using dispatchRow_id by fastforce
  note handlers = handleClaim_good [OF good row assms(2)] handleRelease_good [OF good row]
    handleAck_good [OF good row assms(2)] handleComputer_good [OF good row]
  show ?thesis using Some good handlers
    by (cases frame) (auto simp: handleExecutorFrame_def)
qed (use good in \<open>simp add: handleExecutorFrame_def\<close>)

subsection \<open>Status, receipts and cancellation\<close>

text \<open>Any placed dispatch may become pending on a cancellation or on a reconciliation.\<close>

lemma row_ok_pending:
  assumes "row_ok r" and "d_placement r = Some p"
    and "d_placement r' = Some p" "d_executor r' = d_executor r" "d_payload r' = d_payload r"
      "d_revision r \<le> d_revision r'" "d_state r' = CancelPending \<or> d_state r' = ReconciliationRequired"
  shows "row_ok r'"
proof (cases p)
  case OnComputer
  then show ?thesis
    using assms row_ok_computer [of r] row_ok_computer [of r'] by auto
next
  case OnCloud
  then show ?thesis
    using assms row_ok_cloud [of r] row_ok_cloud [of r'] by auto
qed

lemma dispatchStatus_good:
  assumes good: "good t g0 g"
  shows "good t g0 (snd (dispatchStatus i now g))"
proof (cases "dispatchRow (js_trim i) g")
  case (Some row)
  have "good t g0 (snd (patchDispatch row
      (\<lambda>r. r\<lparr>d_state := outcome_state out, d_errorMessage := e, d_payload := None, d_payloadExpires := None,
            d_lease := None\<rparr>) now g))" if "d_placement row = Some OnCloud" for out e
    by (rule good_cloud_patch [OF good])
       (use that Some dispatchRow_id [OF Some] in
         \<open>cases out; simp add: placed_cloud_def cloud_patch_def row_ident_def\<close>)+
  then show ?thesis using good Some
    by (auto simp: dispatchStatus_def case_prod_beta Let_def intro!: good_releaseGate split: option.splits)
qed (use good in \<open>simp add: dispatchStatus_def\<close>)

lemma recordCloudDispatchTerminal_good:
  assumes "good t g0 g"
  shows "good t g0 (recordCloudDispatchTerminal turn generation out resultJson e now g)"
  using assms
  by (auto simp: recordCloudDispatchTerminal_def Let_def intro!: dispatchStatus_good split: option.splits)

lemma cancelDispatch_good:
  assumes good: "good t g0 g"
  shows "good t g0 (snd (cancelDispatch i request reason now g))"
proof (cases "dispatchRow (js_trim i) g")
  case (Some row)
  then have row: "dispatchRow (d_id row) g = Some row" using dispatchRow_id by fastforce
  define g1 where "g1 = withdrawOffers (d_id row) None now g"
  have g1: "good t g0 g1" "dispatchRow (d_id row) g1 = Some row" "openOffers (d_id row) g1 = []"
    using row good_withdraw [OF good] openOffers_none(1) by (simp_all add: g1_def)
  have rok: "row_ok row" using good_row [OF good row] .
  have outright: "good t g0 (snd (patchDispatch row (cancelPatch a b True) now g1))"
    if "d_state row = Offering \<or> d_state row = ComputerClaimed \<or> d_state row = CloudCommitted" for a b
  proof (rule good_withdraw_patch [OF g1(1)])
    show "unaccepted (d_id row) g1" using g1(2) that rok by (auto simp: unaccepted_def row_ok_def)
  qed (simp_all add: g1(3))
  have pending: "good t g0 (snd (patchDispatch row (cancelPatch a b False) now g1))"
    if st: "\<not> isTerminalDispatchState (d_state row)" "d_state row \<noteq> Offering"
      "d_state row \<noteq> ComputerClaimed" for a b
  proof -
    obtain p where p: "d_placement row = Some p" using row_ok_placed [OF rok] st by auto
    show ?thesis
    proof (rule good_patch_placed [OF g1(1), of _ _ p])
      fix r assume "dispatchRow (d_id row) g1 = Some r" "row_ok r"
      then show "d_placement r = Some p \<and> d_placement (cancelPatch a b False r) = Some p \<and>
          row_ok (patchRow (cancelPatch a b False) now r) \<and>
          (d_payload r = None \<longrightarrow> d_payload (cancelPatch a b False r) = None)"
        using p g1(2) row_ok_pending [OF rok p, of "patchRow (cancelPatch a b False) now row"]
        by (simp add: patchRow_def cancelPatch_def)
    qed (simp add: cancelPatch_def row_ident_def)
  qed
  show ?thesis using good Some outright pending
    by (auto simp: cancelDispatch_def case_prod_beta Let_def g1_def [symmetric] intro!: good_releaseGate)
qed (use good in \<open>simp add: cancelDispatch_def\<close>)

lemma unregisteredLease_good: "good t g0 g \<Longrightarrow> good t g0 (unregisteredLease turn lease g)"
  by (auto simp: unregisteredLease_def intro!: good_neutral split: option.splits)

subsection \<open>Expiry\<close>

lemma expireDispatch_good:
  assumes good: "good t g0 g" and r: "dispatchRow (d_id q) g = Some r" and stale: "stale_row u q b r"
  shows "good t g0 (snd (expireDispatch env u q g))"
proof -
  have qok: "row_ok q" using stale by (simp add: stale_row_def)
  have kept: "d_placement q = Some p \<Longrightarrow> d_placement r = Some p" for p using stale by (simp add: stale_row_def)
  have resolve: "good t g0 (snd (resolveUnaccepted env q u reason g))" if "unaccepted_due u q" for reason
    by (rule resolveUnaccepted_good [OF good]) (use that stale r in \<open>simp add: unaccepted_def stale_row_def\<close>)
  have cloud: "good t g0 (runCloudBranch env q u g)" if "d_state q = CloudCommitted"
  proof (rule runCloudBranch_good [OF good])
    have "d_placement q = Some OnCloud"
      using that qok by (auto simp: row_ok_def split: option.splits dispatch_placement.splits)
    then show "placed_cloud (d_id q) g" using r kept by (simp add: placed_cloud_def)
    show "d_payload r' = None" if "dispatchRow (d_id q) g = Some r'" "d_payload q = None" for r'
      using that r stale by (simp add: stale_row_def)
  qed
  let ?f = "\<lambda>r. r\<lparr>d_state := ReconciliationRequired, d_lease := None,
                   d_fallback := Some (state_text (d_state q) @ ''-lease-expired'')\<rparr>"
  have reconcile: "good t g0 (snd (patchDispatch q ?f u g))"
    if st: "d_state q \<in> {ComputerAccepted, ComputerRunning, CloudCommitted, CancelPending}"
  proof -
    obtain p where p: "d_placement q = Some p" using row_ok_placed [OF qok] st by auto
    show ?thesis
    proof (rule good_patch_placed [OF good, of _ _ p])
      fix r' assume r': "dispatchRow (d_id q) g = Some r'" "row_ok r'"
      then show "d_placement r' = Some p \<and> d_placement (?f r') = Some p \<and> row_ok (patchRow ?f u r') \<and>
          (d_payload r' = None \<longrightarrow> d_payload (?f r') = None)"
        using kept [OF p] r row_ok_pending [OF r'(2), of p "patchRow ?f u r'"] by (simp add: patchRow_def)
    qed (simp add: row_ident_def)
  qed
  show ?thesis using good resolve cloud reconcile
    by (auto simp: expireDispatch_def unaccepted_due_def intro!: good_neutral)
qed

lemma alarm_good:
  assumes good: "good t g0 g"
  shows "good t g0 (g\<lparr>dg_expiring := map (\<lambda>r. (t, r)) (expiredDispatches t g)\<rparr>)"
proof -
  have "dispatchRow (d_id r) g = Some r \<and> stale_row t r (openOffers (d_id r) g = []) r"
    if "r \<in> set (expiredDispatches t g)" for r
  proof -
    have mem: "r \<in> set (dg_rows g)" using that by (auto simp: expiredDispatches_def dest: in_set_takeD)
    have "distinct (map d_id (dg_rows g))" using good by (simp add: good_def inv_defs)
    then have row: "dispatchRow (d_id r) g = Some r" using mem by (simp add: dispatchRow_def find_row_distinct)
    then show ?thesis using good_row [OF good row] by (auto simp: stale_row_def unaccepted_due_def row_ok_def)
  qed
  then show ?thesis using good by (auto simp: good_def inv_defs gate_keeps_def)
qed

subsection \<open>Submit\<close>

lemma initialRoute_shape:
  "(ir_state (initialRoute env request decision requesting consent candidates now),
    ir_placement (initialRoute env request decision requesting consent candidates now)) \<in>
     {(CloudCommitted, Some OnCloud), (ComputerAccepted, Some OnComputer), (Offering, None), (Blocked, None)}"
  "ir_state (initialRoute env request decision requesting consent candidates now) \<noteq> ComputerAccepted \<Longrightarrow>
   ir_executor (initialRoute env request decision requesting consent candidates now) = None"
  by (auto simp: initialRoute_def open_route_def blocked_route_def Let_def
           split: policy_decision.splits dispatch_placement.splits)

lemma new_dispatch_ok:
  "row_ok (new_dispatch i request pairGrant generation h gateHeld
     (initialRoute env request decision requesting consent candidates now) now)"
  using initialRoute_shape [of env request decision requesting consent candidates now]
  by (auto simp: row_ok_def new_dispatch_def Let_def)

lemma dispatchRow_append:
  "dispatchRow j (g\<lparr>dg_rows := dg_rows g @ [row]\<rparr>) =
     (if dispatchRow j g \<noteq> None then dispatchRow j g else if d_id row = j then Some row else None)"
  by (auto simp: dispatchRow_def find_row_append find_row_Cons split: option.splits)

lemma good_insert:
  assumes good: "good t g0 g" and ok: "row_ok row"
    and id: "dispatchRow (d_id row) g = None" and key: "find_row d_key (d_key row) (dg_rows g) = None"
  shows "good t g0 (g\<lparr>dg_rows := dg_rows g @ [row]\<rparr>)" (is "good t g0 ?g")
proof -
  have inv: "rows_ok g" "calls_ok g" "expiring_ok t g" and keeps: "gate_keeps g0 g"
    using good by (auto simp: good_def dispatch_inv_def)
  have old: "dispatchRow j g = Some r \<Longrightarrow> dispatchRow j ?g = Some r" for j r
    by (simp add: dispatchRow_append)
  have none: "openOffers (d_id row) g = []"
    using inv(1) id by (force simp: rows_ok_def openOffers_def filter_empty_conv)
  have fresh: "distinct (map d_id (dg_rows ?g))" "distinct (map d_key (dg_rows ?g))"
    using inv(1) id key by (auto simp: rows_ok_def dispatchRow_def find_row_None)
  have "row_ok r \<and> (d_state r \<noteq> Offering \<longrightarrow> openOffers j ?g = [])" if "dispatchRow j ?g = Some r" for j r
    using that inv(1) ok none by (auto simp: rows_ok_def dispatchRow_append split: if_splits)
  moreover have "dispatchRow (o_dispatch x) ?g \<noteq> None" if "x \<in> set (dg_offers ?g)" for x
    using that inv(1) old by (fastforce simp: rows_ok_def)
  ultimately have "rows_ok ?g" using fresh unfolding rows_ok_def by blast
  moreover have "calls_ok ?g" using inv(2) old by (fastforce simp: calls_ok_def)
  moreover have "expiring_ok t ?g" using inv(3) old by (fastforce simp: expiring_ok_def)
  moreover have "gate_keeps g0 ?g" using keeps old unfolding gate_keeps_def by blast
  ultimately show ?thesis by (simp add: good_def dispatch_inv_def)
qed

lemma openOffer_step:
  "x \<in> set (openOffer i c deadline now t) \<Longrightarrow> o_dispatch x = i \<or> (\<exists>y \<in> set t. o_dispatch x = o_dispatch y)"
  "j \<noteq> i \<Longrightarrow> filter (\<lambda>x. o_dispatch x = j \<and> o_status x = OfferOpen) (openOffer i c deadline now t) =
     filter (\<lambda>x. o_dispatch x = j \<and> o_status x = OfferOpen) t"
  by (auto simp: openOffer_def Let_def set_sql_update intro!: filter_sql_update_other split: if_splits)

lemma openOffer_fold:
  "x \<in> set (fold (\<lambda>c. openOffer i c deadline now) cs t) \<Longrightarrow>
     o_dispatch x = i \<or> (\<exists>y \<in> set t. o_dispatch x = o_dispatch y)"
  "j \<noteq> i \<Longrightarrow> filter (\<lambda>x. o_dispatch x = j \<and> o_status x = OfferOpen)
       (fold (\<lambda>c. openOffer i c deadline now) cs t) =
     filter (\<lambda>x. o_dispatch x = j \<and> o_status x = OfferOpen) t"
proof (induction cs arbitrary: t)
  case (Cons c cs)
  { case 1 then show ?case using Cons.IH(1) openOffer_step(1) by fastforce }
  { case 2 then show ?case using Cons.IH(2) openOffer_step(2) by simp }
qed auto

lemma good_offered:
  assumes good: "good t g0 g" and row: "dispatchRow i g = Some row" "d_state row = Offering"
    and calm: "\<And>u q. (u, q) \<in> set (dg_expiring g) \<Longrightarrow> d_id q \<noteq> i"
  shows "good t g0 (g\<lparr>dg_offers := fold (\<lambda>c. openOffer i c deadline now) cs (dg_offers g)\<rparr>)"
    (is "good t g0 (g\<lparr>dg_offers := ?offs\<rparr>)")
proof -
  have other: "openOffers j (g\<lparr>dg_offers := ?offs\<rparr>) = openOffers j g" if "j \<noteq> i" for j
    using openOffer_fold(2) [OF that] by (simp add: openOffers_def)
  have inv: "rows_ok g" "calls_ok g" "expiring_ok t g" and keeps: "gate_keeps g0 g"
    using good by (auto simp: good_def dispatch_inv_def)
  have "row_ok r \<and> (d_state r \<noteq> Offering \<longrightarrow> openOffers j (g\<lparr>dg_offers := ?offs\<rparr>) = [])"
    if "dispatchRow j g = Some r" for j r
    using that inv(1) row other [of j] by (cases "j = i") (auto simp: rows_ok_def)
  moreover have "dispatchRow (o_dispatch x) g \<noteq> None" if "x \<in> set ?offs" for x
  proof -
    from openOffer_fold(1) [OF that] show ?thesis
      using inv(1) row(1) unfolding rows_ok_def by (metis option.discI)
  qed
  ultimately have "rows_ok (g\<lparr>dg_offers := ?offs\<rparr>)" using inv(1) by (simp add: rows_ok_def)
  moreover have "expiring_ok t (g\<lparr>dg_offers := ?offs\<rparr>)"
    using inv(3) calm other by (fastforce simp: expiring_ok_def)
  ultimately show ?thesis using inv(2) keeps by (simp add: good_def dispatch_inv_def calls_ok_def gate_keeps_def)
qed

text \<open>A dispatch is inserted under a fresh id and key, and then routed.\<close>

lemma routeDispatch_good:
  assumes g: "good t g0 g" and row: "dispatchRow (d_id row) g = Some row"
    and calm: "\<And>u q. (u, q) \<in> set (dg_expiring g) \<Longrightarrow> d_id q \<noteq> d_id row"
  shows "good t g0 (routeDispatch env row gateHeld candidates now g)"
proof -
  have ok: "row_ok row" using good_row [OF g row] .
  have cloud: "good t g0 (runCloudBranch env row now g)" if "d_state row = CloudCommitted"
    by (rule runCloudBranch_good [OF g])
       (use that ok row in \<open>auto simp: placed_cloud_def row_ok_def split: option.splits dispatch_placement.splits\<close>)
  show ?thesis
    using g cloud good_offered [OF g row _ calm]
    by (cases "d_state row") (simp_all add: routeDispatch_def)
qed

lemma insert_route_good:
  assumes good: "good t g0 g" and ok: "row_ok row"
    and id: "dispatchRow (d_id row) g = None" and key: "find_row d_key (d_key row) (dg_rows g) = None"
  defines "g1 \<equiv> g\<lparr>dg_rows := dg_rows g @ [row]\<rparr>"
  shows "good t g0 g1" and "good t g1 (routeDispatch env row gateHeld candidates now g1)"
proof -
  show g: "good t g0 g1" unfolding g1_def using good_insert [OF good ok id key] .
  show "good t g1 (routeDispatch env row gateHeld candidates now g1)"
  proof (rule routeDispatch_good)
    show "good t g1 g1" by (rule good_refl [OF good_inv [OF g]])
    show "dispatchRow (d_id row) g1 = Some row" using id by (simp add: g1_def dispatchRow_append)
    show "d_id q \<noteq> d_id row" if "(u, q) \<in> set (dg_expiring g1)" for u q
      using that good id by (auto simp: good_def inv_defs g1_def)
  qed
qed

lemma new_dispatch_simps [simp]:
  "d_id (new_dispatch i request pairGrant generation h held route now) = i"
  "d_key (new_dispatch i request pairGrant generation h held route now) = rq_idempotencyKey request"
  "d_fingerprint (new_dispatch i request pairGrant generation h held route now) =
     requestFingerprint request pairGrant h"
  by (simp_all add: new_dispatch_def Let_def)

lemma submitAdmission_keeps:
  assumes "submitAdmission env request i expected now g = (x, g1)"
  shows "dg_rows g1 = dg_rows g" and "good t g0 g1 = good t g0 g"
proof -
  show "dg_rows g1 = dg_rows g"
    using assms by (auto simp: submitAdmission_def admit_def pruneRunning_def Let_def split: if_splits sum.splits)
  show "good t g0 g1 = good t g0 g"
    using assms by (auto simp: submitAdmission_def good_admit split: if_splits)
qed

text \<open>An accepted submission has inserted its row and then only worked on from there.\<close>

lemma insertDispatch_accepted:
  assumes good: "good t g0 g" and key: "find_row d_key (rq_idempotencyKey request) (dg_rows g) = None"
    and ins: "insertDispatch env request i s pairGrant h decision consent candidates now g = (SubmitAccepted j, g')"
  shows "j = i" and "\<exists>g1 row. good t g0 g1 \<and> good t g1 g' \<and> dispatchRow i g1 = Some row \<and>
    d_key row = rq_idempotencyKey request \<and> d_fingerprint row = requestFingerprint request pairGrant h"
proof -
  define row where "row = new_dispatch i request pairGrant (sn_generation s) h (rq_kind request = KAgent)
    (initialRoute env request decision (trimmed_id (rq_requestingDeviceId request)) consent candidates now) now"
  define g1 where "g1 = g\<lparr>dg_rows := dg_rows g @ [row]\<rparr>"
  have j: "j = i" and free: "dispatchRow i g = None"
    and g': "g' = routeDispatch env row (rq_kind request = KAgent) candidates now g1"
    using ins by (simp_all add: insertDispatch_def refuseSubmit_def Let_def row_def [symmetric] g1_def [symmetric]
        split: if_splits)
  show "j = i" by (rule j)
  have row: "row_ok row" "d_id row = i" "d_key row = rq_idempotencyKey request"
      "d_fingerprint row = requestFingerprint request pairGrant h"
    by (simp_all add: row_def new_dispatch_ok)
  have "good t g0 g1" "good t g1 g'"
    unfolding g1_def g' by (rule insert_route_good [OF good row(1)]; use free key row in simp)+
  moreover have "dispatchRow i g1 = Some row" using free row(2) by (simp add: g1_def dispatchRow_append)
  ultimately show "\<exists>g1 row. good t g0 g1 \<and> good t g1 g' \<and> dispatchRow i g1 = Some row \<and>
      d_key row = rq_idempotencyKey request \<and> d_fingerprint row = requestFingerprint request pairGrant h"
    using row by blast
qed

lemma insertDispatch_good:
  assumes good: "good t g0 g" and key: "find_row d_key (rq_idempotencyKey request) (dg_rows g) = None"
  shows "good t g0 (snd (insertDispatch env request i s pairGrant h decision consent candidates now g))"
proof (cases "fst (insertDispatch env request i s pairGrant h decision consent candidates now g)")
  case (SubmitAccepted j)
  then have "insertDispatch env request i s pairGrant h decision consent candidates now g = (SubmitAccepted j,
      snd (insertDispatch env request i s pairGrant h decision consent candidates now g))"
    by (simp add: prod_eq_iff)
  from insertDispatch_accepted(2) [OF good key this] show ?thesis by (blast intro: good_trans)
qed (use good in \<open>simp_all add: insertDispatch_def refuseSubmit_def Let_def split: if_splits\<close>)

lemma submitAdmitted_good:
  assumes "good t g0 g" and "find_row d_key (rq_idempotencyKey request) (dg_rows g) = None"
  shows "good t g0 (snd (submitAdmitted env request i s pairGrant h now g))"
  using assms insertDispatch_good [OF assms]
  by (simp add: submitAdmitted_def refuseSubmit_def Let_def split: sum.split)

lemma submit_good:
  assumes good: "good t g0 g"
  shows "good t g0 (snd (submit env uuid request expected pairGrant now g))"
proof (cases "find_row d_key (rq_idempotencyKey request) (dg_rows g)")
  case None
  obtain x g1 where adm: "submitAdmission env request (''dsp:'' @ uuid) expected now g = (x, g1)" by fastforce
  have g1: "good t g0 g1" using submitAdmission_keeps(2) [OF adm] good by simp
  have key: "find_row d_key (rq_idempotencyKey request) (dg_rows g1) = None"
    using submitAdmission_keeps(1) [OF adm] None by simp
  show ?thesis
    using good g1 submitAdmitted_good [OF g1 key] None
    by (cases x) (simp_all add: submit_def Let_def adm [simplified])
qed (use good in \<open>simp add: submit_def Let_def\<close>)

subsection \<open>Steps\<close>

lemma dispatch_inv_mono: "dispatch_inv t g \<Longrightarrow> t \<le> u \<Longrightarrow> dispatch_inv u g"
  by (fastforce simp: inv_defs)

lemma expire_step_good:
  assumes good: "good now g0 g"
  shows "good now g0 (dispatch_handle env EExpire now g)"
proof (cases "dg_expiring g")
  case (Cons uq rest)
  obtain u q where uq: "uq = (u, q)" by fastforce
  obtain r where r: "dispatchRow (d_id q) g = Some r" "stale_row u q (openOffers (d_id q) g = []) r"
    using good Cons uq by (auto simp: good_def inv_defs)
  let ?g = "g\<lparr>dg_expiring := rest\<rparr>"
  have "good now g0 ?g" using good_expiring_subset [OF good, of rest] Cons by auto
  then have "good now g0 (snd (expireDispatch env u q ?g))" using r by (auto intro: expireDispatch_good)
  then show ?thesis using Cons uq
    by (auto simp: good_expiring_subset split: prod.splits bool.splits)
qed (use good in simp)

lemma dispatch_handle_good:
  assumes "dispatch_inv t g" and "t \<le> now"
  shows "good now g (dispatch_handle env ev now g)"
proof -
  have good: "good now g g" using assms by (simp add: good_refl dispatch_inv_mono)
  show ?thesis
  proof (cases ev)
    case EAlarm
    then show ?thesis using good alarm_good [OF good] by simp
  next
    case EExpire
    then show ?thesis using expire_step_good [OF good] by simp
  next
    case (EReply n reply)
    let ?g = "g\<lparr>dg_calls := take n (dg_calls g) @ drop (Suc n) (dg_calls g)\<rparr>"
    have "good now g ?g"
      by (rule good_calls_subset [OF good]) (auto dest: in_set_takeD in_set_dropD)
    moreover have "placed_cloud (d_id (cc_row (dg_calls g ! n))) ?g" if "n < length (dg_calls g)"
      using that good by (simp add: good_def inv_defs placed_cloud_def)
    ultimately show ?thesis using EReply good by (simp add: resumeCall_good)
  qed (use good in \<open>simp_all add: submit_good handleExecutorFrame_good cancelDispatch_good dispatchStatus_good
         recordCloudDispatchTerminal_good unregisteredLease_good\<close>)
qed

lemma dispatch_reachable_inv: "dispatch_reachable t g \<Longrightarrow> dispatch_inv t g"
proof (induction rule: dispatch_reachable.induct)
  case (start t)
  then show ?case by (simp add: empty_dispatch_gate_def inv_defs dispatchRow_def)
next
  case (step t g now env ev)
  then show ?case using dispatch_handle_good good_inv by blast
qed

end
