(* ===== verification/Dispatch.thy ===== *)
theory Dispatch
  imports Dispatch_Invariant
begin

text \<open>
  What the dispatch part of the owner gate promises: where a dispatch may run, who may drive it, that a
  submission is executed once, what a cancellation leaves behind, and that an unclaimed dispatch does not
  wait for ever. Histories are lists of events in time order, from any reachable state.
\<close>

type_synonym gate_event = "gate_env \<times> dispatch_event"

definition gate_step :: "gate_event \<Rightarrow> ms \<Rightarrow> dispatch_gate \<Rightarrow> dispatch_gate" where
  "gate_step e now g = dispatch_handle (fst e) (snd e) now g"

definition gate_run :: "(gate_event \<times> ms) list \<Rightarrow> dispatch_gate \<Rightarrow> dispatch_gate" where
  "gate_run es g = timed_run gate_step es g"

interpretation gate_machine: timed_machine gate_step dispatch_inv gate_keeps
proof
  show "dispatch_inv now (gate_step e now s)" if "dispatch_inv t s" "t \<le> now" for t s now e
    using dispatch_handle_good [OF that] by (simp add: gate_step_def good_def)
  show "gate_keeps s (gate_step e now s)" if "dispatch_inv t s" "t \<le> now" for t s now e
    using dispatch_handle_good [OF that] by (simp add: gate_step_def good_def)
  show "gate_keeps s s" for s by simp
  show "gate_keeps a c" if "gate_keeps a b" "gate_keeps b c" for a b c
    using that unfolding gate_keeps_def by (meson row_kept_trans)
qed

lemma gate_run_kept:
  assumes "dispatch_reachable t g" and "in_order t es" and "dispatchRow i g = Some r"
  shows "\<exists>r'. dispatchRow i (gate_run es g) = Some r' \<and> row_kept r r' \<and> row_ok r'"
proof -
  note inv = dispatch_reachable_inv [OF assms(1)]
  obtain r' where r': "dispatchRow i (gate_run es g) = Some r'" "row_kept r r'"
    using gate_machine.run_keeps [OF inv assms(2)] assms(3) by (auto simp: gate_keeps_def gate_run_def)
  obtain u where "dispatch_inv u (gate_run es g)"
    using gate_machine.run_timed_inv [OF inv assms(2)] by (auto simp: gate_run_def)
  then show ?thesis using r' by (auto simp: inv_defs)
qed

subsection \<open>A sample gate\<close>

definition sample_presence :: device_presence where
  "sample_presence = \<lparr>dp_deviceId = ''mac'', dp_presenceSessionId = ''s1'', dp_connected = True, dp_ready = True,
     dp_capabilities = [CapChat, CapAgent], dp_protocolVersion = 1, dp_lastSeenAt = 0\<rparr>"
definition sample_snapshot :: owner_snapshot where
  "sample_snapshot =
     \<lparr>sn_generation = ''g1'', sn_suspended = False, sn_writable = True, sn_cloudSandbox = True,
      sn_devices = [(\<lparr>dr_deviceId = ''mac'', dr_publicKey = ''k'', dr_remoteExecutionEnabled = True\<rparr>, None)],
      sn_paired = [(''phone'', ''mac'')],
      sn_execution = \<lparr>xs_engine = JStr ''anthropic'', xs_provider = JStr ''anthropic'', xs_model = ''m'',
        xs_reasoningEffort = ''low''\<rparr>\<rparr>"

definition sample_env :: gate_env where
  "sample_env =
     \<lparr>ge_snapshot = (\<lambda>_. Inr sample_snapshot),
      ge_presence = (\<lambda>i. if i = ''mac'' then Some sample_presence else None),
      ge_leaseRegistered = True, ge_retireOk = True, ge_uuid = ''u1'', ge_uuid' = ''u2'',
      ge_turnTimeoutMs = 600000, ge_sha256Hex = (\<lambda>s. s)\<rparr>"

definition sample_payload :: dispatch_payload where
  "sample_payload =
     \<lparr>pl_prompt = ''hi'', pl_conversationId = ''c1'', pl_clientMsgId = ''m1'', pl_userMessageEventId = None,
      pl_locale = None, pl_attachments = None, pl_execution = None, pl_description = None, pl_threadId = None,
      pl_model = None, pl_handoff = False\<rparr>"

definition chat_request :: dispatch_request where
  "chat_request =
     \<lparr>rq_idempotencyKey = ''k-000001'', rq_kind = KChat, rq_ingress = IMobile, rq_subject = SPortable,
      rq_targetMode = None, rq_targetDeviceId = None, rq_requestingDeviceId = Some ''phone'',
      rq_conversationId = ''c1'', rq_parentTurnId = None, rq_threadId = None,
      rq_requiredCapabilities = [CapChat], rq_payload = sample_payload\<rparr>"

definition agent_request :: dispatch_request where
  "agent_request = chat_request\<lparr>rq_idempotencyKey := ''k-000002'', rq_kind := KAgent, rq_targetMode := Some TCloud,
     rq_requiredCapabilities := [CapAgent]\<rparr>"

text \<open>
  A phone submits a chat that is offered to its paired computer, which claims and accepts it; and an agent is
  submitted to the cloud. The hash is the identity here.
\<close>

definition ev_chat :: "gate_event \<times> ms" where
  "ev_chat = ((sample_env, ESubmit ''1'' chat_request None (Some ''mac'')), 0)"

definition ev_claim :: "gate_event \<times> ms" where
  "ev_claim = ((sample_env, EFrame ''mac'' ''s1'' ''dsp:1'' (FClaim ''c'')), 1000)"

definition ev_ack :: "gate_event \<times> ms" where
  "ev_ack = ((sample_env, EFrame ''mac'' ''s1'' ''dsp:1'' FAck), 2000)"

definition ev_agent :: "gate_event \<times> ms" where
  "ev_agent = ((sample_env, ESubmit ''2'' agent_request None None), 3000)"

definition offered_gate :: dispatch_gate where "offered_gate = gate_run [ev_chat] empty_dispatch_gate"
definition accepted_gate :: dispatch_gate where
  "accepted_gate = gate_run [ev_chat, ev_claim, ev_ack] empty_dispatch_gate"

lemma gate_run_reachable:
  "dispatch_reachable t g \<Longrightarrow> in_order t es \<Longrightarrow> es \<noteq> [] \<Longrightarrow> dispatch_reachable (snd (last es)) (gate_run es g)"
  unfolding gate_run_def
proof (induction es arbitrary: t g)
  case (Cons x es)
  obtain e now where x: "x = (e, now)" by fastforce
  have "dispatch_reachable now (gate_step e now g)"
    unfolding gate_step_def by (rule dispatch_reachable.step) (use Cons.prems x in auto)
  then show ?case using Cons x by (cases es) auto
qed simp

lemma offered_reachable: "dispatch_reachable 0 offered_gate"
  using gate_run_reachable [OF dispatch_reachable.start [of 0], of "[ev_chat]"]
  by (simp add: offered_gate_def ev_chat_def)

lemma accepted_reachable: "dispatch_reachable 2000 accepted_gate"
  using gate_run_reachable [OF dispatch_reachable.start [of 0], of "[ev_chat, ev_claim, ev_ack]"]
  by (simp add: accepted_gate_def ev_chat_def ev_claim_def ev_ack_def)

subsection \<open>Rows\<close>

text \<open>
  C16: In every reachable state of the gate, whatever the interleaving of its events with the answers to its
  calls, dispatch ids and idempotency keys are unique; every row is well-formed (its state fits its placement,
  only a claim or a computer placement names an executor, an accepted computer dispatch and every finished one
  have given up the payload); only a dispatch that is being offered has open offers; and every offer belongs
  to a dispatch.
\<close>

theorem dispatch_reachable_wf:
  assumes "dispatch_reachable t g"
  shows "rows_ok g"
  using dispatch_reachable_inv [OF assms] by (simp add: dispatch_inv_def)

theorem dispatch_reachable_wf_witness: "rows_ok accepted_gate \<and> length (dg_rows accepted_gate) = 1"
proof
  show "rows_ok accepted_gate" by (rule dispatch_reachable_wf [OF accepted_reachable])
  show "length (dg_rows accepted_gate) = 1" by code_simp
qed

text \<open>
  C17: Placement is final. However the history goes on, a dispatch that a computer accepted stays a computer
  dispatch (it is never offered again and never reaches a cloud state), a dispatch that was committed to the
  cloud stays a cloud dispatch (it is never offered or claimed); and the row keeps its id, its idempotency
  key, its generation, its kind and its fingerprint, and its revision grows with every change of state.
\<close>

theorem placement_final:
  assumes "dispatch_reachable t g" and "in_order t es"
    and "dispatchRow i g = Some r" and "d_placement r = Some p"
  shows "\<exists>r'. dispatchRow i (gate_run es g) = Some r' \<and> row_ident r' = row_ident r \<and>
    d_placement r' = Some p \<and>
    d_state r' \<notin> {Offering, ComputerClaimed} \<and>
    d_state r' \<notin> (case p of OnComputer \<Rightarrow> {CloudCommitted, CloudRunning}
                          | OnCloud \<Rightarrow> {ComputerAccepted, ComputerRunning}) \<and>
    d_revision r \<le> d_revision r' \<and> (d_revision r' = d_revision r \<longrightarrow> d_state r' = d_state r)"
proof -
  obtain r' where r': "dispatchRow i (gate_run es g) = Some r'" "row_kept r r'" "row_ok r'"
    using gate_run_kept [OF assms(1-3)] by blast
  then have "d_placement r' = Some p" using assms(4) by (simp add: row_kept_def)
  then have "d_state r' \<notin> {Offering, ComputerClaimed}" "d_state r' \<notin> (case p of
      OnComputer \<Rightarrow> {CloudCommitted, CloudRunning} | OnCloud \<Rightarrow> {ComputerAccepted, ComputerRunning})"
    using r'(3) row_ok_computer [of r'] row_ok_cloud [of r'] by (cases p; auto)+
  then show ?thesis using r' \<open>d_placement r' = Some p\<close> by (auto simp: row_kept_def)
qed

lemma accepted_row: "\<exists>r. dispatchRow ''dsp:1'' accepted_gate = Some r \<and> d_placement r = Some OnComputer"
proof -
  have "map_option d_placement (dispatchRow ''dsp:1'' accepted_gate) = Some (Some OnComputer)" by code_simp
  then show ?thesis by auto
qed

theorem placement_final_witness:
  "\<exists>r. dispatchRow ''dsp:1'' (gate_run [ev_agent] accepted_gate) = Some r \<and> d_placement r = Some OnComputer"
proof -
  obtain r where r: "dispatchRow ''dsp:1'' accepted_gate = Some r" "d_placement r = Some OnComputer"
    using accepted_row by blast
  have "in_order 2000 [ev_agent]" by (simp add: ev_agent_def)
  from placement_final [OF accepted_reachable this r] show ?thesis by blast
qed

subsection \<open>Claims and executor sessions\<close>

text \<open>
  C18: A claim is exclusive. When the gate grants a dispatch to a session of a device, the stored row is
  claimed by exactly that device and session for the claim lease, every other offer of the dispatch is
  withdrawn, and from that state on every claim of another device or session is refused and changes nothing.
\<close>

theorem claim_exclusive:
  assumes claim: "handleExecutorFrame env device session i (FClaim request) now g = (FrClaimed e False, g')"
  shows "(\<exists>r. dispatchRow (js_trim i) g' = Some r \<and> d_state r = ComputerClaimed \<and>
             d_executor r = Some device \<and> d_session r = Some session \<and> d_lease r = Some e \<and>
             e = now + DISPATCH_CLAIM_LEASE_MS \<and> openOffers (js_trim i) g' = []) \<and>
         (\<forall>env' device' session' request' now'. (device', session') \<noteq> (device, session) \<longrightarrow>
           (\<exists>reply \<in> {FrClosed, FrDenied EConflict}.
              handleExecutorFrame env' device' session' i (FClaim request') now' g' = (reply, g')))"
proof -
  let ?i = "js_trim i"
  let ?f = "\<lambda>r. r\<lparr>d_state := ComputerClaimed, d_executor := Some device,
                        d_session := Some session, d_lease := Some (now + DISPATCH_CLAIM_LEASE_MS)\<rparr>"
  obtain row where i: "?i \<noteq> []" and look: "dispatchRow ?i g = Some row"
    and h: "handleClaim env device session row request now g = (FrClaimed e False, g')"
    using claim by (auto simp: handleExecutorFrame_def split: if_splits option.splits)
  have id: "d_id row = ?i" using dispatchRow_id [OF look] .
  let ?g1 = "withdrawOffers ?i (Some device) now (setOffer ?i device OfferClaimed now g)"
  have e: "e = now + DISPATCH_CLAIM_LEASE_MS" and g': "g' = snd (patchDispatch row ?f now ?g1)"
    using h by (auto simp: handleClaim_def Let_def case_prod_beta id split: if_splits sum.splits)
  have ident: "row_ident (?f r) = row_ident r" for r by (simp add: row_ident_def)
  have row': "dispatchRow ?i g' = Some (patchRow ?f now row)"
    using patchDispatch_result(2) [of ?f row ?g1 row now, OF ident] look id unfolding g' by simp
  have offers: "openOffers ?i g' = openOffers ?i ?g1"
    unfolding g' by (simp add: patchDispatch_def Let_def)
  have "openOffers ?i g' = []" unfolding offers by (rule openOffers_none(2))
  moreover have "\<exists>reply \<in> {FrClosed, FrDenied EConflict}.
      handleExecutorFrame env' device' session' i (FClaim request') now' g' = (reply, g')"
    if "(device', session') \<noteq> (device, session)" for env' device' session' request' now'
    using that i row' by (auto simp: handleExecutorFrame_def handleClaim_def patchRow_def)
  ultimately show ?thesis using row' e by (auto simp: patchRow_def)
qed

theorem claim_exclusive_witness:
  "fst (handleExecutorFrame sample_env ''mac'' ''s2'' ''dsp:1'' (FClaim ''d'') 1500
     (snd (handleExecutorFrame sample_env ''mac'' ''s1'' ''dsp:1'' (FClaim ''c'') 1000 offered_gate))) =
   FrDenied EConflict"
proof -
  let ?h = "handleExecutorFrame sample_env ''mac'' ''s1'' ''dsp:1'' (FClaim ''c'') 1000 offered_gate"
  let ?k = "handleExecutorFrame sample_env ''mac'' ''s2'' ''dsp:1'' (FClaim ''d'') 1500 (snd ?h)"
  have "fst ?h = FrClaimed 31000 False" by code_simp
  then have "?h = (FrClaimed 31000 False, snd ?h)" by (simp add: prod_eq_iff)
  from claim_exclusive [OF this] have "\<exists>reply \<in> {FrClosed, FrDenied EConflict}. ?k = (reply, snd ?h)"
    by (elim conjE allE [of _ sample_env] allE [of _ "''mac''"] allE [of _ "''s2''"] allE [of _ "''d''"]
          allE [of _ 1500]) auto
  moreover have "fst ?k \<noteq> FrClosed" by code_simp
  ultimately show ?thesis by auto
qed

text \<open>
  Only an authorised session drives a dispatch. Whenever an executor frame changes anything, it names an
  existing dispatch, and either the frame comes from the device and presence session that hold the dispatch,
  or it claims a dispatch whose offer window is open, from a session that holds an open offer of it, on a
  device that is still eligible.
\<close>

lemma frame_authorised:
  assumes change: "snd (handleExecutorFrame env device session i frame now g) \<noteq> g"
  shows "\<exists>r. dispatchRow (js_trim i) g = Some r \<and>
    (d_executor r = Some device \<and> d_session r = Some session \<or>
     (\<exists>request. frame = FClaim request) \<and> d_state r = Offering \<and>
       (\<exists>deadline > now. d_offerDeadline r = Some deadline) \<and>
       (\<exists>x \<in> set (openOffers (d_id r) g). o_device x = device \<and> o_session x = session) \<and>
       (\<exists>s. ge_snapshot env False = Inr s \<and>
          isEligibleDevice (ge_presence env device) (registrationOf s device) (d_required r) now
            DEVICE_PRESENCE_STALE_AFTER_MS))"
proof -
  have "js_trim i \<noteq> []" using change by (auto simp: handleExecutorFrame_def)
  then obtain r where r: "dispatchRow (js_trim i) g = Some r"
    using change by (cases "dispatchRow (js_trim i) g") (auto simp: handleExecutorFrame_def)
  show ?thesis
  proof (cases "\<exists>request. frame = FClaim request")
    case True
    then show ?thesis using change r
      by (auto simp: handleExecutorFrame_def handleClaim_def eligibleDevices_def Let_def list_ex_iff
               MAX_OFFERS_PER_DISPATCH_def split: if_splits sum.splits)
  next
    case False
    then show ?thesis using change r by (cases frame) (auto simp: handleExecutorFrame_def split: if_splits)
  qed
qed

subsection \<open>Submission\<close>

lemma find_key_row:
  assumes "rows_ok g" and "dispatchRow i g = Some r"
  shows "find_row d_key (d_key r) (dg_rows g) = Some r"
proof -
  have "r \<in> set (dg_rows g)" using assms(2) find_row_Some by (fastforce simp: dispatchRow_def)
  then show ?thesis using assms(1) by (simp add: rows_ok_def find_row_distinct)
qed

text \<open>What the effects of a submission leave of the row that was inserted.\<close>

lemma submit_accepted_row:
  assumes good: "dispatch_inv now g"
    and sub: "submit env uuid request expected pairGrant now g = (SubmitAccepted i, g')"
  shows "\<exists>r. dispatchRow i g' = Some r \<and> d_key r = rq_idempotencyKey request \<and>
    d_fingerprint r = requestFingerprint request pairGrant
      (ge_sha256Hex env (canonicalDispatchPayloadJson (rq_payload request)))"
proof -
  let ?h = "ge_sha256Hex env (canonicalDispatchPayloadJson (rq_payload request))"
  have none: "find_row d_key (rq_idempotencyKey request) (dg_rows g) = None"
    using sub by (auto simp: submit_def Let_def split: if_splits option.splits)
  obtain s g1 where adm: "submitAdmission env request (''dsp:'' @ uuid) expected now g = (Inr s, g1)"
    and sa: "submitAdmitted env request (''dsp:'' @ uuid) s pairGrant ?h now g1 = (SubmitAccepted i, g')"
    using sub none by (auto simp: submit_def Let_def split: if_splits prod.splits sum.splits)
  have g1: "good now g1 g1"
    using submitAdmission_keeps(2) [OF adm, of now g] good_refl [OF good] good_inv good_refl by blast
  have key: "find_row d_key (rq_idempotencyKey request) (dg_rows g1) = None"
    using submitAdmission_keeps(1) [OF adm] none by simp
  obtain decision consent cs where
    ins: "insertDispatch env request (''dsp:'' @ uuid) s pairGrant ?h decision consent cs now g1 = (SubmitAccepted i, g')"
    using sa by (auto simp: submitAdmitted_def refuseSubmit_def Let_def split: if_splits sum.splits)
  obtain g2 row where "good now g2 g'" "dispatchRow i g2 = Some row" "d_key row = rq_idempotencyKey request"
      "d_fingerprint row = requestFingerprint request pairGrant ?h"
    using insertDispatch_accepted [OF g1 key ins] by blast
  then show ?thesis by (fastforce simp: good_def gate_keeps_def row_kept_def row_ident_def)
qed

text \<open>
  C19: A submission is executed once. After a submission was accepted, however the history goes on, the same
  request under the same key (with the same canonical payload and pair grant) is answered with the dispatch
  that the first one created, and a request under that key which differs in any routing fact or in its payload
  hash is refused as a conflict; neither changes anything, so no second dispatch can be created for the key.
\<close>

theorem submit_once:
  assumes "dispatch_reachable t g" and "t \<le> now"
    and sub: "submit env uuid request expected pairGrant now g = (SubmitAccepted i, g')"
    and "in_order now es" and "rq_idempotencyKey request' = rq_idempotencyKey request"
    and fits: "utf8_length (canonicalDispatchPayloadJson (rq_payload request')) \<le> MAX_DISPATCH_PAYLOAD_BYTES"
  shows "\<exists>r. dispatchRow i (gate_run es g') = Some r \<and>
    submit env' uuid' request' expected' pairGrant' now' (gate_run es g') =
      (if requestFingerprint request' pairGrant'
            (ge_sha256Hex env' (canonicalDispatchPayloadJson (rq_payload request'))) =
          requestFingerprint request pairGrant
            (ge_sha256Hex env (canonicalDispatchPayloadJson (rq_payload request)))
       then SubmitReplayed r else SubmitFailed EConflict, gate_run es g')"
proof -
  have g': "dispatch_reachable now g'"
    using dispatch_reachable.step [OF assms(1,2), of env "ESubmit uuid request expected pairGrant"] sub by simp
  obtain r0 where r0: "dispatchRow i g' = Some r0" "d_key r0 = rq_idempotencyKey request"
      "d_fingerprint r0 = requestFingerprint request pairGrant
        (ge_sha256Hex env (canonicalDispatchPayloadJson (rq_payload request)))"
    using submit_accepted_row [OF dispatch_inv_mono [OF dispatch_reachable_inv [OF assms(1)] assms(2)] sub] by blast
  obtain r where r: "dispatchRow i (gate_run es g') = Some r" "row_kept r0 r"
    using gate_run_kept [OF g' assms(4) r0(1)] by blast
  obtain u where "dispatch_inv u (gate_run es g')"
    using gate_machine.run_timed_inv [OF dispatch_reachable_inv [OF g'] assms(4)] by (auto simp: gate_run_def)
  then have "find_row d_key (d_key r) (dg_rows (gate_run es g')) = Some r"
    using find_key_row [OF _ r(1)] by (simp add: dispatch_inv_def)
  moreover have "d_key r = rq_idempotencyKey request'" "d_fingerprint r = d_fingerprint r0"
    using r(2) r0(2) assms(5) by (simp_all add: row_kept_def row_ident_def)
  ultimately show ?thesis using r(1) r0(3) fits by (auto simp: submit_def Let_def)
qed

theorem submit_once_witness:
  "fst (submit sample_env ''7'' chat_request None (Some ''mac'') 5000 (gate_run [ev_claim, ev_ack] offered_gate)) \<noteq>
     SubmitFailed EConflict \<and>
   fst (submit sample_env ''7'' (chat_request\<lparr>rq_conversationId := ''c2''\<rparr>) None (Some ''mac'') 5000
     (gate_run [ev_claim, ev_ack] offered_gate)) = SubmitFailed EConflict"
proof -
  let ?s = "submit sample_env ''1'' chat_request None (Some ''mac'') 0 empty_dispatch_gate"
  have "fst ?s = SubmitAccepted ''dsp:1''" by code_simp
  then have s: "?s = (SubmitAccepted ''dsp:1'', offered_gate)"
    by (simp add: prod_eq_iff offered_gate_def gate_run_def gate_step_def ev_chat_def)
  have o: "in_order 0 [ev_claim, ev_ack]" by (simp add: ev_claim_def ev_ack_def)
  have fits: "utf8_length (canonicalDispatchPayloadJson (rq_payload chat_request)) \<le> MAX_DISPATCH_PAYLOAD_BYTES"
    by code_simp
  note once = submit_once [OF dispatch_reachable.start [of 0] order_refl s o]
  have differs: "requestFingerprint (chat_request\<lparr>rq_conversationId := ''c2''\<rparr>) (Some ''mac'') h \<noteq>
      requestFingerprint chat_request (Some ''mac'') h" for h
    by (simp add: requestFingerprint_def chat_request_def)
  show ?thesis
    using once [of chat_request sample_env "''7''" None "Some ''mac''" 5000]
      once [of "chat_request\<lparr>rq_conversationId := ''c2''\<rparr>" sample_env "''7''" None "Some ''mac''" 5000] fits differs
    by auto
qed

subsection \<open>Handlers touch one dispatch\<close>

named_theorems only_simps \<open>the rows a handler leaves alone\<close>

lemma patchDispatch_id:
  "(\<And>r. d_id (f r) = d_id r) \<Longrightarrow> d_id (fst (patchDispatch row f now g)) = d_id row"
  by (auto simp: patchDispatch_def Let_def coalesce_def split: option.splits dest: dispatchRow_id)

lemma only_patch [only_simps]:
  assumes "\<And>r. d_id (f r) = d_id r" and "j \<noteq> d_id row"
  shows "dispatchRow j (snd (patchDispatch row f now g)) = dispatchRow j g"
proof -
  have "d_id (patchRow f now r) = d_id r" for r using assms(1) by (simp add: patchRow_def)
  then show ?thesis using assms(2) by (simp add: patchDispatch_def Let_def dispatchRow_update)
qed

lemma only_update [only_simps]:
  "(\<And>r. d_id (f r) = d_id r) \<Longrightarrow> j \<noteq> i \<Longrightarrow> dispatchRow j (updateDispatch i f g) = dispatchRow j g"
  by (simp add: updateDispatch_def dispatchRow_update)

lemma only_frame [only_simps]:
  "dispatchRow j (releaseTurn turn g) = dispatchRow j g"
  "dispatchRow j (putHandoff i phase turn lease g) = dispatchRow j g"
  "dispatchRow j (suspendCall k row now g) = dispatchRow j g"
  by (simp_all add: releaseTurn_def putHandoff_def suspendCall_def)

lemma only_releaseGate [only_simps]: "j \<noteq> d_id row \<Longrightarrow> dispatchRow j (releaseGate row g) = dispatchRow j g"
  by (simp add: releaseGate_def Let_def only_simps)

lemma only_admit: "admit env lane turn conv expected later now g = (x, g') \<Longrightarrow> dispatchRow j g' = dispatchRow j g"
  by (auto simp: admit_def pruneRunning_def Let_def split: if_splits sum.splits)

lemma only_cloudRefusal [only_simps]:
  "j \<noteq> d_id row \<Longrightarrow> dispatchRow j (cloudRefusal row status code message now g) = dispatchRow j g"
  by (simp add: cloudRefusal_def case_prod_beta Let_def only_simps patchDispatch_id)

lemma only_startRegistered [only_simps]:
  "j \<noteq> d_id row \<Longrightarrow> dispatchRow j (startRegistered env row turn lease now g) = dispatchRow j g"
  by (auto simp: startRegistered_def only_simps coalesce_def dest: dispatchRow_id split: option.splits)

lemma only_startCloudChat [only_simps]:
  "j \<noteq> d_id row \<Longrightarrow> dispatchRow j (startCloudChat env row now g) = dispatchRow j g"
  by (auto simp: startCloudChat_def Let_def only_simps dest: only_admit [of _ _ _ _ _ _ _ _ _ _ j]
           split: option.splits handoff_phase.splits prod.splits sum.splits)

lemma only_startCloudAgent [only_simps]: "dispatchRow j (startCloudAgent env row payload now g) = dispatchRow j g"
  by (simp add: startCloudAgent_def Let_def only_simps split: sum.splits)

lemma only_runCloudBranch [only_simps]:
  assumes "j \<noteq> d_id row"
  shows "dispatchRow j (runCloudBranch env row now g) = dispatchRow j g"
proof -
  have "d_id (coalesce (dispatchRow (d_id row) g') row) = d_id row" for g'
    by (cases "dispatchRow (d_id row) g'") (auto simp: coalesce_def dest: dispatchRow_id)
  then show ?thesis using assms
    by (simp add: runCloudBranch_def Let_def case_prod_beta only_simps patchDispatch_id split: option.splits)
qed

lemma patch_ids [simp]:
  "d_id (blockPatch e r) = d_id r" "d_id (commitPatch reason now r) = d_id r"
  "d_id (cancelPatch request reason' outright r) = d_id r" "d_id (startedPatch turn thread now r) = d_id r"
  by (simp_all add: blockPatch_def commitPatch_def cancelPatch_def startedPatch_def Let_def)

lemma only_block [only_simps]:
  "j \<noteq> d_id row \<Longrightarrow> dispatchRow j (blockDispatch row e now g) = dispatchRow j g"
  by (simp add: blockDispatch_def case_prod_beta Let_def only_simps patchDispatch_id)

lemma only_resolve [only_simps]:
  "j \<noteq> d_id row \<Longrightarrow> dispatchRow j (snd (resolveUnaccepted env row now reason g)) = dispatchRow j g"
  by (simp add: resolveUnaccepted_def case_prod_beta Let_def only_simps patchDispatch_id split: sum.splits)

lemma only_expire [only_simps]:
  "j \<noteq> d_id row \<Longrightarrow> dispatchRow j (snd (expireDispatch env now row g)) = dispatchRow j g"
  by (simp add: expireDispatch_def only_simps)

lemma only_frame_handlers [only_simps]:
  assumes "j \<noteq> d_id row"
  shows "dispatchRow j (snd (handleClaim env device session row request now g)) = dispatchRow j g"
    and "dispatchRow j (snd (handleRelease env device row reason now g)) = dispatchRow j g"
    and "dispatchRow j (snd (handleAck row now g)) = dispatchRow j g"
    and "dispatchRow j (snd (handleRunning row now g)) = dispatchRow j g"
    and "dispatchRow j (snd (handleRenew row now g)) = dispatchRow j g"
    and "dispatchRow j (snd (handleComplete row out result code message now g)) = dispatchRow j g"
  using assms
  by (simp_all add: handleClaim_def handleRelease_def handleAck_def handleRunning_def handleRenew_def
      handleComplete_def case_prod_beta Let_def only_simps patchDispatch_id split: sum.splits option.splits)

subsection \<open>Finished dispatches\<close>

text \<open>The row of a dispatch may still see its admission released.\<close>

definition same_but_gate :: "dispatch_row \<Rightarrow> dispatch_row \<Rightarrow> bool" where
  "same_but_gate r r' \<longleftrightarrow> r' = r\<lparr>d_gateHeld := d_gateHeld r'\<rparr>"

lemma same_but_gate_refl [simp]: "same_but_gate r r"
  by (simp add: same_but_gate_def)

lemma same_but_gate_fields:
  assumes "same_but_gate r r'"
  shows "d_state r' = d_state r" "d_payload r' = d_payload r" "d_executor r' = d_executor r"
    "d_cancelRequest r' = d_cancelRequest r"
  using arg_cong [OF assms [unfolded same_but_gate_def], of d_state]
    arg_cong [OF assms [unfolded same_but_gate_def], of d_payload]
    arg_cong [OF assms [unfolded same_but_gate_def], of d_executor]
    arg_cong [OF assms [unfolded same_but_gate_def], of d_cancelRequest] by simp_all

lemma frame_terminal:
  assumes "dispatchRow i g = Some r" and "isTerminalDispatchState (d_state r)"
  shows "dispatchRow i (snd (handleExecutorFrame env device session j frame now g)) = Some r"
proof (cases "dispatchRow (js_trim j) g")
  case (Some row)
  have id: "d_id row = js_trim j" using dispatchRow_id [OF Some] .
  show ?thesis
  proof (cases "i = js_trim j")
    case True
    then have "row = r" using Some assms(1) by simp
    then show ?thesis using assms Some
      by (cases frame) (auto simp: handleExecutorFrame_def handleClaim_def handleRelease_def handleAck_def
          handleRunning_def handleRenew_def handleComplete_def split: option.splits)
  next
    case False
    then show ?thesis using assms Some id by (cases frame) (auto simp: handleExecutorFrame_def only_simps)
  qed
qed (use assms in \<open>simp add: handleExecutorFrame_def\<close>)

lemma status_terminal:
  assumes "dispatchRow i g = Some r" and "isTerminalDispatchState (d_state r)"
  shows "dispatchRow i (snd (dispatchStatus j now g)) = Some r"
proof (cases "dispatchRow (js_trim j) g")
  case (Some row)
  have id: "d_id row = js_trim j" using dispatchRow_id [OF Some] .
  show ?thesis using assms Some id
    by (cases "i = js_trim j")
       (auto simp: dispatchStatus_def case_prod_beta Let_def only_simps patchDispatch_id split: option.splits)
qed (use assms in \<open>simp add: dispatchStatus_def\<close>)

lemma cancel_terminal:
  assumes "dispatchRow i g = Some r" and "isTerminalDispatchState (d_state r)"
  shows "dispatchRow i (snd (cancelDispatch j request reason now g)) = Some r"
proof (cases "dispatchRow (js_trim j) g")
  case (Some row)
  have id: "d_id row = js_trim j" using dispatchRow_id [OF Some] .
  show ?thesis using assms Some id
    by (cases "i = js_trim j")
       (auto simp: cancelDispatch_def case_prod_beta Let_def only_simps patchDispatch_id)
qed (use assms in \<open>simp add: cancelDispatch_def\<close>)

lemma submit_old_rows:
  assumes "dispatchRow i g = Some r"
  shows "dispatchRow i (snd (submit env uuid request expected pairGrant now g)) = Some r"
proof -
  have route: "dispatchRow i (routeDispatch env row held cs now (g1\<lparr>dg_rows := dg_rows g1 @ [row]\<rparr>)) = Some r"
    if "dispatchRow i g1 = Some r" "d_id row \<noteq> i" for row held cs and g1
    using that by (cases "d_state row") (simp_all add: routeDispatch_def only_simps dispatchRow_append)
  have insert: "dispatchRow i (snd (insertDispatch env request k s pairGrant h decision consent cs now g1)) = Some r"
    if "dispatchRow i g1 = Some r" for k s h decision consent cs g1
    using that by (auto simp: insertDispatch_def refuseSubmit_def Let_def only_simps intro!: route)
  have admitted: "dispatchRow i (snd (submitAdmitted env request k s pairGrant h now g1)) = Some r"
    if "dispatchRow i g1 = Some r" for k s h g1
    using that insert by (simp add: submitAdmitted_def refuseSubmit_def Let_def only_simps split: sum.splits)
  have "dispatchRow i g1 = Some r" if "submitAdmission env request k expected now g = (x, g1)" for k x g1
    using assms submitAdmission_keeps(1) [OF that] by (simp add: dispatchRow_def)
  then show ?thesis using assms admitted
    by (auto simp: submit_def Let_def split: option.splits prod.splits sum.splits)
qed

text \<open>
  A finished dispatch stays finished. In any state, once a dispatch is completed, failed, canceled or
  blocked, no submission, executor frame, cancellation, status poll, cloud receipt, lease unregistration or
  alarm reading changes its row, except that its admission may be released.
\<close>

lemma terminal_final:
  assumes "dispatchRow i g = Some r" and "isTerminalDispatchState (d_state r)"
    and "ev \<noteq> EExpire" and "\<forall>n reply. ev \<noteq> EReply n reply"
  shows "\<exists>r'. dispatchRow i (dispatch_handle env ev now g) = Some r' \<and> same_but_gate r r'"
proof (cases ev)
  case (EReceipt turn generation out resultJson errorMessage)
  then show ?thesis using assms(1,2) status_terminal
    by (fastforce simp: recordCloudDispatchTerminal_def Let_def split: option.splits)
next
  case (EUnregister turn lease)
  then show ?thesis using assms(1)
    by (auto simp: unregisteredLease_def updateDispatch_def dispatchRow_update only_simps same_but_gate_def
             split: option.splits)
qed (use assms in \<open>auto simp: submit_old_rows frame_terminal cancel_terminal status_terminal\<close>)

subsection \<open>Cancellation\<close>

lemma releaseGate_row:
  assumes "dispatchRow (d_id row) g = Some row"
  shows "\<exists>r. dispatchRow (d_id row) (releaseGate row g) = Some r \<and> same_but_gate row r \<and> \<not> d_gateHeld r"
  using assms
  by (auto simp: releaseGate_def Let_def updateDispatch_def dispatchRow_update only_simps same_but_gate_def)

lemma releaseGate_offers [simp]: "openOffers i (releaseGate row g) = openOffers i g"
  by (simp add: releaseGate_def Let_def updateDispatch_def releaseTurn_def)

lemma patchDispatch_offers [simp]: "openOffers i (snd (patchDispatch row f now g)) = openOffers i g"
  by (simp add: patchDispatch_def Let_def)

text \<open>
  What a cancellation does to a dispatch that is not finished. A dispatch that is offered or claimed, or
  committed to the cloud with no turn yet, is canceled at once: its offers are withdrawn, its payload, lease
  and executor are dropped and its admission is released. Any other dispatch becomes pending on the
  cancellation and keeps its executor, which is asked to stop. The request id is recorded, and from then on a
  cancellation under another request id is refused as a conflict and changes nothing.
\<close>

lemma cancel_outcome:
  fixes request
  defines "key \<equiv> take 128 (js_trim request)"
  assumes row: "dispatchRow (js_trim i) g = Some r" and open_row: "\<not> isTerminalDispatchState (d_state r)"
    and key: "key \<noteq> []" "d_cancelRequest r \<in> {None, Some key}"
  shows "\<exists>r' r'' g'. cancelDispatch i request reason now g = (StatusRow r', g') \<and>
    dispatchRow (js_trim i) g' = Some r'' \<and> same_but_gate r' r'' \<and>
    d_cancelRequest r' = Some key \<and> openOffers (js_trim i) g' = [] \<and>
    (if d_state r \<in> {Offering, ComputerClaimed} \<or> d_state r = CloudCommitted \<and> \<not> hasCloudTurn r
     then d_state r' = Canceled \<and> d_payload r' = None \<and> d_lease r' = None \<and> d_executor r' = None \<and>
          \<not> d_gateHeld r''
     else d_state r' = CancelPending \<and> d_executor r' = d_executor r \<and> d_session r' = d_session r \<and> r'' = r') \<and>
    (\<forall>request' reason' now'. take 128 (js_trim request') \<notin> {[], key} \<longrightarrow>
       cancelDispatch i request' reason' now' g' = (StatusFailed EConflict, g'))"
proof -
  define outright where "outright = (d_state r = Offering \<or> d_state r = ComputerClaimed \<or>
                            (d_state r = CloudCommitted \<and> \<not> hasCloudTurn r))"
  define f where "f = cancelPatch key (take 512 (js_trim reason)) outright"
  define g1 where "g1 = withdrawOffers (d_id r) None now g"
  define r' where "r' = patchRow f now r"
  define g2 where "g2 = snd (patchDispatch r f now g1)"
  define g' where "g' = (if outright then releaseGate r' g2 else g2)"
  have id: "d_id r = js_trim i" using dispatchRow_id [OF row] .
  have ident: "row_ident (f x) = row_ident x" for x by (simp add: f_def cancelPatch_def row_ident_def Let_def)
  have res: "fst (patchDispatch r f now g1) = r'" "dispatchRow (js_trim i) g2 = Some r'"
    using patchDispatch_result [OF ident, of r g1 r now] row id by (simp_all add: r'_def g2_def g1_def)
  have call: "cancelDispatch i request reason now g = (StatusRow r', g')"
    using row open_row key
    by (auto simp: cancelDispatch_def case_prod_beta Let_def key_def [symmetric] outright_def [symmetric]
        g1_def [symmetric] res(1) [symmetric] f_def g2_def g'_def)
  have id': "d_id r' = js_trim i" by (simp add: r'_def patchRow_def f_def id)
  obtain r'' where r'': "dispatchRow (js_trim i) g' = Some r''" "same_but_gate r' r''"
      "if outright then \<not> d_gateHeld r'' else r'' = r'"
    using releaseGate_row [of r' g2] res(2) id' same_but_gate_refl unfolding g'_def by (cases outright) auto
  have cancel: "d_cancelRequest r' = Some key" "d_cancelRequest r'' = Some key"
    unfolding same_but_gate_fields(4) [OF r''(2)]
    by (simp_all add: r'_def patchRow_def f_def cancelPatch_def Let_def)
  have "openOffers (js_trim i) g' = []"
    using openOffers_none(1) [of "js_trim i" now g] by (simp add: g'_def g2_def g1_def id)
  moreover have "cancelDispatch i request' reason' now' g' = (StatusFailed EConflict, g')"
    if "take 128 (js_trim request') \<notin> {[], key}" for request' reason' now'
    using that r''(1) cancel(2) by (auto simp: cancelDispatch_def Let_def)
  moreover have "if outright
     then d_state r' = Canceled \<and> d_payload r' = None \<and> d_lease r' = None \<and> d_executor r' = None
     else d_state r' = CancelPending \<and> d_executor r' = d_executor r \<and> d_session r' = d_session r"
    by (simp add: r'_def patchRow_def f_def cancelPatch_def Let_def)
  ultimately show ?thesis using call r'' cancel(1)
    by (intro exI [of _ r'] exI [of _ r''] exI [of _ g']) (auto simp: outright_def)
qed

subsection \<open>The expiry loop\<close>

lemma expiring_kept [simp]:
  "dg_expiring (snd (patchDispatch row f now g)) = dg_expiring g"
  "dg_expiring (updateDispatch i h g) = dg_expiring g"
  "dg_expiring (releaseTurn turn g) = dg_expiring g"
  "dg_expiring (putHandoff i phase turn lease g) = dg_expiring g"
  "dg_expiring (suspendCall k row now g) = dg_expiring g"
  "dg_expiring (withdrawOffers i keep now g) = dg_expiring g"
  by (simp_all add: patchDispatch_def updateDispatch_def releaseTurn_def putHandoff_def suspendCall_def
      withdrawOffers_def Let_def)

lemma expiring_releaseGate [simp]: "dg_expiring (releaseGate row g) = dg_expiring g"
  by (simp add: releaseGate_def Let_def)

lemma expiring_admit: "admit env lane turn conv expected later now g = (x, g') \<Longrightarrow> dg_expiring g' = dg_expiring g"
  by (auto simp: admit_def pruneRunning_def Let_def split: if_splits sum.splits)

lemma expiring_cloud [simp]:
  "dg_expiring (cloudRefusal row status code message now g) = dg_expiring g"
  "dg_expiring (startRegistered env row turn lease now g) = dg_expiring g"
  "dg_expiring (startCloudAgent env row payload now g) = dg_expiring g"
  by (simp_all add: cloudRefusal_def startRegistered_def startCloudAgent_def case_prod_beta Let_def
      split: option.splits sum.splits)

lemma expiring_chat [simp]: "dg_expiring (startCloudChat env row now g) = dg_expiring g"
  by (auto simp: startCloudChat_def Let_def dest: expiring_admit
           split: option.splits handoff_phase.splits prod.splits sum.splits)

lemma expiring_run [simp]: "dg_expiring (runCloudBranch env row now g) = dg_expiring g"
  by (simp add: runCloudBranch_def Let_def case_prod_beta split: option.splits)

lemma expiring_expire [simp]: "dg_expiring (snd (expireDispatch env now row g)) = dg_expiring g"
  by (simp add: expireDispatch_def resolveUnaccepted_def blockDispatch_def case_prod_beta Let_def
      split: sum.splits)

lemma remote_readable:
  "ge_snapshot env False = Inr s \<Longrightarrow> \<exists>remote. deviceRemoteExecution env device = Inr remote"
  by (auto simp: deviceRemoteExecution_def split: option.splits)

lemma expire_succeeds:
  assumes "ge_snapshot env False = Inr s"
  shows "fst (expireDispatch env now row g)"
  using assms remote_readable [OF assms]
  by (auto simp: expireDispatch_def resolveUnaccepted_def case_prod_beta Let_def split: sum.splits)
    (metis Inl_Inr_False)+

text \<open>What the loop leaves of a dispatch that no computer accepted in time.\<close>

definition resolved :: "owner_snapshot \<Rightarrow> dispatch_row \<Rightarrow> dispatch_row \<Rightarrow> bool" where
  "resolved s r r' \<longleftrightarrow>
     (if d_onNoComputer r = ToCloud \<and> (d_kind r = KAgent \<longrightarrow> snapshotAllowsCloudSandbox s)
      then d_placement r' = Some OnCloud
      else d_state r' = Blocked \<and> d_payload r' = None \<and> d_executor r' = None)"

lemma block_resolves:
  assumes "dispatchRow (d_id r) g = Some r"
  shows "\<exists>r'. dispatchRow (d_id r) (blockDispatch r e now g) = Some r' \<and>
    d_state r' = Blocked \<and> d_payload r' = None \<and> d_executor r' = None"
proof -
  let ?b = "patchRow (blockPatch e) now r"
  have ident: "row_ident (blockPatch e x) = row_ident x" for x by (simp add: blockPatch_def row_ident_def)
  note res = patchDispatch_result [OF ident assms, of now]
  have "d_id ?b = d_id r" by (simp add: patchRow_def)
  then obtain r' where "dispatchRow (d_id r) (blockDispatch r e now g) = Some r'" "same_but_gate ?b r'"
    using releaseGate_row [of ?b "snd (patchDispatch r (blockPatch e) now g)"] res
    by (auto simp: blockDispatch_def case_prod_beta Let_def)
  then show ?thesis using same_but_gate_fields [of ?b r'] by (simp add: patchRow_def blockPatch_def)
qed

lemma resolve_resolves:
  assumes good: "good t g0 g" and row: "dispatchRow (d_id r) g = Some r"
    and st: "d_state r = Offering \<or> d_state r = ComputerClaimed" and snap: "ge_snapshot env False = Inr s"
  shows "\<exists>r'. dispatchRow (d_id r) (snd (resolveUnaccepted env r now reason g)) = Some r' \<and> resolved s r r'"
proof -
  define g1 where "g1 = withdrawOffers (d_id r) None now g"
  have pl: "d_placement r = None" using row_ok_open [OF good_row [OF good row] st] .
  have g1: "good t g0 g1" "dispatchRow (d_id r) g1 = Some r" "openOffers (d_id r) g1 = []"
    using good row good_withdraw [OF good] openOffers_none(1) by (simp_all add: g1_def)
  have un: "unaccepted (d_id r) g1" using g1(2) pl by (simp add: unaccepted_def)
  have ident: "row_ident (commitPatch reason now x) = row_ident x" for x
    by (simp add: commitPatch_def row_ident_def)
  define g2 where "g2 = snd (patchDispatch r (commitPatch reason now) now g1)"
  define c where "c = fst (patchDispatch r (commitPatch reason now) now g1)"
  have c: "c = patchRow (commitPatch reason now) now r" "dispatchRow (d_id r) g2 = Some c"
    using patchDispatch_result [OF ident g1(2), of now] by (simp_all add: c_def g2_def)
  have id: "d_id c = d_id r" by (simp add: c(1) patchRow_def)
  have g2: "good t g2 g2"
    unfolding g2_def by (rule good_refl [OF good_inv [OF good_withdraw_patch [OF g1(1) un _ g1(3)]]]) simp
  have placed: "placed_cloud (d_id c) g2" using c id by (simp add: placed_cloud_def patchRow_def commitPatch_def)
  have "placed_cloud (d_id r) (runCloudBranch env c now g2)"
    using good_placed [OF runCloudBranch_good [OF g2 placed]] placed c(2) by (simp add: id)
  then have cloud: "\<exists>r'. dispatchRow (d_id r) (runCloudBranch env c now g2) = Some r' \<and>
      d_placement r' = Some OnCloud" by (simp add: placed_cloud_def)
  obtain remote where remote: "deviceRemoteExecution env (d_targetDevice r) = Inr remote"
    using remote_readable [OF snap] by blast
  show ?thesis
    using st snap cloud block_resolves [OF g1(2)] remote
    by (auto simp: resolveUnaccepted_def resolved_def Let_def case_prod_beta g1_def [symmetric]
        g2_def [symmetric] c_def [symmetric])
qed

lemma expire_step:
  assumes "ge_snapshot env False = Inr s" and "dg_expiring g = (u, q) # rest"
  shows "dispatch_handle env EExpire now g = snd (expireDispatch env u q (g\<lparr>dg_expiring := rest\<rparr>))"
  using assms expire_succeeds [OF assms(1)] by (simp split: prod.splits bool.splits) (metis fst_conv)

text \<open>The rows still to be handled have not moved: the loop only works on the others before them.\<close>

lemma drain:
  assumes "ge_snapshot env False = Inr s" and "dispatch_inv now g"
    and "distinct (map (d_id \<circ> snd) (dg_expiring g))"
  defines "g' \<equiv> (dispatch_handle env EExpire now ^^ length (dg_expiring g)) g"
  shows "dg_expiring g' = [] \<and> (i \<notin> (d_id \<circ> snd) ` set (dg_expiring g) \<longrightarrow> dispatchRow i g' = dispatchRow i g) \<and>
    ((u, r) \<in> set (dg_expiring g) \<longrightarrow> unaccepted_due u r \<longrightarrow> dispatchRow (d_id r) g = Some r \<longrightarrow>
      (\<exists>r'. dispatchRow (d_id r) g' = Some r' \<and> resolved s r r'))"
  using assms(2,3) unfolding g'_def
proof (induction "dg_expiring g" arbitrary: g i u r)
  case (Cons e rest)
  obtain v q where e: "e = (v, q)" by fastforce
  let ?g = "g\<lparr>dg_expiring := rest\<rparr>"
  define g1 where "g1 = dispatch_handle env EExpire now g"
  have g1: "g1 = snd (expireDispatch env v q ?g)"
    unfolding g1_def by (rule expire_step [OF assms(1)]) (simp add: Cons.hyps(2) [symmetric] e)
  have rest: "dg_expiring g1 = rest" by (simp add: g1)
  have inv: "dispatch_inv now g1"
    unfolding g1_def using good_inv [OF dispatch_handle_good [OF Cons.prems(1) order_refl]] .
  have ids: "distinct (map (d_id \<circ> snd) rest)" "d_id q \<notin> (d_id \<circ> snd) ` set rest"
    using Cons.prems(2) unfolding Cons.hyps(2) [symmetric] e by auto
  have other: "dispatchRow j g1 = dispatchRow j g" if "j \<noteq> d_id q" for j
    using that by (simp add: g1 only_simps)
  have run: "(dispatch_handle env EExpire now ^^ length (dg_expiring g)) g =
      (dispatch_handle env EExpire now ^^ length (dg_expiring g1)) g1"
    unfolding Cons.hyps(2) [symmetric] rest by (simp add: funpow_swap1 g1_def)
  note IH = Cons.hyps(1) [OF rest [symmetric] inv ids(1) [folded rest], folded run]
  have queue: "set (dg_expiring g) = insert (v, q) (set rest)" by (simp add: Cons.hyps(2) [symmetric] e)
  have resolve: "\<exists>r'. dispatchRow (d_id q) g1 = Some r' \<and> resolved s q r'"
    if "unaccepted_due v q" "dispatchRow (d_id q) g = Some q"
  proof -
    have good: "good now ?g ?g"
      by (rule good_refl [OF good_inv [OF good_expiring_subset [OF good_refl [OF Cons.prems(1)]]]]) (auto simp: queue)
    show ?thesis unfolding g1 using that resolve_resolves [OF good, of q env s] assms(1)
      by (auto simp: expireDispatch_def unaccepted_due_def)
  qed
  have "dg_expiring ((dispatch_handle env EExpire now ^^ length (dg_expiring g)) g) = []" using IH by blast
  moreover have "dispatchRow i ((dispatch_handle env EExpire now ^^ length (dg_expiring g)) g) = dispatchRow i g"
    if "i \<notin> (d_id \<circ> snd) ` set (dg_expiring g)"
    using that IH [of i] other [of i] unfolding queue rest by auto
  moreover have "\<exists>r'. dispatchRow (d_id r) ((dispatch_handle env EExpire now ^^ length (dg_expiring g)) g) = Some r' \<and>
      resolved s r r'"
    if "(u, r) \<in> set (dg_expiring g)" "unaccepted_due u r" "dispatchRow (d_id r) g = Some r"
  proof (cases "d_id r = d_id q")
    case True
    then have "(u, r) = (v, q)" using that(1) ids(2) unfolding queue by force
    then show ?thesis using resolve that IH [of "d_id q"] ids(2) unfolding rest by auto
  next
    case False
    then show ?thesis using that IH [of _ u r] other [OF False] unfolding queue rest by auto
  qed
  ultimately show ?case by blast
qed simp



subsection \<open>Answers that come late\<close>


text \<open>
  The expiry loop works on rows as it read them before its first await. Two offers run out together; while the
  loop awaits the cloud start of the first dispatch, the second is canceled; the loop then commits the
  canceled dispatch to the cloud, finds its payload gone, and reports it as failed.
\<close>

lemma stale_expiry_overwrites:
  "let g1 = gate_run [ev_chat,
         ((sample_env, ESubmit ''3'' (chat_request\<lparr>rq_idempotencyKey := ''k-000003''\<rparr>) None (Some ''mac'')), 0),
         ((sample_env, EAlarm), 4000), ((sample_env, EExpire), 4000),
         ((sample_env, ECancel ''dsp:3'' ''r'' []), 4500)] empty_dispatch_gate;
       g2 = gate_run [((sample_env, EExpire), 5000)] g1
   in map_option d_state (dispatchRow ''dsp:3'' g1) = Some Canceled \<and>
      map_option d_state (dispatchRow ''dsp:3'' g2) = Some Failed \<and>
      map_option d_errorCode (dispatchRow ''dsp:3'' g2) = Some (Some ''CLOUD_PAYLOAD_UNAVAILABLE'')"
  by code_simp

end
