(* ===== verification/Calendar.thy ===== *)
theory Calendar
  imports Prelude
begin

text \<open>
  The calendar windows of the billing ledger (\<open>owner-store/domains/billing.ts\<close> of
  \<open>workers/cloud-builder/src\<close>) over the part of ECMAScript's \<open>Date\<close> they use: a time value is an integer
  of milliseconds since 1970-01-01 UTC, and the getters and \<open>Date.UTC\<close> are those of the language
  specification. A month is counted from year 0, so that month \<open>k\<close> is month \<open>k mod 12\<close> of year \<open>k div 12\<close>.
\<close>

subsection \<open>Dates\<close>

definition MS_PER_DAY :: ms where "MS_PER_DAY = 86400000"

definition day_from_year :: "int \<Rightarrow> int" where
  "day_from_year y = 365 * (y - 1970) + (y - 1969) div 4 - (y - 1901) div 100 + (y - 1601) div 400"

definition leap_year :: "int \<Rightarrow> bool" where
  "leap_year y \<longleftrightarrow> y mod 4 = 0 \<and> y mod 100 \<noteq> 0 \<or> y mod 400 = 0"

definition days_before :: "int \<Rightarrow> int \<Rightarrow> int" where
  "days_before y m =
     [0, 31, 59, 90, 120, 151, 181, 212, 243, 273, 304, 334] ! nat m +
     (if leap_year y \<and> 2 \<le> m then 1 else 0)"

definition month_start :: "int \<Rightarrow> int" where
  "month_start k = day_from_year (k div 12) + days_before (k div 12) (k mod 12)"

definition year_of_day :: "int \<Rightarrow> int" where
  "year_of_day d =
     (let y = d * 400 div 146097 + 1970 in
      if day_from_year (y + 1) \<le> d then y + 1 else if day_from_year y \<le> d then y else y - 1)"

definition month_of_day :: "int \<Rightarrow> int" where
  "month_of_day d =
     (let y = year_of_day d in
      int (length (takeWhile (\<lambda>m. day_from_year y + days_before y m \<le> d) [1..11])))"

definition getUTCFullYear :: "ms \<Rightarrow> int" where "getUTCFullYear t = year_of_day (t div MS_PER_DAY)"
definition getUTCMonth :: "ms \<Rightarrow> int" where "getUTCMonth t = month_of_day (t div MS_PER_DAY)"

definition getUTCDate :: "ms \<Rightarrow> int" where
  "getUTCDate t =
     t div MS_PER_DAY - month_start (12 * getUTCFullYear t + getUTCMonth t) + 1"

definition getUTCDay :: "ms \<Rightarrow> int" where "getUTCDay t = (t div MS_PER_DAY + 4) mod 7"

definition getUTCHours :: "ms \<Rightarrow> int" where "getUTCHours t = t div 3600000 mod 24"
definition getUTCMinutes :: "ms \<Rightarrow> int" where "getUTCMinutes t = t div 60000 mod 60"
definition getUTCSeconds :: "ms \<Rightarrow> int" where "getUTCSeconds t = t div 1000 mod 60"
definition getUTCMilliseconds :: "ms \<Rightarrow> int" where "getUTCMilliseconds t = t mod 1000"

text \<open>\<open>Date.UTC\<close> reads a year between 0 and 99 as one of the twentieth century.\<close>

definition Date_UTC :: "int \<Rightarrow> int \<Rightarrow> int \<Rightarrow> int \<Rightarrow> int \<Rightarrow> int \<Rightarrow> int \<Rightarrow> ms" where
  "Date_UTC year month date h mi s milli =
     (let y = (if 0 \<le> year \<and> year \<le> 99 then 1900 + year else year) in
      (month_start (12 * y + month) + date - 1) * MS_PER_DAY + ((h * 60 + mi) * 60 + s) * 1000 + milli)"

subsection \<open>Windows\<close>

record window_bounds =
  wb_start :: ms
  wb_end :: ms

text \<open>\<open>setUTCDate\<close> and \<open>setUTCHours(0, 0, 0, 0)\<close> move to midnight of another day of the same month.\<close>

definition weekBounds :: "ms \<Rightarrow> window_bounds" where
  "weekBounds now =
     (let start = (now div MS_PER_DAY - (getUTCDay now + 6) mod 7) * MS_PER_DAY
      in \<lparr>wb_start = start, wb_end = start + 7 * 24 * 60 * 60 * 1000\<rparr>)"

definition month_at :: "ms \<Rightarrow> int \<Rightarrow> int \<Rightarrow> ms" where
  "month_at anchor year month =
     (let maxDay = getUTCDate (Date_UTC year (month + 1) 0 0 0 0 0)
      in Date_UTC year month (min (getUTCDate anchor) maxDay) (getUTCHours anchor) (getUTCMinutes anchor)
           (getUTCSeconds anchor) (getUTCMilliseconds anchor))"

definition month_shift :: "int \<Rightarrow> int \<Rightarrow> int \<Rightarrow> int \<times> int" where
  "month_shift year month delta =
     (let total = year * 12 + month + delta in (total div 12, (total mod 12 + 12) mod 12))"

definition monthBounds :: "ms \<Rightarrow> ms \<Rightarrow> window_bounds" where
  "monthBounds now anchor =
     (let year = getUTCFullYear now; month = getUTCMonth now;
          start = month_at anchor year month;
          (year', month', start') =
            (if start > now
             then let (y, m) = month_shift year month (- 1) in (y, m, month_at anchor y m)
             else (year, month, start));
          (endYear, endMonth) = month_shift year' month' 1
      in \<lparr>wb_start = start', wb_end = month_at anchor endYear endMonth\<rparr>)"

subsection \<open>The year and month of a day\<close>

lemma div_mod_Suc:
  fixes x n :: int
  assumes "0 < n"
  shows "(x + 1) div n = x div n + (if x mod n + 1 = n then 1 else 0)"
    and "(x + 1) mod n = (if x mod n + 1 = n then 0 else x mod n + 1)"
proof -
  have x: "x + 1 = n * (x div n) + (x mod n + 1)" by simp
  have r: "0 \<le> x mod n" "x mod n + 1 = n \<or> x mod n + 1 < n" 
  proof -
    have "x mod n < n" using assms by simp
    then show "x mod n + 1 = n \<or> x mod n + 1 < n" by linarith
  qed (use assms in simp)
  have last: "x mod n + 1 = n \<Longrightarrow> x + 1 = n * (x div n + 1) + 0" using x by (simp add: distrib_left)
  show "(x + 1) div n = x div n + (if x mod n + 1 = n then 1 else 0)"
    using int_div_pos_eq [OF x] int_div_pos_eq [OF last] r assms by auto
  show "(x + 1) mod n = (if x mod n + 1 = n then 0 else x mod n + 1)"
    using int_mod_pos_eq [OF x] int_mod_pos_eq [OF last] r assms by auto
qed

lemma div_Suc:
  fixes x n :: int
  assumes "0 < n"
  shows "(x + 1) div n = x div n + (if n dvd x + 1 then 1 else 0)"
  using div_mod_Suc [OF assms, of x] pos_mod_sign [OF assms, of x] by (auto simp: dvd_eq_mod_eq_0 split: if_splits)

lemma dvd_shift: "n dvd c \<Longrightarrow> n dvd y - c \<longleftrightarrow> n dvd y" for n c y :: int
  using dvd_diff [of n y c] dvd_add [of n "y - c" c] by auto

lemma day_from_year_Suc: "day_from_year (y + 1) = day_from_year y + 365 + (if leap_year y then 1 else 0)"
proof -
  have q: "(y + 1 - 1969) div 4 = (y - 1969) div 4 + (if 4 dvd y then 1 else 0)"
    using div_Suc [of 4 "y - 1969"] dvd_shift [of 4 1968 y] by simp
  have c: "(y + 1 - 1901) div 100 = (y - 1901) div 100 + (if 100 dvd y then 1 else 0)"
    using div_Suc [of 100 "y - 1901"] dvd_shift [of 100 1900 y] by simp
  have f: "(y + 1 - 1601) div 400 = (y - 1601) div 400 + (if 400 dvd y then 1 else 0)"
    using div_Suc [of 400 "y - 1601"] dvd_shift [of 400 1600 y] by simp
  have "400 dvd y \<Longrightarrow> 100 dvd y" "100 dvd y \<Longrightarrow> 4 dvd y"
    using dvd_trans [of 100 400 y] dvd_trans [of 4 100 y] by simp_all
  then show ?thesis
    unfolding day_from_year_def leap_year_def mod_eq_0_iff_dvd q c f by auto
qed

lemma div_bounds:
  fixes x n q :: int
  assumes "q = x div n" and "0 < n"
  shows "n * q \<le> x" "x < n * q + n"
proof -
  have "n * (x div n) + x mod n = x" "x mod n < n" "0 \<le> x mod n" using assms(2) by simp_all
  then show "n * q \<le> x" "x < n * q + n" unfolding assms(1) by linarith+
qed

lemma day_from_year_bounds:
  "146097 * (y - 1970) - 507 \<le> 400 * day_from_year y" "400 * day_from_year y \<le> 146097 * (y - 1970) + 589"
proof -
  obtain a b c where abc: "a = (y - 1969) div 4" "b = (y - 1901) div 100" "c = (y - 1601) div 400" by blast
  have "4 * a \<le> y - 1969" "y - 1969 < 4 * a + 4" "100 * b \<le> y - 1901" "y - 1901 < 100 * b + 100"
    "400 * c \<le> y - 1601" "y - 1601 < 400 * c + 400"
    using div_bounds [OF abc(1)] div_bounds [OF abc(2)] div_bounds [OF abc(3)] by simp_all
  then show "146097 * (y - 1970) - 507 \<le> 400 * day_from_year y"
    "400 * day_from_year y \<le> 146097 * (y - 1970) + 589"
    unfolding day_from_year_def abc [symmetric] by (simp_all add: algebra_simps)
qed

lemma year_of_day:
  "day_from_year (year_of_day d) \<le> d" "d < day_from_year (year_of_day d + 1)"
proof -
  define y where "y = d * 400 div 146097 + 1970"
  have "y - 1970 = d * 400 div 146097" by (simp add: y_def)
  from div_bounds [OF this] have "146097 * (y - 1970) \<le> 400 * d" "400 * d < 146097 * (y - 1969)"
    by (simp_all add: algebra_simps)
  then have "day_from_year (y - 1) \<le> d" "d < day_from_year (y + 2)"
    using day_from_year_bounds [of "y - 1"] day_from_year_bounds [of "y + 2"]
    by (simp_all add: algebra_simps)
  then show "day_from_year (year_of_day d) \<le> d" "d < day_from_year (year_of_day d + 1)"
    unfolding year_of_day_def y_def [symmetric] Let_def by (auto simp: add.commute)
qed

lemma month_cases:
  fixes m :: int
  assumes "0 \<le> m" "m < 12"
  obtains "m = 0" | "m = 1" | "m = 2" | "m = 3" | "m = 4" | "m = 5" | "m = 6" | "m = 7" | "m = 8" | "m = 9"
    | "m = 10" | "m = 11"
proof -
  have "m = 0 \<or> m = 1 \<or> m = 2 \<or> m = 3 \<or> m = 4 \<or> m = 5 \<or> m = 6 \<or> m = 7 \<or> m = 8 \<or> m = 9 \<or> m = 10 \<or> m = 11"
    using assms by presburger
  then show thesis using that by blast
qed

lemma month_start_Suc:
  "28 \<le> month_start (k + 1) - month_start k" "month_start (k + 1) - month_start k \<le> 31"
proof -
  have m: "0 \<le> k mod 12" "k mod 12 < 12" by simp_all
  have "28 \<le> month_start (k + 1) - month_start k \<and> month_start (k + 1) - month_start k \<le> 31"
  proof (cases "k mod 12 = 11")
    case True
    then have "(k + 1) div 12 = k div 12 + 1" "(k + 1) mod 12 = 0" by (simp_all add: div_mod_Suc)
    then show ?thesis using day_from_year_Suc [of "k div 12"] True
      by (simp add: month_start_def days_before_def)
  next
    case False
    then have "(k + 1) div 12 = k div 12" "(k + 1) mod 12 = k mod 12 + 1" by (simp_all add: div_mod_Suc)
    note this [simp]
    show ?thesis
      by (rule month_cases [OF m]) (use False in \<open>simp_all add: month_start_def days_before_def\<close>)
  qed
  then show "28 \<le> month_start (k + 1) - month_start k" "month_start (k + 1) - month_start k \<le> 31" by simp_all
qed

lemma month_start_mono: "j \<le> k \<Longrightarrow> month_start j \<le> month_start k"
proof (induction k rule: int_ge_induct)
  case (step k)
  then show ?case using month_start_Suc(1) [of k] by simp
qed simp

lemma month_unique:
  assumes "month_start j \<le> d" "d < month_start (j + 1)" "month_start k \<le> d" "d < month_start (k + 1)"
  shows "j = k"
proof (rule ccontr)
  assume "j \<noteq> k"
  then consider "j + 1 \<le> k" | "k + 1 \<le> j" by linarith
  then show False using assms month_start_mono [of "j + 1" k] month_start_mono [of "k + 1" j] by cases linarith+
qed

definition month_index :: "int \<Rightarrow> int" where
  "month_index d = 12 * year_of_day d + month_of_day d"

lemma takeWhile_months:
  fixes f :: "int \<Rightarrow> int"
  assumes "\<And>m. m \<in> {1..11} \<Longrightarrow> f (m - 1) \<le> f m" and "f 0 \<le> d" and "d < f 12"
  defines "n \<equiv> int (length (takeWhile (\<lambda>m. f m \<le> d) [1..11]))"
  shows "0 \<le> n" "n \<le> 11" "f n \<le> d" "d < f (n + 1)"
proof -
  let ?ms = "[1..11] :: int list"
  let ?t = "takeWhile (\<lambda>m. f m \<le> d) ?ms"
  have len: "length ?t \<le> 11" using length_takeWhile_le [of "\<lambda>m. f m \<le> d" ?ms] by simp
  show n: "0 \<le> n" "n \<le> 11" using len by (simp_all add: n_def)
  have nth: "?ms ! i = int i + 1" if "i < 11" for i using that by (simp add: nth_upto)
  show "f n \<le> d"
  proof (cases "n = 0")
    case False
    then have i: "length ?t - 1 < length ?t" by (simp add: n_def)
    then have "f (?ms ! (length ?t - 1)) \<le> d"
      using nth_mem [OF i] set_takeWhileD takeWhile_nth [OF i] by metis
    then show ?thesis using nth [of "length ?t - 1"] i len by (simp add: n_def of_nat_diff)
  qed (use assms(2) in simp)
  show "d < f (n + 1)"
  proof (cases "n = 11")
    case False
    then have "length ?t < 11" using len by (simp add: n_def)
    then have "\<not> f (?ms ! length ?t) \<le> d" by (intro nth_length_takeWhile) simp
    then show ?thesis using nth [of "length ?t"] \<open>length ?t < 11\<close> by (simp add: n_def add.commute)
  qed (use assms(3) in simp)
qed

lemma month_index:
  "month_start (month_index d) \<le> d" "d < month_start (month_index d + 1)"
  "0 \<le> month_of_day d" "month_of_day d \<le> 11"
proof -
  define y where "y = year_of_day d"
  define f where "f m = (if m = 12 then day_from_year (y + 1) else day_from_year y + days_before y m)" for m
  have fk: "f m = month_start (12 * y + m)" if "0 \<le> m" "m \<le> 12" for m
    using that by (cases "m = 12") (simp_all add: f_def month_start_def days_before_def div_pos_pos_trivial)
  have "f (m - 1) \<le> f m" if "m \<in> {1..11}" for m
    using that fk [of m] fk [of "m - 1"] month_start_mono [of "12 * y + (m - 1)" "12 * y + m"] by simp
  moreover have "f 0 \<le> d" "d < f 12" using year_of_day [of d] by (simp_all add: f_def y_def days_before_def)
  ultimately have n: "0 \<le> month_of_day d" "month_of_day d \<le> 11" "f (month_of_day d) \<le> d" "d < f (month_of_day d + 1)"
  proof -
    have m: "month_of_day d = int (length (takeWhile (\<lambda>m. f m \<le> d) [1..11]))"
      unfolding month_of_day_def Let_def y_def [symmetric]
      by (intro arg_cong [where f = int] arg_cong [where f = length] takeWhile_cong) (auto simp: f_def)
    assume "\<And>m. m \<in> {1..11} \<Longrightarrow> f (m - 1) \<le> f m" "f 0 \<le> d" "d < f 12"
    note t = takeWhile_months [OF this]
    show "0 \<le> month_of_day d" "month_of_day d \<le> 11" "f (month_of_day d) \<le> d" "d < f (month_of_day d + 1)"
      unfolding m using t by simp_all
  qed
  then show "month_start (month_index d) \<le> d" "d < month_start (month_index d + 1)"
    "0 \<le> month_of_day d" "month_of_day d \<le> 11"
    using fk [of "month_of_day d"] fk [of "month_of_day d + 1"] by (simp_all add: month_index_def y_def add.assoc)
qed

subsection \<open>The monthly window\<close>

lemma getUTCDate_alt: "getUTCDate t = t div MS_PER_DAY - month_start (month_index (t div MS_PER_DAY)) + 1"
  by (simp add: getUTCDate_def getUTCFullYear_def getUTCMonth_def month_index_def)

lemma getUTCDate_pos: "1 \<le> getUTCDate t"
  using month_index(1) [of "t div MS_PER_DAY"] by (simp add: getUTCDate_alt)

lemma time_of_day:
  "((getUTCHours t * 60 + getUTCMinutes t) * 60 + getUTCSeconds t) * 1000 + getUTCMilliseconds t = t mod MS_PER_DAY"
proof -
  have sum: "a = 3600000 * h + b \<Longrightarrow> b = 60000 * i + c \<Longrightarrow> c = 1000 * s + l \<Longrightarrow>
    ((h * 60 + i) * 60 + s) * 1000 + l = a" for a b c h i s l :: int by simp
  have "t mod (3600000 * 24) = 3600000 * getUTCHours t + t mod 3600000"
    unfolding getUTCHours_def by (rule zmod_zmult2_eq) simp
  moreover have "t mod (60000 * 60) = 60000 * getUTCMinutes t + t mod 60000"
    unfolding getUTCMinutes_def by (rule zmod_zmult2_eq) simp
  moreover have "t mod (1000 * 60) = 1000 * getUTCSeconds t + getUTCMilliseconds t"
    unfolding getUTCSeconds_def getUTCMilliseconds_def by (rule zmod_zmult2_eq) simp
  moreover have "3600000 * 24 = MS_PER_DAY" "60000 * 60 = (3600000 :: int)" "1000 * 60 = (60000 :: int)"
    by (simp_all add: MS_PER_DAY_def)
  ultimately show ?thesis by (intro sum) (simp_all only:)
qed

text \<open>The start of the window in month \<open>k\<close>: the anchor's day, or the last day of a shorter month.\<close>

definition anchor_day :: "ms \<Rightarrow> int \<Rightarrow> int" where
  "anchor_day anchor k = month_start k + min (getUTCDate anchor) (month_start (k + 1) - month_start k) - 1"

lemma month_at_alt:
  assumes "100 \<le> year"
  shows "month_at anchor year month =
    anchor_day anchor (12 * year + month) * MS_PER_DAY + anchor mod MS_PER_DAY"
proof -
  let ?k = "12 * year + month"
  have last: "Date_UTC year (month + 1) 0 0 0 0 0 = (month_start (?k + 1) - 1) * MS_PER_DAY"
    using assms by (simp add: Date_UTC_def add.assoc)
  have "month_index (month_start (?k + 1) - 1) = ?k"
    by (rule month_unique [of _ "month_start (?k + 1) - 1"])
       (use month_index [of "month_start (?k + 1) - 1"] month_start_Suc(1) [of ?k] in simp_all)
  then have maxDay: "getUTCDate (Date_UTC year (month + 1) 0 0 0 0 0) = month_start (?k + 1) - month_start ?k"
    unfolding last getUTCDate_alt by (simp add: MS_PER_DAY_def)
  show ?thesis
    unfolding month_at_def Let_def maxDay
    using assms time_of_day [of anchor] by (simp add: Date_UTC_def anchor_day_def Let_def)
qed

lemma anchor_day_bounds:
  fixes k anchor
  shows "month_start k \<le> anchor_day anchor k" "anchor_day anchor k < month_start (k + 1)"
  using getUTCDate_pos [of anchor] month_start_Suc(1) [of k] by (simp_all add: anchor_day_def)

definition anchor_time :: "ms \<Rightarrow> int \<Rightarrow> ms" where
  "anchor_time anchor k = anchor_day anchor k * MS_PER_DAY + anchor mod MS_PER_DAY"

lemma anchor_time_bounds:
  fixes k anchor
  shows "month_start k * MS_PER_DAY \<le> anchor_time anchor k"
    and "anchor_time anchor k < month_start (k + 1) * MS_PER_DAY"
  using anchor_day_bounds [where k = k and anchor = anchor] pos_mod_bound [of MS_PER_DAY anchor] pos_mod_sign [of MS_PER_DAY anchor]
  by (simp_all add: anchor_time_def MS_PER_DAY_def)

lemma month_of_time:
  defines "k \<equiv> \<lambda>now. month_index (now div MS_PER_DAY)"
  shows "month_start (k now) * MS_PER_DAY \<le> now" "now < month_start (k now + 1) * MS_PER_DAY"
  using month_index [of "now div MS_PER_DAY"] div_bounds [OF refl, of MS_PER_DAY now]
  by (simp_all add: k_def MS_PER_DAY_def)

text \<open>From 1970 on, the window of \<open>now\<close> is the one between two anchors that contains it.\<close>

definition anchor_month :: "ms \<Rightarrow> ms \<Rightarrow> int" where
  "anchor_month now anchor =
     (let k = month_index (now div MS_PER_DAY) in if anchor_time anchor k > now then k - 1 else k)"

lemma anchor_month:
  fixes now anchor
  shows "anchor_time anchor (anchor_month now anchor) \<le> now"
    and "now < anchor_time anchor (anchor_month now anchor + 1)"
proof -
  define k where "k = month_index (now div MS_PER_DAY)"
  have "anchor_time anchor (k - 1) \<le> now" "now < anchor_time anchor (k + 1)"
    using month_of_time [of now] anchor_time_bounds(2) [where k = "k - 1" and anchor = anchor]
      anchor_time_bounds(1) [where k = "k + 1" and anchor = anchor]
    by (simp_all add: k_def)
  then show "anchor_time anchor (anchor_month now anchor) \<le> now"
    "now < anchor_time anchor (anchor_month now anchor + 1)"
    unfolding anchor_month_def Let_def k_def [symmetric] by auto
qed

lemma year_from_1969:
  assumes "0 \<le> now"
  shows "1969 \<le> getUTCFullYear now"
proof -
  have "0 \<le> now div MS_PER_DAY" using assms by (simp add: MS_PER_DAY_def)
  then have "400 * day_from_year (getUTCFullYear now + 1) > 0"
    using year_of_day(2) [of "now div MS_PER_DAY"] by (simp add: getUTCFullYear_def)
  then show ?thesis using day_from_year_bounds(2) [of "getUTCFullYear now + 1"] by (simp add: algebra_simps)
qed

lemma monthBounds_alt:
  assumes "0 \<le> now"
  shows "monthBounds now anchor = \<lparr>wb_start = anchor_time anchor (anchor_month now anchor),
    wb_end = anchor_time anchor (anchor_month now anchor + 1)\<rparr>"
proof -
  let ?y = "getUTCFullYear now" and ?m = "getUTCMonth now"
  define k where "k = month_index (now div MS_PER_DAY)"
  have k: "12 * ?y + ?m = k" by (simp add: k_def month_index_def getUTCFullYear_def getUTCMonth_def)
  have m: "0 \<le> ?m" using month_index(3) [of "now div MS_PER_DAY"] by (simp add: getUTCMonth_def)
  have big: "20000 \<le> k" using year_from_1969 [OF assms] m k by linarith
  have at: "month_at anchor y m = anchor_time anchor (12 * y + m)" if "100 \<le> y" for y m
    using month_at_alt [OF that] by (simp add: anchor_time_def)
  have at': "month_at anchor (j div 12) (j mod 12) = anchor_time anchor j" if "19000 \<le> j" for j
  proof -
    have "100 \<le> j div 12" using that by linarith
    then show ?thesis using at [of "j div 12" "j mod 12"] by simp
  qed
  have shift: "month_shift y m delta = ((12 * y + m + delta) div 12, (12 * y + m + delta) mod 12)" for y m delta
    by (simp add: month_shift_def Let_def mult.commute)
  have start: "month_at anchor ?y ?m = anchor_time anchor k" using at [of ?y ?m] year_from_1969 [OF assms] k by simp
  show ?thesis
    using big k
    by (simp add: monthBounds_def anchor_month_def Let_def start k_def [symmetric] shift at' case_prod_beta)
qed

text \<open>
  The monthly window contains the time it was asked for, whatever the billing anchor (also one on a day
  that the month does not have), and two times that lie in one window are given the same window: the windows
  of an anchor tile the time line, so a month's usage is never split or counted twice.
\<close>

lemma month_window:
  assumes "0 \<le> now" and "0 \<le> now'"
  shows "wb_start (monthBounds now anchor) \<le> now \<and> now < wb_end (monthBounds now anchor) \<and>
    (wb_start (monthBounds now anchor) \<le> now' \<and> now' < wb_end (monthBounds now anchor) \<longrightarrow>
       monthBounds now' anchor = monthBounds now anchor)"
proof -
  have mono: "anchor_time anchor i < anchor_time anchor j" if "i < j" for i j
  proof -
    have "month_start (i + 1) \<le> month_start j" using that by (simp add: month_start_mono)
    then have "month_start (i + 1) * MS_PER_DAY \<le> month_start j * MS_PER_DAY" by (simp add: MS_PER_DAY_def)
    then show ?thesis using anchor_time_bounds(2) [where k = i and anchor = anchor]
        anchor_time_bounds(1) [where k = j and anchor = anchor] by linarith
  qed
  have mono': "anchor_time anchor i \<le> anchor_time anchor j" if "i \<le> j" for i j
    using mono [of i j] that by (cases "i = j") auto
  have "anchor_month now' anchor = anchor_month now anchor"
    if "anchor_time anchor (anchor_month now anchor) \<le> now'"
      "now' < anchor_time anchor (anchor_month now anchor + 1)"
    using that anchor_month [where now = now' and anchor = anchor] mono' [of "anchor_month now anchor + 1" "anchor_month now' anchor"]
      mono' [of "anchor_month now' anchor + 1" "anchor_month now anchor"]
    by (cases "anchor_month now anchor" "anchor_month now' anchor" rule: linorder_cases) auto
  then show ?thesis using anchor_month [where now = now and anchor = anchor]
    by (auto simp: monthBounds_alt [OF assms(1)] monthBounds_alt [OF assms(2)])
qed

lemma weekBounds_contains:
  "wb_start (weekBounds now) \<le> now" "now < wb_end (weekBounds now)"
  "(wb_start (weekBounds now) div MS_PER_DAY + 3) mod 7 = 0"
proof -
  let ?d = "now div MS_PER_DAY"
  define r where "r = (?d + 3) mod 7"
  have "(getUTCDay now + 6) mod 7 = (?d + 3 + 7) mod 7" unfolding getUTCDay_def mod_add_left_eq by (simp add: add.assoc)
  then have "(getUTCDay now + 6) mod 7 = r" unfolding mod_add_self2 r_def .
  then have w: "weekBounds now = \<lparr>wb_start = (?d - r) * MS_PER_DAY, wb_end = (?d - r) * MS_PER_DAY + 604800000\<rparr>"
    unfolding weekBounds_def Let_def by simp
  have r: "0 \<le> r" "r < 7" by (simp_all add: r_def)
  have d: "MS_PER_DAY * ?d \<le> now" "now < MS_PER_DAY * ?d + MS_PER_DAY"
    using div_bounds [OF refl, of MS_PER_DAY now] by (simp_all add: MS_PER_DAY_def)
  show "wb_start (weekBounds now) \<le> now" "now < wb_end (weekBounds now)"
    using r d unfolding w by (simp_all add: MS_PER_DAY_def algebra_simps)
  have "7 dvd (?d + 3) - (?d + 3) mod 7" by (rule dvd_minus_mod)
  then show "(wb_start (weekBounds now) div MS_PER_DAY + 3) mod 7 = 0"
    unfolding w r_def [symmetric] by (simp add: MS_PER_DAY_def algebra_simps)
qed

end
