(* ===== verification/Owner_Billing.thy ===== *)
theory Owner_Billing
  imports Calendar Gateway_Limits
begin

text \<open>
  The owner's billing ledger: \<open>workers/cloud-builder/src/owner-store/domains/billing.ts\<close>, with the plan lookup
  of \<open>billing/plans.ts\<close> and the fixed-window limit of \<open>owner-store/rate-limit.ts\<close>.

  The state is the domain's tables. The billing configuration, which the Worker's secrets give, and what
  Stripe answers for a subscription are arguments. A dollar amount is an exact rational; a cost that is
  reported in micro-cents is a rational that the code floors. Handling a Stripe event awaits the fetch of the
  subscription: the handler is cut there, into the part that ends in the fetch and the part that goes on
  with what was fetched; neither keeps a row across the await.
\<close>

subsection \<open>Configuration\<close>

datatype billing_plan = PlanFree | PlanGo | PlanPro

fun plan_text :: "billing_plan \<Rightarrow> string" where
  "plan_text PlanFree = ''free''"
| "plan_text PlanGo = ''go''"
| "plan_text PlanPro = ''pro''"

record plan_config =
  pc_label :: string
  pc_rollingLimitUsd :: rat
  pc_rollingWindowHours :: rat
  pc_weeklyLimitUsd :: rat
  pc_monthlyLimitUsd :: rat
  pc_lifetimeLimitUsd :: "rat option"
  pc_cloudSandbox :: bool

record billing_config =
  bc_enabled :: bool
  bc_free :: plan_config
  bc_go :: plan_config
  bc_pro :: plan_config
  bc_anonymous :: plan_config
  bc_freeEmailAllowanceShare :: rat
  bc_stripeGo :: string
  bc_stripePro :: string

fun config_plans :: "billing_config \<Rightarrow> billing_plan \<Rightarrow> plan_config" where
  "config_plans c PlanFree = bc_free c"
| "config_plans c PlanGo = bc_go c"
| "config_plans c PlanPro = bc_pro c"

definition openPlan :: "string \<Rightarrow> plan_config" where
  "openPlan label =
     \<lparr>pc_label = label, pc_rollingLimitUsd = 1000000, pc_rollingWindowHours = 5, pc_weeklyLimitUsd = 1000000,
      pc_monthlyLimitUsd = 1000000, pc_lifetimeLimitUsd = None, pc_cloudSandbox = True\<rparr>"

definition OPEN_BILLING_CONFIG :: billing_config where
  "OPEN_BILLING_CONFIG =
     \<lparr>bc_enabled = False, bc_free = openPlan ''Free'', bc_go = openPlan ''Go'', bc_pro = openPlan ''Pro'',
      bc_anonymous = openPlan ''Anonymous'', bc_freeEmailAllowanceShare = 1, bc_stripeGo = [], bc_stripePro = []\<rparr>"

definition planForStripePrice :: "billing_config \<Rightarrow> string option \<Rightarrow> billing_plan option" where
  "planForStripePrice c priceId =
     (if priceId = None \<or> priceId = Some [] \<or> \<not> bc_enabled c then None
      else if Some (bc_stripeGo c) = priceId then Some PlanGo
      else if Some (bc_stripePro c) = priceId then Some PlanPro
      else None)"

subsection \<open>Tables\<close>

definition MICRO_CENTS_PER_USD :: rat where "MICRO_CENTS_PER_USD = 100000000"
definition LIFETIME_RETRY_AFTER_MS :: ms where "LIFETIME_RETRY_AFTER_MS = 24 * 60 * 60 * 1000"
definition GRANT_SETTLEMENT_GRACE_MS :: ms where "GRANT_SETTLEMENT_GRACE_MS = 10 * 60 * 1000"
definition RECEIPT_RETENTION_MS :: ms where "RECEIPT_RETENTION_MS = 30 * 24 * 60 * 60 * 1000"
definition ACTIVE_SUBSCRIPTION_STATUSES :: "string list" where
  "ACTIVE_SUBSCRIPTION_STATUSES = [''active'', ''trialing'', ''past_due'']"

record account_row =
  ac_plan :: string
  ac_usageMode :: string
  ac_subscriptionStatus :: string
  ac_customer :: "string option"
  ac_subscription :: "string option"
  ac_price :: "string option"
  ac_periodEnd :: ms
  ac_cancelAtPeriodEnd :: bool
  ac_cardBrand :: "string option"
  ac_cardLast4 :: "string option"
  ac_anchor :: ms
  ac_rollingUsed :: int
  ac_rollingStart :: ms
  ac_weeklyUsed :: int
  ac_weeklyStart :: ms
  ac_monthlyUsed :: int
  ac_monthlyStart :: ms
  ac_totalUsed :: int
  ac_totalRequests :: int
  ac_creditBalance :: int
  ac_creditPurchased :: int
  ac_creditConsumed :: int
  ac_anonymous :: bool
  ac_identityLevel :: int
  ac_reportedPlan :: "string option"
  ac_updatedAt :: ms

record grant_row =
  gr_jti :: string
  gr_budget :: int
  gr_settled :: int
  gr_expiresAt :: ms

record receipt_row =
  rc_id :: string
  rc_charged :: int
  rc_createdAt :: ms

record purchase_row =
  pu_session :: string
  pu_amount :: int
  pu_createdAt :: ms

record billing_store =
  bs_account :: "account_row option"
  bs_grants :: "grant_row list"
  bs_receipts :: "receipt_row list"
  bs_stripeEvents :: "(string \<times> ms) list"
  bs_purchases :: "purchase_row list"
  bs_rateLimits :: "(string \<times> ms \<times> int) list"

definition empty_billing_store :: billing_store where
  "empty_billing_store =
     \<lparr>bs_account = None, bs_grants = [], bs_receipts = [], bs_stripeEvents = [], bs_purchases = [],
      bs_rateLimits = []\<rparr>"

subsection \<open>The account row\<close>

definition defaultAccount :: "ms \<Rightarrow> account_row" where
  "defaultAccount now =
     \<lparr>ac_plan = ''free'', ac_usageMode = ''default'', ac_subscriptionStatus = ''none'', ac_customer = None,
      ac_subscription = None, ac_price = None, ac_periodEnd = 0, ac_cancelAtPeriodEnd = False,
      ac_cardBrand = None, ac_cardLast4 = None, ac_anchor = now, ac_rollingUsed = 0, ac_rollingStart = now,
      ac_weeklyUsed = 0, ac_weeklyStart = wb_start (weekBounds now), ac_monthlyUsed = 0,
      ac_monthlyStart = wb_start (monthBounds now now), ac_totalUsed = 0, ac_totalRequests = 0,
      ac_creditBalance = 0, ac_creditPurchased = 0, ac_creditConsumed = 0, ac_anonymous = False,
      ac_identityLevel = 1, ac_reportedPlan = None, ac_updatedAt = now\<rparr>"

definition readAccount :: "ms \<Rightarrow> billing_store \<Rightarrow> account_row" where
  "readAccount now st = coalesce (bs_account st) (defaultAccount now)"

text \<open>The row, inserted when it is missing; the account that is written is the one that was read.\<close>

definition ensureAccount :: "ms \<Rightarrow> billing_store \<Rightarrow> account_row \<times> billing_store" where
  "ensureAccount now st =
     (case bs_account st of
        Some row \<Rightarrow> (row, st)
      | None \<Rightarrow> let created = defaultAccount now in (created, st\<lparr>bs_account := Some created\<rparr>))"

definition updateAccount :: "(account_row \<Rightarrow> account_row) \<Rightarrow> billing_store \<Rightarrow> billing_store" where
  "updateAccount f st = st\<lparr>bs_account := map_option f (bs_account st)\<rparr>"

definition account_plan :: "account_row \<Rightarrow> billing_plan" where
  "account_plan row =
     (if ac_plan row = ''go'' then PlanGo else if ac_plan row = ''pro'' then PlanPro else PlanFree)"

definition subscribed :: "account_row \<Rightarrow> bool" where
  "subscribed row \<longleftrightarrow>
     account_plan row \<noteq> PlanFree \<and> ac_subscriptionStatus row \<in> set ACTIVE_SUBSCRIPTION_STATUSES"

definition isPaying :: "account_row \<Rightarrow> bool" where
  "isPaying row \<longleftrightarrow> subscribed row \<or> ac_creditBalance row > 0"

definition identityLevel :: "account_row \<Rightarrow> int" where
  "identityLevel row =
     (if ac_anonymous row then 0 else if isPaying row then 3 else min 2 (max 1 (ac_identityLevel row)))"

subsection \<open>Usage against the windows\<close>

record usage_window =
  uw_used :: int
  uw_limit :: int
  uw_resetAt :: ms

definition uw_exceeded :: "usage_window \<Rightarrow> bool" where
  "uw_exceeded w \<longleftrightarrow> uw_used w \<ge> uw_limit w"

record usage_snapshot =
  us_rolling :: usage_window
  us_weekly :: usage_window
  us_monthly :: usage_window
  us_lifetime :: "usage_window option"
  us_rollingStart :: ms
  us_weeklyStart :: ms
  us_monthlyStart :: ms

definition usage_plan :: "billing_config \<Rightarrow> account_row \<Rightarrow> plan_config" where
  "usage_plan c row = (if ac_anonymous row then bc_anonymous c else config_plans c (account_plan row))"

definition usage_share :: "billing_config \<Rightarrow> account_row \<Rightarrow> rat" where
  "usage_share c row =
     (if \<not> ac_anonymous row \<and> account_plan row = PlanFree \<and> identityLevel row = 1
      then bc_freeEmailAllowanceShare c else 1)"

definition usage_limit :: "rat \<Rightarrow> rat \<Rightarrow> int" where
  "usage_limit share usd = js_round (usd * share * MICRO_CENTS_PER_USD)"

definition usageSnapshot :: "billing_config \<Rightarrow> account_row \<Rightarrow> ms \<Rightarrow> usage_snapshot" where
  "usageSnapshot c row now =
     (let planConfig = usage_plan c row;
          limit = usage_limit (usage_share c row);
          rollingMs = max 1 \<lfloor>pc_rollingWindowHours planConfig * 60 * 60 * 1000\<rfloor>;
          rollingActive = (ac_rollingStart row > 0 \<and> ac_rollingStart row \<ge> now - rollingMs);
          rollingStart = (if rollingActive then ac_rollingStart row else now);
          week = weekBounds now;
          weeklyActive = (ac_weeklyStart row \<ge> wb_start week);
          month = monthBounds now (if ac_anchor row > 0 then ac_anchor row else now);
          monthlyActive = (ac_monthlyStart row \<ge> wb_start month)
      in \<lparr>us_rolling = \<lparr>uw_used = (if rollingActive then ac_rollingUsed row else 0),
                         uw_limit = limit (pc_rollingLimitUsd planConfig), uw_resetAt = rollingStart + rollingMs\<rparr>,
          us_weekly = \<lparr>uw_used = (if weeklyActive then ac_weeklyUsed row else 0),
                        uw_limit = limit (pc_weeklyLimitUsd planConfig), uw_resetAt = wb_end week\<rparr>,
          us_monthly = \<lparr>uw_used = (if monthlyActive then ac_monthlyUsed row else 0),
                         uw_limit = limit (pc_monthlyLimitUsd planConfig), uw_resetAt = wb_end month\<rparr>,
          us_lifetime = map_option (\<lambda>usd. \<lparr>uw_used = ac_totalUsed row, uw_limit = limit usd,
                                          uw_resetAt = now + LIFETIME_RETRY_AFTER_MS\<rparr>)
                          (pc_lifetimeLimitUsd planConfig),
          us_rollingStart = rollingStart,
          us_weeklyStart = (if weeklyActive then ac_weeklyStart row else wb_start week),
          us_monthlyStart = (if monthlyActive then ac_monthlyStart row else wb_start month)\<rparr>)"

definition window_room :: "usage_window \<Rightarrow> int" where
  "window_room w = uw_limit w - uw_used w"

definition includedHeadroom :: "usage_snapshot \<Rightarrow> int" where
  "includedHeadroom s =
     max 0 (min (min (window_room (us_rolling s)) (window_room (us_weekly s)))
       (case us_lifetime s of
          None \<Rightarrow> window_room (us_monthly s)
        | Some w \<Rightarrow> min (window_room (us_monthly s)) (window_room w)))"

record billing_access =
  ba_plan :: billing_plan
  ba_isAnonymous :: bool
  ba_identityLevel :: int
  ba_unlimited :: bool
  ba_allowed :: bool
  ba_downgraded :: bool
  ba_audience :: string
  ba_retryAfterMs :: ms
  ba_remaining :: "int option"

definition audienceFor :: "billing_plan \<Rightarrow> bool \<Rightarrow> bool \<Rightarrow> string" where
  "audienceFor current anonymous downgraded =
     (if anonymous then ''anonymous'' else if current = PlanFree then ''free''
      else if downgraded then plan_text current @ ''_fallback'' else plan_text current)"

definition window_blocks :: "int \<Rightarrow> usage_window \<Rightarrow> bool" where
  "window_blocks credit w \<longleftrightarrow> max 0 (window_room w) + credit \<le> 0"

definition blocking_window :: "int \<Rightarrow> usage_snapshot \<Rightarrow> usage_window option" where
  "blocking_window credit s =
     (case us_lifetime s of
        Some w \<Rightarrow>
          if window_blocks credit w then Some w
          else find (window_blocks credit) [us_rolling s, us_weekly s, us_monthly s]
      | None \<Rightarrow> find (window_blocks credit) [us_rolling s, us_weekly s, us_monthly s])"

definition accessFor :: "billing_config \<Rightarrow> account_row \<Rightarrow> ms \<Rightarrow> billing_access" where
  "accessFor c row now =
     (let current = (if bc_enabled c then account_plan row else PlanPro);
          unlimited = (ac_usageMode row = ''unlimited'' \<or> \<not> bc_enabled c);
          snapshot = usageSnapshot c row now;
          credit = max 0 (ac_creditBalance row);
          base = \<lparr>ba_plan = current, ba_isAnonymous = ac_anonymous row, ba_identityLevel = identityLevel row,
                  ba_unlimited = unlimited, ba_allowed = True, ba_downgraded = False, ba_audience = [],
                  ba_retryAfterMs = 0,
                  ba_remaining = (if unlimited then None else Some (includedHeadroom snapshot + credit))\<rparr>
      in case (if unlimited then None else blocking_window credit snapshot) of
           None \<Rightarrow> base\<lparr>ba_audience := audienceFor current (ac_anonymous row \<and> bc_enabled c) False\<rparr>
         | Some w \<Rightarrow>
             let retry = max 1000 (uw_resetAt w - now) in
             if current = PlanFree
             then base\<lparr>ba_allowed := False, ba_audience := audienceFor current (ac_anonymous row) False,
                       ba_retryAfterMs := retry\<rparr>
             else base\<lparr>ba_downgraded := True, ba_audience := audienceFor current (ac_anonymous row) True,
                       ba_retryAfterMs := retry\<rparr>)"

subsection \<open>Grants\<close>

fun GATEWAY_SESSION_BUDGET_CHUNK_MICRO_CENTS :: "limits_audience \<Rightarrow> int" where
  "GATEWAY_SESSION_BUDGET_CHUNK_MICRO_CENTS LAnonymous = 10000000"
| "GATEWAY_SESSION_BUDGET_CHUNK_MICRO_CENTS LFree = 100000000"
| "GATEWAY_SESSION_BUDGET_CHUNK_MICRO_CENTS LGo = 200000000"
| "GATEWAY_SESSION_BUDGET_CHUNK_MICRO_CENTS LPro = 500000000"

definition grant_held :: "grant_row \<Rightarrow> int" where
  "grant_held r = max 0 (gr_budget r - gr_settled r)"

definition reservedGrants :: "ms \<Rightarrow> grant_row list \<Rightarrow> int" where
  "reservedGrants now grants =
     coalesce (sql_sum (map grant_held
       (filter (\<lambda>r. gr_expiresAt r + GRANT_SETTLEMENT_GRACE_MS \<ge> now) grants))) 0"

definition capabilityBudget :: "billing_access \<Rightarrow> int \<Rightarrow> int" where
  "capabilityBudget access reserved =
     (case ba_remaining access of
        None \<Rightarrow> GATEWAY_BUDGET_UNLIMITED
      | Some remaining \<Rightarrow>
          min (max 0 (remaining - reserved))
            (GATEWAY_SESSION_BUDGET_CHUNK_MICRO_CENTS (limitsAudienceFor (ba_audience access))))"

definition recordBillingIdentity :: "bool \<Rightarrow> int option \<Rightarrow> ms \<Rightarrow> billing_store \<Rightarrow> billing_store" where
  "recordBillingIdentity anonymous level now st =
     (let (row, st1) = ensureAccount now st;
          lvl = coalesce level (ac_identityLevel row)
      in if ac_anonymous row = anonymous \<and> ac_identityLevel row = lvl then st1
         else updateAccount (\<lambda>r. r\<lparr>ac_anonymous := anonymous, ac_identityLevel := lvl\<rparr>) st1)"

definition billingPaying :: "ms \<Rightarrow> billing_store \<Rightarrow> bool" where
  "billingPaying now st = isPaying (readAccount now st)"

text \<open>The configuration is \<open>None\<close> where loading it throws.\<close>

definition billingPlan :: "billing_config option \<Rightarrow> ms \<Rightarrow> billing_store \<Rightarrow> billing_plan \<times> bool" where
  "billingPlan c now st =
     (if (case c of None \<Rightarrow> False | Some x \<Rightarrow> \<not> bc_enabled x) then (PlanPro, True)
      else let row = readAccount now st in (account_plan row, ac_usageMode row = ''unlimited''))"

definition billingAccess :: "billing_config \<Rightarrow> ms \<Rightarrow> billing_store \<Rightarrow> billing_access" where
  "billingAccess c now st = accessFor c (readAccount now st) now"

definition subscribedPlan :: "account_row \<Rightarrow> billing_plan" where
  "subscribedPlan row = (if subscribed row then account_plan row else PlanFree)"

definition cloudSandboxAccess :: "billing_config option \<Rightarrow> ms \<Rightarrow> billing_store \<Rightarrow> bool" where
  "cloudSandboxAccess config now st =
     (case config of
        None \<Rightarrow> False
      | Some c \<Rightarrow>
          if \<not> bc_enabled c then pc_cloudSandbox (bc_pro c)
          else let row = readAccount now st in
               if ac_anonymous row then pc_cloudSandbox (bc_anonymous c)
               else pc_cloudSandbox (config_plans c (subscribedPlan row)))"

definition turnAllowance :: "billing_config \<Rightarrow> ms \<Rightarrow> billing_store \<Rightarrow> billing_plan \<times> int \<times> string \<times> int" where
  "turnAllowance c now st =
     (let access = billingAccess c now st
      in (ba_plan access, ba_identityLevel access, ba_audience access,
          capabilityBudget access (reservedGrants now (bs_grants st))))"

definition pruneGrants :: "ms \<Rightarrow> billing_store \<Rightarrow> billing_store" where
  "pruneGrants now st =
     st\<lparr>bs_grants := sql_delete (\<lambda>r. gr_expiresAt r + GRANT_SETTLEMENT_GRACE_MS < now) (bs_grants st)\<rparr>"

text \<open>\<open>None\<close> when the insertion of the grant meets a grant of the same id and throws.\<close>

definition reserveSessionGrant ::
  "billing_config \<Rightarrow> string \<Rightarrow> ms \<Rightarrow> ms \<Rightarrow> billing_store \<Rightarrow> (billing_access \<times> int) option \<times> billing_store" where
  "reserveSessionGrant c jti expiresAt now st =
     (let st1 = pruneGrants now st;
          access = billingAccess c now st1;
          budget = capabilityBudget access (reservedGrants now (bs_grants st1))
      in if budget = GATEWAY_BUDGET_UNLIMITED then (Some (access, budget), st1)
         else if find_row gr_jti jti (bs_grants st1) \<noteq> None then (None, st1)
         else (Some (access, budget),
               st1\<lparr>bs_grants := bs_grants st1 @
                 [\<lparr>gr_jti = jti, gr_budget = budget, gr_settled = 0, gr_expiresAt = expiresAt\<rparr>]\<rparr>))"

definition reserveUsage ::
  "billing_config \<Rightarrow> string \<Rightarrow> rat \<Rightarrow> ms \<Rightarrow> ms \<Rightarrow> billing_store \<Rightarrow> (billing_access \<times> bool) \<times> billing_store" where
  "reserveUsage c i budgetMicroCents expiresAt now st =
     (let st1 = pruneGrants now st;
          access = billingAccess c now st1;
          budget = max 0 \<lceil>budgetMicroCents\<rceil>
      in if \<not> ba_allowed access then ((access, False), st1)
         else case ba_remaining access of
           None \<Rightarrow> ((access, True), st1)
         | Some remaining \<Rightarrow>
             if remaining - reservedGrants now (bs_grants st1) < budget then ((access, False), st1)
             else ((access, True),
                   st1\<lparr>bs_grants := sql_delete (\<lambda>r. gr_jti r = i) (bs_grants st1) @
                     [\<lparr>gr_jti = i, gr_budget = budget, gr_settled = 0, gr_expiresAt = expiresAt\<rparr>]\<rparr>))"

definition settleGrant :: "string \<Rightarrow> int \<Rightarrow> billing_store \<Rightarrow> billing_store" where
  "settleGrant i amount st =
     st\<lparr>bs_grants := sql_update (\<lambda>r. gr_jti r = i) (\<lambda>r. r\<lparr>gr_settled := gr_settled r + amount\<rparr>) (bs_grants st)\<rparr>"

definition settleReservation :: "string \<Rightarrow> rat \<Rightarrow> billing_store \<Rightarrow> billing_store" where
  "settleReservation i cost st = settleGrant i (max 0 \<lfloor>cost\<rfloor>) st"

definition releaseReservation :: "string \<Rightarrow> billing_store \<Rightarrow> billing_store" where
  "releaseReservation i st = st\<lparr>bs_grants := sql_delete (\<lambda>r. gr_jti r = i) (bs_grants st)\<rparr>"

subsection \<open>Settling usage\<close>

definition charge :: "billing_config \<Rightarrow> rat \<Rightarrow> ms \<Rightarrow> billing_store \<Rightarrow> billing_store" where
  "charge c costMicroCents now st =
     (let cost = max 0 \<lfloor>costMicroCents\<rfloor>;
          (row, st1) = ensureAccount now st;
          s = usageSnapshot c row now;
          fromCredit = (if ac_usageMode row = ''unlimited'' then 0
                        else min (max 0 (ac_creditBalance row)) (max 0 (cost - includedHeadroom s)))
      in updateAccount (\<lambda>r. r\<lparr>
             ac_rollingUsed := uw_used (us_rolling s) + cost, ac_rollingStart := us_rollingStart s,
             ac_weeklyUsed := uw_used (us_weekly s) + cost, ac_weeklyStart := us_weeklyStart s,
             ac_monthlyUsed := uw_used (us_monthly s) + cost, ac_monthlyStart := us_monthlyStart s,
             ac_totalUsed := ac_totalUsed row + cost, ac_totalRequests := ac_totalRequests row + 1,
             ac_creditBalance := ac_creditBalance row - fromCredit,
             ac_creditConsumed := ac_creditConsumed row + fromCredit, ac_updatedAt := now\<rparr>) st1)"

definition claimReceipt :: "string \<Rightarrow> rat \<Rightarrow> ms \<Rightarrow> billing_store \<Rightarrow> bool \<times> billing_store" where
  "claimReceipt i charged now st =
     (if find_row rc_id i (bs_receipts st) \<noteq> None then (False, st)
      else (True, st\<lparr>bs_receipts := bs_receipts st @
             [\<lparr>rc_id = i, rc_charged = max 0 \<lfloor>charged\<rfloor>, rc_createdAt = now\<rparr>]\<rparr>))"

definition pruneReceipts :: "ms \<Rightarrow> billing_store \<Rightarrow> billing_store" where
  "pruneReceipts now st =
     st\<lparr>bs_receipts := sql_delete (\<lambda>r. rc_createdAt r < now - RECEIPT_RETENTION_MS) (bs_receipts st)\<rparr>"

record usage_event =
  ue_requestId :: string
  ue_capabilityId :: string
  ue_ownerId :: string
  ue_charged :: rat
  ue_outcome :: string
  ue_billable :: bool

datatype usage_verdict = UsageAccepted | UsageDuplicate | UsageRejected

definition applyUsageEvent ::
  "billing_config \<Rightarrow> string \<Rightarrow> ms \<Rightarrow> usage_event \<Rightarrow> billing_store \<Rightarrow> usage_verdict \<times> billing_store" where
  "applyUsageEvent c ownerId now ev st =
     (if ue_ownerId ev \<noteq> ownerId then (UsageRejected, st)
      else
        let charged = max 0 \<lfloor>ue_charged ev\<rfloor> in
        case claimReceipt (''gw:'' @ ue_requestId ev) (of_int charged) now st of
          (False, st1) \<Rightarrow> (UsageDuplicate, st1)
        | (True, st1) \<Rightarrow>
            let st2 = settleGrant (ue_capabilityId ev) charged st1
            in (UsageAccepted,
                if ue_billable ev \<and> ue_outcome ev \<noteq> ''failed'' then charge c (of_int charged) now st2 else st2))"

fun applyUsageEvents ::
  "billing_config \<Rightarrow> string \<Rightarrow> ms \<Rightarrow> usage_event list \<Rightarrow> billing_store \<Rightarrow> usage_verdict list \<times> billing_store" where
  "applyUsageEvents c ownerId now [] st = ([], st)"
| "applyUsageEvents c ownerId now (ev # evs) st =
     (let (v, st1) = applyUsageEvent c ownerId now ev st;
          (vs, st2) = applyUsageEvents c ownerId now evs st1
      in (v # vs, st2))"

text \<open>The verdicts stand for the three lists of request ids, in the order of the events.\<close>

definition applyGatewayUsage ::
  "billing_config \<Rightarrow> string \<Rightarrow> usage_event list \<Rightarrow> ms \<Rightarrow> billing_store \<Rightarrow> usage_verdict list \<times> billing_store" where
  "applyGatewayUsage c ownerId evs now st = applyUsageEvents c ownerId now evs (pruneReceipts now st)"

fun recordUsages ::
  "billing_config \<Rightarrow> ms \<Rightarrow> (string \<times> rat) list \<Rightarrow> billing_store \<Rightarrow> int \<times> billing_store" where
  "recordUsages c now [] st = (0, st)"
| "recordUsages c now ((i, cost) # rs) st =
     (case claimReceipt (''use:'' @ i) cost now st of
        (False, st1) \<Rightarrow> recordUsages c now rs st1
      | (True, st1) \<Rightarrow>
          (let (n, st2) = recordUsages c now rs (charge c cost now st1) in (n + 1, st2)))"

definition recordUsage ::
  "billing_config \<Rightarrow> (string \<times> rat) list \<Rightarrow> ms \<Rightarrow> billing_store \<Rightarrow> (int \<times> int) \<times> billing_store" where
  "recordUsage c rs now st =
     (let (n, st1) = recordUsages c now rs (pruneReceipts now st) in ((n, int (length rs) - n), st1))"

subsection \<open>Plans\<close>

definition resetWindows :: "ms \<Rightarrow> ms \<Rightarrow> account_row \<Rightarrow> account_row" where
  "resetWindows now anchor r =
     r\<lparr>ac_rollingUsed := 0, ac_rollingStart := now, ac_weeklyUsed := 0,
       ac_weeklyStart := wb_start (weekBounds now), ac_monthlyUsed := 0,
       ac_monthlyStart := wb_start (monthBounds now anchor)\<rparr>"

definition setAdminPlan ::
  "billing_plan option \<Rightarrow> string option \<Rightarrow> bool option \<Rightarrow> ms \<Rightarrow> billing_store \<Rightarrow> billing_store" where
  "setAdminPlan new_plan usageMode resetUsage now st =
     (let (row, st1) = ensureAccount now st;
          nextPlan = coalesce new_plan (account_plan row);
          planChanged = (nextPlan \<noteq> account_plan row);
          mode = coalesce usageMode (if planChanged then ''default'' else ac_usageMode row);
          anchor = (if nextPlan = PlanFree then ac_anchor row else now);
          reset = coalesce resetUsage (planChanged \<or> mode \<noteq> ac_usageMode row)
      in updateAccount (\<lambda>r.
           let r1 = r\<lparr>ac_plan := plan_text nextPlan, ac_usageMode := mode,
                      ac_subscriptionStatus := (if nextPlan = PlanFree then ''none'' else ''active''),
                      ac_periodEnd := 0, ac_cancelAtPeriodEnd := False, ac_anchor := anchor\<rparr>
           in (if reset then resetWindows now anchor r1 else r1)\<lparr>ac_updatedAt := now\<rparr>) st1)"

record stripe_subscription =
  ss_id :: string
  ss_status :: string
  ss_customer :: string
  ss_cancelAtPeriodEnd :: bool
  ss_price :: "string option"
  ss_itemStart :: "int option"
  ss_itemEnd :: "int option"
  ss_start :: "int option"
  ss_end :: "int option"
  ss_card :: "(string option \<times> string option) option"

definition subscription_plan :: "billing_config \<Rightarrow> stripe_subscription \<Rightarrow> billing_plan" where
  "subscription_plan c s =
     (case planForStripePrice c (ss_price s) of
        Some paid \<Rightarrow> if ss_status s \<in> set ACTIVE_SUBSCRIPTION_STATUSES then paid else PlanFree
      | None \<Rightarrow> PlanFree)"

definition sync_refused :: "account_row \<Rightarrow> stripe_subscription \<Rightarrow> billing_plan \<Rightarrow> bool" where
  "sync_refused row s nextPlan \<longleftrightarrow>
     (ac_customer row \<noteq> None \<and> ac_customer row \<noteq> Some [] \<and> ac_customer row \<noteq> Some (ss_customer s)) \<or>
     (ac_subscription row \<noteq> None \<and> ac_subscription row \<noteq> Some [] \<and> ac_subscription row \<noteq> Some (ss_id s) \<and>
      nextPlan = PlanFree \<and> account_plan row \<noteq> PlanFree)"

definition syncSubscription ::
  "billing_config \<Rightarrow> stripe_subscription \<Rightarrow> ms \<Rightarrow> billing_store \<Rightarrow> billing_store" where
  "syncSubscription c s now st =
     (let (row, st1) = ensureAccount now st;
          nextPlan = subscription_plan c s;
          periodStart = coalesce (ss_itemStart s) (coalesce (ss_start s) 0) * 1000;
          periodEnd = coalesce (ss_itemEnd s) (coalesce (ss_end s) 0) * 1000;
          anchor = (if nextPlan = PlanFree then ac_anchor row else if periodStart = 0 then now else periodStart)
      in if sync_refused row s nextPlan then st1
         else updateAccount (\<lambda>r.
           let r1 = r\<lparr>ac_plan := plan_text nextPlan,
                      ac_usageMode := (if nextPlan = account_plan row then ac_usageMode row else ''default''),
                      ac_subscriptionStatus := ss_status s, ac_customer := Some (ss_customer s),
                      ac_subscription := Some (ss_id s),
                      ac_price := (if nextPlan = PlanFree then None else ss_price s),
                      ac_periodEnd := periodEnd, ac_cancelAtPeriodEnd := ss_cancelAtPeriodEnd s,
                      ac_anchor := anchor\<rparr>;
               r2 = (case ss_card s of
                       None \<Rightarrow> r1
                     | Some (brand, last4) \<Rightarrow> r1\<lparr>ac_cardBrand := brand, ac_cardLast4 := last4\<rparr>)
           in (if nextPlan \<noteq> account_plan row then resetWindows now anchor r2 else r2)\<lparr>ac_updatedAt := now\<rparr>) st1)"

text \<open>The write that follows the creation of a Stripe customer.\<close>

definition customerCreated :: "string \<Rightarrow> ms \<Rightarrow> billing_store \<Rightarrow> billing_store" where
  "customerCreated customer now st =
     updateAccount (\<lambda>r. r\<lparr>ac_customer := Some customer, ac_updatedAt := now\<rparr>) st"

subsection \<open>Stripe events\<close>

text \<open>
  The fields of \<open>event.data.object\<close> that are read: \<open>so_amountCents\<close> is \<open>Number(metadata.amountCents)\<close> and
  \<open>so_subtotal\<close> is \<open>amount_subtotal\<close>, \<open>None\<close> when it is absent.
\<close>

record stripe_object =
  so_id :: string
  so_mode :: string
  so_purpose :: string
  so_paymentStatus :: string
  so_amountCents :: jsnum
  so_subtotal :: "rat option"
  so_subscription :: "string option"
  so_nestedSubscription :: "string option"

record stripe_event =
  sv_id :: string
  sv_type :: string
  sv_object :: stripe_object

definition subscriptionIdOf :: "stripe_object \<Rightarrow> string option" where
  "subscriptionIdOf x = (case so_subscription x of Some i \<Rightarrow> Some i | None \<Rightarrow> so_nestedSubscription x)"

definition credit_cents :: "stripe_object \<Rightarrow> int" where
  "credit_cents x =
     (case so_amountCents x of
        Fin q \<Rightarrow> if q = of_int \<lfloor>q\<rfloor> \<and> safe_integer \<lfloor>q\<rfloor> \<and> q > 0 then \<lfloor>q\<rfloor>
                 else max 0 \<lfloor>coalesce (so_subtotal x) 0\<rfloor>
      | _ \<Rightarrow> max 0 \<lfloor>coalesce (so_subtotal x) 0\<rfloor>)"

definition creditPurchase :: "stripe_object \<Rightarrow> ms \<Rightarrow> billing_store \<Rightarrow> billing_store" where
  "creditPurchase x now st =
     (if so_paymentStatus x \<noteq> ''paid'' then st
      else if find_row pu_session (so_id x) (bs_purchases st) \<noteq> None then st
      else
        let amount = credit_cents x * 1000000;
            st1 = st\<lparr>bs_purchases := bs_purchases st @
                    [\<lparr>pu_session = so_id x, pu_amount = amount, pu_createdAt = now\<rparr>]\<rparr>;
            (row, st2) = ensureAccount now st1
        in updateAccount (\<lambda>r. r\<lparr>ac_creditBalance := ac_creditBalance row + amount,
                                ac_creditPurchased := ac_creditPurchased row + amount,
                                ac_updatedAt := now\<rparr>) st2)"

definition customerDeleted :: "stripe_object \<Rightarrow> ms \<Rightarrow> billing_store \<Rightarrow> billing_store" where
  "customerDeleted x now st =
     (let (row, st1) = ensureAccount now st in
      if ac_customer row \<noteq> Some (so_id x) then st1
      else updateAccount (\<lambda>r.
        let r1 = r\<lparr>ac_customer := None, ac_subscription := None, ac_price := None,
                   ac_subscriptionStatus := ''none'', ac_cancelAtPeriodEnd := False, ac_periodEnd := 0,
                   ac_cardBrand := None, ac_cardLast4 := None\<rparr>
        in (if account_plan row \<noteq> PlanFree
            then resetWindows now (ac_anchor row) (r1\<lparr>ac_plan := ''free''\<rparr>) else r1)\<lparr>ac_updatedAt := now\<rparr>) st1)"

definition eventSeen :: "stripe_event \<Rightarrow> billing_store \<Rightarrow> bool" where
  "eventSeen ev st \<longleftrightarrow> list_ex (\<lambda>e. fst e = sv_id ev) (bs_stripeEvents st)"

text \<open>A second insertion of the same event id throws, before old events are deleted.\<close>

definition recordStripeEvent :: "stripe_event \<Rightarrow> ms \<Rightarrow> billing_store \<Rightarrow> billing_store" where
  "recordStripeEvent ev now st =
     (if eventSeen ev st then st
      else st\<lparr>bs_stripeEvents := sql_delete (\<lambda>e. snd e < now - RECEIPT_RETENTION_MS)
                (bs_stripeEvents st @ [(sv_id ev, now)])\<rparr>)"

datatype stripe_step = StripeDone | StripeFetch string

definition applyStripeEvent :: "stripe_event \<Rightarrow> ms \<Rightarrow> billing_store \<Rightarrow> stripe_step \<times> billing_store" where
  "applyStripeEvent ev now st =
     (let x = sv_object ev; t = sv_type ev;
          done = (\<lambda>st. (StripeDone, recordStripeEvent ev now st));
          fetch = (case subscriptionIdOf x of
                     Some i \<Rightarrow> if i = [] then done st else (StripeFetch i, st)
                   | None \<Rightarrow> done st)
      in if eventSeen ev st then (StripeDone, st)
         else if t = ''checkout.session.completed'' \<or> t = ''checkout.session.async_payment_succeeded''
         then if so_mode x = ''payment'' \<and> so_purpose x = ''usage_credit'' then done (creditPurchase x now st)
              else fetch
         else if t \<in> {''customer.subscription.created'', ''customer.subscription.updated'',
                      ''customer.subscription.deleted'', ''customer.subscription.paused'',
                      ''customer.subscription.resumed''}
         then (StripeFetch (so_id x), st)
         else if t \<in> {''invoice.paid'', ''invoice.payment_succeeded'', ''invoice.payment_failed''} then fetch
         else if t = ''customer.deleted'' then done (customerDeleted x now st)
         else done st)"

definition applyFetched ::
  "billing_config \<Rightarrow> stripe_event \<Rightarrow> stripe_subscription \<Rightarrow> ms \<Rightarrow> billing_store \<Rightarrow> billing_store" where
  "applyFetched c ev s now st = recordStripeEvent ev now (syncSubscription c s now st)"

subsection \<open>Rate limit of the checkout calls\<close>

definition enforceOwnerRateLimit ::
  "string \<Rightarrow> int \<Rightarrow> ms \<Rightarrow> ms \<Rightarrow> billing_store \<Rightarrow> ms option \<times> billing_store" where
  "enforceOwnerRateLimit scope count windowMs now st =
     (case map_of (bs_rateLimits st) scope of
        Some (start, n) \<Rightarrow>
          if now - start < windowMs
          then if n \<ge> count then (Some (start + windowMs - now), st)
               else (None, st\<lparr>bs_rateLimits := sql_update (\<lambda>r. fst r = scope)
                       (\<lambda>r. (fst r, fst (snd r), snd (snd r) + 1)) (bs_rateLimits st)\<rparr>)
          else (None, st\<lparr>bs_rateLimits := sql_update (\<lambda>r. fst r = scope) (\<lambda>r. (fst r, now, 1)) (bs_rateLimits st)\<rparr>)
      | None \<Rightarrow> (None, st\<lparr>bs_rateLimits := bs_rateLimits st @ [(scope, now, 1)]\<rparr>))"

subsection \<open>Operations\<close>

datatype billing_op =
    OpUsage "usage_event list"
  | OpRecord "(string \<times> rat) list"
  | OpSessionGrant string ms
  | OpReserve string rat ms
  | OpSettle string rat
  | OpRelease string
  | OpIdentity bool "int option"
  | OpAdmin "billing_plan option" "string option" "bool option"
  | OpStripe stripe_event
  | OpFetched stripe_event stripe_subscription
  | OpCustomer string
  | OpRate string int ms

fun billing_step :: "billing_config \<Rightarrow> string \<Rightarrow> billing_op \<Rightarrow> ms \<Rightarrow> billing_store \<Rightarrow> billing_store" where
  "billing_step c ownerId (OpUsage evs) now st = snd (applyGatewayUsage c ownerId evs now st)"
| "billing_step c ownerId (OpRecord rs) now st = snd (recordUsage c rs now st)"
| "billing_step c ownerId (OpSessionGrant jti expiresAt) now st = snd (reserveSessionGrant c jti expiresAt now st)"
| "billing_step c ownerId (OpReserve i budget expiresAt) now st = snd (reserveUsage c i budget expiresAt now st)"
| "billing_step c ownerId (OpSettle i cost) now st = settleReservation i cost st"
| "billing_step c ownerId (OpRelease i) now st = releaseReservation i st"
| "billing_step c ownerId (OpIdentity anonymous level) now st = recordBillingIdentity anonymous level now st"
| "billing_step c ownerId (OpAdmin p mode reset) now st = setAdminPlan p mode reset now st"
| "billing_step c ownerId (OpStripe ev) now st = snd (applyStripeEvent ev now st)"
| "billing_step c ownerId (OpFetched ev s) now st = applyFetched c ev s now st"
| "billing_step c ownerId (OpCustomer customer) now st = customerCreated customer now st"
| "billing_step c ownerId (OpRate scope count windowMs) now st = snd (enforceOwnerRateLimit scope count windowMs now st)"

end
