(* ===== verification/Billing.thy ===== *)
theory Billing
  imports Owner_Billing
begin

text \<open>
  What the billing ledger promises: purchased credit is conserved, usage is charged once, a charge takes from
  what remains exactly what it costs, live grants never hold more than what remains, and a redelivered
  subscription changes nothing.
\<close>

subsection \<open>The invariant\<close>

definition credit_ok :: "account_row \<Rightarrow> purchase_row list \<Rightarrow> bool" where
  "credit_ok a ps \<longleftrightarrow>
     0 \<le> ac_creditBalance a \<and> 0 \<le> ac_creditConsumed a \<and>
     ac_creditPurchased a = ac_creditBalance a + ac_creditConsumed a \<and>
     ac_creditPurchased a = sum_list (map pu_amount ps)"

fun account_ok :: "account_row option \<Rightarrow> purchase_row list \<Rightarrow> bool" where
  "account_ok None ps \<longleftrightarrow> ps = []"
| "account_ok (Some a) ps \<longleftrightarrow> credit_ok a ps"

definition billing_wf :: "billing_store \<Rightarrow> bool" where
  "billing_wf st \<longleftrightarrow>
     account_ok (bs_account st) (bs_purchases st) \<and>
     distinct (map pu_session (bs_purchases st)) \<and>
     distinct (map rc_id (bs_receipts st)) \<and>
     distinct (map gr_jti (bs_grants st)) \<and> (\<forall>r \<in> set (bs_grants st). 0 \<le> gr_budget r \<and> 0 \<le> gr_settled r)"

definition credit_fields :: "account_row \<Rightarrow> int \<times> int \<times> int" where
  "credit_fields a = (ac_creditBalance a, ac_creditConsumed a, ac_creditPurchased a)"

lemma credit_ok_fields: "credit_fields a' = credit_fields a \<Longrightarrow> credit_ok a' ps = credit_ok a ps"
  by (simp add: credit_ok_def credit_fields_def)

lemma wf_ensureAccount:
  assumes "billing_wf st" and "ensureAccount now st = (row, st1)"
  shows "billing_wf st1" "bs_account st1 = Some row" "credit_ok row (bs_purchases st)"
    "bs_purchases st1 = bs_purchases st" "bs_grants st1 = bs_grants st" "bs_receipts st1 = bs_receipts st"
  using assms by (auto simp: ensureAccount_def billing_wf_def credit_ok_def defaultAccount_def Let_def split: option.splits)

lemma wf_updateAccount:
  assumes "billing_wf st" and "\<And>r. bs_account st = Some r \<Longrightarrow> credit_ok (f r) (bs_purchases st)"
  shows "billing_wf (updateAccount f st)"
  using assms by (cases "bs_account st") (simp_all add: updateAccount_def billing_wf_def)

lemma wf_update_fields:
  assumes "billing_wf st" and "\<And>r. credit_fields (f r) = credit_fields r"
  shows "billing_wf (updateAccount f st)"
proof (rule wf_updateAccount [OF assms(1)])
  fix r assume "bs_account st = Some r"
  then have "credit_ok r (bs_purchases st)" using assms(1) by (simp add: billing_wf_def)
  then show "credit_ok (f r) (bs_purchases st)" using credit_ok_fields [OF assms(2)] by blast
qed

lemma resetWindows_fields [simp]: "credit_fields (resetWindows now anchor r) = credit_fields r"
  by (simp add: resetWindows_def credit_fields_def)

lemma credit_fields_simps [simp]: "credit_fields (r\<lparr>ac_updatedAt := t\<rparr>) = credit_fields r"
  by (simp add: credit_fields_def)

lemma wf_charge:
  assumes "billing_wf st"
  shows "billing_wf (charge c cost now st)"
proof -
  obtain row st1 where e: "ensureAccount now st = (row, st1)" by fastforce
  note wf = wf_ensureAccount [OF assms e]
  define d where "d = (if ac_usageMode row = ''unlimited'' then 0
    else min (max 0 (ac_creditBalance row)) (max 0 (max 0 \<lfloor>cost\<rfloor> - includedHeadroom (usageSnapshot c row now))))"
  have "0 \<le> d" "d \<le> ac_creditBalance row" using wf(3) by (auto simp: d_def credit_ok_def)
  then show ?thesis
    using wf unfolding charge_def e Let_def prod.case d_def [symmetric]
    by (intro wf_updateAccount) (auto simp: credit_ok_def)
qed

lemma wf_frame [simp]:
  "billing_wf (st\<lparr>bs_stripeEvents := e\<rparr>) = billing_wf st" "billing_wf (st\<lparr>bs_rateLimits := l\<rparr>) = billing_wf st"
  by (simp_all add: billing_wf_def)

lemma wf_claim: "billing_wf st \<Longrightarrow> billing_wf (snd (claimReceipt i charged now st))"
  by (auto simp: claimReceipt_def billing_wf_def find_row_None)

lemma wf_pruneReceipts: "billing_wf st \<Longrightarrow> billing_wf (pruneReceipts now st)"
  by (simp add: pruneReceipts_def billing_wf_def distinct_map_sql_delete)

lemma wf_settleGrant:
  assumes "billing_wf st" "0 \<le> n"
  shows "billing_wf (settleGrant i n st)"
proof -
  have "map gr_jti (bs_grants (settleGrant i n st)) = map gr_jti (bs_grants st)"
    by (simp add: settleGrant_def map_sql_update_key)
  moreover have "\<forall>r \<in> set (bs_grants (settleGrant i n st)). 0 \<le> gr_budget r \<and> 0 \<le> gr_settled r"
    using assms by (auto simp: settleGrant_def billing_wf_def set_sql_update)
  ultimately show ?thesis using assms by (simp add: settleGrant_def billing_wf_def)
qed

lemma wf_event: "billing_wf st \<Longrightarrow> billing_wf (snd (applyUsageEvent c ownerId now ev st))"
  using wf_claim [of st "''gw:'' @ ue_requestId ev" "of_int (max 0 \<lfloor>ue_charged ev\<rfloor>)" now]
  by (auto simp: applyUsageEvent_def Let_def intro!: wf_charge wf_settleGrant split: prod.splits bool.splits)

lemma wf_usage: "billing_wf st \<Longrightarrow> billing_wf (snd (applyUsageEvents c ownerId now evs st))"
proof (induction evs arbitrary: st)
  case (Cons ev evs)
  then show ?case using wf_event [OF Cons.prems, of c ownerId now ev]
    by (simp add: Let_def case_prod_beta)
qed simp

lemma wf_records: "billing_wf st \<Longrightarrow> billing_wf (snd (recordUsages c now rs st))"
proof (induction rs arbitrary: st)
  case (Cons r rs)
  obtain i cost where r: "r = (i, cost)" by fastforce
  have "billing_wf (snd (claimReceipt (''use:'' @ i) cost now st))" using wf_claim Cons.prems by blast
  then show ?case using Cons r
    by (auto simp: Let_def case_prod_beta intro!: wf_charge split: prod.splits bool.splits)
qed simp

lemma wf_pruneGrants: "billing_wf st \<Longrightarrow> billing_wf (pruneGrants now st)"
  by (simp add: pruneGrants_def billing_wf_def distinct_map_sql_delete)

lemma capabilityBudget_range:
  "capabilityBudget access reserved \<noteq> GATEWAY_BUDGET_UNLIMITED \<Longrightarrow> 0 \<le> capabilityBudget access reserved"
  by (cases "limitsAudienceFor (ba_audience access)")
     (auto simp: capabilityBudget_def split: option.splits)

lemma wf_sessionGrant: "billing_wf st \<Longrightarrow> billing_wf (snd (reserveSessionGrant c jti expiresAt now st))"
  using wf_pruneGrants [of st now] capabilityBudget_range
  by (auto simp: reserveSessionGrant_def Let_def billing_wf_def find_row_None)

lemma wf_reserve: "billing_wf st \<Longrightarrow> billing_wf (snd (reserveUsage c i budget expiresAt now st))"
  using wf_pruneGrants [of st now]
  by (auto simp: reserveUsage_def Let_def billing_wf_def distinct_map_sql_delete split: option.splits)

lemma credit_cents_nonneg: "0 \<le> credit_cents x"
  by (auto simp: credit_cents_def split: jsnum.splits)

lemma wf_creditPurchase:
  assumes "billing_wf st"
  shows "billing_wf (creditPurchase x now st)"
proof (cases "so_paymentStatus x \<noteq> ''paid'' \<or> find_row pu_session (so_id x) (bs_purchases st) \<noteq> None")
  case False
  let ?p = "\<lparr>pu_session = so_id x, pu_amount = credit_cents x * 1000000, pu_createdAt = now\<rparr>"
  have ok: "account_ok (bs_account st) (bs_purchases st)"
    using assms by (simp add: billing_wf_def)
  have "credit_ok (a\<lparr>ac_creditBalance := ac_creditBalance a + credit_cents x * 1000000,
        ac_creditPurchased := ac_creditPurchased a + credit_cents x * 1000000, ac_updatedAt := now\<rparr>)
      (bs_purchases st @ [?p])" if "credit_ok a (bs_purchases st)" for a
    using that credit_cents_nonneg [of x] by (simp add: credit_ok_def)
  moreover have "credit_ok (defaultAccount now) []" by (simp add: credit_ok_def defaultAccount_def)
  ultimately show ?thesis using False ok assms
    by (auto simp: creditPurchase_def ensureAccount_def updateAccount_def Let_def billing_wf_def find_row_None
        split: option.splits)
qed (use assms in \<open>auto simp: creditPurchase_def\<close>)

lemma wf_ensured_update:
  assumes "billing_wf st" and "\<And>row r. credit_fields (f row r) = credit_fields r"
  shows "billing_wf (case ensureAccount now st of (row, st1) \<Rightarrow> updateAccount (f row) st1)"
  using wf_ensureAccount(1) [OF assms(1)] wf_update_fields assms(2) by (auto split: prod.splits)

lemma wf_syncSubscription:
  assumes "billing_wf st"
  shows "billing_wf (syncSubscription c s now st)"
proof -
  obtain row st1 where e: "ensureAccount now st = (row, st1)" by fastforce
  show ?thesis
    using wf_ensureAccount(1) [OF assms e]
    by (auto simp: syncSubscription_def e Let_def credit_fields_def resetWindows_def intro!: wf_update_fields
        split: option.splits)
qed

lemma wf_customerDeleted:
  assumes "billing_wf st"
  shows "billing_wf (customerDeleted x now st)"
proof -
  obtain row st1 where e: "ensureAccount now st = (row, st1)" by fastforce
  show ?thesis
    using wf_ensureAccount(1) [OF assms e]
    by (auto simp: customerDeleted_def e Let_def credit_fields_def resetWindows_def intro!: wf_update_fields)
qed

lemma wf_admin:
  assumes "billing_wf st"
  shows "billing_wf (setAdminPlan p mode reset now st)"
proof -
  obtain row st1 where e: "ensureAccount now st = (row, st1)" by fastforce
  show ?thesis
    using wf_ensureAccount(1) [OF assms e]
    by (auto simp: setAdminPlan_def e Let_def credit_fields_def resetWindows_def intro!: wf_update_fields)
qed

lemma wf_identity:
  assumes "billing_wf st"
  shows "billing_wf (recordBillingIdentity anonymous level now st)"
proof -
  obtain row st1 where e: "ensureAccount now st = (row, st1)" by fastforce
  show ?thesis
    using wf_ensureAccount(1) [OF assms e]
    by (auto simp: recordBillingIdentity_def e Let_def credit_fields_def intro!: wf_update_fields)
qed

lemma wf_recordStripeEvent [simp]: "billing_wf (recordStripeEvent ev now st) = billing_wf st"
  by (simp add: recordStripeEvent_def)

lemma wf_stripe: "billing_wf st \<Longrightarrow> billing_wf (snd (applyStripeEvent ev now st))"
  by (auto simp: applyStripeEvent_def Let_def wf_creditPurchase wf_customerDeleted split: option.splits)

lemma wf_step: "billing_wf st \<Longrightarrow> billing_wf (billing_step c ownerId op now st)"
proof (cases op)
  case (OpUsage evs)
  assume "billing_wf st"
  then show ?thesis using OpUsage by (simp add: applyGatewayUsage_def wf_usage wf_pruneReceipts)
next
  case (OpRecord rs)
  assume "billing_wf st"
  then show ?thesis using OpRecord
    by (simp add: recordUsage_def Let_def case_prod_beta wf_records wf_pruneReceipts)
next
  case (OpRate scope count windowMs)
  assume "billing_wf st"
  then show ?thesis using OpRate by (simp add: enforceOwnerRateLimit_def split: option.splits)
next
  case (OpCustomer customer)
  assume "billing_wf st"
  then show ?thesis using OpCustomer by (simp add: customerCreated_def wf_update_fields credit_fields_def)
next
  case (OpRelease i)
  assume "billing_wf st"
  then show ?thesis using OpRelease by (simp add: releaseReservation_def billing_wf_def distinct_map_sql_delete)
qed (simp_all add: wf_sessionGrant wf_reserve settleReservation_def wf_settleGrant wf_identity wf_admin wf_stripe
    applyFetched_def wf_syncSubscription)

type_synonym billing_call = "billing_config \<times> string \<times> billing_op \<times> ms"

definition billing_call :: "billing_call \<Rightarrow> billing_store \<Rightarrow> billing_store" where
  "billing_call k st = (case k of (c, ownerId, op, now) \<Rightarrow> billing_step c ownerId op now st)"

interpretation billing_ledger: invariant_system billing_call billing_wf
  by unfold_locales (auto simp: billing_call_def wf_step split: prod.splits)


subsection \<open>Purchased credit is conserved\<close>

lemma empty_billing_wf: "billing_wf empty_billing_store"
  by (simp add: billing_wf_def empty_billing_store_def)

text \<open>
  C21: Purchased credit is conserved. Whatever operations ran on an owner's ledger, in whatever order and under
  whatever configurations, every checkout session was credited at most once, the credit left and the credit
  consumed are never negative, and together they are exactly what the recorded purchases paid for.
\<close>

theorem billing_credit_conserved:
  "let st = fold billing_call calls empty_billing_store in
     distinct (map pu_session (bs_purchases st)) \<and>
     (case bs_account st of
        None \<Rightarrow> bs_purchases st = []
      | Some a \<Rightarrow> 0 \<le> ac_creditBalance a \<and> 0 \<le> ac_creditConsumed a \<and>
          ac_creditBalance a + ac_creditConsumed a = ac_creditPurchased a \<and>
          ac_creditPurchased a = sum_list (map pu_amount (bs_purchases st)))"
proof -
  define st where "st = fold billing_call calls empty_billing_store"
  have "billing_wf st" unfolding st_def by (rule billing_ledger.run_inv) (rule empty_billing_wf)
  then show ?thesis unfolding st_def [symmetric] Let_def
    by (cases "bs_account st") (simp_all add: billing_wf_def credit_ok_def)
qed

subsection \<open>Usage is settled once\<close>

definition receipt_since :: "string \<Rightarrow> ms \<Rightarrow> billing_store \<Rightarrow> bool" where
  "receipt_since i t st \<longleftrightarrow> (\<exists>r \<in> set (bs_receipts st). rc_id r = i \<and> t \<le> rc_createdAt r)"

lemma receipt_since_frame [simp]:
  "receipt_since i t (updateAccount f st) = receipt_since i t st"
  "receipt_since i t (settleGrant j n st) = receipt_since i t st"
  "receipt_since i t (pruneGrants now st) = receipt_since i t st"
  "receipt_since i t (recordStripeEvent ev now st) = receipt_since i t st"
  by (simp_all add: receipt_since_def updateAccount_def settleGrant_def pruneGrants_def recordStripeEvent_def)

lemma receipt_since_ensure [simp]: "receipt_since i t (snd (ensureAccount now st)) = receipt_since i t st"
  by (simp add: receipt_since_def ensureAccount_def Let_def split: option.splits)

lemma receipt_since_charge [simp]: "receipt_since i t (charge c cost now st) = receipt_since i t st"
  by (simp add: charge_def Let_def case_prod_beta)

lemma receipt_since_claim: "receipt_since i t st \<Longrightarrow> receipt_since i t (snd (claimReceipt j q now st))"
  by (auto simp: receipt_since_def claimReceipt_def)

lemma receipt_since_prune:
  "receipt_since i t st \<Longrightarrow> now \<le> t + RECEIPT_RETENTION_MS \<Longrightarrow> receipt_since i t (pruneReceipts now st)"
  by (fastforce simp: receipt_since_def pruneReceipts_def)

lemma receipt_since_event:
  "receipt_since i t st \<Longrightarrow> receipt_since i t (snd (applyUsageEvent c ownerId now ev st))"
  using receipt_since_claim [of i t st "''gw:'' @ ue_requestId ev" "of_int (max 0 \<lfloor>ue_charged ev\<rfloor>)" now]
  by (auto simp: applyUsageEvent_def Let_def split: prod.splits bool.splits)

lemma receipt_since_events:
  "receipt_since i t st \<Longrightarrow> receipt_since i t (snd (applyUsageEvents c ownerId now evs st))"
  by (induction evs arbitrary: st) (simp_all add: Let_def case_prod_beta receipt_since_event)

lemma receipt_since_records: "receipt_since i t st \<Longrightarrow> receipt_since i t (snd (recordUsages c now rs st))"
proof (induction rs arbitrary: st)
  case (Cons r rs)
  obtain j cost where r: "r = (j, cost)" by fastforce
  have "receipt_since i t (snd (claimReceipt (''use:'' @ j) cost now st))" using receipt_since_claim Cons.prems by blast
  then show ?case using Cons r by (auto simp: Let_def case_prod_beta split: prod.splits bool.splits)
qed simp

lemma receipt_since_plans:
  "receipt_since i t (syncSubscription c s now st) = receipt_since i t st"
  "receipt_since i t (customerDeleted x now st) = receipt_since i t st"
  "receipt_since i t (setAdminPlan p mode reset now st) = receipt_since i t st"
  "receipt_since i t (recordBillingIdentity anonymous level now st) = receipt_since i t st"
  by (simp_all add: syncSubscription_def customerDeleted_def setAdminPlan_def recordBillingIdentity_def Let_def case_prod_beta)

lemma receipt_since_credit: "receipt_since i t (creditPurchase x now st) = receipt_since i t st"
  by (simp add: creditPurchase_def Let_def case_prod_beta) (simp add: receipt_since_def)

lemma receipt_since_stripe: "receipt_since i t (snd (applyStripeEvent ev now st)) = receipt_since i t st"
  by (simp add: applyStripeEvent_def Let_def receipt_since_plans receipt_since_credit split: option.splits)

lemma receipt_since_step:
  assumes "receipt_since i t st" and "now \<le> t + RECEIPT_RETENTION_MS"
  shows "receipt_since i t (billing_step c ownerId op now st)"
proof (cases op)
  case (OpUsage evs)
  then show ?thesis using assms by (simp add: applyGatewayUsage_def receipt_since_events receipt_since_prune)
next
  case (OpRecord rs)
  then show ?thesis using assms
    by (simp add: recordUsage_def Let_def case_prod_beta receipt_since_records receipt_since_prune)
next
  case (OpSessionGrant jti expiresAt)
  then show ?thesis using assms by (simp add: reserveSessionGrant_def Let_def) (simp add: receipt_since_def pruneGrants_def)
next
  case (OpReserve j budget expiresAt)
  then show ?thesis using assms
    by (simp add: reserveUsage_def Let_def split: option.splits) (simp add: receipt_since_def pruneGrants_def)
next
  case (OpRelease j)
  then show ?thesis using assms by (simp add: releaseReservation_def receipt_since_def)
next
  case (OpRate scope count windowMs)
  then show ?thesis using assms by (simp add: enforceOwnerRateLimit_def receipt_since_def split: option.splits)
qed (use assms in \<open>simp_all add: settleReservation_def receipt_since_plans receipt_since_stripe applyFetched_def
    customerCreated_def\<close>)

definition call_time :: "billing_call \<Rightarrow> ms" where
  "call_time k = snd (snd (snd k))"

lemma receipt_since_run:
  "receipt_since i t st \<Longrightarrow> \<forall>k \<in> set calls. call_time k \<le> t + RECEIPT_RETENTION_MS \<Longrightarrow>
   receipt_since i t (fold billing_call calls st)"
proof (induction calls arbitrary: st)
  case (Cons k calls)
  obtain c ownerId op now where k: "k = (c, ownerId, op, now)" by (metis prod_cases4)
  then have "receipt_since i t (billing_call k st)" using Cons.prems
    by (simp add: billing_call_def call_time_def receipt_since_step)
  then show ?case using Cons by simp
qed simp

lemma accepted_receipt:
  "(ev, UsageAccepted) \<in> set (zip evs (fst (applyUsageEvents c ownerId now evs st))) \<Longrightarrow>
   receipt_since (''gw:'' @ ue_requestId ev) now (snd (applyUsageEvents c ownerId now evs st))"
proof (induction evs arbitrary: st)
  case (Cons e evs)
  obtain v st1 where 1: "applyUsageEvent c ownerId now e st = (v, st1)" by fastforce
  show ?case
  proof (cases "e = ev \<and> v = UsageAccepted")
    case True
    then have "receipt_since (''gw:'' @ ue_requestId ev) now st1" using 1
      by (auto simp: applyUsageEvent_def claimReceipt_def Let_def split: if_splits) (simp_all add: receipt_since_def settleGrant_def)
    then show ?thesis using receipt_since_events 1 by (simp add: Let_def case_prod_beta)
  next
    case False
    then show ?thesis using Cons 1 by (auto simp: Let_def case_prod_beta)
  qed
qed simp

lemma duplicate_event:
  assumes "receipt_since (''gw:'' @ ue_requestId ev) t st" and "ue_ownerId ev = ownerId"
  shows "applyUsageEvent c ownerId now ev st = (UsageDuplicate, st)"
  using assms by (auto simp: applyUsageEvent_def claimReceipt_def receipt_since_def find_row_None Let_def
      intro: rev_image_eqI)

text \<open>
  C22: A request is paid for once. After a batch in which a usage event was accepted, any operations may run on
  the ledger: until the receipts' retention time has passed since, an event with the same request id is
  reported as a duplicate, and neither the account nor any grant is changed by it.
\<close>

theorem usage_charged_once:
  assumes "(ev, UsageAccepted) \<in> set (zip evs (fst (applyGatewayUsage c ownerId evs t st)))"
    and "\<forall>k \<in> set calls. call_time k \<le> t + RECEIPT_RETENTION_MS"
    and "ue_requestId ev' = ue_requestId ev" and "ue_ownerId ev' = ownerId"
    and "now \<le> t + RECEIPT_RETENTION_MS"
  defines "st1 \<equiv> fold billing_call calls (snd (applyGatewayUsage c ownerId evs t st))"
  shows "applyGatewayUsage c' ownerId [ev'] now st1 = ([UsageDuplicate], pruneReceipts now st1) \<and>
    bs_account (pruneReceipts now st1) = bs_account st1 \<and> bs_grants (pruneReceipts now st1) = bs_grants st1"
proof -
  have "receipt_since (''gw:'' @ ue_requestId ev) t st1" unfolding st1_def
    using accepted_receipt [OF assms(1) [unfolded applyGatewayUsage_def]]
    by (intro receipt_since_run assms(2)) (unfold applyGatewayUsage_def)
  then have "receipt_since (''gw:'' @ ue_requestId ev') t (pruneReceipts now st1)"
    using receipt_since_prune assms(3,5) by simp
  then show ?thesis using duplicate_event [OF _ assms(4)]
    by (simp add: applyGatewayUsage_def) (simp add: pruneReceipts_def)
qed

definition witness_event :: usage_event where
  "witness_event =
     \<lparr>ue_requestId = ''r1'', ue_capabilityId = ''g'', ue_ownerId = ''alice'', ue_charged = 700,
      ue_outcome = ''completed'', ue_billable = True\<rparr>"

theorem usage_charged_once_witness:
  "applyGatewayUsage OPEN_BILLING_CONFIG ''alice'' [witness_event] 90000
     (billing_call (OPEN_BILLING_CONFIG, ''alice'', OpAdmin (Some PlanPro) None None, 60000)
       (snd (applyGatewayUsage OPEN_BILLING_CONFIG ''alice'' [witness_event] 5000 empty_billing_store))) =
   ([UsageDuplicate], pruneReceipts 90000
     (billing_call (OPEN_BILLING_CONFIG, ''alice'', OpAdmin (Some PlanPro) None None, 60000)
       (snd (applyGatewayUsage OPEN_BILLING_CONFIG ''alice'' [witness_event] 5000 empty_billing_store))))"
proof -
  have "(witness_event, UsageAccepted) \<in>
      set (zip [witness_event] (fst (applyGatewayUsage OPEN_BILLING_CONFIG ''alice'' [witness_event] 5000 empty_billing_store)))"
    by (simp add: applyGatewayUsage_def applyUsageEvent_def claimReceipt_def pruneReceipts_def Let_def
        empty_billing_store_def witness_event_def sql_delete_def)
  from usage_charged_once [OF this, where calls = "[(OPEN_BILLING_CONFIG, ''alice'', OpAdmin (Some PlanPro) None None, 60000)]"
      and ev' = witness_event and now = 90000]
  show ?thesis by (simp add: call_time_def RECEIPT_RETENTION_MS_def witness_event_def)
qed

subsection \<open>What a charge takes\<close>

definition remaining :: "billing_config \<Rightarrow> account_row \<Rightarrow> ms \<Rightarrow> int" where
  "remaining c row now = includedHeadroom (usageSnapshot c row now) + max 0 (ac_creditBalance row)"

lemma ba_remaining_accessFor:
  "ba_remaining (accessFor c row now) =
     (if ac_usageMode row = ''unlimited'' \<or> \<not> bc_enabled c then None else Some (remaining c row now))"
  by (simp add: accessFor_def Let_def remaining_def split: option.splits)

definition charged_row :: "billing_config \<Rightarrow> int \<Rightarrow> int \<Rightarrow> ms \<Rightarrow> account_row \<Rightarrow> account_row" where
  "charged_row c cost fromCredit now row =
     (let s = usageSnapshot c row now in row\<lparr>
        ac_rollingUsed := uw_used (us_rolling s) + cost, ac_rollingStart := us_rollingStart s,
        ac_weeklyUsed := uw_used (us_weekly s) + cost, ac_weeklyStart := us_weeklyStart s,
        ac_monthlyUsed := uw_used (us_monthly s) + cost, ac_monthlyStart := us_monthlyStart s,
        ac_totalUsed := ac_totalUsed row + cost, ac_totalRequests := ac_totalRequests row + 1,
        ac_creditBalance := ac_creditBalance row - fromCredit,
        ac_creditConsumed := ac_creditConsumed row + fromCredit, ac_updatedAt := now\<rparr>)"

definition from_credit :: "billing_config \<Rightarrow> int \<Rightarrow> ms \<Rightarrow> account_row \<Rightarrow> int" where
  "from_credit c cost now row =
     (if ac_usageMode row = ''unlimited'' then 0
      else min (max 0 (ac_creditBalance row)) (max 0 (cost - includedHeadroom (usageSnapshot c row now))))"

lemma charge_row:
  "bs_account (charge c q now st) =
     Some (charged_row c (max 0 \<lfloor>q\<rfloor>) (from_credit c (max 0 \<lfloor>q\<rfloor>) now (readAccount now st)) now (readAccount now st))"
  by (cases "bs_account st")
     (simp_all add: charge_def ensureAccount_def readAccount_def updateAccount_def charged_row_def from_credit_def Let_def)

lemma charged_usage_plan [simp]: "usage_plan c (charged_row c' cost d now row) = usage_plan c row"
  by (simp add: usage_plan_def charged_row_def Let_def account_plan_def)

lemma charged_used:
  fixes c cost d row
  assumes "0 < now"
  defines "s \<equiv> \<lambda>row. usageSnapshot c row now" and "row' \<equiv> charged_row c cost d now row"
  shows "uw_used (us_rolling (s row')) = uw_used (us_rolling (s row)) + cost"
    "uw_used (us_weekly (s row')) = uw_used (us_weekly (s row)) + cost"
    "uw_used (us_monthly (s row')) = uw_used (us_monthly (s row)) + cost"
    "map_option uw_used (us_lifetime (s row')) = map_option (\<lambda>w. uw_used w + cost) (us_lifetime (s row))"
  using assms(1) unfolding s_def row'_def
  by (simp_all add: usageSnapshot_def Let_def option.map_comp comp_def)
     (simp_all add: charged_row_def usageSnapshot_def Let_def le_max_iff_disj)

lemma usage_limit_mono: "share' \<le> share \<Longrightarrow> 0 \<le> usd \<Longrightarrow> usage_limit share' usd \<le> usage_limit share usd"
  by (simp add: usage_limit_def js_round_def floor_mono MICRO_CENTS_PER_USD_def mult_left_mono)

text \<open>The share of the allowance only ever falls with a charge, and only when the last credit is spent.\<close>

lemma charged_share:
  assumes "bc_freeEmailAllowanceShare c \<le> 1" and "0 \<le> d"
  shows "usage_share c (charged_row c' cost d now row) \<le> usage_share c row"
  using assms
  by (auto simp: usage_share_def identityLevel_def isPaying_def subscribed_def charged_row_def account_plan_def Let_def)

definition plan_limits_ok :: "plan_config \<Rightarrow> bool" where
  "plan_limits_ok p \<longleftrightarrow>
     0 \<le> pc_rollingLimitUsd p \<and> 0 \<le> pc_weeklyLimitUsd p \<and> 0 \<le> pc_monthlyLimitUsd p \<and>
     (case pc_lifetimeLimitUsd p of None \<Rightarrow> True | Some x \<Rightarrow> 0 \<le> x)"

lemma snapshot_limits:
  "uw_limit (us_rolling (usageSnapshot c row now)) = usage_limit (usage_share c row) (pc_rollingLimitUsd (usage_plan c row))"
  "uw_limit (us_weekly (usageSnapshot c row now)) = usage_limit (usage_share c row) (pc_weeklyLimitUsd (usage_plan c row))"
  "uw_limit (us_monthly (usageSnapshot c row now)) = usage_limit (usage_share c row) (pc_monthlyLimitUsd (usage_plan c row))"
  "map_option uw_limit (us_lifetime (usageSnapshot c row now)) =
     map_option (usage_limit (usage_share c row)) (pc_lifetimeLimitUsd (usage_plan c row))"
  by (simp_all add: usageSnapshot_def Let_def option.map_comp comp_def)

text \<open>The room of a snapshot, before it is cut off at zero.\<close>

definition snapshot_room :: "usage_snapshot \<Rightarrow> int" where
  "snapshot_room s = min (min (window_room (us_rolling s)) (window_room (us_weekly s)))
     (case us_lifetime s of None \<Rightarrow> window_room (us_monthly s) | Some w \<Rightarrow> min (window_room (us_monthly s)) (window_room w))"

lemma includedHeadroom_room: "includedHeadroom s = max 0 (snapshot_room s)"
  by (simp add: includedHeadroom_def snapshot_room_def)

lemma snapshot_room_le:
  assumes "window_room (us_rolling s') \<le> window_room (us_rolling s) - n"
    and "window_room (us_weekly s') \<le> window_room (us_weekly s) - n"
    and "window_room (us_monthly s') \<le> window_room (us_monthly s) - n"
    and "rel_option (\<lambda>w' w. window_room w' \<le> window_room w - n) (us_lifetime s') (us_lifetime s)"
  shows "snapshot_room s' \<le> snapshot_room s - n"
  using assms by (cases "us_lifetime s"; cases "us_lifetime s'") (simp_all add: snapshot_room_def)

lemma charged_room:
  fixes c cost d row
  assumes "0 < now"
  defines "row' \<equiv> charged_row c cost d now row"
  shows "usage_share c row' = usage_share c row \<Longrightarrow>
      snapshot_room (usageSnapshot c row' now) = snapshot_room (usageSnapshot c row now) - cost"
    and "usage_share c row' \<le> usage_share c row \<Longrightarrow> plan_limits_ok (usage_plan c row) \<Longrightarrow>
      snapshot_room (usageSnapshot c row' now) \<le> snapshot_room (usageSnapshot c row now) - cost"
proof -
  let ?s = "usageSnapshot c row now" and ?s' = "usageSnapshot c row' now"
  note used = charged_used [OF assms(1), of c cost d row, folded row'_def]
  have p: "usage_plan c row' = usage_plan c row" by (simp add: row'_def)
  have life: "us_lifetime ?s' = None \<longleftrightarrow> pc_lifetimeLimitUsd (usage_plan c row) = None"
    "us_lifetime ?s = None \<longleftrightarrow> pc_lifetimeLimitUsd (usage_plan c row) = None"
    using snapshot_limits(4) [of c row' now] snapshot_limits(4) [of c row now] p by (metis map_option_is_None)+
  show "snapshot_room ?s' = snapshot_room ?s - cost" if "usage_share c row' = usage_share c row"
    using used snapshot_limits [of c row now] snapshot_limits [of c row' now] life
    by (cases "us_lifetime ?s"; cases "us_lifetime ?s'"; cases "pc_lifetimeLimitUsd (usage_plan c row)")
       (simp_all add: snapshot_room_def window_room_def that p)
  show "snapshot_room ?s' \<le> snapshot_room ?s - cost"
    if "usage_share c row' \<le> usage_share c row" "plan_limits_ok (usage_plan c row)"
  proof -
    let ?p = "usage_plan c row"
    have le: "0 \<le> usd \<Longrightarrow> usage_limit (usage_share c row') usd \<le> usage_limit (usage_share c row) usd" for usd
      by (rule usage_limit_mono [OF that(1)])
    have "rel_option (\<lambda>w' w. window_room w' \<le> window_room w - cost) (us_lifetime ?s') (us_lifetime ?s)"
    proof (cases "pc_lifetimeLimitUsd ?p")
      case (Some usd)
      then obtain w w' where "us_lifetime ?s = Some w" "us_lifetime ?s' = Some w'" using life by auto
      then show ?thesis using used(4) snapshot_limits(4) [of c row now] snapshot_limits(4) [of c row' now] p Some
          le [of usd] that(2) by (simp add: window_room_def plan_limits_ok_def)
    qed (use life in simp)
    then show ?thesis
      using le [of "pc_rollingLimitUsd ?p"] le [of "pc_weeklyLimitUsd ?p"] le [of "pc_monthlyLimitUsd ?p"] that(2)
      by (intro snapshot_room_le) (simp_all add: window_room_def used snapshot_limits p plan_limits_ok_def)
  qed
qed

lemma spend_split:
  fixes h h' cost credit d :: int
  assumes "0 \<le> cost" and "0 \<le> credit" and "d = min credit (max 0 (cost - max 0 h))" and "h' \<le> h - cost"
  defines "left \<equiv> max 0 (max 0 h + credit - cost)"
  shows "0 \<le> max 0 h' + (credit - d) \<and> max 0 h' + (credit - d) \<le> left \<and>
    (h' = h - cost \<longrightarrow> max 0 h' + (credit - d) = left)"
  using assms by (simp add: max_def min_def)

lemma from_credit_range:
  "0 \<le> from_credit c cost now row"
  "ac_usageMode row \<noteq> ''unlimited'' \<Longrightarrow>
     from_credit c cost now row = min (max 0 (ac_creditBalance row)) (max 0 (cost - includedHeadroom (usageSnapshot c row now)))"
  by (simp_all add: from_credit_def)


definition witness_plan :: plan_config where
  "witness_plan =
     \<lparr>pc_label = ''Free'', pc_rollingLimitUsd = 1, pc_rollingWindowHours = 5, pc_weeklyLimitUsd = 2,
      pc_monthlyLimitUsd = 4, pc_lifetimeLimitUsd = None, pc_cloudSandbox = True\<rparr>"

definition witness_config :: billing_config where
  "witness_config =
     \<lparr>bc_enabled = True, bc_free = witness_plan, bc_go = witness_plan, bc_pro = witness_plan,
      bc_anonymous = witness_plan, bc_freeEmailAllowanceShare = 1, bc_stripeGo = ''go'', bc_stripePro = ''pro''\<rparr>"

lemma floor_half: "\<lfloor>1 / 2 :: rat\<rfloor> = 0"
  by (simp add: floor_eq_iff)

lemma witness_remaining:
  "ba_remaining (billingAccess witness_config 86400000 empty_billing_store) = Some 100000000"
  by (simp add: billingAccess_def readAccount_def empty_billing_store_def ba_remaining_accessFor remaining_def
      includedHeadroom_def window_room_def usageSnapshot_def Let_def defaultAccount_def usage_plan_def account_plan_def
      usage_share_def usage_limit_def witness_config_def witness_plan_def MICRO_CENTS_PER_USD_def js_round_def
      floor_half)


subsection \<open>What live grants hold\<close>

lemma reservedGrants_prune [simp]: "reservedGrants now (bs_grants (pruneGrants now st)) = reservedGrants now (bs_grants st)"
proof -
  have f: "filter (\<lambda>r. now \<le> gr_expiresAt r + GRANT_SETTLEMENT_GRACE_MS)
      (sql_delete (\<lambda>r. gr_expiresAt r + GRANT_SETTLEMENT_GRACE_MS < now) gs) =
    filter (\<lambda>r. now \<le> gr_expiresAt r + GRANT_SETTLEMENT_GRACE_MS) gs" for gs
    by (auto simp: sql_delete_def intro: filter_cong)
  have "bs_grants (pruneGrants now st) = sql_delete (\<lambda>r. gr_expiresAt r + GRANT_SETTLEMENT_GRACE_MS < now) (bs_grants st)"
    by (simp add: pruneGrants_def)
  then show ?thesis unfolding reservedGrants_def by (simp only: f)
qed

lemma reservedGrants_append:
  "reservedGrants now (gs @ [g]) = reservedGrants now gs + (if now \<le> gr_expiresAt g + GRANT_SETTLEMENT_GRACE_MS then grant_held g else 0)"
  by (simp add: reservedGrants_def)

lemma reservedGrants_delete: "reservedGrants now (sql_delete p gs) \<le> reservedGrants now gs"
  by (induction gs) (auto simp: reservedGrants_def table_simps grant_held_def)

lemma billingAccess_prune [simp]: "billingAccess c now (pruneGrants now' st) = billingAccess c now st"
  by (simp add: billingAccess_def readAccount_def pruneGrants_def)

lemma capabilityBudget_le:
  assumes "ba_remaining access = Some rem"
  shows "0 \<le> capabilityBudget access reserved" "capabilityBudget access reserved \<le> max 0 (rem - reserved)"
proof -
  show "capabilityBudget access reserved \<le> max 0 (rem - reserved)" using assms by (simp add: capabilityBudget_def)
  show "0 \<le> capabilityBudget access reserved"
    using assms by (cases "limitsAudienceFor (ba_audience access)") (simp_all add: capabilityBudget_def)
qed

lemma capabilityBudget_finite:
  "ba_remaining access = Some rem \<Longrightarrow> capabilityBudget access reserved \<noteq> GATEWAY_BUDGET_UNLIMITED"
  using capabilityBudget_le(1) [of access rem reserved] by (auto simp: GATEWAY_BUDGET_UNLIMITED_def)

text \<open>
  C24: Live grants never hold more than the account has left. When the account is metered, handing out a session
  capability or reserving spend raises what live grants hold at most to what remains of the windows and the
  credit: two sessions can never both be given the last of an allowance.
\<close>

theorem grants_within_remaining:
  assumes "ba_remaining (billingAccess c now st) = Some rem"
  defines "held \<equiv> \<lambda>st. reservedGrants now (bs_grants st)"
  shows "held (snd (reserveSessionGrant c jti expiresAt now st)) \<le> max (held st) rem \<and>
    held (snd (reserveUsage c i budget expiresAt now st)) \<le> max (held st) rem \<and>
    (\<forall>access granted. fst (reserveSessionGrant c jti expiresAt now st) = Some (access, granted) \<longrightarrow>
       0 \<le> granted \<and> granted \<le> max 0 (rem - held st))"
proof -
  let ?a = "billingAccess c now st"
  let ?st = "pruneGrants now st"
  note budget = capabilityBudget_le [OF assms(1), of "held st"] and finite = capabilityBudget_finite [OF assms(1)]
  have "held (snd (reserveSessionGrant c jti expiresAt now st)) \<le> max (held st) rem"
    using budget finite
    by (auto simp: reserveSessionGrant_def Let_def held_def reservedGrants_append grant_held_def max_def split: if_splits)
  moreover have "held (snd (reserveUsage c i budget expiresAt now st)) \<le> max (held st) rem"
    using reservedGrants_delete [of now "\<lambda>r. gr_jti r = i" "bs_grants ?st"] assms(1)
      max.cobounded1 [of 0 "\<lceil>budget\<rceil>"]
    by (auto simp: reserveUsage_def Let_def held_def reservedGrants_append grant_held_def)
  moreover have "0 \<le> granted \<and> granted \<le> max 0 (rem - held st)"
    if "fst (reserveSessionGrant c jti expiresAt now st) = Some (access, granted)" for access granted
    using that budget finite by (auto simp: reserveSessionGrant_def Let_def held_def split: if_splits)
  ultimately show ?thesis by blast
qed

theorem grants_within_remaining_witness:
  "reservedGrants 86400000 (bs_grants (snd (reserveSessionGrant witness_config ''s'' 90000000 86400000 empty_billing_store)))
     \<le> 100000000"
  using grants_within_remaining [OF witness_remaining, of "''s''" 90000000]
  by (simp add: reservedGrants_def empty_billing_store_def)

subsection \<open>Redelivered subscriptions\<close>

definition sync_row :: "billing_config \<Rightarrow> stripe_subscription \<Rightarrow> ms \<Rightarrow> account_row \<Rightarrow> account_row" where
  "sync_row c s now row =
     (if sync_refused row s (subscription_plan c s) then row
      else the (bs_account (syncSubscription c s now (empty_billing_store\<lparr>bs_account := Some row\<rparr>))))"

lemma sync_row_account:
  "bs_account (syncSubscription c s now st) = Some (sync_row c s now (readAccount now st))"
  by (cases "bs_account st")
     (simp_all add: syncSubscription_def sync_row_def ensureAccount_def readAccount_def updateAccount_def Let_def)

lemma sync_frame:
  "bs_grants (syncSubscription c s now st) = bs_grants st" "bs_receipts (syncSubscription c s now st) = bs_receipts st"
  "bs_stripeEvents (syncSubscription c s now st) = bs_stripeEvents st"
  "bs_purchases (syncSubscription c s now st) = bs_purchases st"
  "bs_rateLimits (syncSubscription c s now st) = bs_rateLimits st"
  by (cases "bs_account st"; simp add: syncSubscription_def ensureAccount_def updateAccount_def Let_def)+

lemma account_plan_text: "ac_plan r = plan_text p \<Longrightarrow> account_plan r = p"
  by (cases p) (simp_all add: account_plan_def)

definition sync_period_known :: "billing_config \<Rightarrow> stripe_subscription \<Rightarrow> bool" where
  "sync_period_known c s \<longleftrightarrow>
     subscription_plan c s = PlanFree \<or> coalesce (ss_itemStart s) (coalesce (ss_start s) 0) \<noteq> 0"

lemma sync_row_accepted:
  fixes c s now row
  assumes "\<not> sync_refused row s (subscription_plan c s)"
  defines "r \<equiv> sync_row c s now row" and "p \<equiv> subscription_plan c s"
  shows "ac_plan r = plan_text p"
    "ac_usageMode r = (if p = account_plan row then ac_usageMode row else ''default'')"
    "ac_subscriptionStatus r = ss_status s" "ac_customer r = Some (ss_customer s)" "ac_subscription r = Some (ss_id s)"
    "ac_price r = (if p = PlanFree then None else ss_price s)"
    "ac_cancelAtPeriodEnd r = ss_cancelAtPeriodEnd s"
    "ac_periodEnd r = coalesce (ss_itemEnd s) (coalesce (ss_end s) 0) * 1000"
    "ac_anchor r = (if p = PlanFree then ac_anchor row
       else if coalesce (ss_itemStart s) (coalesce (ss_start s) 0) * 1000 = 0 then now
       else coalesce (ss_itemStart s) (coalesce (ss_start s) 0) * 1000)"
    "case ss_card s of None \<Rightarrow> True | Some (b, l) \<Rightarrow> ac_cardBrand r = b \<and> ac_cardLast4 r = l"
  using assms(1)
  by (simp_all add: r_def p_def sync_row_def syncSubscription_def ensureAccount_def updateAccount_def Let_def
      resetWindows_def split: option.splits prod.splits)

lemma sync_row_again:
  assumes "sync_period_known c s"
  shows "\<exists>t. sync_row c s now' (sync_row c s now row) = (sync_row c s now row)\<lparr>ac_updatedAt := t\<rparr>"
proof (cases "sync_refused row s (subscription_plan c s)")
  case True
  then have "sync_row c s now' (sync_row c s now row) = (sync_row c s now row)\<lparr>ac_updatedAt := ac_updatedAt row\<rparr>"
    by (simp add: sync_row_def)
  then show ?thesis ..
next
  case False
  note r = sync_row_accepted [OF False, of now]
  define r1 where "r1 = sync_row c s now row"
  have plan: "account_plan r1 = subscription_plan c s" using account_plan_text r(1) by (simp add: r1_def)
  have "\<not> sync_refused r1 s (subscription_plan c s)" using r(4,5) by (simp add: sync_refused_def r1_def)
  then have "sync_row c s now' r1 = r1\<lparr>ac_updatedAt := now'\<rparr>"
    using r [folded r1_def] assms plan
    by (intro account_row.equality)
       (auto simp: sync_row_def syncSubscription_def ensureAccount_def updateAccount_def Let_def sync_period_known_def
         split: option.splits prod.splits)
  then show ?thesis unfolding r1_def by blast
qed

text \<open>
  A redelivered subscription changes nothing. Applying the same subscription a second time, at any later or
  earlier time, leaves every table as the first application left it, up to the time stamp of the account row: no
  usage window is reset again and no plan, anchor, price or card is moved. The period start must be known for a
  paid plan, since the code anchors the month at the time of the call otherwise.
\<close>

lemma subscription_sync_idempotent:
  assumes "sync_period_known c s"
  shows "\<exists>t. syncSubscription c s now' (syncSubscription c s now st) =
    updateAccount (\<lambda>r. r\<lparr>ac_updatedAt := t\<rparr>) (syncSubscription c s now st)"
proof -
  let ?s1 = "syncSubscription c s now st"
  have a: "bs_account ?s1 = Some (sync_row c s now (readAccount now st))" by (rule sync_row_account)
  then have "readAccount now' ?s1 = sync_row c s now (readAccount now st)" by (simp add: readAccount_def)
  then obtain t where "bs_account (syncSubscription c s now' ?s1) =
      Some ((sync_row c s now (readAccount now st))\<lparr>ac_updatedAt := t\<rparr>)"
    using sync_row_again [OF assms, of now'] sync_row_account [of c s now' ?s1] by metis
  then have "syncSubscription c s now' ?s1 = updateAccount (\<lambda>r. r\<lparr>ac_updatedAt := t\<rparr>) ?s1"
    using a by (intro billing_store.equality) (simp_all add: updateAccount_def sync_frame)
  then show ?thesis ..
qed

definition witness_subscription :: stripe_subscription where
  "witness_subscription =
     \<lparr>ss_id = ''sub'', ss_status = ''active'', ss_customer = ''cus'', ss_cancelAtPeriodEnd = False,
      ss_price = Some ''pro'', ss_itemStart = Some 86400, ss_itemEnd = Some 2678400, ss_start = None, ss_end = None,
      ss_card = None\<rparr>"

subsection \<open>Downgraded accounts\<close>

lemma downgraded_remaining:
  assumes "ba_downgraded (accessFor c row now)"
  shows "ba_remaining (accessFor c row now) = Some 0"
proof -
  define credit where "credit = max 0 (ac_creditBalance row)"
  define s where "s = usageSnapshot c row now"
  have "ac_usageMode row \<noteq> ''unlimited''" "bc_enabled c" and b: "blocking_window credit s \<noteq> None"
    using assms by (auto simp: accessFor_def Let_def credit_def s_def split: option.splits if_splits)
  moreover obtain w where w: "window_blocks credit w"
    and "w \<in> {us_rolling s, us_weekly s, us_monthly s} \<or> us_lifetime s = Some w"
    using b by (auto simp: blocking_window_def split: option.splits if_splits)
  moreover from w have "window_room w \<le> 0" "credit = 0" by (auto simp: window_blocks_def credit_def)
  ultimately show ?thesis
    by (auto simp: ba_remaining_accessFor remaining_def includedHeadroom_def credit_def [symmetric] s_def [symmetric]
        min_le_iff_disj split: option.splits)
qed

lemma downgraded_budget:
  assumes "ba_downgraded (billingAccess c now st)" and "0 \<le> reserved"
  shows "capabilityBudget (billingAccess c now st) reserved = 0"
proof -
  have "ba_remaining (billingAccess c now st) = Some 0"
    using downgraded_remaining assms(1) by (simp add: billingAccess_def)
  from capabilityBudget_le [OF this, of reserved] show ?thesis using assms(2) by simp
qed

lemma reservedGrants_nonneg: "0 \<le> reservedGrants now gs"
  by (auto simp: reservedGrants_def grant_held_def intro!: sum_list_nonneg)

end
