(* ===== verification/Journal_Store.thy ===== *)
theory Journal_Store
  imports Prelude
begin

text \<open>
  The tables of a conversation's journal and the operations on them:
  \<open>workers/cloud-builder/src/journal.ts\<close>, with the size helpers of \<open>conversation-types.ts\<close> and
  \<open>prune-history.ts\<close> and the text projection of \<open>transcript-search.ts\<close>.

  A payload column holds the value that its text parses to, \<open>None\<close> when the text does not parse. How a value is
  written as text (\<open>JSON.stringify\<close>) matters only for its length and is a parameter. Each method is one
  transaction of the object's storage; an error leaves the tables as they were. The full-text index, which no
  method below reads, is left out.
\<close>

subsection \<open>Sizes and message fields\<close>

definition utf8Length :: "string \<Rightarrow> int" where
  "utf8Length s = sum_list (map (\<lambda>c. if (of_char c :: nat) < 128 then 1 else 2) s)"

definition estimateTokens :: "string \<Rightarrow> int" where
  "estimateTokens serialized =
     (let nonAscii = int (length (filter (\<lambda>c. (of_char c :: nat) > 127) serialized))
      in (int (length serialized) - nonAscii + 3) div 4 + nonAscii)"

definition isSpillStub :: "json \<Rightarrow> bool" where
  "isSpillStub v \<longleftrightarrow> jget ''$spill'' v = Some (JBool True)"

definition contentBlocks :: "json \<Rightarrow> json list" where
  "contentBlocks message = (case jget ''content'' message of Some (JArr bs) \<Rightarrow> bs | _ \<Rightarrow> [])"

definition isToolCall :: "json \<Rightarrow> bool" where
  "isToolCall block \<longleftrightarrow> jget ''type'' block = Some (JStr ''toolCall'')"

definition countOpenCalls :: "json \<Rightarrow> int" where
  "countOpenCalls message = int (length (filter isToolCall (contentBlocks message)))"

definition jstring :: "json option \<Rightarrow> string option" where
  "jstring v = (case v of Some (JStr s) \<Rightarrow> Some s | _ \<Rightarrow> None)"

definition toolCallIds :: "json \<Rightarrow> string list" where
  "toolCallIds message =
     List.map_filter (\<lambda>b. if isToolCall b then jstring (jget ''id'' b) else None) (contentBlocks message)"

record tool_call =
  tc_id :: string
  tc_name :: string
  tc_arguments :: json

definition toolCallsOf :: "json \<Rightarrow> tool_call list" where
  "toolCallsOf message =
     List.map_filter (\<lambda>b.
       case (isToolCall b, jstring (jget ''id'' b), jstring (jget ''name'' b)) of
         (True, Some i, Some name) \<Rightarrow>
           Some \<lparr>tc_id = i, tc_name = name,
                 tc_arguments = (case jget ''arguments'' b of Some (JObj x) \<Rightarrow> JObj x | _ \<Rightarrow> JObj [])\<rparr>
       | _ \<Rightarrow> None) (contentBlocks message)"

fun join_lines :: "string list \<Rightarrow> string" where
  "join_lines [] = []"
| "join_lines [p] = p"
| "join_lines (p # q # ps) = p @ [CHR 0x0A] @ join_lines (q # ps)"

definition extractMessageText :: "json \<Rightarrow> string" where
  "extractMessageText message =
     (case jget ''content'' message of
        Some (JStr s) \<Rightarrow> s
      | Some (JArr items) \<Rightarrow>
          join_lines (List.map_filter (\<lambda>item.
            if isToolCall item then None
            else case jget ''text'' item of
                Some (JStr s) \<Rightarrow> Some s
              | _ \<Rightarrow> jstring (jget ''content'' item)) items)
      | _ \<Rightarrow> [])"

subsection \<open>Tables\<close>

definition JOURNAL_SCHEMA_VERSION :: int where "JOURNAL_SCHEMA_VERSION = 8"
definition REPAIR_SCAN_ROW_CAP :: nat where "REPAIR_SCAN_ROW_CAP = 400"
definition CONTEXT_SCAN_ROW_CAP :: nat where "CONTEXT_SCAN_ROW_CAP = 4000"

record meta_row =
  mt_schemaVersion :: int
  mt_epoch :: int
  mt_ownerId :: string
  mt_conversationId :: string
  mt_createdAt :: ms
  mt_title :: string
  mt_nextSeq :: int
  mt_hotMinSeq :: int
  mt_indexSyncedSeq :: int
  mt_deletedAt :: "ms option"

datatype record_kind = KindMessage | KindTurn | KindCard

record journal_row =
  j_seq :: int
  j_kind :: record_kind
  j_turnId :: string
  j_writer :: string
  j_writerKey :: string
  j_createdAt :: ms
  j_bytes :: int
  j_role :: "string option"
  j_hidden :: bool
  j_modelSkip :: bool
  j_toolCallId :: "string option"
  j_openCalls :: int
  j_tokens :: int
  j_streamId :: "string option"
  j_clientMsgId :: "string option"
  j_phase :: "string option"
  j_lane :: "string option"
  j_source :: "string option"
  j_notice :: "string option"
  j_payload :: "json option"
  j_spillKey :: "string option"

record turn_row =
  tn_turnId :: string
  tn_sessionId :: string
  tn_ownerId :: string
  tn_lane :: "string option"
  tn_source :: "string option"
  tn_clientMsgId :: "string option"
  tn_state :: string
  tn_terminalKind :: "string option"
  tn_ctxStartSeq :: "int option"
  tn_ctxEndSeq :: "int option"
  tn_firstSeq :: "int option"
  tn_lastSeq :: "int option"
  tn_createdAt :: ms
  tn_updatedAt :: ms

record inbox_row =
  ib_id :: int
  ib_writer :: string
  ib_writerKey :: string
  ib_kind :: record_kind
  ib_turnId :: string
  ib_role :: "string option"
  ib_hidden :: bool
  ib_createdAt :: ms
  ib_bytes :: int
  ib_payload :: "json option"

datatype segment_state = Uploading | Committed

record segment_row =
  sg_firstSeq :: int
  sg_lastSeq :: int
  sg_rows :: int
  sg_bytes :: int
  sg_r2Key :: string
  sg_state :: segment_state
  sg_createdAt :: ms

record append_receipt =
  ar_writerKey :: string
  ar_fingerprint :: string
  ar_firstSeq :: int
  ar_lastSeq :: int
  ar_epoch :: int
  ar_createdAt :: ms

record purge_row =
  pq_key :: string
  pq_queuedAt :: ms
  pq_attempts :: int

record spill_row =
  sp_key :: string
  sp_createdAt :: ms
  sp_bytes :: int

text \<open>
  The store: \<open>jn_meta\<close> is \<open>None\<close> once \<open>deleteAll\<close> has run, \<open>jn_witness\<close> is the key that the journal keeps
  outside SQL.
\<close>

record journal =
  jn_meta :: "meta_row option"
  jn_rows :: "journal_row list"
  jn_turns :: "turn_row list"
  jn_inbox :: "inbox_row list"
  jn_segments :: "segment_row list"
  jn_purge :: "purge_row list"
  jn_spills :: "spill_row list"
  jn_window :: "(ms \<times> int \<times> int) option"
  jn_receipts :: "append_receipt list"
  jn_retiredWriters :: "string list"
  jn_retiredTurns :: "string list"
  jn_witness :: "int option"

definition empty_storage :: journal where
  "empty_storage =
     \<lparr>jn_meta = None, jn_rows = [], jn_turns = [], jn_inbox = [], jn_segments = [], jn_purge = [], jn_spills = [],
      jn_window = None, jn_receipts = [], jn_retiredWriters = [], jn_retiredTurns = [], jn_witness = None\<rparr>"

datatype journal_error = ConversationDeletedError | StaleJournalWriterError | OtherJournalError

subsection \<open>Bootstrap and the meta row\<close>

definition new_meta :: "int \<Rightarrow> meta_row" where
  "new_meta epoch =
     \<lparr>mt_schemaVersion = JOURNAL_SCHEMA_VERSION, mt_epoch = epoch, mt_ownerId = [], mt_conversationId = [],
      mt_createdAt = 0, mt_title = [], mt_nextSeq = 0, mt_hotMinSeq = 0, mt_indexSyncedSeq = - 1,
      mt_deletedAt = None\<rparr>"

definition bootstrap :: "journal \<Rightarrow> journal" where
  "bootstrap j =
     (let witness = coalesce (jn_witness j) 0 in
      case jn_meta j of
        None \<Rightarrow> j\<lparr>jn_meta := Some (new_meta (witness + 1)), jn_witness := Some (witness + 1)\<rparr>
      | Some m \<Rightarrow>
          j\<lparr>jn_meta := Some (m\<lparr>mt_schemaVersion := JOURNAL_SCHEMA_VERSION\<rparr>),
            jn_witness := (if mt_epoch m > witness then Some (mt_epoch m) else jn_witness j)\<rparr>)"

definition PURGED_META :: meta_row where
  "PURGED_META = (new_meta 0)\<lparr>mt_deletedAt := Some 0\<rparr>"

definition meta :: "journal \<Rightarrow> meta_row" where
  "meta j = coalesce (jn_meta j) PURGED_META"

definition isDeleted :: "journal \<Rightarrow> bool" where
  "isDeleted j \<longleftrightarrow> mt_deletedAt (meta j) \<noteq> None"

definition updateMeta :: "(meta_row \<Rightarrow> meta_row) \<Rightarrow> journal \<Rightarrow> journal" where
  "updateMeta f j = j\<lparr>jn_meta := map_option f (jn_meta j)\<rparr>"

definition bindOwner ::
  "string \<Rightarrow> ms \<Rightarrow> string \<Rightarrow> string option \<Rightarrow> journal \<Rightarrow> (journal_error + unit) \<times> journal" where
  "bindOwner ownerId createdAt title conversationId j =
     (let m = meta j in
      if mt_ownerId m \<noteq> [] \<and> mt_ownerId m \<noteq> ownerId then (Inl OtherJournalError, j)
      else (Inr (), updateMeta (\<lambda>r. r\<lparr>
             mt_ownerId := ownerId, mt_createdAt := (if mt_createdAt m > 0 then mt_createdAt m else createdAt),
             mt_title := title,
             mt_conversationId := (if coalesce conversationId [] = [] then mt_conversationId r
                                   else coalesce conversationId [])\<rparr>) j))"

definition setConversationId :: "string \<Rightarrow> journal \<Rightarrow> journal" where
  "setConversationId i j = (if i = [] then j else updateMeta (\<lambda>r. r\<lparr>mt_conversationId := i\<rparr>) j)"

definition setTitle :: "string \<Rightarrow> journal \<Rightarrow> journal" where
  "setTitle t j =
     (if t = [] then j else updateMeta (\<lambda>r. if mt_title r = [] then r\<lparr>mt_title := t\<rparr> else r) j)"

definition markDeleted :: "ms \<Rightarrow> journal \<Rightarrow> journal" where
  "markDeleted now j = updateMeta (\<lambda>r. r\<lparr>mt_deletedAt := Some (coalesce (mt_deletedAt r) now)\<rparr>) j"

definition setIndexSyncedSeq :: "int \<Rightarrow> journal \<Rightarrow> journal" where
  "setIndexSyncedSeq seq j =
     updateMeta (\<lambda>r. if mt_indexSyncedSeq r < seq then r\<lparr>mt_indexSyncedSeq := seq\<rparr> else r) j"

record journal_head =
  hd_headSeq :: int
  hd_windowStartSeq :: int
  hd_floorSeq :: int
  hd_epoch :: int
  hd_title :: string
  hd_deleted :: bool

definition committedSegments :: "journal \<Rightarrow> segment_row list" where
  "committedSegments j = filter (\<lambda>s. sg_state s = Committed) (jn_segments j)"

definition headOf :: "journal \<Rightarrow> journal_head" where
  "headOf j =
     (let m = meta j in
      \<lparr>hd_headSeq = mt_nextSeq m - 1, hd_windowStartSeq = mt_hotMinSeq m,
       hd_floorSeq = coalesce (sql_min (map sg_firstSeq (committedSegments j))) (mt_hotMinSeq m),
       hd_epoch = mt_epoch m, hd_title = mt_title m, hd_deleted = (mt_deletedAt m \<noteq> None)\<rparr>)"

subsection \<open>Appending\<close>

text \<open>The one allocator of sequence numbers. The row that is given carries no sequence number yet.\<close>

definition insertRow :: "journal_row \<Rightarrow> journal \<Rightarrow> (journal_error + int \<times> bool) \<times> journal" where
  "insertRow row j =
     (case find_row j_writerKey (j_writerKey row) (jn_rows j) of
        Some existing \<Rightarrow> (Inr (j_seq existing, False), j)
      | None \<Rightarrow>
          if j_writerKey row \<in> set (jn_retiredWriters j) \<or> j_turnId row \<in> set (jn_retiredTurns j)
          then (Inl StaleJournalWriterError, j)
          else case jn_meta j of
            None \<Rightarrow> (Inl OtherJournalError, j)
          | Some m \<Rightarrow>
              (Inr (mt_nextSeq m, True),
               updateMeta (\<lambda>r. r\<lparr>mt_nextSeq := mt_nextSeq m + 1\<rparr>)
                 (j\<lparr>jn_rows := jn_rows j @ [row\<lparr>j_seq := mt_nextSeq m\<rparr>]\<rparr>)))"

definition appendReceipt :: "string \<Rightarrow> journal \<Rightarrow> append_receipt option" where
  "appendReceipt k j = find_row ar_writerKey k (jn_receipts j)"

definition putAppendReceipt :: "append_receipt \<Rightarrow> journal \<Rightarrow> journal" where
  "putAppendReceipt r j =
     (if appendReceipt (ar_writerKey r) j \<noteq> None then j else j\<lparr>jn_receipts := jn_receipts j @ [r]\<rparr>)"

record message_input =
  mi_turnId :: string
  mi_writer :: string
  mi_writerKey :: string
  mi_role :: string
  mi_message :: json
  mi_hidden :: bool
  mi_modelSkip :: bool
  mi_streamId :: "string option"
  mi_clientMsgId :: "string option"
  mi_createdAt :: ms
  mi_spillKey :: "string option"

definition keepField :: "string \<Rightarrow> (json \<Rightarrow> bool) \<Rightarrow> json \<Rightarrow> (string \<times> json) list" where
  "keepField k p v = (case jget k v of Some x \<Rightarrow> if p x then [(k, x)] else [] | None \<Rightarrow> [])"

definition spillStub :: "(json \<Rightarrow> string) \<Rightarrow> string \<Rightarrow> json \<Rightarrow> json" where
  "spillStub stringify role message =
     (let preview = take 65536 (extractMessageText message) in
      JObj ([(''$spill'', JBool True), (''role'', JStr role),
             (''bytes'', JNum (Fin (of_int (utf8Length (stringify message)))))] @
        (if preview = [] then []
         else [(''content'', JArr [JObj [(''type'', JStr ''text''), (''text'', JStr preview)]])]) @
        keepField ''timestamp'' (\<lambda>x. case x of JNum _ \<Rightarrow> True | _ \<Rightarrow> False) message @
        keepField ''toolCallId'' (\<lambda>x. case x of JStr _ \<Rightarrow> True | _ \<Rightarrow> False) message @
        keepField ''toolName'' (\<lambda>x. case x of JStr _ \<Rightarrow> True | _ \<Rightarrow> False) message @
        keepField ''isError'' (\<lambda>x. case x of JBool _ \<Rightarrow> True | _ \<Rightarrow> False) message))"

definition spilled :: "string option \<Rightarrow> bool" where
  "spilled k \<longleftrightarrow> k \<noteq> None \<and> k \<noteq> Some []"

definition message_row :: "(json \<Rightarrow> string) \<Rightarrow> message_input \<Rightarrow> journal_row" where
  "message_row stringify input =
     (let payload = (if spilled (mi_spillKey input)
                     then spillStub stringify (mi_role input) (mi_message input) else mi_message input)
      in \<lparr>j_seq = 0, j_kind = KindMessage, j_turnId = mi_turnId input, j_writer = mi_writer input,
          j_writerKey = mi_writerKey input, j_createdAt = mi_createdAt input,
          j_bytes = utf8Length (stringify payload), j_role = Some (mi_role input), j_hidden = mi_hidden input,
          j_modelSkip = mi_modelSkip input,
          j_toolCallId = (if mi_role input = ''toolResult'' then jstring (jget ''toolCallId'' (mi_message input))
                          else None),
          j_openCalls = (if mi_role input = ''assistant'' then countOpenCalls (mi_message input) else 0),
          j_tokens = estimateTokens (stringify (mi_message input)), j_streamId = mi_streamId input,
          j_clientMsgId = mi_clientMsgId input, j_phase = None, j_lane = None, j_source = None, j_notice = None,
          j_payload = Some payload, j_spillKey = mi_spillKey input\<rparr>)"

definition assertWritable :: "(journal \<Rightarrow> (journal_error + 'a) \<times> journal) \<Rightarrow> journal \<Rightarrow> (journal_error + 'a) \<times> journal" where
  "assertWritable f j = (if isDeleted j then (Inl ConversationDeletedError, j) else f j)"

definition appendMessage ::
  "(json \<Rightarrow> string) \<Rightarrow> message_input \<Rightarrow> journal \<Rightarrow> (journal_error + int \<times> bool) \<times> journal" where
  "appendMessage stringify input j = assertWritable (insertRow (message_row stringify input)) j"

record turn_input =
  ti_turnId :: string
  ti_writer :: string
  ti_writerKey :: string
  ti_phase :: string
  ti_lane :: "string option"
  ti_source :: "string option"
  ti_notice :: "string option"
  ti_promptSeq :: "int option"
  ti_wallClockMs :: "int option"
  ti_createdAt :: ms

definition optField :: "string \<Rightarrow> int option \<Rightarrow> (string \<times> json) list" where
  "optField k v = (case v of None \<Rightarrow> [] | Some n \<Rightarrow> [(k, JNum (Fin (of_int n)))])"

definition turn_detail :: "turn_input \<Rightarrow> json" where
  "turn_detail input =
     JObj (optField ''promptSeq'' (ti_promptSeq input) @ optField ''wallClockMs'' (ti_wallClockMs input))"

definition projection_row :: "(json \<Rightarrow> string) \<Rightarrow> record_kind \<Rightarrow> string \<Rightarrow> string \<Rightarrow> string \<Rightarrow> ms \<Rightarrow> json \<Rightarrow> journal_row" where
  "projection_row stringify kind turnId writer writerKey createdAt payload =
     \<lparr>j_seq = 0, j_kind = kind, j_turnId = turnId, j_writer = writer, j_writerKey = writerKey,
      j_createdAt = createdAt, j_bytes = utf8Length (stringify payload), j_role = None, j_hidden = False,
      j_modelSkip = True, j_toolCallId = None, j_openCalls = 0, j_tokens = 0, j_streamId = None,
      j_clientMsgId = None, j_phase = None, j_lane = None, j_source = None, j_notice = None,
      j_payload = Some payload, j_spillKey = None\<rparr>"

definition appendTurn ::
  "(json \<Rightarrow> string) \<Rightarrow> turn_input \<Rightarrow> journal \<Rightarrow> (journal_error + int \<times> bool) \<times> journal" where
  "appendTurn stringify input j =
     assertWritable (insertRow
       ((projection_row stringify KindTurn (ti_turnId input) (ti_writer input) (ti_writerKey input)
           (ti_createdAt input) (turn_detail input))
        \<lparr>j_phase := Some (ti_phase input), j_lane := ti_lane input, j_source := ti_source input,
         j_notice := ti_notice input\<rparr>)) j"

definition appendCard ::
  "(json \<Rightarrow> string) \<Rightarrow> string \<Rightarrow> string \<Rightarrow> string \<Rightarrow> json \<Rightarrow> ms \<Rightarrow> journal \<Rightarrow> (journal_error + int \<times> bool) \<times> journal" where
  "appendCard stringify turnId writer writerKey body createdAt j =
     assertWritable (insertRow (projection_row stringify KindCard turnId writer writerKey createdAt body)) j"

definition recordSpill :: "string \<Rightarrow> int \<Rightarrow> ms \<Rightarrow> journal \<Rightarrow> journal" where
  "recordSpill key bytes now j =
     (if key = [] then j
      else if find_row sp_key key (jn_spills j) \<noteq> None
      then j\<lparr>jn_spills := sql_update (\<lambda>s. sp_key s = key) (\<lambda>s. s\<lparr>sp_bytes := max (sp_bytes s) (max 0 bytes)\<rparr>)
               (jn_spills j)\<rparr>
      else j\<lparr>jn_spills := jn_spills j @ [\<lparr>sp_key = key, sp_createdAt = now, sp_bytes = max 0 bytes\<rparr>]\<rparr>)"

definition attachSpill :: "int \<Rightarrow> string \<Rightarrow> string \<Rightarrow> int \<Rightarrow> ms \<Rightarrow> journal \<Rightarrow> journal" where
  "attachSpill seq spillKey role bytes now j =
     (let j1 = recordSpill spillKey bytes now j in
      j1\<lparr>jn_rows := sql_update (\<lambda>r. j_seq r = seq \<and> j_spillKey r = None)
        (\<lambda>r. r\<lparr>j_payload := Some (JObj [(''$spill'', JBool True), (''role'', JStr role),
                                       (''bytes'', JNum (Fin (of_int bytes)))]),
               j_spillKey := Some spillKey\<rparr>) (jn_rows j1)\<rparr>)"

subsection \<open>Repair of the tail\<close>

text \<open>Rows in the order of their sequence numbers, and the rows of the model's history, newest first.\<close>

definition rows_asc :: "journal \<Rightarrow> journal_row list" where
  "rows_asc j = sort_key j_seq (jn_rows j)"

definition model_row :: "journal_row \<Rightarrow> bool" where
  "model_row r \<longleftrightarrow> j_kind r = KindMessage \<and> \<not> j_modelSkip r"

definition newest_model_rows :: "nat \<Rightarrow> journal \<Rightarrow> journal_row list" where
  "newest_model_rows n j = take n (rev (filter model_row (rows_asc j)))"

text \<open>
  The scan that both readers of the tail make: back to the last user message, collecting the calls that no later
  result answers. \<open>calls\<close> gives the calls of an assistant message in the order in which they are pushed.
\<close>

fun scanOpen :: "(json \<Rightarrow> 'c list) \<Rightarrow> ('c \<Rightarrow> string) \<Rightarrow> journal_row list \<Rightarrow> string list \<Rightarrow> (string \<times> 'c) list" where
  "scanOpen calls cid [] answered = []"
| "scanOpen calls cid (row # rows) answered =
     (if j_role row = Some ''user'' then []
      else if j_role row = Some ''toolResult''
      then scanOpen calls cid rows
             (if spilled (j_toolCallId row) then the (j_toolCallId row) # answered else answered)
      else if j_role row \<noteq> Some ''assistant'' \<or> j_openCalls row = 0 \<or> spilled (j_spillKey row) \<or> j_payload row = None
      then scanOpen calls cid rows answered
      else map (\<lambda>c. (j_turnId row, c)) (filter (\<lambda>c. cid c \<notin> set answered) (calls (the (j_payload row)))) @
           scanOpen calls cid rows answered)"

definition repairKey :: "string \<Rightarrow> string \<Rightarrow> string" where
  "repairKey turnId toolCallId = ''repair:'' @ turnId @ '':'' @ toolCallId"

definition repairedResult :: "string \<Rightarrow> string \<Rightarrow> json \<Rightarrow> ms \<Rightarrow> message_input" where
  "repairedResult turnId toolCallId message now =
     \<lparr>mi_turnId = turnId, mi_writer = ''repair'', mi_writerKey = repairKey turnId toolCallId, mi_role = ''toolResult'',
      mi_message = message, mi_hidden = False, mi_modelSkip = False, mi_streamId = None, mi_clientMsgId = None,
      mi_createdAt = now, mi_spillKey = None\<rparr>"

definition interruptedResult :: "string \<Rightarrow> ms \<Rightarrow> json" where
  "interruptedResult toolCallId now =
     JObj [(''role'', JStr ''toolResult''), (''toolCallId'', JStr toolCallId), (''toolName'', JStr ''unknown''),
           (''content'', JArr [JObj [(''type'', JStr ''text''),
              (''text'', JStr ''This tool call was interrupted before it finished.'')]]),
           (''isError'', JBool True), (''timestamp'', JNum (Fin (of_int now)))]"

fun appendInterrupted ::
  "(json \<Rightarrow> string) \<Rightarrow> ms \<Rightarrow> (string \<times> string) list \<Rightarrow> journal \<Rightarrow> (journal_error + (int \<times> bool) list) \<times> journal" where
  "appendInterrupted stringify now [] j = (Inr [], j)"
| "appendInterrupted stringify now ((turnId, i) # calls) j =
     (case appendMessage stringify (repairedResult turnId i (interruptedResult i now) now) j of
        (Inl e, j1) \<Rightarrow> (Inl e, j1)
      | (Inr r, j1) \<Rightarrow>
          (case appendInterrupted stringify now calls j1 of
             (Inl e, j2) \<Rightarrow> (Inl e, j2)
           | (Inr rs, j2) \<Rightarrow> (Inr (r # rs), j2)))"

definition repairTail :: "(json \<Rightarrow> string) \<Rightarrow> ms \<Rightarrow> journal \<Rightarrow> (journal_error + (int \<times> bool) list) \<times> journal" where
  "repairTail stringify now j =
     appendInterrupted stringify now
       (rev (scanOpen toolCallIds id (newest_model_rows REPAIR_SCAN_ROW_CAP j) [])) j"

definition openTailCalls :: "journal \<Rightarrow> (string \<times> tool_call) list" where
  "openTailCalls j =
     rev (scanOpen (\<lambda>p. rev (toolCallsOf p)) tc_id (newest_model_rows REPAIR_SCAN_ROW_CAP j) [])"

definition appendRepairedResult ::
  "(json \<Rightarrow> string) \<Rightarrow> string \<Rightarrow> json \<Rightarrow> ms \<Rightarrow> journal \<Rightarrow> (journal_error + int \<times> bool) \<times> journal" where
  "appendRepairedResult stringify turnId message now j =
     (case jstring (jget ''toolCallId'' message) of
        Some i \<Rightarrow> if i = [] then (Inl OtherJournalError, j)
                  else appendMessage stringify (repairedResult turnId i message now) j
      | None \<Rightarrow> (Inl OtherJournalError, j))"

definition hasRow :: "string \<Rightarrow> journal \<Rightarrow> bool" where
  "hasRow writerKey j \<longleftrightarrow> find_row j_writerKey writerKey (jn_rows j) \<noteq> None"

definition messageByWriterKey :: "string \<Rightarrow> journal \<Rightarrow> json option" where
  "messageByWriterKey writerKey j =
     (case find (\<lambda>r. j_writerKey r = writerKey \<and> j_kind r = KindMessage) (jn_rows j) of
        Some r \<Rightarrow> j_payload r | None \<Rightarrow> None)"

subsection \<open>The context window\<close>

text \<open>The newest rows whose estimates add up to at most the budget, and the part that starts at a user message.\<close>

fun fitBudget :: "int \<Rightarrow> int \<Rightarrow> journal_row list \<Rightarrow> journal_row list" where
  "fitBudget used budget [] = []"
| "fitBudget used budget (r # rs) =
     (if used + j_tokens r > budget then [] else r # fitBudget (used + j_tokens r) budget rs)"

definition context_rows :: "string \<Rightarrow> int \<Rightarrow> int \<Rightarrow> journal \<Rightarrow> journal_row list" where
  "context_rows excludeTurnId budget afterSeq j =
     (let scan = take CONTEXT_SCAN_ROW_CAP
                   (rev (filter (\<lambda>r. model_row r \<and> j_turnId r \<noteq> excludeTurnId \<and> j_seq r > afterSeq) (rows_asc j)))
      in dropWhile (\<lambda>r. j_role r \<noteq> Some ''user'') (rev (fitBudget 0 budget scan)))"

definition contextStartSeq :: "string \<Rightarrow> int \<Rightarrow> int \<Rightarrow> journal \<Rightarrow> int" where
  "contextStartSeq excludeTurnId budget afterSeq j =
     (case context_rows excludeTurnId budget afterSeq j of
        [] \<Rightarrow> mt_nextSeq (meta j) | r # _ \<Rightarrow> j_seq r)"

record window_selection =
  ws_messages :: "json list"
  ws_rows :: "(int \<times> string option \<times> bool) list"
  ws_startSeq :: int
  ws_endSeq :: int
  ws_spilled :: "(int \<times> string \<times> nat \<times> string \<times> string option) list"

text \<open>\<open>Inl seq\<close> is the \<open>JournalContextIntegrityError\<close> of an unreadable row.\<close>

fun windowScan ::
  "journal_row list \<Rightarrow> nat \<Rightarrow> int + (json list \<times> (int \<times> string \<times> nat \<times> string \<times> string option) list)" where
  "windowScan [] n = Inr ([], [])"
| "windowScan (r # rs) n =
     (case j_payload r of
        None \<Rightarrow> Inl (j_seq r)
      | Some p \<Rightarrow>
          (case windowScan rs (n + 1) of
             Inl e \<Rightarrow> Inl e
           | Inr (ms, sp) \<Rightarrow>
               Inr (p # ms,
                    if spilled (j_spillKey r) \<and> isSpillStub p
                    then (j_seq r, the (j_spillKey r), n, coalesce (j_role r) ''user'', j_toolCallId r) # sp else sp)))"

definition windowFromRows :: "journal_row list \<Rightarrow> int \<Rightarrow> int + window_selection" where
  "windowFromRows rows startSeq =
     (case windowScan rows 0 of
        Inl e \<Rightarrow> Inl e
      | Inr (messages, sp) \<Rightarrow>
          Inr \<lparr>ws_messages = messages, ws_rows = map (\<lambda>r. (j_seq r, j_role r, j_hidden r)) rows,
               ws_startSeq = startSeq, ws_endSeq = (if rows = [] then startSeq else j_seq (last rows)),
               ws_spilled = sp\<rparr>)"

definition selectWindow :: "string \<Rightarrow> int \<Rightarrow> int \<Rightarrow> journal \<Rightarrow> int + window_selection" where
  "selectWindow excludeTurnId budget afterSeq j =
     (let startSeq = contextStartSeq excludeTurnId budget afterSeq j; next = mt_nextSeq (meta j)
      in if startSeq \<ge> next
         then Inr \<lparr>ws_messages = [], ws_rows = [], ws_startSeq = next, ws_endSeq = next - 1, ws_spilled = []\<rparr>
         else windowFromRows (filter (\<lambda>r. j_seq r \<ge> startSeq \<and> model_row r \<and> j_turnId r \<noteq> excludeTurnId) (rows_asc j))
                startSeq)"

definition selectRange :: "string \<Rightarrow> int \<Rightarrow> int \<Rightarrow> journal \<Rightarrow> int + window_selection" where
  "selectRange excludeTurnId startSeq endSeq j =
     windowFromRows (filter (\<lambda>r. j_seq r \<ge> startSeq \<and> j_seq r \<le> endSeq \<and> model_row r \<and> j_turnId r \<noteq> excludeTurnId)
       (rows_asc j)) startSeq"

definition selectTurnMessages :: "string \<Rightarrow> journal \<Rightarrow> int + window_selection" where
  "selectTurnMessages turnId j =
     (let rows = filter (\<lambda>r. j_turnId r = turnId \<and> model_row r) (rows_asc j)
      in windowFromRows rows (if rows = [] then mt_nextSeq (meta j) else j_seq (hd rows)))"

definition turnStartSeq :: "string \<Rightarrow> journal \<Rightarrow> int option" where
  "turnStartSeq turnId j =
     sql_min (map j_seq (filter (\<lambda>r. j_turnId r = turnId \<and> j_kind r = KindMessage) (jn_rows j)))"

definition recentTurnIds :: "string \<Rightarrow> nat \<Rightarrow> journal \<Rightarrow> string list" where
  "recentTurnIds writer limit j =
     map j_turnId (take limit (rev (filter (\<lambda>r. j_kind r = KindTurn \<and> j_writer r = writer \<and> j_phase r = Some ''started'')
       (rows_asc j))))"

definition omittedPlaceholder :: "string \<Rightarrow> ms \<Rightarrow> string option \<Rightarrow> json" where
  "omittedPlaceholder role now toolCallId =
     (let content = (''content'', JArr [JObj [(''type'', JStr ''text''), (''text'', JStr ''[content omitted: too large]'')]]);
          timestamp = (''timestamp'', JNum (Fin (of_int now)))
      in if role = ''toolResult''
         then JObj [(''role'', JStr ''toolResult''), (''toolCallId'', JStr (coalesce toolCallId ''omitted'')),
                    (''toolName'', JStr ''unknown''), content, (''isError'', JBool False), timestamp]
         else JObj [(''role'', JStr (if role = ''assistant'' then ''assistant'' else ''user'')), content, timestamp])"

definition markModelSkip :: "int \<Rightarrow> journal \<Rightarrow> journal" where
  "markModelSkip seq j = j\<lparr>jn_rows := sql_update (\<lambda>r. j_seq r = seq) (\<lambda>r. r\<lparr>j_modelSkip := True\<rparr>) (jn_rows j)\<rparr>"

subsection \<open>Reading\<close>

datatype journal_record =
    RecMessage (rec_seq: int) (rec_turnId: string) ms string bool "string option" "string option" json
  | RecTurn (rec_seq: int) (rec_turnId: string) ms (rec_phase: string) "string option" "string option" "string option"
      "json option" "json option"
  | RecCard (rec_seq: int) (rec_turnId: string) ms json

definition nonempty :: "string option \<Rightarrow> string option" where
  "nonempty v = (if v = Some [] then None else v)"

definition parsed :: "journal_row \<Rightarrow> json option" where
  "parsed r = (if j_payload r = Some JNull then None else j_payload r)"

definition rowToRecord :: "journal_row \<Rightarrow> journal_record" where
  "rowToRecord r =
     (case j_kind r of
        KindTurn \<Rightarrow>
          let detail = coalesce (parsed r) (JObj []) in
          RecTurn (j_seq r) (j_turnId r) (j_createdAt r) (coalesce (j_phase r) ''started'') (nonempty (j_lane r))
            (nonempty (j_source r)) (nonempty (j_notice r)) (jget ''promptSeq'' detail) (jget ''wallClockMs'' detail)
      | KindCard \<Rightarrow>
          RecCard (j_seq r) (j_turnId r) (j_createdAt r)
            (coalesce (parsed r) (JObj [(''type'', JStr ''operation''), (''operation'', JStr ''unknown'')]))
      | KindMessage \<Rightarrow>
          RecMessage (j_seq r) (j_turnId r) (j_createdAt r) (coalesce (j_role r) ''assistant'') (j_hidden r)
            (nonempty (j_streamId r)) (nonempty (j_clientMsgId r)) (coalesce (parsed r) JNull))"

definition newest :: "nat \<Rightarrow> journal \<Rightarrow> journal_record list" where
  "newest limit j = map rowToRecord (rev (take limit (rev (rows_asc j))))"

text \<open>The rows of a range, at most \<open>limit\<close> of them, oldest first.\<close>

definition rowsForArchive :: "int \<Rightarrow> int \<Rightarrow> nat \<Rightarrow> journal \<Rightarrow> journal_row list" where
  "rowsForArchive fromSeq toSeq limit j =
     take limit (filter (\<lambda>r. fromSeq \<le> j_seq r \<and> j_seq r \<le> toSeq) (rows_asc j))"

fun residentScan :: "int \<Rightarrow> int \<Rightarrow> journal_row list \<Rightarrow> journal_row list \<times> bool" where
  "residentScan room bytes [] = ([], True)"
| "residentScan room bytes (r # rs) =
     (if room \<le> 0 \<or> bytes < 0 then ([], False)
      else let (out, complete) = residentScan (room - 1) (bytes - j_bytes r) rs in (r # out, complete))"

definition readResident :: "int \<Rightarrow> int \<Rightarrow> nat \<Rightarrow> int \<Rightarrow> journal \<Rightarrow> journal_row list \<times> bool" where
  "readResident fromSeq toSeq maxRecords maxBytes j =
     (let rows = rowsForArchive fromSeq toSeq (maxRecords + 1) j;
          (records, complete) = residentScan (int maxRecords) maxBytes rows
      in (records, complete \<and> length rows \<le> maxRecords))"

subsection \<open>The projection of turns\<close>

definition upsertTurn ::
  "turn_row \<Rightarrow> ms \<Rightarrow> journal \<Rightarrow> (journal_error + unit) \<times> journal" where
  "upsertTurn row now j =
     (if tn_turnId row \<in> set (jn_retiredTurns j) then (Inl StaleJournalWriterError, j)
      else (Inr (),
        if find_row tn_turnId (tn_turnId row) (jn_turns j) \<noteq> None
        then j\<lparr>jn_turns := sql_update (\<lambda>t. tn_turnId t = tn_turnId row)
                 (\<lambda>t. t\<lparr>tn_state := tn_state row, tn_updatedAt := now\<rparr>) (jn_turns j)\<rparr>
        else j\<lparr>jn_turns := jn_turns j @ [row\<lparr>tn_terminalKind := None, tn_ctxStartSeq := None, tn_ctxEndSeq := None,
                 tn_firstSeq := None, tn_lastSeq := None, tn_createdAt := now, tn_updatedAt := now\<rparr>]\<rparr>))"

definition updateTurn :: "string \<Rightarrow> (turn_row \<Rightarrow> turn_row) \<Rightarrow> journal \<Rightarrow> journal" where
  "updateTurn turnId f j = j\<lparr>jn_turns := sql_update (\<lambda>t. tn_turnId t = turnId) f (jn_turns j)\<rparr>"

definition setTurnContext :: "string \<Rightarrow> int \<Rightarrow> int \<Rightarrow> journal \<Rightarrow> journal" where
  "setTurnContext turnId startSeq endSeq =
     updateTurn turnId (\<lambda>t. t\<lparr>tn_ctxStartSeq := Some startSeq, tn_ctxEndSeq := Some endSeq\<rparr>)"

definition setTurnSpan :: "string \<Rightarrow> int \<Rightarrow> journal \<Rightarrow> journal" where
  "setTurnSpan turnId seq =
     updateTurn turnId (\<lambda>t. t\<lparr>tn_firstSeq := Some (coalesce (tn_firstSeq t) seq), tn_lastSeq := Some seq\<rparr>)"

definition setTurnTerminal :: "string \<Rightarrow> string \<Rightarrow> ms \<Rightarrow> journal \<Rightarrow> journal" where
  "setTurnTerminal turnId kind now =
     updateTurn turnId (\<lambda>t. t\<lparr>tn_state := ''terminal'', tn_terminalKind := Some kind, tn_updatedAt := now\<rparr>)"

definition turnContextRange :: "string \<Rightarrow> journal \<Rightarrow> (int \<times> int) option" where
  "turnContextRange turnId j =
     (case find_row tn_turnId turnId (jn_turns j) of
        None \<Rightarrow> None
      | Some t \<Rightarrow>
          (case (tn_ctxStartSeq t, tn_ctxEndSeq t) of (Some a, Some b) \<Rightarrow> Some (a, b) | _ \<Rightarrow> None))"

definition turnState :: "string \<Rightarrow> journal \<Rightarrow> (string \<times> string option) option" where
  "turnState turnId j = map_option (\<lambda>t. (tn_state t, tn_terminalKind t)) (find_row tn_turnId turnId (jn_turns j))"

definition terminalTurns :: "journal \<Rightarrow> turn_row list" where
  "terminalTurns j = filter (\<lambda>t. tn_state t = ''terminal'') (jn_turns j)"

text \<open>Of several turns that were created at the same time, the one that was inserted last is taken.\<close>

definition latestTerminalTurn :: "journal \<Rightarrow> turn_row option" where
  "latestTerminalTurn j =
     (case rev (sort_key tn_createdAt (terminalTurns j)) of [] \<Rightarrow> None | t # _ \<Rightarrow> Some t)"

definition terminalTurnBoundaries :: "nat \<Rightarrow> journal \<Rightarrow> int list" where
  "terminalTurnBoundaries limit j = take limit (sort (List.map_filter tn_lastSeq (terminalTurns j)))"

definition isCutBoundary :: "journal \<Rightarrow> int \<Rightarrow> bool" where
  "isCutBoundary j seq \<longleftrightarrow>
     (case find (\<lambda>r. j_seq r > seq) (rows_asc j) of
        None \<Rightarrow> False | Some r \<Rightarrow> j_kind r = KindMessage \<and> j_role r = Some ''user'')"

definition deleteTurnsBelow :: "int \<Rightarrow> journal \<Rightarrow> journal" where
  "deleteTurnsBelow seq j =
     j\<lparr>jn_turns := sql_delete (\<lambda>t. case tn_lastSeq t of None \<Rightarrow> False | Some l \<Rightarrow> l < seq) (jn_turns j)\<rparr>"

subsection \<open>Inbox\<close>

definition stageInbox :: "(json \<Rightarrow> string) \<Rightarrow> inbox_row \<Rightarrow> journal \<Rightarrow> (journal_error + unit) \<times> journal" where
  "stageInbox stringify row j =
     (if ib_turnId row \<in> set (jn_retiredTurns j) then (Inl StaleJournalWriterError, j)
      else (Inr (),
        if find_row ib_writerKey (ib_writerKey row) (jn_inbox j) \<noteq> None then j
        else j\<lparr>jn_inbox := jn_inbox j @ [row\<lparr>
               ib_id := fold max (map ib_id (jn_inbox j)) 0 + 1,
               ib_bytes := utf8Length (stringify (coalesce (ib_payload row) JNull))\<rparr>]\<rparr>))"

definition inboxSize :: "journal \<Rightarrow> int \<times> int" where
  "inboxSize j = (int (length (jn_inbox j)), coalesce (sql_sum (map ib_bytes (jn_inbox j))) 0)"

definition takeInbox :: "nat \<Rightarrow> journal \<Rightarrow> inbox_row list" where
  "takeInbox limit j = take limit (sort_key ib_id (jn_inbox j))"

definition dropInbox :: "int \<Rightarrow> journal \<Rightarrow> journal" where
  "dropInbox i j = j\<lparr>jn_inbox := sql_delete (\<lambda>r. ib_id r = i) (jn_inbox j)\<rparr>"

subsection \<open>Segments and storage\<close>

definition hotStats :: "journal \<Rightarrow> int \<times> int" where
  "hotStats j = (int (length (jn_rows j)), coalesce (sql_sum (map j_bytes (jn_rows j))) 0)"

fun cutScan :: "int \<Rightarrow> int \<Rightarrow> int \<Rightarrow> int \<Rightarrow> journal_row list \<Rightarrow> int option" where
  "cutScan targetRows targetBytes kept keptBytes [] = None"
| "cutScan targetRows targetBytes kept keptBytes (r # rs) =
     (if kept \<ge> targetRows then Some (j_seq r)
      else if targetBytes > 0 \<and> keptBytes + j_bytes r > targetBytes \<and> kept > 0 then Some (j_seq r)
      else cutScan targetRows targetBytes (kept + 1) (keptBytes + j_bytes r) rs)"

definition desiredCutSeq :: "int \<Rightarrow> int \<Rightarrow> journal \<Rightarrow> int option" where
  "desiredCutSeq targetRows targetBytes j =
     (let (rows, bytes) = hotStats j in
      if rows \<le> targetRows \<and> bytes \<le> targetBytes then None
      else cutScan targetRows targetBytes 0 0 (take (nat (max targetRows 1) + 1) (rev (rows_asc j))))"

definition pendingSegment :: "journal \<Rightarrow> segment_row option" where
  "pendingSegment j =
     (case sort_key sg_firstSeq (filter (\<lambda>s. sg_state s = Uploading) (jn_segments j)) of [] \<Rightarrow> None | s # _ \<Rightarrow> Some s)"

definition insertSegment :: "segment_row \<Rightarrow> journal \<Rightarrow> journal" where
  "insertSegment row j =
     (if find_row sg_firstSeq (sg_firstSeq row) (jn_segments j) \<noteq> None
      then j\<lparr>jn_segments := sql_update (\<lambda>s. sg_firstSeq s = sg_firstSeq row)
               (\<lambda>s. s\<lparr>sg_lastSeq := sg_lastSeq row, sg_rows := sg_rows row, sg_bytes := sg_bytes row,
                      sg_r2Key := sg_r2Key row\<rparr>) (jn_segments j)\<rparr>
      else j\<lparr>jn_segments := jn_segments j @ [row]\<rparr>)"

definition commitSegment :: "int \<Rightarrow> int \<Rightarrow> journal \<Rightarrow> journal" where
  "commitSegment firstSeq lastSeq j =
     updateMeta (\<lambda>m. if mt_hotMinSeq m < lastSeq + 1 then m\<lparr>mt_hotMinSeq := lastSeq + 1\<rparr> else m)
       (j\<lparr>jn_segments := sql_update (\<lambda>s. sg_firstSeq s = firstSeq) (\<lambda>s. s\<lparr>sg_state := Committed\<rparr>) (jn_segments j),
          jn_rows := sql_delete (\<lambda>r. firstSeq \<le> j_seq r \<and> j_seq r \<le> lastSeq) (jn_rows j),
          jn_turns := sql_delete (\<lambda>t. case tn_lastSeq t of None \<Rightarrow> False | Some l \<Rightarrow> l \<le> lastSeq) (jn_turns j)\<rparr>)"

definition segmentsCovering :: "int \<Rightarrow> int \<Rightarrow> nat \<Rightarrow> journal \<Rightarrow> segment_row list" where
  "segmentsCovering fromSeq toSeq limit j =
     take limit (sort_key sg_firstSeq
       (filter (\<lambda>s. sg_lastSeq s \<ge> fromSeq \<and> sg_firstSeq s \<le> toSeq) (committedSegments j)))"

definition allSegmentKeys :: "journal \<Rightarrow> string list" where
  "allSegmentKeys j = map sg_r2Key (jn_segments j)"

definition allSpillKeys :: "journal \<Rightarrow> string list" where
  "allSpillKeys j = map sp_key (jn_spills j)"

definition storedBytes :: "journal \<Rightarrow> int" where
  "storedBytes j =
     snd (hotStats j) + coalesce (sql_sum (map sg_bytes (committedSegments j))) 0 +
     coalesce (sql_sum (map sp_bytes (jn_spills j))) 0"

definition appendBudget ::
  "ms \<Rightarrow> int \<Rightarrow> ms \<Rightarrow> int \<Rightarrow> int \<Rightarrow> bool \<Rightarrow> journal \<Rightarrow> (bool \<times> ms) \<times> journal" where
  "appendBudget now bytes windowMs maxRequests maxBytes commit j =
     (let (startedAt, requests, used) =
            (case jn_window j of
               Some (s, r, b) \<Rightarrow> if now - s \<ge> windowMs then (now, 1, bytes) else (s, r + 1, b + bytes)
             | None \<Rightarrow> (now, 1, bytes))
      in if requests > maxRequests \<or> used > maxBytes
         then ((False, max 1000 (startedAt + windowMs - now)), j)
         else ((True, 0), if commit then j\<lparr>jn_window := Some (startedAt, requests, used)\<rparr> else j))"

subsection \<open>Purge queue\<close>

definition enqueueKey :: "ms \<Rightarrow> string \<Rightarrow> journal \<Rightarrow> journal" where
  "enqueueKey now key j =
     (if find_row pq_key key (jn_purge j) \<noteq> None then j
      else j\<lparr>jn_purge := jn_purge j @ [\<lparr>pq_key = key, pq_queuedAt = now, pq_attempts = 0\<rparr>]\<rparr>)"

definition enqueuePurge :: "string list \<Rightarrow> ms \<Rightarrow> journal \<Rightarrow> journal" where
  "enqueuePurge keys now j = fold (enqueueKey now) keys j"

definition purgeBatch :: "nat \<Rightarrow> journal \<Rightarrow> string list" where
  "purgeBatch limit j = map pq_key (take limit (sort_key pq_attempts (sort_key pq_queuedAt (jn_purge j))))"

definition purgeDone :: "string list \<Rightarrow> journal \<Rightarrow> journal" where
  "purgeDone keys j =
     fold (\<lambda>key j. j\<lparr>jn_purge := sql_delete (\<lambda>p. pq_key p = key) (jn_purge j),
                     jn_spills := sql_delete (\<lambda>s. sp_key s = key) (jn_spills j)\<rparr>) keys j"

definition purgeFailed :: "string list \<Rightarrow> journal \<Rightarrow> journal" where
  "purgeFailed keys j =
     fold (\<lambda>key j. j\<lparr>jn_purge := sql_update (\<lambda>p. pq_key p = key) (\<lambda>p. p\<lparr>pq_attempts := pq_attempts p + 1\<rparr>)
                       (jn_purge j)\<rparr>) keys j"

definition purgePending :: "journal \<Rightarrow> int" where
  "purgePending j = int (length (jn_purge j))"

end
