(* ===== verification/Journal.thy ===== *)
theory Journal
  imports Journal_Store
begin

text \<open>
  What the journal promises: sequence numbers are gapless, an append is made once per writer key, the tail is
  repaired before the model reads it, and the context window opens on a user message within its budget.
\<close>

subsection \<open>Growth\<close>

text \<open>The columns of a row that no operation changes.\<close>

definition row_key :: "journal_row \<Rightarrow> int \<times> record_kind \<times> string \<times> string \<times> string \<times> ms \<times> string option" where
  "row_key r = (j_seq r, j_kind r, j_turnId r, j_writer r, j_writerKey r, j_createdAt r, j_role r)"

lemma map_row_key:
  assumes "map row_key rs = map row_key rs'"
  shows "map j_seq rs = map j_seq rs'" "map j_writerKey rs = map j_writerKey rs'"
proof -
  have *: "map j_seq xs = map fst (map row_key xs)"
    "map j_writerKey xs = map (\<lambda>k. fst (snd (snd (snd (snd k))))) (map row_key xs)" for xs
    by (simp_all add: row_key_def)
  show "map j_seq rs = map j_seq rs'" "map j_writerKey rs = map j_writerKey rs'" unfolding * assms by simp_all
qed

text \<open>One journal grows into another by rows that take the next sequence numbers and bring new writer keys.\<close>

definition grows :: "journal \<Rightarrow> journal \<Rightarrow> bool" where
  "grows j j' \<longleftrightarrow>
     (\<exists>m m' new. jn_meta j = Some m \<and> jn_meta j' = Some m' \<and> mt_hotMinSeq m' = mt_hotMinSeq m \<and>
        mt_nextSeq m' = mt_nextSeq m + int (length new) \<and> map j_seq new = [mt_nextSeq m..mt_nextSeq m' - 1] \<and>
        map row_key (jn_rows j') = map row_key (jn_rows j) @ map row_key new \<and>
        distinct (map j_writerKey new) \<and> set (map j_writerKey new) \<inter> set (map j_writerKey (jn_rows j)) = {} \<and>
        jn_segments j' = jn_segments j)"

definition bootstrapped :: "journal \<Rightarrow> bool" where
  "bootstrapped j \<longleftrightarrow> jn_meta j \<noteq> None"

lemma grows_same:
  assumes "bootstrapped j" and "map row_key (jn_rows j') = map row_key (jn_rows j)" and "jn_segments j' = jn_segments j"
    and "\<And>m. jn_meta j = Some m \<Longrightarrow> \<exists>m'. jn_meta j' = Some m' \<and> mt_hotMinSeq m' = mt_hotMinSeq m \<and> mt_nextSeq m' = mt_nextSeq m"
  shows "grows j j'"
proof -
  obtain m where "jn_meta j = Some m" using assms(1) by (auto simp: bootstrapped_def)
  then obtain m' where "jn_meta j = Some m" "jn_meta j' = Some m'" "mt_hotMinSeq m' = mt_hotMinSeq m" "mt_nextSeq m' = mt_nextSeq m"
    using assms(4) by blast
  then show ?thesis unfolding grows_def using assms(2,3) by (intro exI [of _ m] exI [of _ m'] exI [of _ "[]"]) simp
qed

lemma grows_refl: "bootstrapped j \<Longrightarrow> grows j j"
  by (rule grows_same) auto

lemma grows_bootstrapped: "grows j j' \<Longrightarrow> bootstrapped j'"
  by (auto simp: grows_def bootstrapped_def)

lemma grows_trans:
  assumes "grows a b" and "grows b c"
  shows "grows a c"
proof -
  obtain m m1 new where 1: "jn_meta a = Some m" "jn_meta b = Some m1" "mt_hotMinSeq m1 = mt_hotMinSeq m"
    "mt_nextSeq m1 = mt_nextSeq m + int (length new)" "map j_seq new = [mt_nextSeq m..mt_nextSeq m1 - 1]"
    "map row_key (jn_rows b) = map row_key (jn_rows a @ new)"
    "distinct (map j_writerKey new)" "set (map j_writerKey new) \<inter> set (map j_writerKey (jn_rows a)) = {}"
    "jn_segments b = jn_segments a"
    using assms(1) by (auto simp: grows_def)
  obtain m2 new2 where 2: "jn_meta c = Some m2" "mt_hotMinSeq m2 = mt_hotMinSeq m1"
    "mt_nextSeq m2 = mt_nextSeq m1 + int (length new2)" "map j_seq new2 = [mt_nextSeq m1..mt_nextSeq m2 - 1]"
    "map row_key (jn_rows c) = map row_key (jn_rows b @ new2)"
    "distinct (map j_writerKey new2)" "set (map j_writerKey new2) \<inter> set (map j_writerKey (jn_rows b)) = {}"
    "jn_segments c = jn_segments b"
    using assms(2) 1(2) by (auto simp: grows_def)
  have keys: "map j_writerKey (jn_rows b) = map j_writerKey (jn_rows a @ new)" by (rule map_row_key(2) [OF 1(6)])
  have "[mt_nextSeq m..mt_nextSeq m1 - 1] @ [mt_nextSeq m1..mt_nextSeq m2 - 1] = [mt_nextSeq m..mt_nextSeq m2 - 1]"
    using upto_split1 [of "mt_nextSeq m" "mt_nextSeq m1" "mt_nextSeq m2 - 1"] 1(4) 2(3) 
    by (cases "new2 = []") auto
  then show ?thesis
    unfolding grows_def using 1 2 keys
    by (intro exI [of _ m] exI [of _ m2] exI [of _ "new @ new2"]) auto
qed

lemma grows_insertRow:
  assumes "bootstrapped j"
  shows "grows j (snd (insertRow row j))"
proof (cases "find_row j_writerKey (j_writerKey row) (jn_rows j) = None \<and>
    \<not> (j_writerKey row \<in> set (jn_retiredWriters j) \<or> j_turnId row \<in> set (jn_retiredTurns j))")
  case True
  obtain m where m: "jn_meta j = Some m" using assms by (auto simp: bootstrapped_def)
  have "j_writerKey row \<notin> j_writerKey ` set (jn_rows j)" using True by (simp add: find_row_None)
  then show ?thesis using True m unfolding grows_def
    by (intro exI [of _ m] exI [of _ "m\<lparr>mt_nextSeq := mt_nextSeq m + 1\<rparr>"] exI [of _ "[row\<lparr>j_seq := mt_nextSeq m\<rparr>]"])
       (simp add: insertRow_def updateMeta_def)
next
  case False
  then have "snd (insertRow row j) = j" by (auto simp: insertRow_def split: option.splits)
  then show ?thesis using grows_refl [OF assms] by simp
qed

lemma grows_assertWritable: "bootstrapped j \<Longrightarrow> grows j (snd (f j)) \<Longrightarrow> grows j (snd (assertWritable f j))"
  by (simp add: assertWritable_def grows_refl)

lemma grows_appends: "bootstrapped j \<Longrightarrow> grows j (snd (assertWritable (insertRow row) j))"
  by (rule grows_assertWritable [OF _ grows_insertRow])

lemma grows_appendMessage: "bootstrapped j \<Longrightarrow> grows j (snd (appendMessage stringify input j))"
  by (simp add: appendMessage_def grows_appends)

lemma grows_interrupted: "bootstrapped j \<Longrightarrow> grows j (snd (appendInterrupted stringify now calls j))"
proof (induction stringify now calls j rule: appendInterrupted.induct)
  case (2 stringify now turnId i calls j)
  let ?r = "appendMessage stringify (repairedResult turnId i (interruptedResult i now) now) j"
  have g: "grows j (snd ?r)" using 2 grows_appendMessage by blast
  show ?case
  proof (cases "fst ?r")
    case (Inr a)
    then have r: "?r = (Inr a, snd ?r)" by (simp add: prod_eq_iff)
    have "grows (snd ?r) (snd (appendInterrupted stringify now calls (snd ?r)))"
      using 2 r grows_bootstrapped [OF g] by metis
    then show ?thesis using grows_trans [OF g] r by (subst appendInterrupted.simps, subst r) (auto split: prod.splits sum.splits)
  next
    case (Inl e)
    then have "?r = (Inl e, snd ?r)" by (simp add: prod_eq_iff)
    then show ?thesis using g by (subst appendInterrupted.simps) (auto split: prod.splits sum.splits)
  qed
qed (simp add: grows_refl)

subsection \<open>Operations\<close>

datatype journal_op =
    OpBootstrap
  | OpBind string ms string "string option"
  | OpConversationId string
  | OpTitle string
  | OpDelete ms
  | OpIndexed int
  | OpMessage message_input
  | OpTurn turn_input
  | OpCard string string string json ms
  | OpReceipt append_receipt
  | OpAttachSpill int string string int ms
  | OpRepair ms
  | OpRepaired string json ms
  | OpModelSkip int
  | OpUpsertTurn turn_row ms
  | OpContext string int int
  | OpSpan string int
  | OpTerminal string string ms
  | OpTurnsBelow int
  | OpStage inbox_row
  | OpDropInbox int
  | OpSpill string int ms
  | OpBudget ms int ms int int bool
  | OpEnqueuePurge "string list" ms
  | OpPurgeDone "string list"
  | OpPurgeFailed "string list"

fun journal_step :: "(json \<Rightarrow> string) \<Rightarrow> journal_op \<Rightarrow> journal \<Rightarrow> journal" where
  "journal_step e OpBootstrap j = bootstrap j"
| "journal_step e (OpBind i t title c) j = snd (bindOwner i t title c j)"
| "journal_step e (OpConversationId i) j = setConversationId i j"
| "journal_step e (OpTitle t) j = setTitle t j"
| "journal_step e (OpDelete now) j = markDeleted now j"
| "journal_step e (OpIndexed seq) j = setIndexSyncedSeq seq j"
| "journal_step e (OpMessage input) j = snd (appendMessage e input j)"
| "journal_step e (OpTurn input) j = snd (appendTurn e input j)"
| "journal_step e (OpCard turnId writer writerKey body now) j = snd (appendCard e turnId writer writerKey body now j)"
| "journal_step e (OpReceipt r) j = putAppendReceipt r j"
| "journal_step e (OpAttachSpill seq key role bytes now) j = attachSpill seq key role bytes now j"
| "journal_step e (OpRepair now) j = snd (repairTail e now j)"
| "journal_step e (OpRepaired turnId message now) j = snd (appendRepairedResult e turnId message now j)"
| "journal_step e (OpModelSkip seq) j = markModelSkip seq j"
| "journal_step e (OpUpsertTurn row now) j = snd (upsertTurn row now j)"
| "journal_step e (OpContext turnId a b) j = setTurnContext turnId a b j"
| "journal_step e (OpSpan turnId seq) j = setTurnSpan turnId seq j"
| "journal_step e (OpTerminal turnId kind now) j = setTurnTerminal turnId kind now j"
| "journal_step e (OpTurnsBelow seq) j = deleteTurnsBelow seq j"
| "journal_step e (OpStage row) j = snd (stageInbox e row j)"
| "journal_step e (OpDropInbox i) j = dropInbox i j"
| "journal_step e (OpSpill key bytes now) j = recordSpill key bytes now j"
| "journal_step e (OpBudget now bytes windowMs maxRequests maxBytes commit) j =
     snd (appendBudget now bytes windowMs maxRequests maxBytes commit j)"
| "journal_step e (OpEnqueuePurge keys now) j = enqueuePurge keys now j"
| "journal_step e (OpPurgeDone keys) j = purgeDone keys j"
| "journal_step e (OpPurgeFailed keys) j = purgeFailed keys j"

lemma grows_updateMeta:
  assumes "bootstrapped j" and "\<And>m. mt_hotMinSeq (f m) = mt_hotMinSeq m \<and> mt_nextSeq (f m) = mt_nextSeq m"
  shows "grows j (updateMeta f j)"
  using assms by (intro grows_same) (auto simp: updateMeta_def)

lemma grows_rows_frame:
  assumes "bootstrapped j" and "jn_meta j' = jn_meta j" and "map row_key (jn_rows j') = map row_key (jn_rows j)"
    and "jn_segments j' = jn_segments j"
  shows "grows j j'"
  using assms by (intro grows_same) auto

text \<open>Operations that leave the rows, the segments and the meta row alone.\<close>

definition neutral :: "journal \<Rightarrow> journal \<Rightarrow> bool" where
  "neutral j j' \<longleftrightarrow> jn_meta j' = jn_meta j \<and> jn_rows j' = jn_rows j \<and> jn_segments j' = jn_segments j"

lemma grows_neutral: "bootstrapped j \<Longrightarrow> neutral j j' \<Longrightarrow> grows j j'"
  by (rule grows_rows_frame) (auto simp: neutral_def)

lemma neutral_turns:
  "neutral j (putAppendReceipt r j)" "neutral j (snd (upsertTurn row now j))" "neutral j (setTurnContext turnId a b j)"
  "neutral j (setTurnSpan turnId seq j)" "neutral j (setTurnTerminal turnId kind now j)" "neutral j (deleteTurnsBelow seq j)"
  "neutral j (snd (stageInbox e irow j))" "neutral j (dropInbox i j)" "neutral j (recordSpill key bytes now j)"
  by (simp_all add: neutral_def putAppendReceipt_def upsertTurn_def setTurnContext_def setTurnSpan_def
      setTurnTerminal_def updateTurn_def deleteTurnsBelow_def stageInbox_def dropInbox_def recordSpill_def)

lemma neutral_budget: "neutral j (snd (appendBudget now bytes windowMs maxRequests maxBytes commit j))"
  by (auto simp: neutral_def appendBudget_def Let_def split: option.splits prod.splits)

lemma neutral_purge:
  "neutral j (enqueuePurge keys now j)" "neutral j (purgeDone keys j)" "neutral j (purgeFailed keys j)"
  by (induction keys arbitrary: j)
     (simp_all add: neutral_def enqueuePurge_def purgeDone_def purgeFailed_def enqueueKey_def)

lemma row_key_update:
  "(\<And>r. row_key (f r) = row_key r) \<Longrightarrow> map row_key (sql_update p f t) = map row_key t"
  by (rule map_sql_update_key)

lemma grows_step:
  assumes b: "bootstrapped j"
  shows "grows j (journal_step e op j)"
proof (cases op)
  case OpBootstrap
  then show ?thesis using b by (intro grows_same) (auto simp: bootstrap_def Let_def bootstrapped_def)
next
  case (OpBind i t title c)
  then show ?thesis using b grows_refl by (simp add: bindOwner_def Let_def grows_updateMeta)
next
  case (OpRepair now)
  then show ?thesis using b by (simp add: repairTail_def grows_interrupted)
next
  case (OpAttachSpill seq key role bytes now)
  then show ?thesis using b
    by (intro grows_rows_frame) (simp_all add: attachSpill_def recordSpill_def Let_def row_key_update row_key_def)
next
  case (OpModelSkip seq)
  then show ?thesis using b
    by (intro grows_rows_frame) (simp_all add: markModelSkip_def row_key_update row_key_def)
next
  case (OpRepaired turnId message now)
  then show ?thesis using b
    by (simp add: appendRepairedResult_def grows_appendMessage grows_refl split: option.splits)
qed (use b in \<open>simp_all add: setConversationId_def setTitle_def markDeleted_def setIndexSyncedSeq_def
    grows_refl grows_updateMeta grows_appendMessage appendTurn_def appendCard_def grows_appends
    grows_neutral neutral_turns neutral_budget neutral_purge\<close>)

subsection \<open>Well-formed journals\<close>

definition journal_wf :: "journal \<Rightarrow> bool" where
  "journal_wf j \<longleftrightarrow>
     (\<exists>m. jn_meta j = Some m \<and> 0 \<le> mt_hotMinSeq m \<and> mt_hotMinSeq m \<le> mt_nextSeq m \<and>
        map j_seq (jn_rows j) = [mt_hotMinSeq m..mt_nextSeq m - 1] \<and> distinct (map j_writerKey (jn_rows j)))"

lemma wf_bootstrapped: "journal_wf j \<Longrightarrow> bootstrapped j"
  by (auto simp: journal_wf_def bootstrapped_def)

lemma wf_grows:
  assumes "journal_wf j" and "grows j j'"
  shows "journal_wf j'"
proof -
  obtain m m' new where g: "jn_meta j = Some m" "jn_meta j' = Some m'" "mt_hotMinSeq m' = mt_hotMinSeq m"
    "mt_nextSeq m' = mt_nextSeq m + int (length new)" "map j_seq new = [mt_nextSeq m..mt_nextSeq m' - 1]"
    "map row_key (jn_rows j') = map row_key (jn_rows j @ new)"
    "distinct (map j_writerKey new)" "set (map j_writerKey new) \<inter> set (map j_writerKey (jn_rows j)) = {}"
    using assms(2) by (auto simp: grows_def)
  have w: "0 \<le> mt_hotMinSeq m" "mt_hotMinSeq m \<le> mt_nextSeq m"
    "map j_seq (jn_rows j) = [mt_hotMinSeq m..mt_nextSeq m - 1]" "distinct (map j_writerKey (jn_rows j))"
    using assms(1) g(1) by (auto simp: journal_wf_def)
  have "[mt_hotMinSeq m..mt_nextSeq m - 1] @ [mt_nextSeq m..mt_nextSeq m' - 1] = [mt_hotMinSeq m..mt_nextSeq m' - 1]"
    using upto_split1 [of "mt_hotMinSeq m" "mt_nextSeq m" "mt_nextSeq m' - 1"] w(2) g(4)
    by (cases "new = []") auto
  then show ?thesis
    using g w map_row_key [OF g(6)] by (auto simp: journal_wf_def)
qed

lemma journal_wf_step: "journal_wf j \<Longrightarrow> journal_wf (journal_step e op j)"
  using wf_grows grows_step wf_bootstrapped by blast

interpretation journal: invariant_system "journal_step e" journal_wf
  by unfold_locales (rule journal_wf_step)

lemma wf_bootstrap: "journal_wf (bootstrap empty_storage)"
  by (simp add: journal_wf_def bootstrap_def empty_storage_def new_meta_def Let_def)

lemma grows_run: "bootstrapped j \<Longrightarrow> grows j (fold (journal_step e) ops j)"
proof (induction ops arbitrary: j)
  case (Cons op ops)
  have g: "grows j (journal_step e op j)" by (rule grows_step [OF Cons.prems])
  show ?case using grows_trans [OF g Cons.IH [OF grows_bootstrapped [OF g]]] by simp
qed (simp add: grows_refl)

lemma wf_sorted:
  assumes "journal_wf j"
  shows "sorted (map j_seq (jn_rows j))" "distinct (map j_seq (jn_rows j))" "rows_asc j = jn_rows j"
proof -
  show s: "sorted (map j_seq (jn_rows j))" using assms by (auto simp: journal_wf_def)
  show "distinct (map j_seq (jn_rows j))" using assms by (auto simp: journal_wf_def)
  show "rows_asc j = jn_rows j" using s by (simp add: rows_asc_def sort_key_id_if_sorted)
qed

lemma grows_row:
  assumes "grows j j'" and "r \<in> set (jn_rows j)"
  obtains r' where "r' \<in> set (jn_rows j')" "row_key r' = row_key r"
proof -
  obtain new where "map row_key (jn_rows j') = map row_key (jn_rows j @ new)" using assms(1) by (auto simp: grows_def)
  from arg_cong [OF this, of set] have "set (map row_key (jn_rows j)) \<subseteq> set (map row_key (jn_rows j'))" by auto
  then have "row_key r \<in> row_key ` set (jn_rows j')" using assms(2) by auto
  then show ?thesis using that by auto
qed

subsection \<open>Retries\<close>

lemma insertRow_resident:
  assumes "insertRow row j = (Inr (seq, fresh), j')"
  obtains r where "r \<in> set (jn_rows j')" "j_seq r = seq" "j_writerKey r = j_writerKey row"
proof (cases "find_row j_writerKey (j_writerKey row) (jn_rows j)")
  case (Some r)
  then show ?thesis using assms that [of r] find_row_Some [OF Some] by (auto simp: insertRow_def)
next
  case None
  then show ?thesis using assms that [of "row\<lparr>j_seq := seq\<rparr>"]
    by (auto simp: insertRow_def updateMeta_def split: if_splits option.splits)
qed


definition plain_message :: "string \<Rightarrow> string \<Rightarrow> string \<Rightarrow> json \<Rightarrow> message_input" where
  "plain_message turnId key role message =
     \<lparr>mi_turnId = turnId, mi_writer = ''w'', mi_writerKey = key, mi_role = role, mi_message = message, mi_hidden = False,
      mi_modelSkip = False, mi_streamId = None, mi_clientMsgId = None, mi_createdAt = 7, mi_spillKey = None\<rparr>"

definition no_text :: "json \<Rightarrow> string" where "no_text v = ''null''"

definition first_append :: "(journal_error + int \<times> bool) \<times> journal" where
  "first_append = appendMessage no_text (plain_message ''t'' ''k'' ''user'' JNull) (bootstrap empty_storage)"


subsection \<open>Repair\<close>

lemma scanOpen_subset:
  assumes "set answered' \<subseteq> set answered" and "c \<in> set (scanOpen calls cid (take n rows) answered)"
    and "\<And>p. set (map cid (calls p)) \<subseteq> set (map cid' (calls' p))"
  shows "\<exists>c'. (fst c, c') \<in> set (scanOpen calls' cid' rows answered') \<and> cid' c' = cid (snd c) \<and> cid (snd c) \<notin> set answered"
  using assms(1,2)
proof (induction rows arbitrary: n answered answered')
  case (Cons r rows)
  obtain k where n: "n = Suc k" using Cons.prems(2) by (cases n) auto
  consider "j_role r = Some ''user''" | "j_role r = Some ''toolResult''"
    | "j_role r \<noteq> Some ''user''" "j_role r \<noteq> Some ''toolResult''" by blast
  then show ?case
  proof cases
    case 1
    then show ?thesis using Cons.prems n by simp
  next
    case 2
    let ?a = "\<lambda>a. if spilled (j_toolCallId r) then the (j_toolCallId r) # a else a"
    have "set (?a answered') \<subseteq> set (?a answered)" using Cons.prems(1) by auto
    from Cons.IH [OF this] Cons.prems(2) 2 n show ?thesis by (fastforce split: if_splits)
  next
    case 3
    note IH = Cons.IH [OF Cons.prems(1), of k]
    show ?thesis
    proof (cases "j_role r \<noteq> Some ''assistant'' \<or> j_openCalls r = 0 \<or> spilled (j_spillKey r) \<or> j_payload r = None")
      case True
      then show ?thesis using IH Cons.prems(2) 3 n by simp
    next
      case False
      then obtain p where p: "j_payload r = Some p" by auto
      consider "c \<in> (\<lambda>x. (j_turnId r, x)) ` {x \<in> set (calls p). cid x \<notin> set answered}"
        | "c \<in> set (scanOpen calls cid (take k rows) answered)"
        using Cons.prems(2) 3 n False p by auto
      then show ?thesis
      proof cases
        case 1
        then obtain x where x: "c = (j_turnId r, x)" "x \<in> set (calls p)" "cid x \<notin> set answered" by auto
        then obtain y where "y \<in> set (calls' p)" "cid' y = cid x" using assms(3) [of p] by auto
        then show ?thesis using x Cons.prems(1) 3 False p by (intro exI [of _ y]) auto
      next
        case 2
        then show ?thesis using IH 3 False p by auto
      qed
    qed
  qed
qed simp

lemma scanOpen_results:
  assumes "\<forall>r \<in> set results. j_role r = Some ''toolResult''"
  shows "scanOpen calls cid (results @ rows) answered =
    scanOpen calls cid rows (rev (map the (filter spilled (map j_toolCallId results))) @ answered)"
  using assms by (induction results arbitrary: answered) auto

lemma set_map_filter: "y \<in> set (List.map_filter f xs) \<longleftrightarrow> (\<exists>x \<in> set xs. f x = Some y)"
  by (induction xs) (auto simp: map_filter_simps split: option.splits)

lemma toolCallsOf_ids: "set (map tc_id (toolCallsOf p)) \<subseteq> set (toolCallIds p)"
proof
  fix i assume "i \<in> set (map tc_id (toolCallsOf p))"
  then obtain c where "c \<in> set (toolCallsOf p)" "i = tc_id c" by auto
  then show "i \<in> set (toolCallIds p)"
    unfolding toolCallsOf_def toolCallIds_def set_map_filter by (force split: bool.splits option.splits)
qed

lemma interrupted_rows:
  assumes "appendInterrupted e now calls j = (Inr results, j')" and "\<forall>r \<in> set results. snd r" and "bootstrapped j"
  shows "\<exists>new. jn_rows j' = jn_rows j @ new \<and> map j_toolCallId new = map (Some \<circ> snd) calls \<and>
    (\<forall>r \<in> set new. model_row r \<and> j_role r = Some ''toolResult'')"
  using assms
proof (induction e now calls j arbitrary: results rule: appendInterrupted.induct)
  case (2 e now turnId i calls j)
  let ?m = "repairedResult turnId i (interruptedResult i now) now"
  obtain r j1 where a: "appendMessage e ?m j = (Inr r, j1)"
    using 2(2) by (auto split: prod.splits sum.splits)
  obtain rs where rs: "results = r # rs" "appendInterrupted e now calls j1 = (Inr rs, j')"
    using 2(2) a by (auto split: prod.splits sum.splits)
  have fresh: "snd r" using 2(3) rs(1) by simp
  have "grows j j1" using grows_appendMessage [OF 2(4), of e ?m] a by simp
  then obtain new where new: "jn_rows j' = jn_rows j1 @ new" "map j_toolCallId new = map (Some \<circ> snd) calls"
    "\<forall>r \<in> set new. model_row r \<and> j_role r = Some ''toolResult''"
    using 2(1) [OF a [symmetric] refl rs(2)] 2(3) rs(1) grows_bootstrapped by auto
  let ?row = "(message_row e ?m)\<lparr>j_seq := fst r\<rparr>"
  have "insertRow (message_row e ?m) j = (Inr r, j1)"
    using a by (auto simp: appendMessage_def assertWritable_def split: if_splits)
  then have "jn_rows j1 = jn_rows j @ [?row]"
    using fresh by (auto simp: insertRow_def updateMeta_def split: if_splits option.splits)
  moreover have "j_toolCallId ?row = Some i" "model_row ?row" "j_role ?row = Some ''toolResult''"
    by (simp_all add: message_row_def repairedResult_def interruptedResult_def Let_def jget_def jstring_def model_row_def)
  ultimately show ?case using new by (intro exI [of _ "?row # new"]) simp
qed auto


definition tool_call_block :: "string \<Rightarrow> json" where
  "tool_call_block i =
     JObj [(''type'', JStr ''toolCall''), (''id'', JStr i), (''name'', JStr ''search''), (''arguments'', JObj [])]"

definition two_calls :: json where
  "two_calls = JObj [(''role'', JStr ''assistant''), (''content'', JArr [tool_call_block ''a'', tool_call_block ''b''])]"

definition interrupted_journal :: journal where
  "interrupted_journal =
     fold (journal_step no_text)
       [OpMessage (plain_message ''t'' ''p'' ''user'' (JObj [])), OpMessage (plain_message ''t'' ''q'' ''assistant'' two_calls)]
       (bootstrap empty_storage)"

lemma interrupted_wf: "journal_wf interrupted_journal"
  unfolding interrupted_journal_def by (rule journal.run_inv [OF wf_bootstrap])


text \<open>
  The repair closes the calls of one message in the reverse of the order in which the message makes them:
  the scan pushes them in call order and the whole list is reversed afterwards. A resume that reads the same tail
  is given them in call order.
\<close>

lemma repair_reverses_calls:
  assumes "newest_model_rows REPAIR_SCAN_ROW_CAP j = asst # user # rest"
    and "j_role asst = Some ''assistant''" and "j_openCalls asst \<noteq> 0" and "j_spillKey asst = None"
    and "j_payload asst = Some p" and "j_role user = Some ''user''"
  shows "repairTail e now j = appendInterrupted e now (map (\<lambda>i. (j_turnId asst, i)) (rev (toolCallIds p))) j \<and>
    openTailCalls j = map (\<lambda>c. (j_turnId asst, c)) (toolCallsOf p)"
  using assms by (simp add: repairTail_def openTailCalls_def spilled_def rev_map)

subsection \<open>The context window\<close>

lemma fitBudget_append: "\<exists>rest. rows = fitBudget used budget rows @ rest"
  by (induction rows arbitrary: used) auto

lemma fitBudget_sum: "used \<le> budget \<Longrightarrow> used + sum_list (map j_tokens (fitBudget used budget rows)) \<le> budget"
  by (induction rows arbitrary: used) (auto simp: add.assoc [symmetric])

lemma dropWhile_sum:
  "(\<forall>r \<in> set rows. 0 \<le> j_tokens r) \<Longrightarrow> sum_list (map j_tokens (dropWhile P rows)) \<le> sum_list (map j_tokens rows)"
  by (induction rows) auto

text \<open>A suffix of an ascending list is what lies at or above its first sequence number.\<close>

lemma suffix_filter_ge:
  assumes "sorted (map j_seq (xs @ r # ys))" and "distinct (map j_seq (xs @ r # ys))"
  shows "filter (\<lambda>x. j_seq r \<le> j_seq x) (xs @ r # ys) = r # ys"
proof -
  have "\<forall>x \<in> set xs. \<not> j_seq r \<le> j_seq x" using assms by (force simp: sorted_append)
  then have "filter (\<lambda>x. j_seq r \<le> j_seq x) xs = []" by (simp add: filter_empty_conv)
  moreover have "\<forall>x \<in> set ys. j_seq r \<le> j_seq x" using assms(1) by (auto simp: sorted_append)
  ultimately show ?thesis by simp
qed

lemma context_rows_suffix:
  "\<exists>before. filter (\<lambda>r. model_row r \<and> j_turnId r \<noteq> excludeTurnId \<and> j_seq r > afterSeq) (rows_asc j) =
     before @ context_rows excludeTurnId budget afterSeq j"
proof -
  define q where "q = filter (\<lambda>r. model_row r \<and> j_turnId r \<noteq> excludeTurnId \<and> j_seq r > afterSeq) (rows_asc j)"
  define scan where "scan = take CONTEXT_SCAN_ROW_CAP (rev q)"
  obtain rest where "scan = fitBudget 0 budget scan @ rest" using fitBudget_append by blast
  then have 1: "rev scan = rev rest @ rev (fitBudget 0 budget scan)" by (metis rev_append)
  have 2: "q = rev (drop CONTEXT_SCAN_ROW_CAP (rev q)) @ rev scan"
    unfolding scan_def by (metis append_take_drop_id rev_append rev_rev_ident)
  have 3: "rev (fitBudget 0 budget scan) = takeWhile P (rev (fitBudget 0 budget scan)) @ dropWhile P (rev (fitBudget 0 budget scan))" for P
    by simp
  show ?thesis
    unfolding context_rows_def Let_def q_def [symmetric] scan_def [symmetric]
    using 2 1 3 [of "\<lambda>r. j_role r \<noteq> Some ''user''"] by (metis append.assoc)
qed

lemma context_rows_budget:
  assumes "0 \<le> budget" and "\<forall>r \<in> set (jn_rows j). 0 \<le> j_tokens r"
  shows "sum_list (map j_tokens (context_rows excludeTurnId budget afterSeq j)) \<le> budget"
proof -
  define scan where "scan = take CONTEXT_SCAN_ROW_CAP
    (rev (filter (\<lambda>r. model_row r \<and> j_turnId r \<noteq> excludeTurnId \<and> j_seq r > afterSeq) (rows_asc j)))"
  have "set scan \<subseteq> set (jn_rows j)" by (auto simp: scan_def rows_asc_def dest: in_set_takeD)
  moreover have "set (fitBudget 0 budget scan) \<subseteq> set scan"
    using fitBudget_append [of scan 0 budget] by (metis le_sup_iff set_append subsetI)
  ultimately have "sum_list (map j_tokens (context_rows excludeTurnId budget afterSeq j)) \<le>
      sum_list (map j_tokens (rev (fitBudget 0 budget scan)))"
    unfolding context_rows_def Let_def scan_def [symmetric] using assms(2) by (intro dropWhile_sum) auto
  also have "\<dots> = sum_list (map j_tokens (fitBudget 0 budget scan))" by (metis rev_map sum_list_rev)
  also have "\<dots> \<le> budget" using fitBudget_sum [of 0 budget scan] assms(1) by simp
  finally show ?thesis .
qed

definition tokens_ok :: "journal \<Rightarrow> bool" where
  "tokens_ok j \<longleftrightarrow> (\<forall>r \<in> set (jn_rows j). 0 \<le> j_tokens r)"

lemma estimateTokens_nonneg: "0 \<le> estimateTokens s"
proof -
  have "length (filter P s) \<le> length s" for P by simp
  then show ?thesis by (simp add: estimateTokens_def Let_def)
qed

lemma tokens_insertRow: "tokens_ok j \<Longrightarrow> 0 \<le> j_tokens row \<Longrightarrow> tokens_ok (snd (assertWritable (insertRow row) j))"
  by (auto simp: tokens_ok_def assertWritable_def insertRow_def updateMeta_def split: option.splits)

lemma tokens_appendMessage: "tokens_ok j \<Longrightarrow> tokens_ok (snd (appendMessage e input j))"
  by (simp add: appendMessage_def tokens_insertRow message_row_def Let_def estimateTokens_nonneg)

lemma tokens_interrupted: "tokens_ok j \<Longrightarrow> tokens_ok (snd (appendInterrupted e now calls j))"
proof (induction e now calls j rule: appendInterrupted.induct)
  case (2 e now turnId i calls j)
  let ?r = "appendMessage e (repairedResult turnId i (interruptedResult i now) now) j"
  have t: "tokens_ok (snd ?r)" using 2 tokens_appendMessage by blast
  obtain x j1 where r: "?r = (x, j1)" by fastforce
  show ?case using 2(1) [OF r [symmetric]] t r by (cases x) (auto split: prod.splits sum.splits)
qed simp

lemma tokens_neutral: "neutral j j' \<Longrightarrow> tokens_ok j \<Longrightarrow> tokens_ok j'"
  by (simp add: neutral_def tokens_ok_def)

lemma tokens_update:
  "(\<And>r. j_tokens (f r) = j_tokens r) \<Longrightarrow> tokens_ok j \<Longrightarrow> tokens_ok (j\<lparr>jn_rows := sql_update p f (jn_rows j)\<rparr>)"
  by (auto simp: tokens_ok_def set_sql_update)

lemma tokens_updateMeta [simp]: "tokens_ok (updateMeta f j) = tokens_ok j"
  by (simp add: tokens_ok_def updateMeta_def)

lemma tokens_step: "tokens_ok j \<Longrightarrow> tokens_ok (journal_step e op j)"
proof (cases op)
  case OpBootstrap
  then show "tokens_ok j \<Longrightarrow> ?thesis" by (simp add: bootstrap_def Let_def tokens_ok_def split: option.splits)
next
  case (OpAttachSpill seq key role bytes now)
  assume "tokens_ok j"
  then have "tokens_ok (recordSpill key bytes now j)" using tokens_neutral neutral_turns(9) by blast
  then show ?thesis using OpAttachSpill by (simp add: attachSpill_def Let_def tokens_update)
next
  case (OpRepaired turnId message now)
  then show "tokens_ok j \<Longrightarrow> ?thesis"
    by (simp add: appendRepairedResult_def tokens_appendMessage split: option.splits)
qed (simp_all add: bindOwner_def Let_def setConversationId_def setTitle_def markDeleted_def setIndexSyncedSeq_def
    tokens_appendMessage appendTurn_def appendCard_def tokens_insertRow projection_row_def repairTail_def
    tokens_interrupted markModelSkip_def tokens_update
    neutral_turns [THEN tokens_neutral] neutral_budget [THEN tokens_neutral] neutral_purge [THEN tokens_neutral])

lemma windowScan_messages: "windowScan rows n = Inr (ms, sp) \<Longrightarrow> ms = map (the \<circ> j_payload) rows"
  by (induction rows arbitrary: n ms sp) (auto split: option.splits sum.splits)

lemma wf_seq_lt: "journal_wf j \<Longrightarrow> r \<in> set (jn_rows j) \<Longrightarrow> j_seq r < mt_nextSeq (meta j)"
proof -
  assume "journal_wf j" "r \<in> set (jn_rows j)"
  then obtain m where "jn_meta j = Some m" "map j_seq (jn_rows j) = [mt_hotMinSeq m..mt_nextSeq m - 1]"
    by (auto simp: journal_wf_def)
  moreover have "j_seq r \<in> set (map j_seq (jn_rows j))" using \<open>r \<in> set (jn_rows j)\<close> by simp
  ultimately show ?thesis by (simp add: meta_def del: set_map)
qed

definition window_rows :: "string \<Rightarrow> int \<Rightarrow> int \<Rightarrow> journal \<Rightarrow> journal_row list" where
  "window_rows turnId budget afterSeq j =
     filter (\<lambda>r. contextStartSeq turnId budget afterSeq j \<le> j_seq r \<and> model_row r \<and> j_turnId r \<noteq> turnId) (jn_rows j)"

lemma window_rows_context:
  assumes "journal_wf j"
  shows "window_rows turnId budget afterSeq j = context_rows turnId budget afterSeq j"
proof -
  define q where "q = filter (\<lambda>r. model_row r \<and> j_turnId r \<noteq> turnId \<and> j_seq r > afterSeq) (jn_rows j)"
  obtain before where q: "q = before @ context_rows turnId budget afterSeq j"
    using context_rows_suffix [of turnId afterSeq j budget] wf_sorted(3) [OF assms] by (auto simp: q_def)
  have sd: "sorted (map j_seq q)" "distinct (map j_seq q)"
    using wf_sorted [OF assms] by (simp_all add: q_def sorted_filter distinct_map_filter)
  show ?thesis
  proof (cases "context_rows turnId budget afterSeq j")
    case Nil
    then show ?thesis using wf_seq_lt [OF assms] by (force simp: window_rows_def contextStartSeq_def filter_empty_conv)
  next
    case (Cons r ys)
    have "r \<in> set q" using q Cons by simp
    then have "afterSeq < j_seq r" by (simp add: q_def)
    then have "window_rows turnId budget afterSeq j = filter (\<lambda>x. j_seq r \<le> j_seq x) q"
      using Cons by (auto simp: window_rows_def q_def contextStartSeq_def intro: filter_cong)
    then show ?thesis using suffix_filter_ge [of before r ys] sd q Cons by simp
  qed
qed

text \<open>
  C8: The history that a turn is given is complete from where it opens, opens on a user message and fits the
  budget. The rows of the window are exactly the model's rows of other turns from its start on, none left out in
  between; their estimates add up to at most the budget; and the first of them is a user message, so that no
  tool result is read without its call.
\<close>

theorem context_window_sound:
  assumes "journal_wf j" and "tokens_ok j" and "0 \<le> budget"
  shows "(\<forall>w. selectWindow turnId budget afterSeq j = Inr w \<longrightarrow>
      map fst (ws_rows w) = map j_seq (window_rows turnId budget afterSeq j) \<and>
      ws_messages w = map (the \<circ> j_payload) (window_rows turnId budget afterSeq j)) \<and>
    sum_list (map j_tokens (window_rows turnId budget afterSeq j)) \<le> budget \<and>
    (window_rows turnId budget afterSeq j \<noteq> [] \<longrightarrow> j_role (hd (window_rows turnId budget afterSeq j)) = Some ''user'')"
proof -
  let ?rows = "window_rows turnId budget afterSeq j"
  let ?start = "contextStartSeq turnId budget afterSeq j"
  have e: "?rows = context_rows turnId budget afterSeq j" by (rule window_rows_context [OF assms(1)])
  have "map fst (ws_rows w) = map j_seq ?rows \<and> ws_messages w = map (the \<circ> j_payload) ?rows"
    if w: "selectWindow turnId budget afterSeq j = Inr w" for w
  proof (cases "?start \<ge> mt_nextSeq (meta j)")
    case True
    then have "?rows = []" using wf_seq_lt [OF assms(1)] by (force simp: window_rows_def filter_empty_conv)
    then show ?thesis using w True by (auto simp: selectWindow_def Let_def)
  next
    case False
    then have "windowFromRows ?rows ?start = Inr w"
      using w wf_sorted(3) [OF assms(1)] by (simp add: selectWindow_def Let_def window_rows_def)
    then show ?thesis using windowScan_messages
      by (auto simp: windowFromRows_def comp_def split: sum.splits prod.splits)
  qed
  moreover have "j_role (hd ?rows) = Some ''user''" if "?rows \<noteq> []"
    using that hd_dropWhile unfolding e context_rows_def Let_def by fast
  ultimately show ?thesis
    using context_rows_budget [OF assms(3)] assms(2) e by (auto simp: tokens_ok_def)
qed

theorem context_window_sound_witness:
  "j_role (hd (window_rows ''next'' 4 (- 1) interrupted_journal)) = Some ''user'' \<and>
   sum_list (map j_tokens (window_rows ''next'' 4 (- 1) interrupted_journal)) \<le> 4"
proof -
  have "tokens_ok interrupted_journal" "window_rows ''next'' 4 (- 1) interrupted_journal \<noteq> []" by code_simp+
  then show ?thesis using context_window_sound [OF interrupted_wf, of 4 "''next''" "- 1"] by simp
qed

end
