(* ===== verification/Journal_Archive.thy ===== *)
theory Journal_Archive
  imports Journal
begin

text \<open>
  The cold storage of a journal: \<open>workers/cloud-builder/src/archive.ts\<close>.

  The bucket is a table of objects, each the rows of a segment; compression and the segment header are left out.
  A rollover awaits the upload of its object, so it is cut there: what happens before is one step, and what
  happens when the upload resolves or fails is another. Between them the object handles other requests. The key
  prefix is the hash of the owner and the conversation id, which do not change once they are bound. The size of
  the database is an argument, since it depends on the storage engine.
\<close>

subsection \<open>Constants\<close>

definition SEGMENT_MAX_ROWS :: nat where "SEGMENT_MAX_ROWS = 1000"
definition SEGMENT_MAX_BYTES :: int where "SEGMENT_MAX_BYTES = 8388608"
definition ARCHIVE_READ_ROWS :: nat where "ARCHIVE_READ_ROWS = 500"
definition PURGE_BATCH :: nat where "PURGE_BATCH = 200"
definition PURGE_MAX_FAILED_BATCHES :: nat where "PURGE_MAX_FAILED_BATCHES = 3"
definition HOT_MAX_ROWS :: int where "HOT_MAX_ROWS = 2000"
definition HOT_MAX_BYTES :: int where "HOT_MAX_BYTES = 25165824"
definition HOT_TARGET_ROWS :: int where "HOT_TARGET_ROWS = 1000"
definition HOT_TARGET_BYTES :: int where "HOT_TARGET_BYTES = 12582912"
definition DB_PRESSURE_AGGRESSIVE_BYTES :: int where "DB_PRESSURE_AGGRESSIVE_BYTES = 67108864"
definition DB_PRESSURE_EMERGENCY_BYTES :: int where "DB_PRESSURE_EMERGENCY_BYTES = 536870912"
definition DB_PRESSURE_AGGRESSIVE_ROWS :: int where "DB_PRESSURE_AGGRESSIVE_ROWS = 500"
definition DB_PRESSURE_EMERGENCY_ROWS :: int where "DB_PRESSURE_EMERGENCY_ROWS = 200"
definition MAX_SEGMENTS_PER_READ :: nat where "MAX_SEGMENTS_PER_READ = 4"
definition BACKFILL_BATCH_RECORDS :: nat where "BACKFILL_BATCH_RECORDS = 200"
definition BACKFILL_BATCH_BYTES :: int where "BACKFILL_BATCH_BYTES = 524288"

fun decimal :: "nat \<Rightarrow> string" where
  "decimal n = (if n < 10 then [char_of (n + 48)] else decimal (n div 10) @ [char_of (n mod 10 + 48)])"

declare decimal.simps [simp del]

definition pad :: "int \<Rightarrow> string" where
  "pad value = (let d = decimal (nat value) in replicate (12 - length d) (CHR ''0'') @ d)"

definition segmentKey :: "string \<Rightarrow> int \<Rightarrow> int \<Rightarrow> string" where
  "segmentKey prefix firstSeq lastSeq = prefix @ ''/seg/'' @ pad firstSeq @ ''-'' @ pad lastSeq @ ''.jsonl.gz''"

subsection \<open>Choosing the cut\<close>

definition rolloverTarget :: "int \<Rightarrow> journal \<Rightarrow> (int \<times> int) option" where
  "rolloverTarget dbBytes j =
     (let (rows, bytes) = hotStats j in
      if dbBytes > DB_PRESSURE_EMERGENCY_BYTES then Some (DB_PRESSURE_EMERGENCY_ROWS, 0)
      else if dbBytes > DB_PRESSURE_AGGRESSIVE_BYTES then Some (DB_PRESSURE_AGGRESSIVE_ROWS, 0)
      else if rows \<le> HOT_MAX_ROWS \<and> bytes \<le> HOT_MAX_BYTES then None
      else Some (HOT_TARGET_ROWS, HOT_TARGET_BYTES))"

definition resolveCut :: "int \<Rightarrow> int \<Rightarrow> journal \<Rightarrow> int option" where
  "resolveCut targetRows targetBytes j =
     (case desiredCutSeq targetRows targetBytes j of
        None \<Rightarrow> None
      | Some desired \<Rightarrow>
          let ceiling = (case latestTerminalTurn j of
                           None \<Rightarrow> desired
                         | Some t \<Rightarrow> (case tn_ctxStartSeq t of None \<Rightarrow> desired | Some c \<Rightarrow> min desired (c - 1)))
          in if ceiling < 0 then None
             else fold (\<lambda>c best. if isCutBoundary j c then Some c else best)
                    (takeWhile (\<lambda>c. c \<le> ceiling) (terminalTurnBoundaries 500 j)) None)"

fun batchScan :: "int \<Rightarrow> int \<Rightarrow> int \<Rightarrow> journal_row list \<Rightarrow> int \<times> int \<times> int" where
  "batchScan bytes count lastSeq [] = (bytes, count, lastSeq)"
| "batchScan bytes count lastSeq (r # rs) =
     (if count > 0 \<and> bytes + j_bytes r > SEGMENT_MAX_BYTES then (bytes, count, lastSeq)
      else batchScan (bytes + j_bytes r) (count + 1) (j_seq r) rs)"

function walkBack :: "journal \<Rightarrow> int \<Rightarrow> int \<Rightarrow> int" where
  "walkBack j firstSeq lastSeq =
     (if lastSeq > firstSeq \<and> \<not> isCutBoundary j lastSeq then walkBack j firstSeq (lastSeq - 1) else lastSeq)"
  by pat_completeness auto
termination by (relation "measure (\<lambda>(j, firstSeq, lastSeq). nat (lastSeq - firstSeq))") auto

declare walkBack.simps [simp del]

text \<open>The segment that a cut intends, \<open>None\<close> when there is nothing safe to cut.\<close>

definition planCut :: "string \<Rightarrow> int \<Rightarrow> ms \<Rightarrow> journal \<Rightarrow> segment_row option" where
  "planCut prefix cutSeq now j =
     (let firstSeq = mt_hotMinSeq (meta j); rows = rowsForArchive firstSeq cutSeq SEGMENT_MAX_ROWS j in
      if cutSeq < firstSeq \<or> rows = [] then None
      else
        let (bytes, count, batchEnd) = batchScan 0 0 (j_seq (hd rows)) rows;
            lastSeq = walkBack j firstSeq batchEnd
        in if lastSeq < firstSeq \<or> \<not> isCutBoundary j lastSeq then None
           else Some \<lparr>sg_firstSeq = firstSeq, sg_lastSeq = lastSeq, sg_rows = count, sg_bytes = bytes,
                      sg_r2Key = segmentKey prefix firstSeq lastSeq, sg_state = Uploading, sg_createdAt = now\<rparr>)"

text \<open>The rows of a range, read in batches.\<close>

lemma rowsForArchive_range:
  assumes "r \<in> set (rowsForArchive a b n j)"
  shows "a \<le> j_seq r" "j_seq r \<le> b"
  using assms by (auto simp: rowsForArchive_def dest!: in_set_takeD)

function uploadRows :: "journal \<Rightarrow> int \<Rightarrow> int \<Rightarrow> journal_row list" where
  "uploadRows j cursor lastSeq =
     (let batch = rowsForArchive cursor lastSeq ARCHIVE_READ_ROWS j in
      if batch = [] then []
      else let next = j_seq (last batch) + 1 in
           if next > lastSeq then batch else batch @ uploadRows j next lastSeq)"
  by pat_completeness auto
termination
proof (relation "measure (\<lambda>(j, cursor, lastSeq). nat (lastSeq - cursor + 1))")
  fix j cursor lastSeq batch "next"
  assume b: "batch = rowsForArchive cursor lastSeq ARCHIVE_READ_ROWS j" "batch \<noteq> []"
    and n: "next = j_seq (last batch) + 1" "\<not> next > lastSeq"
  have "cursor \<le> j_seq (last batch)" using rowsForArchive_range(1) [of "last batch"] b last_in_set by blast
  then show "((j, next, lastSeq), j, cursor, lastSeq) \<in> measure (\<lambda>(j, cursor, lastSeq). nat (lastSeq - cursor + 1))"
    using n by simp
qed simp

declare uploadRows.simps [simp del]

subsection \<open>Rollover\<close>

record upload =
  up_key :: string
  up_first :: int
  up_last :: int
  up_body :: "journal_row list"
  up_recovers :: bool
  up_startedAt :: ms
  up_live :: bool

record archive =
  av_journal :: journal
  av_prefix :: string
  av_bucket :: "(string \<times> journal_row list) list"
  av_uploads :: "upload list"
  av_sealed :: bool

definition startUpload :: "segment_row \<Rightarrow> bool \<Rightarrow> ms \<Rightarrow> archive \<Rightarrow> archive" where
  "startUpload s recovers now a =
     a\<lparr>av_uploads := av_uploads a @
        [\<lparr>up_key = sg_r2Key s, up_first = sg_firstSeq s, up_last = sg_lastSeq s,
          up_body = uploadRows (av_journal a) (sg_firstSeq s) (sg_lastSeq s),
          up_recovers = recovers, up_startedAt = now, up_live = True\<rparr>]\<rparr>"

definition writable :: "archive \<Rightarrow> bool" where
  "writable a \<longleftrightarrow> \<not> av_sealed a \<and> \<not> isDeleted (av_journal a)"

text \<open>The part of a pass after a pending segment is out of the way, up to the upload of its own segment.\<close>

definition rolloverCut :: "ms \<Rightarrow> int \<Rightarrow> archive \<Rightarrow> archive" where
  "rolloverCut now dbBytes a =
     (if \<not> writable a then a
      else case rolloverTarget dbBytes (av_journal a) of
        None \<Rightarrow> a
      | Some (targetRows, targetBytes) \<Rightarrow>
          (case resolveCut targetRows targetBytes (av_journal a) of
             None \<Rightarrow> a
           | Some cutSeq \<Rightarrow>
               (case planCut (av_prefix a) cutSeq now (av_journal a) of
                  None \<Rightarrow> a
                | Some s \<Rightarrow> startUpload s False now (a\<lparr>av_journal := insertSegment s (av_journal a)\<rparr>))))"

definition maybeRollover :: "ms \<Rightarrow> int \<Rightarrow> archive \<Rightarrow> archive" where
  "maybeRollover now dbBytes a =
     (if \<not> writable a then a
      else case pendingSegment (av_journal a) of
        Some s \<Rightarrow> startUpload s True now a
      | None \<Rightarrow> rolloverCut now dbBytes a)"

definition landUpload :: "nat \<Rightarrow> archive \<Rightarrow> archive" where
  "landUpload n a =
     (if n < length (av_uploads a)
      then let u = av_uploads a ! n in a\<lparr>av_bucket := (up_key u, up_body u) # filter (\<lambda>x. fst x \<noteq> up_key u) (av_bucket a)\<rparr>
      else a)"

definition retireUpload :: "nat \<Rightarrow> archive \<Rightarrow> archive" where
  "retireUpload n a = a\<lparr>av_uploads := (av_uploads a)[n := (av_uploads a ! n)\<lparr>up_live := False\<rparr>]\<rparr>"

definition uploadDone :: "nat \<Rightarrow> int \<Rightarrow> archive \<Rightarrow> archive" where
  "uploadDone n dbBytes a =
     (if n < length (av_uploads a) \<and> up_live (av_uploads a ! n)
      then let u = av_uploads a ! n;
               a1 = retireUpload n (landUpload n a);
               a2 = a1\<lparr>av_journal := commitSegment (up_first u) (up_last u) (av_journal a1)\<rparr>
           in if up_recovers u then rolloverCut (up_startedAt u) dbBytes a2 else a2
      else a)"

text \<open>
  What can happen. An upload may reach the bucket at any time after it was started, whether or not its promise
  was seen to resolve; it fails by an error or by the time limit; an eviction of the object drops every pass.
\<close>

datatype archive_event =
    EvJournal journal_op
  | EvRollover ms int
  | EvLand nat
  | EvUploaded nat int
  | EvUploadFailed nat
  | EvEvicted
  | EvSealed

fun archive_step :: "(json \<Rightarrow> string) \<Rightarrow> archive_event \<Rightarrow> archive \<Rightarrow> archive" where
  "archive_step e (EvJournal op) a = a\<lparr>av_journal := journal_step e op (av_journal a)\<rparr>"
| "archive_step e (EvRollover now dbBytes) a = maybeRollover now dbBytes a"
| "archive_step e (EvLand n) a = landUpload n a"
| "archive_step e (EvUploaded n dbBytes) a = uploadDone n dbBytes a"
| "archive_step e (EvUploadFailed n) a = (if n < length (av_uploads a) then retireUpload n a else a)"
| "archive_step e EvEvicted a = a\<lparr>av_uploads := map (\<lambda>u. u\<lparr>up_live := False\<rparr>) (av_uploads a)\<rparr>"
| "archive_step e EvSealed a = a\<lparr>av_sealed := True\<rparr>"

definition new_archive :: "string \<Rightarrow> archive" where
  "new_archive prefix =
     \<lparr>av_journal = bootstrap empty_storage, av_prefix = prefix, av_bucket = [], av_uploads = [], av_sealed = False\<rparr>"

end
