(* ===== verification/Rollover.thy ===== *)
theory Rollover
  imports Journal_Archive
begin

text \<open>
  Rollover is invisible: the archived segments and the resident rows are one log, and whatever fails, a pass only
  moves rows from one to the other. This holds when passes do not overlap; two that overlap can lose rows.
\<close>

subsection \<open>Segment keys\<close>

definition digits_value :: "string \<Rightarrow> nat" where
  "digits_value s = foldl (\<lambda>acc c. acc * 10 + (of_char c - 48)) 0 s"

lemma digits_value_append: "digits_value (s @ [c]) = digits_value s * 10 + (of_char c - 48)"
  by (simp add: digits_value_def)

lemma decimal_value: "digits_value (decimal n) = n"
proof (induction n rule: decimal.induct)
  case (1 n)
  have small: "of_char (char_of (m + 48) :: char) = m + 48" if "m < 10" for m :: nat
    using that by (simp add: of_char_of)
  show ?case
  proof (cases "n < 10")
    case True
    then show ?thesis using small [of n] by (simp add: decimal.simps [of n] digits_value_def)
  next
    case False
    then show ?thesis using 1 small [of "n mod 10"] by (simp add: decimal.simps [of n] digits_value_append)
  qed
qed

lemma digits_value_zeros: "digits_value (replicate k (CHR ''0'') @ s) = digits_value s"
proof (induction k)
  case (Suc k)
  have "digits_value (CHR ''0'' # t) = digits_value t" for t by (simp add: digits_value_def)
  then show ?case using Suc by simp
qed simp

lemma pad_value: "digits_value (pad v) = nat v"
  by (simp add: pad_def Let_def digits_value_zeros decimal_value)

lemma decimal_digits: "c \<in> set (decimal n) \<Longrightarrow> c \<noteq> CHR ''-''"
proof (induction n rule: decimal.induct)
  case (1 n)
  have digit: "char_of (m + 48) \<noteq> CHR ''-''" if "m < 10" for m :: nat
  proof
    assume "char_of (m + 48) = CHR ''-''"
    then have "of_char (char_of (m + 48) :: char) = (45 :: nat)" by simp
    then show False using that by (simp add: of_char_of)
  qed
  show ?case using 1 digit [of n] digit [of "n mod 10"] by (cases "n < 10") (auto simp: decimal.simps [of n])
qed

lemma pad_digits: "c \<in> set (pad v) \<Longrightarrow> c \<noteq> CHR ''-''"
  by (auto simp: pad_def Let_def dest: decimal_digits)

lemma split_at_dash:
  assumes "CHR ''-'' \<notin> set xs" "CHR ''-'' \<notin> set xs'" "xs @ CHR ''-'' # ys = xs' @ CHR ''-'' # ys'"
  shows "xs = xs'" "ys = ys'"
proof -
  have t: "takeWhile (\<lambda>c. c \<noteq> CHR ''-'') (zs @ CHR ''-'' # ws) = zs" if "CHR ''-'' \<notin> set zs" for zs ws
    using that by (induction zs) auto
  show "xs = xs'" using t [OF assms(1), of ys] t [OF assms(2), of ys'] assms(3) by simp
  then show "ys = ys'" using assms(3) by simp
qed

lemma segmentKey_inj:
  assumes "segmentKey p a b = segmentKey p a' b'" and "0 \<le> a" "0 \<le> a'" "0 \<le> b" "0 \<le> b'"
  shows "a = a'" "b = b'"
proof -
  have e: "pad a @ CHR ''-'' # (pad b @ ''.jsonl.gz'') = pad a' @ CHR ''-'' # (pad b' @ ''.jsonl.gz'')"
    using assms(1) by (simp add: segmentKey_def)
  have "pad a = pad a'" "pad b = pad b'"
    using split_at_dash [OF _ _ e] pad_digits by blast+
  then have "nat a = nat a'" "nat b = nat b'" using pad_value by metis+
  then show "a = a'" "b = b'" using assms(2-5) by simp_all
qed

subsection \<open>Ranges of rows\<close>

lemma filter_range_split:
  assumes "sorted (map f xs)" and "a \<le> b + 1"
  shows "filter (\<lambda>x. a \<le> f x \<and> f x \<le> (b :: int)) xs @ filter (\<lambda>x. b + 1 \<le> f x \<and> P (f x)) xs =
    filter (\<lambda>x. a \<le> f x \<and> (f x \<le> b \<or> P (f x))) xs"
  using assms(1)
proof (induction xs)
  case (Cons x xs)
  have "filter (\<lambda>y. a \<le> f y \<and> f y \<le> b) xs = []" if "b + 1 \<le> f x"
    using that Cons.prems by (force simp: filter_empty_conv)
  then show ?case using Cons assms(2) by auto
qed simp

lemma sorted_drop_filter:
  assumes "sorted (map j_seq F)" "distinct (map j_seq F)" "take n F \<noteq> []"
  shows "drop n F = filter (\<lambda>r. j_seq (last (take n F)) + 1 \<le> j_seq r) F"
proof -
  define l where "l = last (take n F)"
  have le: "j_seq r \<le> j_seq l" if "r \<in> set (take n F)" for r
  proof -
    have "sorted (map j_seq (butlast (take n F) @ [l]))"
      using assms(1,3) by (simp add: l_def take_map [symmetric] sorted_wrt_take)
    moreover have "r \<in> set (butlast (take n F) @ [l])" using that assms(3) by (simp add: l_def)
    ultimately show ?thesis by (auto simp: sorted_append)
  qed
  have gt: "j_seq l < j_seq r" if r: "r \<in> set (drop n F)" for r
  proof -
    have l: "l \<in> set (take n F)" using assms(3) by (simp add: l_def)
    have s: "sorted (map j_seq (take n F @ drop n F))" "distinct (map j_seq (take n F @ drop n F))"
      using assms(1,2) by (simp_all only: append_take_drop_id)
    have "\<forall>x \<in> j_seq ` set (take n F). \<forall>y \<in> j_seq ` set (drop n F). x \<le> y"
      using s(1) unfolding map_append sorted_append by simp
    then have "j_seq l \<le> j_seq r" using l r by blast
    moreover have "j_seq ` set (take n F) \<inter> j_seq ` set (drop n F) = {}" using s(2) by (simp del: append_take_drop_id)
    then have "j_seq l \<noteq> j_seq r" using l r by blast
    ultimately show ?thesis by simp
  qed
  have "filter (\<lambda>r. j_seq l + 1 \<le> j_seq r) (take n F) = []" using le by (force simp: filter_empty_conv)
  moreover have "filter (\<lambda>r. j_seq l + 1 \<le> j_seq r) (drop n F) = drop n F" using gt by (force simp: filter_id_conv)
  ultimately have "filter (\<lambda>r. j_seq l + 1 \<le> j_seq r) (take n F @ drop n F) = drop n F" by (simp only: filter_append append_Nil)
  then show ?thesis by (simp add: l_def)
qed

lemma uploadRows_eq:
  assumes "journal_wf j"
  shows "uploadRows j a b = filter (\<lambda>r. a \<le> j_seq r \<and> j_seq r \<le> b) (jn_rows j)"
  using assms
proof (induction j a b rule: uploadRows.induct)
  case (1 j a b)
  define F where "F = filter (\<lambda>r. a \<le> j_seq r \<and> j_seq r \<le> b) (jn_rows j)"
  have batch: "rowsForArchive a b ARCHIVE_READ_ROWS j = take ARCHIVE_READ_ROWS F"
    using wf_sorted(3) [OF 1(2)] by (simp add: rowsForArchive_def F_def)
  have sd: "sorted (map j_seq F)" "distinct (map j_seq F)"
    using wf_sorted [OF 1(2)] by (simp_all add: F_def sorted_filter distinct_map_filter)
  show ?case
  proof (cases "take ARCHIVE_READ_ROWS F = []")
    case True
    then have "F = []" by (simp add: ARCHIVE_READ_ROWS_def)
    then show ?thesis by (simp add: uploadRows.simps [of j a b] batch F_def [symmetric])
  next
    case False
    let ?l = "j_seq (last (take ARCHIVE_READ_ROWS F))"
    have d: "drop ARCHIVE_READ_ROWS F = filter (\<lambda>r. ?l + 1 \<le> j_seq r) F" by (rule sorted_drop_filter [OF sd False])
    have "last (take ARCHIVE_READ_ROWS F) \<in> set F" using False last_in_set in_set_takeD by metis
    then have la: "a \<le> ?l" by (simp add: F_def)
    have rest: "drop ARCHIVE_READ_ROWS F = filter (\<lambda>r. ?l + 1 \<le> j_seq r \<and> j_seq r \<le> b) (jn_rows j)"
      unfolding d using la by (auto simp: F_def intro: filter_cong)
    show ?thesis
    proof (cases "?l + 1 > b")
      case True
      then have "drop ARCHIVE_READ_ROWS F = []" unfolding rest by (auto simp: filter_empty_conv)
      then have "take ARCHIVE_READ_ROWS F = F" by simp
      then show ?thesis using True False by (simp add: uploadRows.simps [of j a b] batch Let_def F_def [symmetric])
    next
      case lt: False
      have "uploadRows j (?l + 1) b = drop ARCHIVE_READ_ROWS F"
        using 1(1) [OF refl _ refl, unfolded batch] False lt 1(2) rest by simp
      then show ?thesis using lt False by (simp add: uploadRows.simps [of j a b] batch Let_def F_def [symmetric])
    qed
  qed
qed

subsection \<open>The log\<close>

type_synonym log_entry = "int \<times> record_kind \<times> string \<times> string \<times> string \<times> ms \<times> string option"

definition slice :: "int \<Rightarrow> int \<Rightarrow> log_entry list \<Rightarrow> log_entry list" where
  "slice a b L = filter (\<lambda>k. a \<le> fst k \<and> fst k \<le> b) L"

definition archive_log :: "archive \<Rightarrow> log_entry list" where
  "archive_log a =
     concat (map (\<lambda>s. map row_key (coalesce (map_of (av_bucket a) (sg_r2Key s)) []))
       (sort_key sg_firstSeq (committedSegments (av_journal a)))) @ map row_key (jn_rows (av_journal a))"

fun tiles :: "int \<Rightarrow> segment_row list \<Rightarrow> int \<Rightarrow> bool" where
  "tiles a [] b \<longleftrightarrow> a = b"
| "tiles a (s # ss) b \<longleftrightarrow> sg_firstSeq s = a \<and> a \<le> sg_lastSeq s \<and> tiles (sg_lastSeq s + 1) ss b"

lemma tiles_append: "tiles a (ss @ [s]) b \<longleftrightarrow> tiles a ss (sg_firstSeq s) \<and> sg_firstSeq s \<le> sg_lastSeq s \<and> b = sg_lastSeq s + 1"
  by (induction ss arbitrary: a) auto

lemma tiles_bounds:
  "tiles a ss b \<Longrightarrow> a \<le> b"
  "tiles a ss b \<Longrightarrow> s \<in> set ss \<Longrightarrow> a \<le> sg_firstSeq s \<and> sg_firstSeq s \<le> sg_lastSeq s \<and> sg_lastSeq s < b"
proof (induction ss arbitrary: a)
  case (Cons t ss)
  { case 1 then show ?case using Cons(1) [of "sg_lastSeq t + 1"] by force }
  { case 2 then show ?case using Cons(1,2) [of "sg_lastSeq t + 1"] by force }
qed auto

lemma tiles_sorted: "tiles a ss b \<Longrightarrow> sorted (map sg_firstSeq ss)"
proof (induction ss arbitrary: a)
  case (Cons s ss)
  then show ?case using tiles_bounds(2) [of "sg_lastSeq s + 1" ss b] by force
qed simp

text \<open>A segment that is named by its key and its range.\<close>

definition keyed :: "string \<Rightarrow> segment_row \<Rightarrow> bool" where
  "keyed p s \<longleftrightarrow> sg_r2Key s = segmentKey p (sg_firstSeq s) (sg_lastSeq s)"

definition stored :: "archive \<Rightarrow> log_entry list \<Rightarrow> segment_row \<Rightarrow> bool" where
  "stored a L s \<longleftrightarrow> (\<exists>body. map_of (av_bucket a) (sg_r2Key s) = Some body \<and>
     map row_key body = slice (sg_firstSeq s) (sg_lastSeq s) L)"

definition upload_ok :: "archive \<Rightarrow> int \<Rightarrow> log_entry list \<Rightarrow> upload \<Rightarrow> bool" where
  "upload_ok a n L u \<longleftrightarrow>
     up_key u = segmentKey (av_prefix a) (up_first u) (up_last u) \<and> 0 \<le> up_first u \<and> up_first u \<le> up_last u \<and>
     up_last u < n \<and> map row_key (up_body u) = slice (up_first u) (up_last u) L"

text \<open>The archive holds a log: the committed segments hold its beginning, the resident rows the rest of it.\<close>

definition holds_log :: "archive \<Rightarrow> segment_row list \<Rightarrow> segment_row option \<Rightarrow> log_entry list \<Rightarrow> bool" where
  "holds_log a cs pend L \<longleftrightarrow>
     journal_wf (av_journal a) \<and>
     (let m = meta (av_journal a) in
      map fst L = [0..mt_nextSeq m - 1] \<and>
      map row_key (jn_rows (av_journal a)) = filter (\<lambda>k. mt_hotMinSeq m \<le> fst k) L \<and>
      jn_segments (av_journal a) = cs @ (case pend of None \<Rightarrow> [] | Some s \<Rightarrow> [s]) \<and>
      tiles 0 cs (mt_hotMinSeq m) \<and> (\<forall>s \<in> set cs. sg_state s = Committed \<and> keyed (av_prefix a) s \<and> stored a L s) \<and>
      (\<forall>s. pend = Some s \<longrightarrow> sg_state s = Uploading \<and> keyed (av_prefix a) s \<and> sg_firstSeq s = mt_hotMinSeq m \<and>
         sg_firstSeq s \<le> sg_lastSeq s \<and> sg_lastSeq s < mt_nextSeq m) \<and>
      (\<forall>u \<in> set (av_uploads a). upload_ok a (mt_nextSeq m) L u))"

text \<open>A pass that is running works on the pending segment, and there is at most one.\<close>

definition one_pass :: "archive \<Rightarrow> segment_row option \<Rightarrow> bool" where
  "one_pass a pend \<longleftrightarrow>
     length (filter up_live (av_uploads a)) \<le> 1 \<and>
     (\<forall>u \<in> set (av_uploads a). up_live u \<longrightarrow>
        (\<exists>s. pend = Some s \<and> sg_firstSeq s = up_first u \<and> sg_lastSeq s = up_last u))"

lemma slice_append: "(\<forall>k \<in> set new. b < fst k) \<Longrightarrow> slice a b (L @ new) = slice a b L"
  by (auto simp: slice_def filter_empty_conv)

lemma concat_slices:
  assumes "sorted (map fst L)" and "tiles a ss b"
  shows "concat (map (\<lambda>s. slice (sg_firstSeq s) (sg_lastSeq s) L) ss) = slice a (b - 1) L"
  using assms(2)
proof (induction ss arbitrary: a)
  case Nil
  then show ?case by (auto simp: slice_def filter_empty_conv)
next
  case (Cons s ss)
  let ?l = "sg_lastSeq s"
  have le: "a \<le> ?l + 1" "?l + 1 \<le> b" using Cons.prems tiles_bounds(1) by auto
  have "slice a ?l L @ slice (?l + 1) (b - 1) L = filter (\<lambda>x. a \<le> fst x \<and> (fst x \<le> ?l \<or> fst x \<le> b - 1)) L"
    unfolding slice_def by (rule filter_range_split [OF assms(1) le(1)])
  also have "\<dots> = slice a (b - 1) L" unfolding slice_def using le(2) by (auto intro: filter_cong)
  finally show ?case using Cons.IH [of "?l + 1"] Cons.prems by simp
qed

lemma holds_log_eq:
  assumes "holds_log a cs pend L"
  shows "archive_log a = L"
proof -
  define m where "m = meta (av_journal a)"
  have seqs: "map fst L = [0..mt_nextSeq m - 1]" and res: "map row_key (jn_rows (av_journal a)) = filter (\<lambda>k. mt_hotMinSeq m \<le> fst k) L"
    and seg: "jn_segments (av_journal a) = cs @ (case pend of None \<Rightarrow> [] | Some s \<Rightarrow> [s])" and t: "tiles 0 cs (mt_hotMinSeq m)"
    and c: "\<forall>s \<in> set cs. sg_state s = Committed \<and> stored a L s" and p: "\<forall>s. pend = Some s \<longrightarrow> sg_state s = Uploading"
    using assms by (auto simp: holds_log_def m_def Let_def)
  have "committedSegments (av_journal a) = cs"
    using c p unfolding committedSegments_def seg by (cases pend) (simp_all add: filter_id_conv)
  then have cs: "sort_key sg_firstSeq (committedSegments (av_journal a)) = cs"
    using tiles_sorted [OF t] by (simp add: sort_key_id_if_sorted)
  have bodies: "map (\<lambda>s. map row_key (coalesce (map_of (av_bucket a) (sg_r2Key s)) [])) cs =
      map (\<lambda>s. slice (sg_firstSeq s) (sg_lastSeq s) L) cs"
    using c by (auto simp: stored_def)
  have "archive_log a = slice 0 (mt_hotMinSeq m - 1) L @ filter (\<lambda>k. mt_hotMinSeq m \<le> fst k) L"
    using concat_slices [OF _ t, of L] seqs unfolding archive_log_def cs bodies res by simp
  also have "\<dots> = filter (\<lambda>k. 0 \<le> fst k) L"
    using filter_range_split [of fst L 0 "mt_hotMinSeq m - 1" "\<lambda>_. True"] seqs tiles_bounds(1) [OF t]
    by (simp add: slice_def)
  also have "\<dots> = L"
  proof -
    have "fst k \<in> set [0..mt_nextSeq m - 1]" if "k \<in> set L" for k using that seqs by (metis image_eqI set_map)
    then show ?thesis by (auto simp: filter_id_conv)
  qed
  finally show ?thesis .
qed

subsection \<open>Steps\<close>

lemma holds_logD:
  assumes "holds_log a cs pend L"
  shows "journal_wf (av_journal a)" "map fst L = [0..mt_nextSeq (meta (av_journal a)) - 1]"
    "map row_key (jn_rows (av_journal a)) = filter (\<lambda>k. mt_hotMinSeq (meta (av_journal a)) \<le> fst k) L"
    "jn_segments (av_journal a) = cs @ (case pend of None \<Rightarrow> [] | Some s \<Rightarrow> [s])"
    "tiles 0 cs (mt_hotMinSeq (meta (av_journal a)))"
    "s \<in> set cs \<Longrightarrow> sg_state s = Committed" "s \<in> set cs \<Longrightarrow> keyed (av_prefix a) s" "s \<in> set cs \<Longrightarrow> stored a L s"
    "pend = Some t \<Longrightarrow> sg_state t = Uploading \<and> keyed (av_prefix a) t \<and> sg_firstSeq t = mt_hotMinSeq (meta (av_journal a)) \<and>
       sg_firstSeq t \<le> sg_lastSeq t \<and> sg_lastSeq t < mt_nextSeq (meta (av_journal a))"
    "u \<in> set (av_uploads a) \<Longrightarrow> upload_ok a (mt_nextSeq (meta (av_journal a))) L u"
  using assms by (auto simp: holds_log_def Let_def)

lemma holds_logI:
  assumes "journal_wf (av_journal a)" and "meta (av_journal a) = m" and "map fst L = [0..mt_nextSeq m - 1]"
    and "map row_key (jn_rows (av_journal a)) = filter (\<lambda>k. mt_hotMinSeq m \<le> fst k) L"
    and "jn_segments (av_journal a) = cs @ (case pend of None \<Rightarrow> [] | Some s \<Rightarrow> [s])"
    and "tiles 0 cs (mt_hotMinSeq m)"
    and "\<And>s. s \<in> set cs \<Longrightarrow> sg_state s = Committed \<and> keyed (av_prefix a) s \<and> stored a L s"
    and "\<And>s. pend = Some s \<Longrightarrow> sg_state s = Uploading \<and> keyed (av_prefix a) s \<and> sg_firstSeq s = mt_hotMinSeq m \<and>
       sg_firstSeq s \<le> sg_lastSeq s \<and> sg_lastSeq s < mt_nextSeq m"
    and "\<And>u. u \<in> set (av_uploads a) \<Longrightarrow> upload_ok a (mt_nextSeq m) L u"
  shows "holds_log a cs pend L"
  unfolding holds_log_def Let_def assms(2) using assms(1,3-) by blast

lemma wf_meta: "journal_wf j \<Longrightarrow> jn_meta j = Some (meta j)"
  by (auto simp: journal_wf_def meta_def)

lemma wf_hot: "journal_wf j \<Longrightarrow> 0 \<le> mt_hotMinSeq (meta j) \<and> mt_hotMinSeq (meta j) \<le> mt_nextSeq (meta j)"
  by (auto simp: journal_wf_def meta_def)

lemma cs_bound:
  assumes "holds_log a cs pend L" and "s \<in> set cs"
  shows "0 \<le> sg_firstSeq s" "sg_firstSeq s \<le> sg_lastSeq s" "sg_lastSeq s < mt_hotMinSeq (meta (av_journal a))"
    "sg_lastSeq s < mt_nextSeq (meta (av_journal a))"
  using tiles_bounds(2) [OF holds_logD(5) [OF assms(1)] assms(2)] wf_hot [OF holds_logD(1) [OF assms(1)]] by simp_all

lemma log_journal:
  assumes h: "holds_log a cs pend L" and g: "grows (av_journal a) j'"
  shows "\<exists>new. holds_log (a\<lparr>av_journal := j'\<rparr>) cs pend (L @ new)"
proof -
  define m where "m = meta (av_journal a)"
  obtain m' new where n: "jn_meta j' = Some m'" "mt_hotMinSeq m' = mt_hotMinSeq m"
    "mt_nextSeq m' = mt_nextSeq m + int (length new)" "map j_seq new = [mt_nextSeq m..mt_nextSeq m' - 1]"
    "map row_key (jn_rows j') = map row_key (jn_rows (av_journal a)) @ map row_key new"
    "jn_segments j' = jn_segments (av_journal a)"
    using g wf_meta [OF holds_logD(1) [OF h]] by (auto simp: grows_def m_def)
  define L' where "L' = L @ map row_key new"
  have fst_new: "map fst (map row_key new) = [mt_nextSeq m..mt_nextSeq m' - 1]" using n(4) by (simp add: row_key_def comp_def)
  then have ge: "\<forall>k \<in> set (map row_key new). mt_nextSeq m \<le> fst k" by (metis atLeastAtMost_iff image_eqI set_map set_upto)
  have hot: "0 \<le> mt_hotMinSeq m" "mt_hotMinSeq m \<le> mt_nextSeq m"
    using wf_hot [OF holds_logD(1) [OF h]] by (simp_all add: m_def)
  have "[0..mt_nextSeq m - 1] @ [mt_nextSeq m..mt_nextSeq m' - 1] = [0..mt_nextSeq m' - 1]"
    using upto_split1 [of 0 "mt_nextSeq m" "mt_nextSeq m' - 1"] hot n(3) by (cases "new = []") auto
  then have seqs: "map fst L' = [0..mt_nextSeq m' - 1]"
    using holds_logD(2) [OF h] fst_new unfolding L'_def m_def [symmetric] by simp
  have keep: "slice x y L' = slice x y L" if "y < mt_nextSeq m" for x y
    unfolding L'_def by (rule slice_append) (meson ge that less_le_trans)
  have resident: "map row_key (jn_rows j') = filter (\<lambda>k. mt_hotMinSeq m' \<le> fst k) L'"
  proof -
    have "filter (\<lambda>k. mt_hotMinSeq m \<le> fst k) (map row_key new) = map row_key new"
      unfolding filter_id_conv using ge hot(2) by (meson order_trans)
    then show ?thesis using holds_logD(3) [OF h] n(2,5) by (simp add: L'_def m_def)
  qed
  have "holds_log (a\<lparr>av_journal := j'\<rparr>) cs pend L'"
  proof (rule holds_logI [where m = m'])
    show "journal_wf (av_journal (a\<lparr>av_journal := j'\<rparr>))" using wf_grows [OF holds_logD(1) [OF h] g] by simp
    show "meta (av_journal (a\<lparr>av_journal := j'\<rparr>)) = m'" using n(1) by (simp add: meta_def)
    show "map row_key (jn_rows (av_journal (a\<lparr>av_journal := j'\<rparr>))) = filter (\<lambda>k. mt_hotMinSeq m' \<le> fst k) L'"
      using resident by simp
    show "jn_segments (av_journal (a\<lparr>av_journal := j'\<rparr>)) = cs @ (case pend of None \<Rightarrow> [] | Some s \<Rightarrow> [s])"
      using n(6) holds_logD(4) [OF h] by simp
    show "tiles 0 cs (mt_hotMinSeq m')" using holds_logD(5) [OF h] n(2) by (simp add: m_def)
    show "sg_state s = Committed \<and> keyed (av_prefix (a\<lparr>av_journal := j'\<rparr>)) s \<and> stored (a\<lparr>av_journal := j'\<rparr>) L' s"
      if "s \<in> set cs" for s
      using holds_logD(6-8) [OF h that] keep cs_bound(4) [OF h that] by (simp add: stored_def m_def)
    show "sg_state s = Uploading \<and> keyed (av_prefix (a\<lparr>av_journal := j'\<rparr>)) s \<and> sg_firstSeq s = mt_hotMinSeq m' \<and>
       sg_firstSeq s \<le> sg_lastSeq s \<and> sg_lastSeq s < mt_nextSeq m'" if "pend = Some s" for s
      using holds_logD(9) [OF h that] n(2,3) by (simp add: m_def)
    show "upload_ok (a\<lparr>av_journal := j'\<rparr>) (mt_nextSeq m') L' u" if "u \<in> set (av_uploads (a\<lparr>av_journal := j'\<rparr>))" for u
      using holds_logD(10) [OF h, of u] that keep n(3) by (simp add: upload_ok_def m_def)
  qed (rule seqs)
  then show ?thesis unfolding L'_def by blast
qed

text \<open>Steps that leave the journal alone: a landing upload stores what its key already stood for.\<close>

lemma log_frame:
  assumes h: "holds_log a cs pend L" and f: "av_journal b = av_journal a" "av_prefix b = av_prefix a"
    and s: "\<And>s. s \<in> set cs \<Longrightarrow> stored b L s"
    and u: "\<And>u. u \<in> set (av_uploads b) \<Longrightarrow> upload_ok a (mt_nextSeq (meta (av_journal a))) L u"
  shows "holds_log b cs pend L"
proof -
  have "\<forall>u \<in> set (av_uploads b). upload_ok b (mt_nextSeq (meta (av_journal a))) L u"
    using u f(2) by (simp add: upload_ok_def)
  then show ?thesis using h s unfolding holds_log_def Let_def f by blast
qed

lemma stored_bucket: "stored a L s \<Longrightarrow> av_bucket b = av_bucket a \<Longrightarrow> stored b L s"
  by (simp add: stored_def)

lemma log_land:
  assumes h: "holds_log a cs pend L"
  shows "holds_log (landUpload n a) cs pend L"
proof (cases "n < length (av_uploads a)")
  case True
  define u where "u = av_uploads a ! n"
  have u: "upload_ok a (mt_nextSeq (meta (av_journal a))) L u" using holds_logD(10) [OF h] True by (simp add: u_def)
  have s: "stored (landUpload n a) L s" if "s \<in> set cs" for s
  proof (cases "sg_r2Key s = up_key u")
    case same: True
    have k: "segmentKey (av_prefix a) (sg_firstSeq s) (sg_lastSeq s) = segmentKey (av_prefix a) (up_first u) (up_last u)"
      using same u holds_logD(7) [OF h that] unfolding keyed_def upload_ok_def by metis
    have "0 \<le> up_first u" "0 \<le> up_last u" "0 \<le> sg_lastSeq s" using u cs_bound [OF h that] by (auto simp: upload_ok_def)
    from segmentKey_inj [OF k cs_bound(1) [OF h that] this(1,3,2)]
    have "sg_firstSeq s = up_first u" "sg_lastSeq s = up_last u" .
    then show ?thesis using same u True by (simp add: stored_def landUpload_def Let_def u_def [symmetric] upload_ok_def)
  next
    case False
    have "map_of (filter (\<lambda>x. fst x \<noteq> k) xs) k' = map_of xs k'" if "k' \<noteq> k" for k k' and xs :: "(string \<times> journal_row list) list"
      using that by (induction xs) auto
    then show ?thesis using False holds_logD(8) [OF h that] True by (simp add: stored_def landUpload_def Let_def u_def [symmetric])
  qed
  have f: "av_journal (landUpload n a) = av_journal a" "av_prefix (landUpload n a) = av_prefix a"
    "av_uploads (landUpload n a) = av_uploads a" by (simp_all add: landUpload_def Let_def)
  show ?thesis by (rule log_frame [OF h f(1,2) s]) (assumption, unfold f, rule holds_logD(10) [OF h])
next
  case False
  then show ?thesis using h by (simp add: landUpload_def)
qed

lemma upload_ok_live [simp]: "upload_ok a n L (u\<lparr>up_live := l\<rparr>) = upload_ok a n L u"
  by (simp add: upload_ok_def)

lemma log_retire:
  assumes "holds_log a cs pend L" and "n < length (av_uploads a)"
  shows "holds_log (retireUpload n a) cs pend L"
proof (rule log_frame [OF assms(1)])
  fix u assume "u \<in> set (av_uploads (retireUpload n a))"
  then have "u \<in> set (av_uploads a) \<or> u = (av_uploads a ! n)\<lparr>up_live := False\<rparr>"
    using set_update_subset_insert [of "av_uploads a" n] by (auto simp: retireUpload_def)
  then show "upload_ok a (mt_nextSeq (meta (av_journal a))) L u"
    using holds_logD(10) [OF assms(1)] assms(2) by auto
next
  show "stored (retireUpload n a) L s" if "s \<in> set cs" for s
    by (rule stored_bucket [OF holds_logD(8) [OF assms(1) that]]) (simp add: retireUpload_def)
qed (simp_all add: retireUpload_def)

subsection \<open>Commit and cut\<close>

lemma resident_slice:
  assumes "holds_log a cs pend L" and "mt_hotMinSeq (meta (av_journal a)) \<le> x"
  shows "map row_key (uploadRows (av_journal a) x y) = slice x y L"
proof -
  have r: "map row_key (filter (\<lambda>r. x \<le> j_seq r \<and> j_seq r \<le> y) rs) = slice x y (map row_key rs)" for rs
    by (induction rs) (auto simp: slice_def row_key_def)
  have "map row_key (uploadRows (av_journal a) x y) = slice x y (filter (\<lambda>k. mt_hotMinSeq (meta (av_journal a)) \<le> fst k) L)"
    unfolding uploadRows_eq [OF holds_logD(1) [OF assms(1)]] r holds_logD(3) [OF assms(1)] ..
  also have "\<dots> = slice x y L" unfolding slice_def filter_filter using assms(2) by (auto intro: filter_cong)
  finally show ?thesis .
qed

lemma log_start:
  assumes h: "holds_log a cs (Some s) L"
  shows "holds_log (startUpload s recovers now a) cs (Some s) L"
proof (rule log_frame [OF h])
  let ?a = "startUpload s recovers now a"
  show "stored ?a L t" if "t \<in> set cs" for t
    by (rule stored_bucket [OF holds_logD(8) [OF h that]]) (simp add: startUpload_def)
  fix u assume "u \<in> set (av_uploads ?a)"
  then consider "u \<in> set (av_uploads a)" |
    "u = \<lparr>up_key = sg_r2Key s, up_first = sg_firstSeq s, up_last = sg_lastSeq s,
      up_body = uploadRows (av_journal a) (sg_firstSeq s) (sg_lastSeq s), up_recovers = recovers,
      up_startedAt = now, up_live = True\<rparr>"
    by (auto simp: startUpload_def)
  then show "upload_ok a (mt_nextSeq (meta (av_journal a))) L u"
  proof cases
    case 1
    then show ?thesis by (rule holds_logD(10) [OF h])
  next
    case 2
    then show ?thesis
      using holds_logD(9) [OF h refl] resident_slice [OF h, of "sg_firstSeq s"] wf_hot [OF holds_logD(1) [OF h]]
      by (simp add: upload_ok_def keyed_def)
  qed
qed (simp_all add: startUpload_def)

lemma log_insert:
  assumes h: "holds_log a cs None L" and p: "planCut (av_prefix a) cutSeq now (av_journal a) = Some s"
  shows "holds_log (a\<lparr>av_journal := insertSegment s (av_journal a)\<rparr>) cs (Some s) L"
proof -
  let ?j = "av_journal a"
  have s: "sg_firstSeq s = mt_hotMinSeq (meta ?j)" "sg_firstSeq s \<le> sg_lastSeq s" "isCutBoundary ?j (sg_lastSeq s)"
    "sg_state s = Uploading" "keyed (av_prefix a) s"
    using p by (auto simp: planCut_def Let_def keyed_def split: if_splits prod.splits)
  obtain r where "r \<in> set (rows_asc ?j)" "sg_lastSeq s < j_seq r"
    using s(3) by (auto simp: isCutBoundary_def find_Some_iff split: option.splits) (meson nth_mem)
  then have l: "sg_lastSeq s < mt_nextSeq (meta ?j)"
    using wf_seq_lt [OF holds_logD(1) [OF h]] by (force simp: rows_asc_def)
  have "find_row sg_firstSeq (sg_firstSeq s) (jn_segments ?j) = None"
    using cs_bound [OF h] s(1) holds_logD(4) [OF h] by (force simp: find_row_def find_None_iff)
  then have i: "insertSegment s ?j = ?j\<lparr>jn_segments := cs @ [s]\<rparr>"
    using holds_logD(4) [OF h] by (simp add: insertSegment_def)
  show ?thesis
    using h s l unfolding holds_log_def Let_def i
    by (simp add: meta_def journal_wf_def stored_def upload_ok_def)
qed

lemma log_commit:
  assumes h: "holds_log a cs (Some s) L" and st: "stored a L s"
  shows "holds_log (a\<lparr>av_journal := commitSegment (sg_firstSeq s) (sg_lastSeq s) (av_journal a)\<rparr>)
    (cs @ [s\<lparr>sg_state := Committed\<rparr>]) None L"
proof -
  define j where "j = av_journal a"
  define m where "m = meta j"
  define m' where "m' = m\<lparr>mt_hotMinSeq := sg_lastSeq s + 1\<rparr>"
  define j' where "j' = commitSegment (sg_firstSeq s) (sg_lastSeq s) j"
  have wf: "journal_wf j" and m: "jn_meta j = Some m" using holds_logD(1) [OF h] wf_meta by (simp_all add: j_def m_def)
  have s: "sg_state s = Uploading" "keyed (av_prefix a) s" "sg_firstSeq s = mt_hotMinSeq m" "mt_hotMinSeq m \<le> sg_lastSeq s"
    "sg_lastSeq s < mt_nextSeq m"
    using holds_logD(9) [OF h refl] by (simp_all add: m_def j_def)
  have m'j: "jn_meta j' = Some m'" "meta j' = m'"
    using m s(4) by (simp_all add: j'_def commitSegment_def updateMeta_def m'_def meta_def)
  have seqs: "map j_seq (jn_rows j) = [mt_hotMinSeq m..mt_nextSeq m - 1]" using wf m by (auto simp: journal_wf_def)
  have rows: "jn_rows j' = filter (\<lambda>r. sg_lastSeq s < j_seq r) (jn_rows j)"
  proof -
    have "j_seq r \<in> set [mt_hotMinSeq m..mt_nextSeq m - 1]" if "r \<in> set (jn_rows j)" for r
      using that seqs by (metis image_eqI set_map)
    then show ?thesis
      by (force simp: j'_def commitSegment_def updateMeta_def sql_delete_def s(3) intro: filter_cong)
  qed
  have map_filter_seq: "map j_seq (filter (\<lambda>r. P (j_seq r)) rs) = filter P (map j_seq rs)" for P rs
    by (simp add: filter_map comp_def)
  have upto: "filter (\<lambda>x. b < x) [lo..hi] = [b + 1..hi]" if "lo \<le> b + 1" for b lo hi :: int
  proof (rule sorted_distinct_set_unique)
    show "set (filter (\<lambda>x. b < x) [lo..hi]) = set [b + 1..hi]" using that by auto
  qed (simp_all add: sorted_filter [of id, simplified])
  have wf': "journal_wf j'"
  proof -
    have "map j_seq (jn_rows j') = [mt_hotMinSeq m'..mt_nextSeq m' - 1]"
      unfolding rows map_filter_seq seqs m'_def using upto s(4) by simp
    moreover have "distinct (map j_writerKey (jn_rows j'))"
      unfolding rows using wf by (auto simp: journal_wf_def intro: distinct_map_filter)
    moreover have "0 \<le> mt_hotMinSeq m" using wf_hot [OF wf] by (simp add: m_def)
    ultimately show ?thesis using m'j(1) s(4,5) by (auto simp: journal_wf_def m'_def)
  qed
  have resident: "map row_key (jn_rows j') = filter (\<lambda>k. mt_hotMinSeq m' \<le> fst k) L"
  proof -
    have "map row_key (filter (\<lambda>r. sg_lastSeq s < j_seq r) rs) = filter (\<lambda>k. sg_lastSeq s < fst k) (map row_key rs)" for rs
      by (induction rs) (auto simp: row_key_def)
    then show ?thesis
      unfolding rows using holds_logD(3) [OF h, folded j_def, folded m_def] s(4)
      by (auto simp: m'_def intro: filter_cong)
  qed
  have segs: "jn_segments j' = cs @ [s\<lparr>sg_state := Committed\<rparr>]"
  proof -
    have "sql_update (\<lambda>t. sg_firstSeq t = sg_firstSeq s) f cs = cs" for f
      unfolding sql_update_def
      by (rule map_idI) (use cs_bound [OF h, folded j_def, folded m_def] s(3) in force)
    then show ?thesis using holds_logD(4) [OF h]
      by (simp add: j'_def commitSegment_def updateMeta_def j_def sql_update_def)
  qed
  show ?thesis unfolding j_def [symmetric] j'_def [symmetric]
  proof (rule holds_logI [where m = m'])
    show "tiles 0 (cs @ [s\<lparr>sg_state := Committed\<rparr>]) (mt_hotMinSeq m')"
      using holds_logD(5) [OF h] s(3,4) by (simp add: tiles_append m'_def m_def j_def)
    show "map fst L = [0..mt_nextSeq m' - 1]" using holds_logD(2) [OF h] by (simp add: m'_def m_def j_def)
    show "sg_state t = Committed \<and> keyed (av_prefix (a\<lparr>av_journal := j'\<rparr>)) t \<and> stored (a\<lparr>av_journal := j'\<rparr>) L t"
      if "t \<in> set (cs @ [s\<lparr>sg_state := Committed\<rparr>])" for t
    proof (cases "t \<in> set cs")
      case True
      then show ?thesis using holds_logD(6-8) [OF h True] by (simp add: stored_def)
    next
      case False
      then have "t = s\<lparr>sg_state := Committed\<rparr>" using that by simp
      then show ?thesis using s(2) st by (simp add: keyed_def stored_def)
    qed
    show "upload_ok (a\<lparr>av_journal := j'\<rparr>) (mt_nextSeq m') L u" if "u \<in> set (av_uploads (a\<lparr>av_journal := j'\<rparr>))" for u
      using holds_logD(10) [OF h, of u] that by (simp add: upload_ok_def m'_def m_def j_def)
  qed (simp_all add: wf' m'j resident segs)
qed

subsection \<open>Passes that do not overlap\<close>

definition idle :: "archive \<Rightarrow> bool" where
  "idle a \<longleftrightarrow> (\<forall>u \<in> set (av_uploads a). \<not> up_live u)"

definition archive_ok :: "archive \<Rightarrow> log_entry list \<Rightarrow> bool" where
  "archive_ok a L \<longleftrightarrow> (\<exists>cs pend. holds_log a cs pend L \<and> one_pass a pend)"

lemma idle_one_pass: "idle a \<Longrightarrow> one_pass a pend"
  by (simp add: idle_def one_pass_def)

lemma start_one_pass: "idle a \<Longrightarrow> one_pass (startUpload s recovers now a) (Some s)"
proof -
  assume "idle a"
  then have "filter up_live (av_uploads a) = []" by (simp add: idle_def filter_empty_conv)
  then show ?thesis using \<open>idle a\<close> by (auto simp: one_pass_def startUpload_def idle_def)
qed

lemma ok_cut:
  assumes h: "holds_log a cs None L" and i: "idle a"
  shows "archive_ok (rolloverCut now dbBytes a) L"
proof -
  have keep: "archive_ok a L" unfolding archive_ok_def using h idle_one_pass [OF i] by blast
  have cut: "archive_ok (startUpload s False now (a\<lparr>av_journal := insertSegment s (av_journal a)\<rparr>)) L"
    if "planCut (av_prefix a) cutSeq now (av_journal a) = Some s" for s cutSeq
  proof -
    have "idle (a\<lparr>av_journal := insertSegment s (av_journal a)\<rparr>)" using i by (simp add: idle_def)
    then show ?thesis unfolding archive_ok_def using log_start [OF log_insert [OF h that]] start_one_pass by blast
  qed
  show ?thesis using keep cut by (auto simp: rolloverCut_def split: option.splits)
qed

lemma pending_of:
  assumes "holds_log a cs pend L"
  shows "pendingSegment (av_journal a) = pend"
proof -
  have "filter (\<lambda>s. sg_state s = Uploading) cs = []"
    using holds_logD(6) [OF assms] by (simp add: filter_empty_conv)
  then show ?thesis using holds_logD(4,9) [OF assms] by (cases pend) (simp_all add: pendingSegment_def)
qed

lemma ok_rollover:
  assumes "archive_ok a L" and i: "idle a"
  shows "archive_ok (maybeRollover now dbBytes a) L"
proof -
  obtain cs pend where h: "holds_log a cs pend L" "one_pass a pend" using assms(1) by (auto simp: archive_ok_def)
  show ?thesis
  proof (cases pend)
    case None
    then show ?thesis using assms(1) ok_cut [OF _ i] h(1) pending_of [OF h(1)] by (simp add: maybeRollover_def)
  next
    case (Some s)
    then have "archive_ok (startUpload s True now a) L"
      unfolding archive_ok_def using log_start start_one_pass [OF i] h(1) by blast
    then show ?thesis using assms(1) Some pending_of [OF h(1)] by (simp add: maybeRollover_def)
  qed
qed

lemma one_pass_retire:
  assumes "one_pass a pend" and "n < length (av_uploads a)"
  shows "one_pass (retireUpload n a) pend" and "up_live (av_uploads a ! n) \<Longrightarrow> idle (retireUpload n a)"
proof -
  let ?us = "av_uploads a" and ?u = "(av_uploads a ! n)\<lparr>up_live := False\<rparr>"
  have us: "?us = take n ?us @ ?us ! n # drop (Suc n) ?us" using assms(2) by (rule id_take_nth_drop)
  have r: "av_uploads (retireUpload n a) = take n ?us @ ?u # drop (Suc n) ?us"
    using assms(2) by (simp add: retireUpload_def upd_conv_take_nth_drop)
  have one: "length (filter up_live (take n ?us @ ?us ! n # drop (Suc n) ?us)) \<le> 1"
    using assms(1) us by (simp add: one_pass_def)
  have sub: "u \<in> set ?us" if "u \<in> set (take n ?us @ drop (Suc n) ?us)" for u
    using that by (auto dest: in_set_takeD in_set_dropD)
  show "one_pass (retireUpload n a) pend"
    using assms(1) one sub unfolding one_pass_def r by (auto split: if_splits)
  show "idle (retireUpload n a)" if "up_live (?us ! n)"
    using one that unfolding idle_def r by (auto simp: filter_empty_conv)
qed

lemma land_frame: "av_uploads (landUpload n a) = av_uploads a" "av_journal (landUpload n a) = av_journal a"
  by (simp_all add: landUpload_def Let_def)

lemma ok_uploaded:
  assumes ok: "archive_ok a L"
  shows "archive_ok (uploadDone n dbBytes a) L"
proof (cases "n < length (av_uploads a) \<and> up_live (av_uploads a ! n)")
  case True
  define u where "u = av_uploads a ! n"
  define a1 where "a1 = retireUpload n (landUpload n a)"
  obtain cs pend where h: "holds_log a cs pend L" and p: "one_pass a pend" using ok by (auto simp: archive_ok_def)
  have live: "u \<in> set (av_uploads a)" "up_live u" using True by (simp_all add: u_def)
  obtain s where s: "pend = Some s" "sg_firstSeq s = up_first u" "sg_lastSeq s = up_last u"
    using p live by (auto simp: one_pass_def)
  have h1: "holds_log a1 cs (Some s) L"
    unfolding a1_def using log_retire [OF log_land [OF h]] True s(1) by (simp add: land_frame)
  have i1: "idle a1"
    unfolding a1_def using one_pass_retire(2) [of "landUpload n a" pend n] p True by (simp add: land_frame one_pass_def)
  have "upload_ok a (mt_nextSeq (meta (av_journal a))) L u" by (rule holds_logD(10) [OF h live(1)])
  moreover have "sg_r2Key s = up_key u"
    using holds_logD(9) [OF h s(1)] calculation s(2,3) by (simp add: keyed_def upload_ok_def)
  ultimately have "stored a1 L s"
    using True s(2,3) by (simp add: stored_def a1_def retireUpload_def landUpload_def Let_def u_def [symmetric] upload_ok_def)
  from log_commit [OF h1 this]
  have h2: "holds_log (a1\<lparr>av_journal := commitSegment (up_first u) (up_last u) (av_journal a1)\<rparr>)
      (cs @ [s\<lparr>sg_state := Committed\<rparr>]) None L" using s(2,3) by simp
  have i2: "idle (a1\<lparr>av_journal := commitSegment (up_first u) (up_last u) (av_journal a1)\<rparr>)"
    using i1 by (simp add: idle_def)
  have "archive_ok (a1\<lparr>av_journal := commitSegment (up_first u) (up_last u) (av_journal a1)\<rparr>) L"
    unfolding archive_ok_def using h2 idle_one_pass [OF i2] by blast
  then show ?thesis
    using True ok_cut [OF h2 i2] by (simp add: uploadDone_def Let_def u_def [symmetric] a1_def [symmetric])
next
  case False
  then show ?thesis using ok by (auto simp: uploadDone_def)
qed

text \<open>The runs in which a pass starts only when none is running.\<close>

inductive serial_run :: "(json \<Rightarrow> string) \<Rightarrow> archive \<Rightarrow> archive \<Rightarrow> bool" for e where
  serial_refl: "serial_run e a a"
| serial_step: "serial_run e a b \<Longrightarrow> (\<forall>now dbBytes. ev = EvRollover now dbBytes \<longrightarrow> idle b) \<Longrightarrow>
    serial_run e a (archive_step e ev b)"

lemma ok_step:
  assumes ok: "archive_ok a L" and i: "\<forall>now dbBytes. ev = EvRollover now dbBytes \<longrightarrow> idle a"
  shows "\<exists>new. archive_ok (archive_step e ev a) (L @ new)"
proof -
  obtain cs pend where h: "holds_log a cs pend L" and p: "one_pass a pend" using ok by (auto simp: archive_ok_def)
  have same: "archive_ok b L" if "holds_log b cs pend L" "one_pass b pend" for b
    using that by (auto simp: archive_ok_def)
  have "archive_ok (archive_step e ev a) L" if no: "\<And>op. ev \<noteq> EvJournal op"
  proof (cases ev)
    case (EvRollover now dbBytes)
    then show ?thesis using ok_rollover [OF ok] i by simp
  next
    case (EvLand n)
    show ?thesis unfolding EvLand archive_step.simps
      by (rule same [OF log_land [OF h]]) (use p in \<open>simp add: one_pass_def land_frame\<close>)
  next
    case (EvUploaded n dbBytes)
    then show ?thesis using ok_uploaded [OF ok] by simp
  next
    case (EvUploadFailed n)
    then show ?thesis using ok same log_retire [OF h] one_pass_retire(1) [OF p] by simp
  next
    case EvEvicted
    let ?b = "archive_step e ev a"
    have "holds_log ?b cs pend L"
      by (rule log_frame [OF h]) (auto simp: EvEvicted holds_logD(10) [OF h] intro!: stored_bucket [OF holds_logD(8) [OF h]])
    moreover have "idle ?b" by (auto simp: EvEvicted idle_def)
    ultimately show ?thesis using same idle_one_pass by blast
  next
    case EvSealed
    let ?b = "archive_step e ev a"
    have "holds_log ?b cs pend L"
      by (rule log_frame [OF h]) (auto simp: EvSealed intro!: holds_logD(10) [OF h] stored_bucket [OF holds_logD(8) [OF h]])
    then show ?thesis using same p by (simp add: EvSealed one_pass_def)
  qed (use no in blast)
  moreover have "\<exists>new. archive_ok (archive_step e ev a) (L @ new)" if "ev = EvJournal op" for op
  proof -
    obtain new where n: "holds_log (a\<lparr>av_journal := journal_step e op (av_journal a)\<rparr>) cs pend (L @ new)"
      using log_journal [OF h grows_step [OF wf_bootstrapped [OF holds_logD(1) [OF h]]]] by blast
    moreover have "one_pass (a\<lparr>av_journal := journal_step e op (av_journal a)\<rparr>) pend" using p by (simp add: one_pass_def)
    ultimately show ?thesis unfolding that archive_step.simps archive_ok_def by blast
  qed
  ultimately show ?thesis by (cases "\<exists>op. ev = EvJournal op") (metis append_Nil2)+
qed

lemma ok_run: "serial_run e a b \<Longrightarrow> archive_ok a L \<Longrightarrow> \<exists>new. archive_ok b (L @ new)"
proof (induction rule: serial_run.induct)
  case (serial_refl a)
  then show ?case by (metis append_Nil2)
next
  case (serial_step a b ev)
  then obtain new where "archive_ok b (L @ new)" by blast
  from ok_step [OF this serial_step.hyps(2)] show ?case by (metis append.assoc)
qed

lemma ok_new: "archive_ok (new_archive p) []"
proof -
  have "holds_log (new_archive p) [] None []"
    by (rule holds_logI [where m = "new_meta 1"])
      (simp_all add: new_archive_def wf_bootstrap [unfolded bootstrap_def] bootstrap_def empty_storage_def meta_def new_meta_def
        journal_wf_def)
  moreover have "idle (new_archive p)" by (simp add: idle_def new_archive_def)
  ultimately show ?thesis using idle_one_pass by (auto simp: archive_ok_def)
qed

lemma ok_log: "archive_ok a L \<Longrightarrow> archive_log a = L \<and> map fst L = [0..mt_nextSeq (meta (av_journal a)) - 1] \<and> journal_wf (av_journal a)"
  unfolding archive_ok_def using holds_log_eq holds_logD(1,2) by blast

lemma serial_trans: "serial_run e b c \<Longrightarrow> serial_run e a b \<Longrightarrow> serial_run e a c"
  by (induction rule: serial_run.induct) (auto intro: serial_step)

text \<open>
  C2: Rollover is invisible. Started when no other pass is running, a pass loses nothing and repeats nothing,
  whichever uploads fail, arrive late or are cut off by an eviction: the committed segments followed by the
  resident rows are always the whole log, numbered from 0 without a gap, and the log of any later state extends it.
\<close>

theorem rollover_keeps_log:
  assumes "serial_run e (new_archive p) a" and "serial_run e a b"
  shows "map fst (archive_log a) = [0..mt_nextSeq (meta (av_journal a)) - 1] \<and>
    (\<exists>new. archive_log b = archive_log a @ new)"
proof -
  obtain L where a: "archive_ok a L" using ok_run [OF assms(1) ok_new] by auto
  from ok_run [OF assms(2) this] obtain new where "archive_ok b (L @ new)" by blast
  with a show ?thesis using ok_log by blast
qed

lemma serial_fold:
  assumes "\<forall>ev \<in> set evs. \<forall>now dbBytes. ev \<noteq> EvRollover now dbBytes"
  shows "serial_run e a b \<Longrightarrow> serial_run e a (fold (archive_step e) evs b)"
  using assms by (induction evs arbitrary: b) (auto intro: serial_step)

text \<open>A conversation of eight turns of one message of four megabytes each.\<close>

definition wide :: "json \<Rightarrow> string" where
  "wide v = replicate 4000000 (CHR ''x'')"

definition wide_row :: "string \<Rightarrow> journal_row" where
  "wide_row t =
     \<lparr>j_seq = 0, j_kind = KindMessage, j_turnId = t, j_writer = ''w'', j_writerKey = t, j_createdAt = 0, j_bytes = 4000000,
      j_role = Some ''user'', j_hidden = False, j_modelSkip = False, j_toolCallId = None, j_openCalls = 0,
      j_tokens = 1000000, j_streamId = None, j_clientMsgId = None, j_phase = None, j_lane = None, j_source = None,
      j_notice = None, j_payload = Some JNull, j_spillKey = None\<rparr>"

definition wide_input :: "string \<Rightarrow> message_input" where
  "wide_input t =
     \<lparr>mi_turnId = t, mi_writer = ''w'', mi_writerKey = t, mi_role = ''user'', mi_message = JNull, mi_hidden = False,
      mi_modelSkip = False, mi_streamId = None, mi_clientMsgId = None, mi_createdAt = 0, mi_spillKey = None\<rparr>"

lemma wide_size: "utf8Length (wide v) = 4000000" "estimateTokens (wide v) = 1000000"
proof -
  have "utf8Length (replicate n (CHR ''x'')) = int n" for n by (simp add: utf8Length_def sum_list_replicate)
  then show "utf8Length (wide v) = 4000000" by (simp add: wide_def)
  have "estimateTokens (replicate n (CHR ''x'')) = (int n + 3) div 4" for n by (simp add: estimateTokens_def)
  then show "estimateTokens (wide v) = 1000000" by (simp add: wide_def)
qed

lemma wide_message: "message_row wide (wide_input t) = wide_row t"
  by (simp add: message_row_def wide_input_def wide_row_def spilled_def Let_def wide_size)

definition wide_turns :: "string list" where
  "wide_turns = [''0'', ''1'', ''2'', ''3'', ''4'', ''5'', ''6'', ''7'']"

definition wide_journal :: journal where
  "wide_journal = fold (\<lambda>t j. snd (assertWritable (insertRow (wide_row t)) j)) wide_turns (bootstrap empty_storage)"

definition wide_messages :: "archive_event list" where
  "wide_messages = map (\<lambda>t. EvJournal (OpMessage (wide_input t))) wide_turns"

lemma wide_filled: "fold (archive_step wide) wide_messages (new_archive p) = (new_archive p)\<lparr>av_journal := wide_journal\<rparr>"
proof -
  have "fold (archive_step wide) (map (\<lambda>t. EvJournal (OpMessage (wide_input t))) ts) a =
      a\<lparr>av_journal := fold (\<lambda>t j. snd (assertWritable (insertRow (wide_row t)) j)) ts (av_journal a)\<rparr>" for ts a
    by (induction ts arbitrary: a) (simp_all add: appendMessage_def wide_message)
  then show ?thesis by (simp add: wide_messages_def wide_journal_def new_archive_def)
qed

definition end_turn :: "string \<Rightarrow> int \<Rightarrow> int \<Rightarrow> archive_event list" where
  "end_turn t n start =
     [EvJournal (OpUpsertTurn
        \<lparr>tn_turnId = t, tn_sessionId = [], tn_ownerId = [], tn_lane = None, tn_source = None, tn_clientMsgId = None,
         tn_state = ''running'', tn_terminalKind = None, tn_ctxStartSeq = None, tn_ctxEndSeq = None, tn_firstSeq = None,
         tn_lastSeq = None, tn_createdAt = 0, tn_updatedAt = 0\<rparr> n),
      EvJournal (OpContext t start n), EvJournal (OpSpan t n), EvJournal (OpTerminal t ''completed'' n)]"

definition six_turns :: "archive_event list" where
  "six_turns = end_turn ''0'' 0 0 @ end_turn ''1'' 1 0 @ end_turn ''2'' 2 0 @ end_turn ''3'' 3 0 @ end_turn ''4'' 4 0 @
     end_turn ''5'' 5 1"

definition wide_archive :: archive where
  "wide_archive = fold (archive_step wide) six_turns ((new_archive ''p'')\<lparr>av_journal := wide_journal\<rparr>)"

lemma wide_serial: "serial_run wide (new_archive ''p'') wide_archive"
  unfolding wide_archive_def wide_filled [symmetric]
  by (intro serial_fold serial_refl) (auto simp: six_turns_def end_turn_def wide_messages_def)

definition wide_failed :: archive where
  "wide_failed = archive_step wide (EvUploadFailed 0) (archive_step wide (EvRollover 9 0) wide_archive)"

definition wide_rolled :: archive where
  "wide_rolled = archive_step wide (EvUploaded 1 0) (archive_step wide (EvRollover 10 0) wide_failed)"

lemma wide_idle: "idle wide_archive" by code_simp
lemma wide_failed_serial: "serial_run wide (new_archive ''p'') wide_failed"
  unfolding wide_failed_def by (rule serial_step [OF serial_step [OF wide_serial]]) (simp_all add: wide_idle)

lemma wide_failed_idle: "idle wide_failed" by code_simp

lemma wide_rolled_serial: "serial_run wide wide_failed wide_rolled"
  unfolding wide_rolled_def by (intro serial_step serial_refl) (simp_all add: wide_failed_idle)

theorem rollover_keeps_log_witness:
  "map j_seq (jn_rows (av_journal wide_rolled)) = [1..7] \<and>
   map fst (archive_log wide_failed) = [0..7] \<and> (\<exists>new. archive_log wide_rolled = archive_log wide_failed @ new)"
proof -
  have "mt_nextSeq (meta (av_journal wide_failed)) = 8" "map j_seq (jn_rows (av_journal wide_rolled)) = [1..7]" by code_simp+
  then show ?thesis using rollover_keeps_log [OF wide_failed_serial wide_rolled_serial] by simp
qed

definition overlapping :: "archive_event list" where
  "overlapping =
     [EvRollover 10 0, EvUploadFailed 0, EvRollover 11 0, EvRollover 12 0] @ end_turn ''6'' 6 2 @ [EvUploaded 1 0] @
     end_turn ''7'' 7 3 @ [EvUploaded 2 0, EvUploadFailed 4, EvUploaded 3 0]"


end
