(* ===== verification/Archive_Read.thy ===== *)
theory Archive_Read
  imports Rollover
begin

text \<open>
  Reading a range across the segments and the resident rows, and draining the queue of objects to delete:
  \<open>readRange\<close>, \<open>readSegment\<close> and \<open>drainPurge\<close> of \<open>workers/cloud-builder/src/archive.ts\<close>.

  A read awaits the objects of its segments; the journal it started on and the journal it finds when the objects
  have arrived are separate arguments. A body that was stored is read back as the rows it holds.
\<close>

subsection \<open>Reading a range\<close>

record journal_range =
  rg_records :: "journal_record list"
  rg_complete :: bool
  rg_missingBelowSeq :: "int option"

definition readSegment :: "(string \<times> journal_row list) list \<Rightarrow> segment_row \<Rightarrow> journal_row list" where
  "readSegment bucket segment = coalesce (map_of bucket (sg_r2Key segment)) []"

fun takeRows :: "int \<Rightarrow> int \<Rightarrow> int \<Rightarrow> journal_record list \<Rightarrow> journal_row list \<Rightarrow> int \<times> journal_record list" where
  "takeRows maxRecords coldEnd cursor records [] = (cursor, records)"
| "takeRows maxRecords coldEnd cursor records (r # rs) =
     (if j_seq r < cursor \<or> j_seq r > coldEnd then takeRows maxRecords coldEnd cursor records rs
      else if int (length records) \<ge> maxRecords then (cursor, records)
      else takeRows maxRecords coldEnd (j_seq r + 1) (records @ [rowToRecord r]) rs)"

fun readSegments ::
  "(string \<times> journal_row list) list \<Rightarrow> int \<Rightarrow> int \<Rightarrow> int \<Rightarrow> journal_record list \<Rightarrow> segment_row list \<Rightarrow>
   int \<times> journal_record list" where
  "readSegments bucket maxRecords coldEnd cursor records [] = (cursor, records)"
| "readSegments bucket maxRecords coldEnd cursor records (s # ss) =
     (if int (length records) \<ge> maxRecords then (cursor, records)
      else let (cursor', records') = takeRows maxRecords coldEnd cursor records (readSegment bucket s)
           in readSegments bucket maxRecords coldEnd cursor' records' ss)"

definition readWindow ::
  "int \<Rightarrow> int \<Rightarrow> int \<Rightarrow> int \<Rightarrow> journal_record list \<Rightarrow> int option \<Rightarrow> journal \<Rightarrow> journal_range" where
  "readWindow windowStart endSeq maxRecords cursor records missing j =
     (if int (length records) < maxRecords \<and> cursor \<le> endSeq
      then let (rows, complete) =
                 readResident (max cursor windowStart) endSeq (nat (maxRecords - int (length records))) BACKFILL_BATCH_BYTES j
           in \<lparr>rg_records = records @ map rowToRecord rows, rg_complete = complete, rg_missingBelowSeq = missing\<rparr>
      else \<lparr>rg_records = records, rg_complete = (cursor > endSeq), rg_missingBelowSeq = missing\<rparr>)"

text \<open>The range \<open>fromSeq..toSeq\<close> of \<open>j\<close>; \<open>j'\<close> is the journal once the objects have been read.\<close>

definition readRange ::
  "int \<Rightarrow> int \<Rightarrow> int \<Rightarrow> journal \<Rightarrow> (string \<times> journal_row list) list \<Rightarrow> journal \<Rightarrow> journal_range" where
  "readRange fromSeq toSeq limit j bucket j' =
     (let h = headOf j; start = max 0 fromSeq; endSeq = min toSeq (hd_headSeq h);
          windowStart = hd_windowStartSeq h; maxRecords = min limit (int BACKFILL_BATCH_RECORDS) in
      if endSeq < start then \<lparr>rg_records = [], rg_complete = True, rg_missingBelowSeq = None\<rparr>
      else if start < windowStart then
        let coldEnd = min endSeq (windowStart - 1);
            segments = segmentsCovering start coldEnd MAX_SEGMENTS_PER_READ j;
            missing = (case segments of
                         [] \<Rightarrow> Some windowStart
                       | s # _ \<Rightarrow> if sg_firstSeq s > start then Some (sg_firstSeq s) else None);
            (cursor, records) = readSegments bucket maxRecords coldEnd (coalesce missing start) [] segments
        in if cursor \<le> coldEnd then \<lparr>rg_records = records, rg_complete = False, rg_missingBelowSeq = missing\<rparr>
           else readWindow windowStart endSeq maxRecords cursor records missing j'
      else readWindow windowStart endSeq maxRecords start [] None j)"

subsection \<open>Contiguous pages\<close>

lemma rec_seq_row [simp]: "rec_seq (rowToRecord r) = j_seq r"
  by (simp add: rowToRecord_def Let_def split: record_kind.splits)

text \<open>A page that starts at \<open>start\<close> and has been filled up to \<open>cursor\<close> from the rows of \<open>R\<close>.\<close>

definition page :: "journal_row set \<Rightarrow> int \<Rightarrow> int \<Rightarrow> journal_record list \<Rightarrow> bool" where
  "page R start cursor records \<longleftrightarrow>
     start \<le> cursor \<and> map rec_seq records = [start..cursor - 1] \<and> set records \<subseteq> rowToRecord ` R"

lemma page_length: "page R start cursor records \<Longrightarrow> int (length records) = cursor - start"
proof -
  assume "page R start cursor records"
  then have "length (map rec_seq records) = length [start..cursor - 1]" "start \<le> cursor" by (simp_all add: page_def)
  then show ?thesis by simp
qed

lemma page_snoc:
  assumes "page R start cursor records" and "r \<in> R" and "j_seq r = cursor"
  shows "page R start (cursor + 1) (records @ [rowToRecord r])"
  using assms upto_rec2 [of start cursor] by (simp add: page_def)

lemma takeRows_page:
  assumes "page R start cursor records" and "map j_seq rows = [f..l]" and "set rows \<subseteq> R" and "f \<le> cursor \<or> cursor > coldEnd"
    and "int (length records) \<le> maxRecords"
    and t: "takeRows maxRecords coldEnd cursor records rows = (cursor', records')"
  shows "page R start cursor' records' \<and> int (length records') \<le> maxRecords \<and> cursor \<le> cursor' \<and>
    cursor' \<le> max cursor (coldEnd + 1) \<and>
    (cursor' = max cursor (min l coldEnd + 1) \<or> int (length records') = maxRecords)"
  using assms
proof (induction maxRecords coldEnd cursor records rows arbitrary: f rule: takeRows.induct)
  case (1 maxRecords coldEnd cursor records)
  then have "l < f" by simp
  then show ?case using 1 by auto
next
  case (2 maxRecords coldEnd cursor records r rs)
  have fl: "f \<le> l" using "2.prems"(2) by (cases "f \<le> l") auto
  then have r: "j_seq r = f" "map j_seq rs = [f + 1..l]" using "2.prems"(2) upto_rec1 [of f l] by auto
  show ?case
  proof (cases "j_seq r < cursor \<or> j_seq r > coldEnd")
    case True
    then have t: "takeRows maxRecords coldEnd cursor records rs = (cursor', records')" using "2.prems"(6) by simp
    have "f + 1 \<le> cursor \<or> cursor > coldEnd" using True r(1) "2.prems"(4) by auto
    then show ?thesis using "2.IH"(1) [OF True "2.prems"(1) r(2) _ _ "2.prems"(5) t] "2.prems"(3) by simp
  next
    case False
    then have c: "cursor = f" "f \<le> coldEnd" using r(1) "2.prems"(4) by auto
    show ?thesis
    proof (cases "int (length records) \<ge> maxRecords")
      case True
      then show ?thesis using False "2.prems"(1,5,6) by auto
    next
      case more: False
      have t: "takeRows maxRecords coldEnd (j_seq r + 1) (records @ [rowToRecord r]) rs = (cursor', records')"
        using False more "2.prems"(6) by simp
      have p: "page R start (j_seq r + 1) (records @ [rowToRecord r])"
        using page_snoc [OF "2.prems"(1)] "2.prems"(3) r(1) c(1) by simp
      have "f + 1 \<le> j_seq r + 1 \<or> j_seq r + 1 > coldEnd" "int (length (records @ [rowToRecord r])) \<le> maxRecords"
        using r(1) more by auto
      from "2.IH"(2) [OF False more p r(2) _ this t] show ?thesis using "2.prems"(3) c r(1) fl by auto
    qed
  qed
qed

lemma readSegments_full:
  "int (length records) \<ge> maxRecords \<Longrightarrow> readSegments bucket maxRecords coldEnd cursor records ss = (cursor, records)"
  by (cases ss) auto

lemma readSegments_page:
  assumes "page R start cursor records" and "tiles f ss y"
    and "\<forall>s \<in> set ss. map j_seq (readSegment bucket s) = [sg_firstSeq s..sg_lastSeq s] \<and> set (readSegment bucket s) \<subseteq> R"
    and "f \<le> cursor \<or> cursor > coldEnd" and "int (length records) \<le> maxRecords"
    and "readSegments bucket maxRecords coldEnd cursor records ss = (cursor', records')"
  shows "page R start cursor' records' \<and> int (length records') \<le> maxRecords \<and> cursor \<le> cursor' \<and>
    cursor' \<le> max cursor (coldEnd + 1) \<and>
    (cursor' = max cursor (min (y - 1) coldEnd + 1) \<or> int (length records') = maxRecords)"
  using assms
proof (induction ss arbitrary: f cursor records)
  case Nil
  then show ?case by auto
next
  case (Cons s ss)
  show ?case
  proof (cases "int (length records) \<ge> maxRecords")
    case True
    then show ?thesis using Cons.prems by auto
  next
    case False
    obtain c1 r1 where t: "takeRows maxRecords coldEnd cursor records (readSegment bucket s) = (c1, r1)" by fastforce
    have s: "map j_seq (readSegment bucket s) = [f..sg_lastSeq s]" "set (readSegment bucket s) \<subseteq> R" "f \<le> sg_lastSeq s"
      "tiles (sg_lastSeq s + 1) ss y"
      using Cons.prems(2,3) by auto
    have step: "page R start c1 r1" "int (length r1) \<le> maxRecords" "cursor \<le> c1" "c1 \<le> max cursor (coldEnd + 1)"
      "c1 = max cursor (min (sg_lastSeq s) coldEnd + 1) \<or> int (length r1) = maxRecords"
      using takeRows_page [OF Cons.prems(1) s(1,2) Cons.prems(4,5) t] by auto
    have rest: "readSegments bucket maxRecords coldEnd c1 r1 ss = (cursor', records')"
      using Cons.prems(6) False t by simp
    show ?thesis
    proof (cases "int (length r1) = maxRecords")
      case True
      then show ?thesis using step rest readSegments_full [of maxRecords r1] by auto
    next
      case not_full: False
      then have c1: "c1 = max cursor (min (sg_lastSeq s) coldEnd + 1)" using step(5) by simp
      have "sg_lastSeq s + 1 \<le> c1 \<or> c1 > coldEnd" using c1 by auto
      from Cons.IH [OF step(1) s(4) _ this step(2) rest] Cons.prems(3)
      have "page R start cursor' records'" "int (length records') \<le> maxRecords" "c1 \<le> cursor'" "cursor' \<le> max c1 (coldEnd + 1)"
        "cursor' = max c1 (min (y - 1) coldEnd + 1) \<or> int (length records') = maxRecords" by auto
      moreover have "max c1 (coldEnd + 1) = max cursor (coldEnd + 1)" unfolding c1 by linarith
      moreover have "max c1 (min (y - 1) coldEnd + 1) = max cursor (min (y - 1) coldEnd + 1)"
        unfolding c1 using tiles_bounds(1) [OF s(4)] by linarith
      ultimately show ?thesis using step(3) by simp
    qed
  qed
qed

text \<open>The segments that cover a range are a run of adjacent ones, the first of which holds its start.\<close>

lemma tiles_upto:
  assumes "tiles a ss b" and "e < b" and "x \<le> a"
  shows "\<exists>y. tiles a (filter (\<lambda>s. x \<le> sg_lastSeq s \<and> sg_firstSeq s \<le> e) ss) y \<and> e < y"
  using assms
proof (induction ss arbitrary: a)
  case (Cons s ss)
  have s: "sg_firstSeq s = a" "a \<le> sg_lastSeq s" "tiles (sg_lastSeq s + 1) ss b" using Cons.prems(1) by auto
  show ?case
  proof (cases "a \<le> e")
    case True
    then show ?thesis using Cons.IH [OF s(3) Cons.prems(2)] Cons.prems(3) s by auto
  next
    case False
    have "filter (\<lambda>s. x \<le> sg_lastSeq s \<and> sg_firstSeq s \<le> e) ss = []"
      using tiles_bounds(2) [OF s(3)] s(2) False by (force simp: filter_empty_conv)
    then show ?thesis using False s(1) by auto
  qed
qed simp

lemma tiles_cover:
  assumes "tiles a ss b" and "a \<le> x" "x \<le> e" "e < b"
  shows "\<exists>f y. tiles f (filter (\<lambda>s. x \<le> sg_lastSeq s \<and> sg_firstSeq s \<le> e) ss) y \<and> f \<le> x \<and> e < y"
  using assms
proof (induction ss arbitrary: a)
  case (Cons s ss)
  have s: "sg_firstSeq s = a" "a \<le> sg_lastSeq s" "tiles (sg_lastSeq s + 1) ss b" using Cons.prems(1) by auto
  show ?case
  proof (cases "x \<le> sg_lastSeq s")
    case True
    obtain y where "tiles (sg_lastSeq s + 1) (filter (\<lambda>s. x \<le> sg_lastSeq s \<and> sg_firstSeq s \<le> e) ss) y" "e < y"
      using tiles_upto [OF s(3) Cons.prems(4), of x] True by auto
    then show ?thesis using True s Cons.prems(2,3) by (intro exI [of _ a] exI [of _ y]) auto
  next
    case False
    then show ?thesis using Cons.IH [OF s(3) _ Cons.prems(3,4)] by auto
  qed
qed auto

lemma tiles_take: "tiles a ss b \<Longrightarrow> \<exists>y. tiles a (take n ss) y \<and> (ss \<noteq> [] \<and> 0 < n \<longrightarrow> sg_lastSeq (hd ss) < y)"
proof (induction ss arbitrary: a n)
  case (Cons s ss)
  show ?case
  proof (cases n)
    case (Suc m)
    obtain y where y: "tiles (sg_lastSeq s + 1) (take m ss) y" using Cons by auto
    then show ?thesis using Cons.prems tiles_bounds(1) [OF y] Suc by (intro exI [of _ y]) auto
  qed simp
qed simp

lemma residentScan_prefix:
  assumes "residentScan room bytes rows = (out, whole)"
  shows "(\<exists>k. out = take k rows) \<and> (whole \<longleftrightarrow> out = rows) \<and> int (length out) \<le> max room 0 \<and>
    (0 < room \<and> 0 \<le> bytes \<and> rows \<noteq> [] \<longrightarrow> out \<noteq> [])"
  using assms
proof (induction room bytes rows arbitrary: out whole rule: residentScan.induct)
  case (2 room bytes r rs)
  show ?case
  proof (cases "room \<le> 0 \<or> bytes < 0")
    case True
    then show ?thesis using 2(2) by (auto intro: exI [of _ 0])
  next
    case False
    obtain out' c' where o: "residentScan (room - 1) (bytes - j_bytes r) rs = (out', c')" by fastforce
    have ih: "\<exists>k. out' = take k rs" "c' \<longleftrightarrow> out' = rs" "int (length out') \<le> max (room - 1) 0"
      using 2(1) [OF False o] by blast+
    obtain k where "out' = take k rs" using ih(1) by blast
    then have "\<exists>k. r # out' = take k (r # rs)" by (intro exI [of _ "Suc k"]) simp
    moreover have "out = r # out'" "whole = c'" using 2(2) False o by auto
    ultimately show ?thesis using ih(2,3) False by simp
  qed
qed auto

lemma upto_take: "take k [x..y] = [x..min y (x + int k - 1)]"
proof (induction k arbitrary: x)
  case (Suc k)
  show ?case
  proof (cases "x \<le> y")
    case True
    then have "[x..min y (x + int (Suc k) - 1)] = x # [x + 1..min y (x + int (Suc k) - 1)]" by (intro upto_rec1) simp
    then show ?thesis using True Suc [of "x + 1"] upto_rec1 [of x y] by (simp add: algebra_simps)
  qed simp
qed simp

lemma wf_range:
  assumes "journal_wf j" and "mt_hotMinSeq (meta j) \<le> x" "y < mt_nextSeq (meta j)"
  shows "map j_seq (filter (\<lambda>r. x \<le> j_seq r \<and> j_seq r \<le> y) (jn_rows j)) = [x..y]"
proof -
  have "map j_seq (filter (\<lambda>r. x \<le> j_seq r \<and> j_seq r \<le> y) (jn_rows j)) = filter (\<lambda>n. x \<le> n \<and> n \<le> y) (map j_seq (jn_rows j))"
    by (simp add: filter_map comp_def)
  also have "map j_seq (jn_rows j) = [mt_hotMinSeq (meta j)..mt_nextSeq (meta j) - 1]"
    using assms(1) by (auto simp: journal_wf_def meta_def)
  also have "filter (\<lambda>n. x \<le> n \<and> n \<le> y) [mt_hotMinSeq (meta j)..mt_nextSeq (meta j) - 1] = [x..y]"
    by (rule sorted_distinct_set_unique) (use assms(2,3) in \<open>auto simp: sorted_filter [of id, simplified]\<close>)
  finally show ?thesis .
qed

text \<open>A page of the range up to \<open>endSeq\<close> that says truly whether it is the whole of it.\<close>

definition page_ends :: "journal_row set \<Rightarrow> int \<Rightarrow> int \<Rightarrow> int \<Rightarrow> journal_range \<Rightarrow> bool" where
  "page_ends R start endSeq maxRecords r \<longleftrightarrow>
     page R start (start + int (length (rg_records r))) (rg_records r) \<and> int (length (rg_records r)) \<le> maxRecords \<and>
     start + int (length (rg_records r)) \<le> max start (endSeq + 1) \<and>
     (rg_complete r \<longleftrightarrow> endSeq < start + int (length (rg_records r))) \<and> rg_missingBelowSeq r = None"

lemma readWindow_page:
  assumes wf: "journal_wf j" and p: "page R start cursor records" and "set (jn_rows j) \<subseteq> R"
    and b: "mt_hotMinSeq (meta j) \<le> cursor" "endSeq < mt_nextSeq (meta j)" and m: "int (length records) \<le> maxRecords"
    and up: "cursor \<le> max start (endSeq + 1)"
  shows "page_ends R start endSeq maxRecords (readWindow (mt_hotMinSeq (meta j)) endSeq maxRecords cursor records None j) \<and>
    (cursor \<le> endSeq \<and> int (length records) < maxRecords \<longrightarrow>
       length records < length (rg_records (readWindow (mt_hotMinSeq (meta j)) endSeq maxRecords cursor records None j)))"
proof (cases "int (length records) < maxRecords \<and> cursor \<le> endSeq")
  case False
  then show ?thesis using p m up page_length [OF p] by (auto simp: readWindow_def page_ends_def)
next
  case True
  define F where "F = filter (\<lambda>r. cursor \<le> j_seq r \<and> j_seq r \<le> endSeq) (jn_rows j)"
  define n where "n = nat (maxRecords - int (length records))"
  have F: "map j_seq F = [cursor..endSeq]" unfolding F_def by (rule wf_range [OF wf b])
  obtain out whole where s: "residentScan (int n) BACKFILL_BATCH_BYTES (take (n + 1) F) = (out, whole)" by fastforce
  have rr: "readResident cursor endSeq n BACKFILL_BATCH_BYTES j = (out, whole \<and> length (take (n + 1) F) \<le> n)"
    using s wf_sorted(3) [OF wf] by (simp add: readResident_def rowsForArchive_def F_def)
  have pre: "\<exists>k. out = take k (take (n + 1) F)" "whole \<longleftrightarrow> out = take (n + 1) F" "length out \<le> n" "out \<noteq> []"
    using residentScan_prefix [OF s] True F by (auto simp: n_def BACKFILL_BATCH_BYTES_def)
  obtain k where k: "out = take k F" using pre(1) by (metis take_take)
  have whole: "whole \<and> length (take (n + 1) F) \<le> n \<longleftrightarrow> out = F"
    using pre(2,3) by auto
  have lF: "length F = nat (endSeq - cursor + 1)" using F by (metis length_map length_upto)
  have out: "map j_seq out = [cursor..cursor + int (length out) - 1]"
  proof -
    have "map j_seq out = take (length out) (map j_seq F)" using k by (metis append_take_drop_id append_eq_conv_conj length_map take_map)
    moreover have "length out \<le> length F" using k by simp
    then have "min endSeq (cursor + int (length out) - 1) = cursor + int (length out) - 1" using lF True by linarith
    ultimately show ?thesis using upto_take [of "length out" cursor endSeq] F by simp
  qed
  have "map rec_seq (records @ map rowToRecord out) = [start..cursor - 1] @ [cursor..cursor + int (length out) - 1]"
    using p out by (simp add: page_def comp_def)
  also have "\<dots> = [start..cursor + int (length out) - 1]"
    using upto_split1 [of start cursor "cursor + int (length out) - 1"] p pre(4) by (simp add: page_def)
  finally have seqs: "map rec_seq (records @ map rowToRecord out) = [start..cursor + int (length out) - 1]" .
  have c: "cursor = start + int (length records)" using page_length [OF p] by simp
  have fin: "out = F \<longleftrightarrow> endSeq < cursor + int (length out)"
    using k lF True by auto
  have "set out \<subseteq> set F" unfolding k by (rule set_take_subset)
  moreover have "set F \<subseteq> R" using assms(3) by (auto simp: F_def)
  ultimately have sub: "set out \<subseteq> R" by blast
  have value_eq: "readWindow (mt_hotMinSeq (meta j)) endSeq maxRecords cursor records None j =
      \<lparr>rg_records = records @ map rowToRecord out, rg_complete = (endSeq < cursor + int (length out)), rg_missingBelowSeq = None\<rparr>"
    using True rr whole fin b(1) by (simp add: readWindow_def n_def [symmetric] max_absorb1)
  have len: "start + int (length (records @ map rowToRecord out)) = cursor + int (length out)" using c by simp
  have "page R start (cursor + int (length out)) (records @ map rowToRecord out)"
    using p seqs sub by (auto simp: page_def)
  moreover have "int (length (records @ map rowToRecord out)) \<le> maxRecords"
    using pre(3) True unfolding n_def length_append length_map by linarith
  moreover have "cursor + int (length out) \<le> max start (endSeq + 1)" using k lF True by auto
  ultimately show ?thesis using pre(4) unfolding value_eq page_ends_def journal_range.simps len by simp
qed

definition archive_rows :: "archive \<Rightarrow> journal_row set" where
  "archive_rows a = set (jn_rows (av_journal a)) \<union> (\<Union>s \<in> set (committedSegments (av_journal a)). set (readSegment (av_bucket a) s))"

lemma archive_rows_log: "r \<in> archive_rows a \<Longrightarrow> row_key r \<in> set (archive_log a)"
  by (auto simp: archive_rows_def archive_log_def readSegment_def)

lemma committed_eq:
  assumes "holds_log a cs pend L"
  shows "committedSegments (av_journal a) = cs"
proof -
  have "filter (\<lambda>s. sg_state s = Committed) cs = cs" using holds_logD(6) [OF assms] by (simp add: filter_id_conv)
  then show ?thesis
    using holds_logD(4,9) [OF assms] by (cases pend) (simp_all add: committedSegments_def)
qed

lemma segment_rows:
  assumes h: "holds_log a cs pend L" and s: "s \<in> set cs"
  shows "map j_seq (readSegment (av_bucket a) s) = [sg_firstSeq s..sg_lastSeq s]" "set (readSegment (av_bucket a) s) \<subseteq> archive_rows a"
proof -
  obtain body where b: "map_of (av_bucket a) (sg_r2Key s) = Some body" "map row_key body = slice (sg_firstSeq s) (sg_lastSeq s) L"
    using holds_logD(8) [OF h s] by (auto simp: stored_def)
  have "map j_seq body = map fst (map row_key body)" by (simp add: row_key_def)
  also have "\<dots> = filter (\<lambda>n. sg_firstSeq s \<le> n \<and> n \<le> sg_lastSeq s) [0..mt_nextSeq (meta (av_journal a)) - 1]"
    unfolding b(2) slice_def holds_logD(2) [OF h, symmetric] by (simp add: filter_map comp_def)
  also have "\<dots> = [sg_firstSeq s..sg_lastSeq s]"
    by (rule sorted_distinct_set_unique) (use cs_bound [OF h s] in \<open>auto simp: sorted_filter [of id, simplified]\<close>)
  finally show "map j_seq (readSegment (av_bucket a) s) = [sg_firstSeq s..sg_lastSeq s]" by (simp add: readSegment_def b(1))
  show "set (readSegment (av_bucket a) s) \<subseteq> archive_rows a" using committed_eq [OF h] s by (auto simp: archive_rows_def)
qed

lemma covering_tiles:
  assumes h: "holds_log a cs pend L" and b: "0 \<le> x" "x \<le> y" "y < mt_hotMinSeq (meta (av_journal a))"
  shows "\<exists>f z. tiles f (segmentsCovering x y MAX_SEGMENTS_PER_READ (av_journal a)) z \<and> f \<le> x \<and> x < z \<and>
    set (segmentsCovering x y MAX_SEGMENTS_PER_READ (av_journal a)) \<subseteq> set cs"
proof -
  define ds where "ds = filter (\<lambda>s. x \<le> sg_lastSeq s \<and> sg_firstSeq s \<le> y) cs"
  obtain f z where t: "tiles f ds z" "f \<le> x" "y < z" using tiles_cover [OF holds_logD(5) [OF h] b] by (auto simp: ds_def)
  have seg: "segmentsCovering x y MAX_SEGMENTS_PER_READ (av_journal a) = take MAX_SEGMENTS_PER_READ ds"
    using tiles_sorted [OF t(1)] committed_eq [OF h] by (simp add: segmentsCovering_def ds_def sort_key_id_if_sorted)
  have ne: "ds \<noteq> []" using t b(2) by (cases ds) auto
  then have "x \<le> sg_lastSeq (hd ds)" using list.set_sel(1) [OF ne] by (simp add: ds_def)
  moreover obtain z' where "tiles f (take MAX_SEGMENTS_PER_READ ds) z'" "sg_lastSeq (hd ds) < z'"
    using tiles_take [OF t(1), of MAX_SEGMENTS_PER_READ] ne by (auto simp: MAX_SEGMENTS_PER_READ_def)
  ultimately show ?thesis unfolding seg using t(2) set_take_subset [of MAX_SEGMENTS_PER_READ ds]
    by (intro exI [of _ f] exI [of _ z']) (auto simp: ds_def)
qed

lemma read_range_page:
  fixes fromSeq toSeq :: int
  assumes h: "holds_log a cs pend L" and "0 < limit"
  defines "start \<equiv> max 0 fromSeq" and "endSeq \<equiv> min toSeq (mt_nextSeq (meta (av_journal a)) - 1)"
    and "r \<equiv> readRange fromSeq toSeq limit (av_journal a) (av_bucket a) (av_journal a)"
  shows "page_ends (archive_rows a) start endSeq (min limit (int BACKFILL_BATCH_RECORDS)) r \<and> (start \<le> endSeq \<longrightarrow> rg_records r \<noteq> [])"
proof -
  define j where "j = av_journal a"
  define m where "m = min limit (int BACKFILL_BATCH_RECORDS)"
  define hot where "hot = mt_hotMinSeq (meta j)"
  have m: "0 < m" using assms(2) by (simp add: m_def BACKFILL_BATCH_RECORDS_def)
  have wf: "journal_wf j" using holds_logD(1) [OF h] by (simp add: j_def)
  have rows: "set (jn_rows j) \<subseteq> archive_rows a" by (auto simp: archive_rows_def j_def)
  have e: "endSeq < mt_nextSeq (meta j)" by (simp add: endSeq_def j_def)
  have empty: "page (archive_rows a) start start []" by (simp add: page_def)
  have head: "hd_headSeq (headOf j) = mt_nextSeq (meta j) - 1" "hd_windowStartSeq (headOf j) = hot"
    by (simp_all add: headOf_def Let_def hot_def)
  consider (none) "endSeq < start" | (hot) "start \<le> endSeq" "hot \<le> start" | (cold) "start \<le> endSeq" "start < hot" by linarith
  then show ?thesis
  proof cases
    case none
    then have "r = \<lparr>rg_records = [], rg_complete = True, rg_missingBelowSeq = None\<rparr>"
      by (simp add: r_def readRange_def Let_def head j_def [symmetric] start_def [symmetric] endSeq_def [folded j_def, symmetric])
    then show ?thesis using none m empty by (simp add: page_ends_def m_def [symmetric])
  next
    case hot
    then have "r = readWindow hot endSeq m start [] None j"
      by (simp add: r_def readRange_def Let_def head j_def [symmetric] start_def [symmetric] endSeq_def [folded j_def, symmetric] m_def)
    then show ?thesis
      using readWindow_page [OF wf empty rows _ e, of m] hot m by (simp add: hot_def m_def [symmetric])
  next
    case cold
    define ce where "ce = min endSeq (hot - 1)"
    define ss where "ss = segmentsCovering start ce MAX_SEGMENTS_PER_READ j"
    have ce: "0 \<le> start" "start \<le> ce" "ce < hot" using cold by (auto simp: ce_def start_def)
    obtain f z where t: "tiles f ss z" "f \<le> start" "start < z" "set ss \<subseteq> set cs"
      using covering_tiles [OF h, of start ce] ce by (auto simp: ss_def j_def hot_def)
    obtain s ss' where ss: "ss = s # ss'" using t(1-3) by (cases ss) auto
    obtain cursor records where rs: "readSegments (av_bucket a) m ce start [] ss = (cursor, records)" by fastforce
    have r: "r = (if cursor \<le> ce then \<lparr>rg_records = records, rg_complete = False, rg_missingBelowSeq = None\<rparr>
        else readWindow hot endSeq m cursor records None j)"
      using cold rs ss t(1,2)
      by (simp add: r_def readRange_def Let_def head j_def [symmetric] start_def [symmetric] m_def [symmetric]
          endSeq_def [folded j_def, symmetric] ce_def [symmetric] ss_def [symmetric])
    have "\<forall>s \<in> set ss. map j_seq (readSegment (av_bucket a) s) = [sg_firstSeq s..sg_lastSeq s] \<and>
        set (readSegment (av_bucket a) s) \<subseteq> archive_rows a"
      using segment_rows [OF h] t(4) by blast
    from readSegments_page [OF empty t(1) this _ _ rs] t(2) m
    have p: "page (archive_rows a) start cursor records" "int (length records) \<le> m" "start \<le> cursor" "cursor \<le> max start (ce + 1)"
      "cursor = max start (min (z - 1) ce + 1) \<or> int (length records) = m" by auto
    have len: "int (length records) = cursor - start" by (rule page_length [OF p(1)])
    have some: "records \<noteq> []" using len p(5) t(3) ce(2) m by auto
    show ?thesis
    proof (cases "cursor \<le> ce")
      case True
      then show ?thesis using r p(1,2) len some cold ce by (simp add: page_ends_def m_def [symmetric] ce_def)
    next
      case False
      then have "cursor = ce + 1" using p(4) ce(2) by simp
      show ?thesis
      proof (cases "hot \<le> cursor")
        case True
        have "cursor \<le> max start (endSeq + 1)" using \<open>cursor = ce + 1\<close> by (simp add: ce_def)
        from readWindow_page [OF wf p(1) rows _ e p(2) this] True
        have w: "page_ends (archive_rows a) start endSeq m (readWindow hot endSeq m cursor records None j)" by (simp add: hot_def)
        moreover have "rg_records (readWindow hot endSeq m cursor records None j) \<noteq> []"
          using some by (simp add: readWindow_def split: prod.splits)
        ultimately show ?thesis using r False by (simp add: m_def [symmetric])
      next
        case lt: False
        then have "cursor = endSeq + 1" using \<open>cursor = ce + 1\<close> by (auto simp: ce_def)
        then show ?thesis using r False p(1,2) len some by (simp add: readWindow_def page_ends_def m_def [symmetric])
      qed
    qed
  qed
qed



definition wide_running :: archive where
  "wide_running = archive_step wide (EvRollover 11 0) (fold (archive_step wide) (end_turn ''6'' 6 2) wide_rolled)"

lemma wide_running_serial: "serial_run wide (new_archive ''p'') wide_running"
proof -
  have "idle (fold (archive_step wide) (end_turn ''6'' 6 2) wide_rolled)" by code_simp
  moreover have "serial_run wide (new_archive ''p'') (fold (archive_step wide) (end_turn ''6'' 6 2) wide_rolled)"
    by (rule serial_fold) (auto simp: end_turn_def intro: serial_trans [OF wide_rolled_serial wide_failed_serial])
  ultimately show ?thesis unfolding wide_running_def by (intro serial_step) simp_all
qed


subsection \<open>Draining the purge queue\<close>

text \<open>
  The drain, with the outcome of each delete of a batch of objects: \<open>ok n\<close> tells whether the \<open>n\<close>th succeeds. The
  result counts the calls and lists the keys that were confirmed.
\<close>


definition purge_keys :: "journal \<Rightarrow> string set" where
  "purge_keys j = pq_key ` set (jn_purge j)"

lemma purgeDone_rows: "jn_purge (purgeDone keys j) = filter (\<lambda>p. pq_key p \<notin> set keys) (jn_purge j)"
proof (induction keys arbitrary: j)
  case (Cons k keys)
  have "jn_purge (purgeDone (k # keys) j) = filter (\<lambda>p. pq_key p \<notin> set keys) (filter (\<lambda>p. pq_key p \<noteq> k) (jn_purge j))"
    unfolding purgeDone_def fold_Cons comp_def by (subst Cons [unfolded purgeDone_def]) (simp add: sql_delete_def)
  then show ?case by (simp add: filter_filter conj_commute)
qed (simp add: purgeDone_def)

lemma purgeFailed_keys: "map pq_key (jn_purge (purgeFailed keys j)) = map pq_key (jn_purge j)"
proof (induction keys arbitrary: j)
  case (Cons k keys)
  have "map pq_key (jn_purge (purgeFailed (k # keys) j)) = map pq_key (sql_update (\<lambda>p. pq_key p = k) (\<lambda>p. p\<lparr>pq_attempts := pq_attempts p + 1\<rparr>) (jn_purge j))"
    unfolding purgeFailed_def fold_Cons comp_def by (subst Cons [unfolded purgeFailed_def]) simp
  then show ?case by (simp add: sql_update_def)
qed (simp add: purgeFailed_def)

lemma purgeBatch_keys: "set (purgeBatch n j) \<subseteq> purge_keys j" "purgeBatch n j = [] \<longleftrightarrow> n = 0 \<or> jn_purge j = []"
  by (auto simp: purgeBatch_def purge_keys_def dest: in_set_takeD)

lemma purgeDone_shrinks:
  assumes "purgeBatch n j \<noteq> []"
  shows "length (jn_purge (purgeDone (purgeBatch n j) j)) < length (jn_purge j)"
proof -
  obtain p where "p \<in> set (jn_purge j)" "pq_key p \<in> set (purgeBatch n j)"
    using assms purgeBatch_keys(1) [of n j] hd_in_set by (force simp: purge_keys_def)
  then show ?thesis unfolding purgeDone_rows by (intro length_filter_less) auto
qed

lemma purgeFailed_length: "length (jn_purge (purgeFailed keys j)) = length (jn_purge j)"
  using purgeFailed_keys [of keys j] by (metis length_map)

function drainLoop :: "(nat \<Rightarrow> bool) \<Rightarrow> nat \<Rightarrow> nat \<Rightarrow> journal \<Rightarrow> nat \<times> string list \<times> journal" where
  "drainLoop ok n failures j =
     (let keys = purgeBatch PURGE_BATCH j in
      if keys = [] then (n, [], j)
      else if ok n then
        let (calls, confirmed, j') = drainLoop ok (n + 1) failures (purgeDone keys j) in (calls, keys @ confirmed, j')
      else if failures + 1 \<ge> PURGE_MAX_FAILED_BATCHES then (n + 1, [], purgeFailed keys j)
      else drainLoop ok (n + 1) (failures + 1) (purgeFailed keys j))"
  by pat_completeness auto
termination
  by (relation "measures [\<lambda>(ok, n, failures, j). PURGE_MAX_FAILED_BATCHES - failures, \<lambda>(ok, n, failures, j). length (jn_purge j)]")
    (auto simp: purgeDone_shrinks)

declare drainLoop.simps [simp del]

definition drainPurge :: "(nat \<Rightarrow> bool) \<Rightarrow> journal \<Rightarrow> nat \<times> string list \<times> journal" where
  "drainPurge ok j = drainLoop ok 0 0 j"

lemma drainLoop_accounts:
  assumes "drainLoop ok n failures j = (calls, confirmed, j')" and "failures < PURGE_MAX_FAILED_BATCHES"
  shows "purge_keys j = set confirmed \<union> purge_keys j' \<and> set confirmed \<inter> purge_keys j' = {} \<and>
    calls + length (jn_purge j') + failures \<le> n + length (jn_purge j) + PURGE_MAX_FAILED_BATCHES \<and>
    (jn_purge j' \<noteq> [] \<longrightarrow> (\<exists>i. n \<le> i \<and> i < calls \<and> \<not> ok i))"
  using assms
proof (induction ok n failures j arbitrary: calls confirmed j' rule: drainLoop.induct)
  case (1 ok n failures j)
  let ?keys = "purgeBatch PURGE_BATCH j"
  show ?case
  proof (cases "?keys = []")
    case True
    then have "jn_purge j = []" by (simp add: purgeBatch_keys(2) PURGE_BATCH_def)
    then show ?thesis using 1(3,4) True by (auto simp: drainLoop.simps [of ok n] purge_keys_def)
  next
    case ne: False
    show ?thesis
    proof (cases "ok n")
      case True
      obtain c k j1 where r: "drainLoop ok (n + 1) failures (purgeDone ?keys j) = (c, k, j1)" by (metis prod_cases3)
      have e: "calls = c" "confirmed = ?keys @ k" "j' = j1" using 1(3) ne True r by (auto simp: drainLoop.simps [of ok n] Let_def)
      have keys: "purge_keys (purgeDone ?keys j) = purge_keys j - set ?keys"
        by (auto simp: purge_keys_def purgeDone_rows)
      have ih: "purge_keys j - set ?keys = set k \<union> purge_keys j1" "set k \<inter> purge_keys j1 = {}"
        "c + length (jn_purge j1) + failures \<le> n + 1 + length (jn_purge (purgeDone ?keys j)) + PURGE_MAX_FAILED_BATCHES"
        "jn_purge j1 \<noteq> [] \<longrightarrow> (\<exists>i. n + 1 \<le> i \<and> i < c \<and> \<not> ok i)"
        using 1(1) [OF refl ne True r 1(4)] keys by auto
      have "purge_keys j = set ?keys \<union> (set k \<union> purge_keys j1)" using ih(1) purgeBatch_keys(1) by blast
      moreover have "set ?keys \<inter> purge_keys j1 = {}" using ih(1) by blast
      moreover have "\<exists>i. n \<le> i \<and> i < c \<and> \<not> ok i" if "jn_purge j1 \<noteq> []" using ih(4) that by (metis Suc_eq_plus1 Suc_leD)
      ultimately show ?thesis using ih(2,3) purgeDone_shrinks [OF ne] unfolding e by auto
    next
      case bad: False
      have keys: "purge_keys (purgeFailed ?keys j) = purge_keys j"
        unfolding purge_keys_def using arg_cong [OF purgeFailed_keys, of set] by simp
      show ?thesis
      proof (cases "failures + 1 \<ge> PURGE_MAX_FAILED_BATCHES")
        case True
        then have "calls = n + 1" "confirmed = []" "j' = purgeFailed ?keys j"
          using 1(3) ne bad by (auto simp: drainLoop.simps [of ok n] Let_def)
        then show ?thesis using keys bad True 1(4) by (auto simp: purgeFailed_length)
      next
        case False
        have r: "drainLoop ok (n + 1) (failures + 1) (purgeFailed ?keys j) = (calls, confirmed, j')"
          using 1(3) ne bad False by (simp add: drainLoop.simps [of ok n] Let_def)
        from 1(2) [OF refl ne bad False r] False keys bad show ?thesis
          by (auto simp: purgeFailed_length intro!: exI [of _ n])
      qed
    qed
  qed
qed

text \<open>
  C27: The drain ends and forgets no key. Whatever the outcome of each delete, it makes at most one call for every
  queued key and three more; every key that was queued is afterwards either confirmed or still queued, never both;
  and the queue is empty unless a delete failed, so that \<open>deleteAll\<close> behind an empty queue strands no object.
\<close>

theorem drain_accounts_for_keys:
  "let (calls, confirmed, j') = drainPurge ok j in
     purge_keys j = set confirmed \<union> purge_keys j' \<and> set confirmed \<inter> purge_keys j' = {} \<and>
     calls + length (jn_purge j') \<le> length (jn_purge j) + 3 \<and>
     (purgePending j' = 0 \<or> (\<exists>i. i < calls \<and> \<not> ok i))"
proof -
  obtain calls confirmed j' where d: "drainLoop ok 0 0 j = (calls, confirmed, j')" by (metis prod_cases3)
  from drainLoop_accounts [OF d] show ?thesis
    unfolding drainPurge_def d by (auto simp: PURGE_MAX_FAILED_BATCHES_def purgePending_def)
qed

end
