(* ===== verification/Conversation_Protocol.thy ===== *)
theory Conversation_Protocol
  imports Journal_Store
begin

text \<open>
  The wire format of a conversation socket: \<open>packages/contracts/conversation-protocol.ts\<close>, with the card parser of
  \<open>cloud-agent-lifecycle.ts\<close>. A record travels as JSON; the client decodes it for rendering, and a row that it does
  not understand still takes its place in the sequence.
\<close>

subsection \<open>Constants\<close>

definition INITIAL_WINDOW_RECORDS :: int where "INITIAL_WINDOW_RECORDS = 100"
definition MAX_RESUME_RECORDS :: int where "MAX_RESUME_RECORDS = 2000"
definition MAX_CATCHUP_RESUME_RECORDS :: int where "MAX_CATCHUP_RESUME_RECORDS = 300"
definition CLIENT_BATCH_RECORDS :: int where "CLIENT_BATCH_RECORDS = 200"
definition MAX_CLIENT_RECORDS :: nat where "MAX_CLIENT_RECORDS = 3000"
definition MAX_BUFFERED_AHEAD :: nat where "MAX_BUFFERED_AHEAD = 512"
definition RATE_BACKFILL_PER_MIN :: rat where "RATE_BACKFILL_PER_MIN = 20"

definition CLOSE_BAD_REQUEST :: nat where "CLOSE_BAD_REQUEST = 4400"
definition TERMINAL_CLOSE_CODES :: "nat list" where
  "TERMINAL_CLOSE_CODES = [4400, 4403, 4404, 4409, 4410, 4413]"

subsection \<open>Fields\<close>

definition asRecord :: "json option \<Rightarrow> json option" where
  "asRecord v = (case v of Some (JObj fs) \<Rightarrow> Some (JObj fs) | Some (JArr vs) \<Rightarrow> Some (JArr vs) | _ \<Rightarrow> None)"

definition str :: "json option \<Rightarrow> string option" where
  "str v = jstring v"

definition num :: "json option \<Rightarrow> rat option" where
  "num v = (case v of Some (JNum (Fin x)) \<Rightarrow> Some x | _ \<Rightarrow> None)"

definition seqNum :: "json option \<Rightarrow> int option" where
  "seqNum v =
     (case num v of
        Some x \<Rightarrow> if x \<in> \<int> \<and> safe_integer \<lfloor>x\<rfloor> \<and> \<lfloor>x\<rfloor> \<ge> 0 then Some \<lfloor>x\<rfloor> else None
      | None \<Rightarrow> None)"

text \<open>A string field that is copied when it is there and not empty.\<close>

definition strField :: "string \<Rightarrow> json \<Rightarrow> (string \<times> json) list" where
  "strField k v = (case nonempty (str (jget k v)) of Some s \<Rightarrow> [(k, JStr s)] | None \<Rightarrow> [])"

definition MESSAGE_ROLES :: "string list" where
  "MESSAGE_ROLES = [''user'', ''assistant'', ''toolResult'']"

definition TURN_PHASES :: "string list" where
  "TURN_PHASES = [''started'', ''completed'', ''failed'', ''canceled'', ''timeout'']"

subsection \<open>Cards\<close>

definition cardRecord :: "json option \<Rightarrow> bool" where
  "cardRecord v \<longleftrightarrow> (case v of Some (JObj _) \<Rightarrow> True | _ \<Rightarrow> False)"

definition isString :: "json option \<Rightarrow> bool" where
  "isString v \<longleftrightarrow> str v \<noteq> None"

definition keepString :: "string \<Rightarrow> json \<Rightarrow> (string \<times> json) list" where
  "keepString k v = (case str (jget k v) of Some s \<Rightarrow> [(k, JStr s)] | None \<Rightarrow> [])"

definition lifecycleEvent :: "string \<Rightarrow> json \<Rightarrow> (string \<times> json) list option" where
  "lifecycleEvent kind payload =
     (if kind = ''agent-started'' then
        if isString (jget ''description'' payload) \<and> isString (jget ''agentType'' payload) \<and>
           (case jget ''isFollowUp'' payload of None \<Rightarrow> True | Some (JBool _) \<Rightarrow> True | _ \<Rightarrow> False) \<and>
           (jget ''statusText'' payload = None \<or> isString (jget ''statusText'' payload))
        then Some (keepString ''description'' payload @ keepString ''agentType'' payload @
               (if jget ''isFollowUp'' payload = Some (JBool True) then [(''isFollowUp'', JBool True)] else []) @
               keepString ''statusText'' payload)
        else None
      else if kind = ''agent-progress'' then
        if isString (jget ''statusText'' payload) then Some (keepString ''statusText'' payload) else None
      else if kind = ''agent-completed'' then
        if isString (jget ''result'' payload) then Some (keepString ''result'' payload) else None
      else if kind = ''agent-failed'' \<or> kind = ''agent-canceled'' then
        if jget ''error'' payload = None \<or> isString (jget ''error'' payload) then Some (keepString ''error'' payload) else None
      else None)"

definition parseCloudAgentLifecycleCard :: "json \<Rightarrow> json option" where
  "parseCloudAgentLifecycleCard value =
     (case (str (jget ''eventId'' value), jget ''event'' value) of
        (Some eventId, Some event) \<Rightarrow>
          (case (jget ''payload'' event, str (jget ''type'' event)) of
             (Some payload, Some kind) \<Rightarrow>
               if jget ''type'' value = Some (JStr ''agent-lifecycle'') \<and> eventId \<noteq> [] \<and> cardRecord (Some event) \<and>
                  cardRecord (Some payload) \<and> nonempty (str (jget ''agentId'' payload)) \<noteq> None \<and>
                  (case seqNum (jget ''attemptGeneration'' payload) of Some g \<Rightarrow> g \<ge> 1 | None \<Rightarrow> False) \<and>
                  (jget ''rootRunId'' payload = None \<or> isString (jget ''rootRunId'' payload))
               then case lifecycleEvent kind payload of
                   None \<Rightarrow> None
                 | Some rest \<Rightarrow>
                     Some (JObj [(''type'', JStr ''agent-lifecycle''), (''eventId'', JStr eventId),
                       (''event'', JObj [(''type'', JStr kind), (''payload'', JObj
                         (keepString ''agentId'' payload @
                          [(''attemptGeneration'', coalesce (jget ''attemptGeneration'' payload) JNull)] @
                          keepString ''rootRunId'' payload @ rest))])])
               else None
           | _ \<Rightarrow> None)
      | _ \<Rightarrow> None)"

text \<open>The text after the last slash.\<close>

definition baseName :: "string \<Rightarrow> string" where
  "baseName path = rev (takeWhile (\<lambda>c. c \<noteq> CHR ''/'') (rev path))"

definition decodeFile :: "json \<Rightarrow> json option" where
  "decodeFile entry =
     (case nonempty (str (jget ''path'' entry)) of
        None \<Rightarrow> None
      | Some path \<Rightarrow>
          Some (JObj ([(''path'', JStr path), (''name'', JStr (coalesce (str (jget ''name'' entry)) (baseName path))),
            (''sizeBytes'', JNum (Fin (coalesce (num (jget ''sizeBytes'' entry)) 0))),
            (''contentType'', JStr (coalesce (str (jget ''contentType'' entry)) ''application/octet-stream''))] @
            (if jget ''stored'' entry = Some (JBool False) then [(''stored'', JBool False)] else []))))"

definition recordField :: "string \<Rightarrow> json \<Rightarrow> (string \<times> json) list" where
  "recordField k v = (case asRecord (jget k v) of Some r \<Rightarrow> [(k, r)] | None \<Rightarrow> [])"

definition decodeCard :: "json option \<Rightarrow> json option" where
  "decodeCard value =
     (case asRecord value of
        None \<Rightarrow> None
      | Some raw \<Rightarrow>
          (case str (jget ''type'' raw) of
             None \<Rightarrow> None
           | Some type \<Rightarrow>
               if type = ''agent-lifecycle'' then parseCloudAgentLifecycleCard raw
               else if type = ''build'' then
                 (case nonempty (str (jget ''buildId'' raw)) of
                    None \<Rightarrow> None
                  | Some buildId \<Rightarrow> Some (JObj ([(''type'', JStr ''build''), (''buildId'', JStr buildId)] @ strField ''appId'' raw)))
               else if type = ''operation'' then
                 (case nonempty (str (jget ''operation'' raw)) of
                    None \<Rightarrow> None
                  | Some operation \<Rightarrow>
                      Some (JObj ([(''type'', JStr ''operation''), (''operation'', JStr operation)] @
                        recordField ''args'' raw @ recordField ''result'' raw)))
               else if type = ''files'' then
                 (case jget ''files'' raw of
                    Some (JArr entries) \<Rightarrow>
                      let files = List.map_filter decodeFile entries in
                      if files = [] then None else Some (JObj [(''type'', JStr ''files''), (''files'', JArr files)])
                  | _ \<Rightarrow> None)
               else None))"

subsection \<open>Records\<close>

datatype client_record =
    CMessage (cr_seq: int) (cr_turnId: string) (cr_createdAtMs: rat) (cr_role: string) bool "string option" json
  | CTurn (cr_seq: int) (cr_turnId: string) (cr_createdAtMs: rat) (cr_phase: string) "string option" "string option"
      "string option" "rat option"
  | CCard (cr_seq: int) (cr_turnId: string) (cr_createdAtMs: rat) json
  | CSkipped (cr_seq: int) (cr_turnId: string) (cr_createdAtMs: rat) "string option"

definition decodeRecord :: "json \<Rightarrow> client_record option" where
  "decodeRecord raw =
     (case (seqNum (jget ''seq'' raw), str (jget ''turnId'' raw), str (jget ''kind'' raw)) of
        (Some seq, Some turnId, Some kind) \<Rightarrow>
          let createdAtMs = coalesce (num (jget ''createdAtMs'' raw)) 0 in
          if kind = ''message'' then
            (case (str (jget ''role'' raw), asRecord (jget ''payload'' raw)) of
               (Some role, Some payload) \<Rightarrow>
                 if role \<in> set MESSAGE_ROLES
                 then Some (CMessage seq turnId createdAtMs role (jget ''hidden'' raw = Some (JBool True))
                        (nonempty (str (jget ''clientMsgId'' raw))) payload)
                 else None
             | _ \<Rightarrow> None)
          else if kind = ''turn'' then
            (case str (jget ''phase'' raw) of
               Some phase \<Rightarrow>
                 if phase \<in> set TURN_PHASES
                 then Some (CTurn seq turnId createdAtMs phase (nonempty (str (jget ''lane'' raw)))
                        (nonempty (str (jget ''source'' raw))) (nonempty (str (jget ''notice'' raw)))
                        (num (jget ''wallClockMs'' raw)))
                 else None
             | None \<Rightarrow> None)
          else if kind = ''card'' then
            map_option (CCard seq turnId createdAtMs) (decodeCard (jget ''card'' raw))
          else None
      | _ \<Rightarrow> None)"

definition decodeSequencedJournalEntry :: "json \<Rightarrow> client_record option" where
  "decodeSequencedJournalEntry raw =
     (case seqNum (jget ''seq'' raw) of
        None \<Rightarrow> None
      | Some seq \<Rightarrow>
          (case decodeRecord raw of
             Some r \<Rightarrow> Some r
           | None \<Rightarrow>
               Some (CSkipped seq (coalesce (str (jget ''turnId'' raw)) []) (coalesce (num (jget ''createdAtMs'' raw)) 0)
                 (nonempty (str (jget ''kind'' raw))))))"

text \<open>A record as the hub puts it on the wire.\<close>

definition wireField :: "string \<Rightarrow> string option \<Rightarrow> (string \<times> json) list" where
  "wireField k v = (case v of Some s \<Rightarrow> [(k, JStr s)] | None \<Rightarrow> [])"

definition wireValue :: "string \<Rightarrow> json option \<Rightarrow> (string \<times> json) list" where
  "wireValue k v = (case v of Some x \<Rightarrow> [(k, x)] | None \<Rightarrow> [])"

definition record_base :: "int \<Rightarrow> string \<Rightarrow> string \<Rightarrow> ms \<Rightarrow> (string \<times> json) list" where
  "record_base seq kind turnId createdAt =
     [(''seq'', JNum (Fin (of_int seq))), (''kind'', JStr kind), (''turnId'', JStr turnId),
      (''createdAtMs'', JNum (Fin (of_int createdAt)))]"

fun encodeRecord :: "journal_record \<Rightarrow> json" where
  "encodeRecord (RecMessage seq turnId createdAt role hidden streamId clientMsgId payload) =
     JObj (record_base seq ''message'' turnId createdAt @ [(''role'', JStr role), (''hidden'', JBool hidden)] @
       wireField ''streamId'' streamId @ wireField ''clientMsgId'' clientMsgId @ [(''payload'', payload)])"
| "encodeRecord (RecTurn seq turnId createdAt phase lane source notice promptSeq wallClockMs) =
     JObj (record_base seq ''turn'' turnId createdAt @ [(''phase'', JStr phase)] @ wireField ''lane'' lane @
       wireField ''source'' source @ wireField ''notice'' notice @ wireValue ''promptSeq'' promptSeq @
       wireValue ''wallClockMs'' wallClockMs)"
| "encodeRecord (RecCard seq turnId createdAt content) =
     JObj (record_base seq ''card'' turnId createdAt @ [(''card'', content)])"

subsection \<open>Every row keeps its place\<close>

lemma seqNum_int: "seqNum (Some (JNum (Fin (of_int n)))) = (if safe_integer n \<and> 0 \<le> n then Some n else None)"
  by (simp add: seqNum_def num_def)

lemma jget_simps [simp]:
  "jget k (JObj []) = None"
  "jget k (JObj ((k', v) # fs)) = (if k = k' then Some v else jget k (JObj fs))"
  by (simp_all add: jget_def)

lemma jget_wireField: "jget k (JObj (wireField k' v @ fs)) = (if k = k' \<and> v \<noteq> None then map_option JStr v else jget k (JObj fs))"
  by (cases v) (auto simp: wireField_def)

lemma jget_wireValue: "jget k (JObj (wireValue k' v @ fs)) = (if k = k' \<and> v \<noteq> None then v else jget k (JObj fs))"
  by (cases v) (auto simp: wireValue_def)

lemmas jget_opt = jget_wireField jget_wireValue jget_wireValue [where fs = "[]", simplified]

lemma jget_base:
  "jget ''seq'' (JObj (record_base seq kind turnId t @ fs)) = Some (JNum (Fin (of_int seq)))"
  "jget ''kind'' (JObj (record_base seq kind turnId t @ fs)) = Some (JStr kind)"
  "jget ''turnId'' (JObj (record_base seq kind turnId t @ fs)) = Some (JStr turnId)"
  "jget ''createdAtMs'' (JObj (record_base seq kind turnId t @ fs)) = Some (JNum (Fin (of_int t)))"
  "k \<notin> {''seq'', ''kind'', ''turnId'', ''createdAtMs''} \<Longrightarrow> jget k (JObj (record_base seq kind turnId t @ fs)) = jget k (JObj fs)"
  by (auto simp: record_base_def)

lemma field_simps: "str (Some (JStr s)) = Some s" "num (Some (JNum (Fin x))) = Some x" "str (map_option JStr v) = v" "str None = None"
  "nonempty None = None"
  by (cases v; simp add: str_def jstring_def num_def nonempty_def)+

text \<open>
  C28: The client places every row of the journal. A row that is sent decodes to a record with its sequence number
  and its turn, whatever it holds; a message with a known role, a turn with a known phase and a card that the
  client knows come back with their contents, and anything else becomes a placeholder in the sequence.
\<close>

theorem decode_encode_record:
  assumes "0 \<le> rec_seq r" and "safe_integer (rec_seq r)"
  shows "\<exists>c. decodeSequencedJournalEntry (encodeRecord r) = Some c \<and> cr_seq c = rec_seq r \<and> cr_turnId c = rec_turnId r \<and>
    (case r of
       RecMessage seq turnId t role hidden streamId clientMsgId payload \<Rightarrow>
         c = (if role \<in> set MESSAGE_ROLES \<and> asRecord (Some payload) \<noteq> None
              then CMessage seq turnId (of_int t) role hidden (nonempty clientMsgId) payload
              else CSkipped seq turnId (of_int t) (Some ''message''))
     | RecTurn seq turnId t phase lane source notice promptSeq wallClockMs \<Rightarrow>
         c = (if phase \<in> set TURN_PHASES
              then CTurn seq turnId (of_int t) phase (nonempty lane) (nonempty source) (nonempty notice) (num wallClockMs)
              else CSkipped seq turnId (of_int t) (Some ''turn''))
     | RecCard seq turnId t content \<Rightarrow>
         c = (case decodeCard (Some content) of
                Some d \<Rightarrow> CCard seq turnId (of_int t) d
              | None \<Rightarrow> CSkipped seq turnId (of_int t) (Some ''card'')))"
proof (cases r)
  case (RecMessage seq turnId t role hidden streamId clientMsgId payload)
  have p: "asRecord (Some payload) = Some payload \<or> asRecord (Some payload) = None" by (cases payload) (simp_all add: asRecord_def)
  show ?thesis
    using assms p unfolding RecMessage
    by (auto simp: decodeSequencedJournalEntry_def decodeRecord_def Let_def jget_base jget_opt seqNum_int field_simps
        nonempty_def)
next
  case (RecTurn seq turnId t phase lane source notice promptSeq wallClockMs)
  show ?thesis
    using assms unfolding RecTurn
    by (auto simp: decodeSequencedJournalEntry_def decodeRecord_def Let_def jget_base jget_opt seqNum_int field_simps
        nonempty_def)
next
  case (RecCard seq turnId t content)
  show ?thesis
    using assms unfolding RecCard
    by (auto simp: decodeSequencedJournalEntry_def decodeRecord_def Let_def jget_base seqNum_int field_simps
        nonempty_def split: option.splits)
qed

theorem decode_encode_record_witness:
  "decodeSequencedJournalEntry (encodeRecord (RecCard 4 ''t'' 9 (JObj [(''type'', JStr ''agent-report'')]))) =
     Some (CSkipped 4 ''t'' 9 (Some ''card''))"
proof -
  have "decodeCard (Some (JObj [(''type'', JStr ''agent-report'')])) = None" by (simp add: decodeCard_def asRecord_def str_def jstring_def)
  then show ?thesis
    using decode_encode_record [of "RecCard 4 ''t'' 9 (JObj [(''type'', JStr ''agent-report'')])"] by (simp add: safe_integer_def)
qed

subsection \<open>Frames\<close>

record live_snapshot =
  ls_turnId :: string
  ls_tools :: "(string \<times> string option) list"

record ready =
  rd_conversationId :: string
  rd_epoch :: int
  rd_headSeq :: int
  rd_windowStartSeq :: int
  rd_floorSeq :: int
  rd_title :: string
  rd_activity :: string
  rd_authExpiresAtMs :: ms
  rd_serverTimeMs :: ms
  rd_live :: "live_snapshot option"
  rd_agents :: "json list"

record tool_frame =
  tf_turnId :: string
  tf_name :: string
  tf_label :: "string option"
  tf_phase :: string

text \<open>The frames of a server, over the records that they carry: the hub's rows or the client's decoded ones.\<close>

datatype 'r server_frame =
    FReady ready
  | FRecord 'r
  | FBackfill string int int bool "'r list"
  | FGap int int
  | FReset string
  | FTool tool_frame
  | FAgents "json list" ms
  | FAuthExpiring ms
  | FError string string bool

definition client_of :: "journal_record \<Rightarrow> client_record" where
  "client_of r = the (decodeSequencedJournalEntry (encodeRecord r))"

lemma client_seq: "0 \<le> rec_seq r \<Longrightarrow> safe_integer (rec_seq r) \<Longrightarrow> cr_seq (client_of r) = rec_seq r"
  unfolding client_of_def
  by (cases r) (auto simp: decodeSequencedJournalEntry_def decodeRecord_def Let_def jget_base jget_opt seqNum_int field_simps
      split: option.splits)

end
