(* ===== verification/Conversation_Hub.thy ===== *)
theory Conversation_Hub
  imports Archive_Read Conversation_Protocol
begin

text \<open>
  What the hub answers on a conversation socket: the frames of a connect (\<open>openingWindow\<close> and the part of \<open>upgrade\<close>
  that sends them) and of a request for history (\<open>handleBackfill\<close>), from
  \<open>workers/cloud-builder/src/conversation-hub.ts\<close>.

  A connect reads the head of the journal, awaits the hash of the owner, reads the window, which may await archived
  objects, and then sends everything at once: the journal at each of these three moments is an argument. The size
  of a record on the wire is a parameter.
\<close>

subsection \<open>History requests\<close>

fun capFrame :: "(journal_record \<Rightarrow> int) \<Rightarrow> bool \<Rightarrow> int \<Rightarrow> journal_record list \<Rightarrow> journal_record list \<times> bool" where
  "capFrame sizeOf some bytes [] = ([], False)"
| "capFrame sizeOf some bytes (r # rs) =
     (if some \<and> bytes + sizeOf r > BACKFILL_BATCH_BYTES then ([], True)
      else let (records, truncated) = capFrame sizeOf True (bytes + sizeOf r) rs in (r # records, truncated))"

text \<open>The request as it parses: \<open>None\<close> for a number that is not an integer.\<close>

definition handleBackfill ::
  "(journal_record \<Rightarrow> int) \<Rightarrow> string \<Rightarrow> int option \<Rightarrow> int option \<Rightarrow> journal \<Rightarrow> (string \<times> journal_row list) list \<Rightarrow> journal \<Rightarrow>
   nat + journal_record server_frame list" where
  "handleBackfill sizeOf rawId rawFrom rawTo j bucket j' =
     (let requestId = take 64 rawId in
      case (rawFrom, rawTo) of
        (Some fromRaw, Some toRaw) \<Rightarrow>
          if requestId = [] then Inl CLOSE_BAD_REQUEST
          else
            let h = headOf j; from0 = max 0 fromRaw; to = min toRaw (hd_headSeq h) in
            if from0 > to then Inr [FBackfill requestId from0 to True []]
            else
              let gap = (if from0 < hd_floorSeq h then [FGap from0 (min to (hd_floorSeq h - 1))] else []);
                  from = (if from0 < hd_floorSeq h then hd_floorSeq h else from0)
              in if from > to then Inr (gap @ [FBackfill requestId from to True []])
                 else
                   let range = readRange from to (int BACKFILL_BATCH_RECORDS) j bucket j';
                       missing = (case rg_missingBelowSeq range of
                                    Some m \<Rightarrow> if m > from then [FGap from (m - 1)] else [] | None \<Rightarrow> []);
                       (records, truncated) = capFrame sizeOf False 0 (rg_records range);
                       lastSeq = (if records = [] then to else rec_seq (last records))
                   in Inr (gap @ missing @ [FBackfill requestId from lastSeq (rg_complete range \<and> \<not> truncated) records])
      | _ \<Rightarrow> Inl CLOSE_BAD_REQUEST)"

subsection \<open>Connecting\<close>

record opening_window =
  og_records :: "journal_record list"
  og_reset :: "string option"
  og_gap :: "(int \<times> int) option"

text \<open>
  The cursor as it parses: \<open>since\<close> is \<open>None\<close> when it is absent or not an integer of at least \<open>-1\<close>, \<open>epoch\<close> when it is
  absent.
\<close>

definition openingWindow ::
  "journal_head \<Rightarrow> int option \<Rightarrow> int option \<Rightarrow> journal \<Rightarrow> (string \<times> journal_row list) list \<Rightarrow> journal \<Rightarrow> opening_window" where
  "openingWindow h since epoch j bucket j' =
     (let fresh = (\<lambda>reset. \<lparr>og_records = newest (nat INITIAL_WINDOW_RECORDS) j, og_reset = reset, og_gap = None\<rparr>) in
      case since of
        None \<Rightarrow> fresh None
      | Some s \<Rightarrow>
          if s < -1 then fresh None
          else if epoch \<noteq> None \<and> epoch \<noteq> Some (hd_epoch h) then fresh (Some ''epoch'')
          else if s > hd_headSeq h then fresh (Some ''epoch'')
          else if s + 1 < hd_floorSeq h then fresh (Some ''window'')
          else if hd_headSeq h - s > MAX_CATCHUP_RESUME_RECORDS then fresh (Some ''window'')
          else if s \<ge> hd_headSeq h then \<lparr>og_records = [], og_reset = None, og_gap = None\<rparr>
          else
            let range = readRange (s + 1) (hd_headSeq h) MAX_RESUME_RECORDS j bucket j' in
            \<lparr>og_records = rg_records range, og_reset = None,
             og_gap = (case rg_missingBelowSeq range of
                         Some m \<Rightarrow> if m > s + 1 then Some (s + 1, m - 1) else None | None \<Rightarrow> None)\<rparr>)"

text \<open>Rows that were committed while the window was read, as far as they extend it without a hole.\<close>

fun topUp :: "int \<Rightarrow> journal_record list \<Rightarrow> journal_record list" where
  "topUp delivered [] = []"
| "topUp delivered (r # rs) =
     (if rec_seq r \<le> delivered then topUp delivered rs
      else if rec_seq r \<noteq> delivered + 1 then []
      else r # topUp (rec_seq r) rs)"

definition upgradeFrames ::
  "ready \<Rightarrow> journal_head \<Rightarrow> int option \<Rightarrow> int option \<Rightarrow> journal \<Rightarrow> (string \<times> journal_row list) list \<Rightarrow> journal \<Rightarrow>
   journal_record server_frame list" where
  "upgradeFrames base h since epoch j bucket j' =
     (let window = openingWindow h since epoch j bucket j';
          fresh = headOf j';
          delivered = (if og_records window = [] then -1 else rec_seq (last (og_records window)));
          records = og_records window @
            (if delivered \<ge> 0 \<and> hd_headSeq fresh > delivered
             then topUp delivered (newest (nat INITIAL_WINDOW_RECORDS) j') else [])
      in [FReady (base\<lparr>rd_epoch := hd_epoch fresh, rd_headSeq := hd_headSeq fresh,
            rd_windowStartSeq := (if records = [] then hd_headSeq fresh + 1 else rec_seq (hd records)),
            rd_floorSeq := hd_floorSeq fresh, rd_title := hd_title fresh\<rparr>)] @
         (case og_reset window of Some reason \<Rightarrow> [FReset reason] | None \<Rightarrow> []) @
         (case og_gap window of Some (a, b) \<Rightarrow> [FGap a b] | None \<Rightarrow> []) @
         map FRecord records)"

subsection \<open>Pages of history\<close>

lemma capFrame_prefix:
  assumes "capFrame sizeOf some bytes rs = (records, truncated)"
  shows "(\<exists>rest. rs = records @ rest \<and> (truncated \<longleftrightarrow> rest \<noteq> [])) \<and> (rs \<noteq> [] \<and> \<not> some \<longrightarrow> records \<noteq> [])"
  using assms
proof (induction sizeOf some bytes rs arbitrary: records truncated rule: capFrame.induct)
  case (2 sizeOf some bytes r rs)
  show ?case
  proof (cases "some \<and> bytes + sizeOf r > BACKFILL_BATCH_BYTES")
    case True
    then show ?thesis using 2(2) by auto
  next
    case False
    obtain recs t where c: "capFrame sizeOf True (bytes + sizeOf r) rs = (recs, t)" by fastforce
    then show ?thesis using 2(1) [OF False c] 2(2) False by auto
  qed
qed auto

lemma floor_zero:
  assumes h: "holds_log a cs pend L"
  shows "hd_floorSeq (headOf (av_journal a)) = 0"
proof (cases cs)
  case Nil
  then show ?thesis
    using committed_eq [OF h] holds_logD(5) [OF h] by (simp add: headOf_def Let_def)
next
  case (Cons s ss)
  have "sql_min (map sg_firstSeq (s # ss)) = Some 0"
  proof -
    have t: "sg_firstSeq s = 0" "tiles (sg_lastSeq s + 1) ss (mt_hotMinSeq (meta (av_journal a)))" "0 \<le> sg_lastSeq s"
      using holds_logD(5) [OF h] Cons by auto
    have "\<forall>m. sql_min (map sg_firstSeq ss) = Some m \<longrightarrow> 0 \<le> m"
    proof (intro allI impI)
      fix m assume "sql_min (map sg_firstSeq ss) = Some m"
      moreover have "sql_min xs = Some m \<Longrightarrow> m \<in> set xs" for xs m
        by (induction xs arbitrary: m) (auto split: option.splits if_splits simp: min_def)
      ultimately have "m \<in> sg_firstSeq ` set ss" by fastforce
      then show "0 \<le> m" using tiles_bounds(2) [OF t(2)] t(3) by fastforce
    qed
    then show ?thesis using t(1) by (auto split: option.splits)
  qed
  then show ?thesis using committed_eq [OF h] Cons by (simp add: headOf_def Let_def)
qed

lemma read_range_log:
  assumes h: "holds_log a cs pend L" and "0 \<le> x" "x \<le> y" "y < mt_nextSeq (meta (av_journal a))" and "0 < limit"
  defines "r \<equiv> readRange x y limit (av_journal a) (av_bucket a) (av_journal a)"
  shows "map rec_seq (rg_records r) = [x..x + int (length (rg_records r)) - 1]" "rg_records r \<noteq> []"
    "x + int (length (rg_records r)) - 1 \<le> y" "rg_missingBelowSeq r = None"
    "rg_complete r \<longleftrightarrow> x + int (length (rg_records r)) - 1 = y" "set (rg_records r) \<subseteq> rowToRecord ` archive_rows a"
  using read_range_page [OF h assms(5), of x y] assms(2-4) unfolding page_ends_def page_def r_def [symmetric] by auto

text \<open>
  The answer to a request for history is one frame with a page of it: the records from the first one that was
  asked for, without a gap and with at least one of them, its end named by the frame, and \<open>complete\<close> exactly when it
  reaches the last record of the range that the journal has. No gap is reported, since nothing is ever missing.
\<close>

lemma page_of_hub:
  assumes "serial_run e (new_archive p) a" and "0 \<le> x" "x \<le> y" "y < mt_nextSeq (meta (av_journal a))" and "requestId \<noteq> []"
  shows "\<exists>z records. handleBackfill sizeOf requestId (Some x) (Some y) (av_journal a) (av_bucket a) (av_journal a) =
      Inr [FBackfill (take 64 requestId) x z (z = y) records] \<and>
    x \<le> z \<and> z \<le> y \<and> map rec_seq records = [x..z] \<and>
    set records \<subseteq> rowToRecord ` {row. row_key row \<in> set (archive_log a)}"
proof -
  obtain L where "archive_ok a L" using ok_run [OF assms(1) ok_new] by auto
  then obtain cs pend where h: "holds_log a cs pend L" by (auto simp: archive_ok_def)
  define r where "r = readRange x y (int BACKFILL_BATCH_RECORDS) (av_journal a) (av_bucket a) (av_journal a)"
  have lim: "0 < int BACKFILL_BATCH_RECORDS" by (simp add: BACKFILL_BATCH_RECORDS_def)
  note rr = read_range_log [OF h assms(2-4) lim, folded r_def]
  obtain records truncated where c: "capFrame sizeOf False 0 (rg_records r) = (records, truncated)" by fastforce
  obtain rest where rest: "rg_records r = records @ rest" "truncated \<longleftrightarrow> rest \<noteq> []" "records \<noteq> []"
    using capFrame_prefix [OF c] rr(2) by blast
  have seqs: "map rec_seq records = [x..x + int (length records) - 1]"
  proof -
    have "map rec_seq records = take (length records) (map rec_seq (rg_records r))" using rest(1) by simp
    also have "\<dots> = [x..min (x + int (length (rg_records r)) - 1) (x + int (length records) - 1)]" unfolding rr(1) by (rule upto_take)
    finally show ?thesis using rest(1) by (simp add: min_def)
  qed
  define z where "z = x + int (length records) - 1"
  have "rec_seq (last records) = last (map rec_seq records)" using rest(3) by (simp add: last_map)
  also have "\<dots> = z" unfolding seqs z_def using rest(3) by (cases records) (simp_all add: upto_rec2)
  finally have last: "rec_seq (last records) = z" .
  have z: "x \<le> z" "z \<le> y" using rest rr(3) by (cases records; simp add: z_def)+
  have "int (length (rg_records r)) = int (length records) + int (length rest)" using rest(1) by simp
  moreover have "rest = [] \<longleftrightarrow> int (length rest) = 0" by simp
  ultimately have "rg_complete r \<and> \<not> truncated \<longleftrightarrow> z = y" unfolding rr(5) rest(2) z_def using rr(3) by linarith
  moreover have "hd_headSeq (headOf (av_journal a)) = mt_nextSeq (meta (av_journal a)) - 1"
    by (simp add: headOf_def Let_def)
  ultimately have "handleBackfill sizeOf requestId (Some x) (Some y) (av_journal a) (av_bucket a) (av_journal a) =
      Inr [FBackfill (take 64 requestId) x z (z = y) records]"
    using assms(2-5) floor_zero [OF h] c rr(4) last rest(3)
    by (simp add: handleBackfill_def Let_def r_def [symmetric] min_absorb1)
  moreover have "rowToRecord ` archive_rows a \<subseteq> rowToRecord ` {row. row_key row \<in> set (archive_log a)}"
    using archive_rows_log by blast
  then have "set records \<subseteq> rowToRecord ` {row. row_key row \<in> set (archive_log a)}" using rr(6) rest(1) by auto
  ultimately show ?thesis using z seqs by (intro exI [of _ z] exI [of _ records]) (simp add: z_def)
qed

definition unit_size :: "journal_record \<Rightarrow> int" where "unit_size r = 300000"

end
