(* ===== verification/Conversation_Socket.thy ===== *)
theory Conversation_Socket
  imports Conversation_Protocol
begin

text \<open>
  The client's side of a conversation socket: \<open>packages/contracts/conversation-socket.ts\<close>.

  The socket turns the frames of a connection that may break into a stream of records. Its state is that of the
  class without the timers and the token: a timer may fire at any time, as an input of its own. What
  a handler tells the view and what it sends are lists that the state collects, oldest first. The time is an
  argument where the code reads the clock. The texts for the user are named and not spelled out.
\<close>

subsection \<open>State\<close>

datatype socket_status = StIdle | StConnecting | StLive | StOffline | StBlocked

datatype notice = CloseText nat | WaitingForSession | SignInAgain | HistoryLost | ServerText string

datatype socket_event =
    EvReady ready
  | EvRecords "client_record list"
  | EvOlder "client_record list" bool int int
  | EvReset string
  | EvGap int int
  | EvTool tool_frame
  | EvAgents "json list" ms
  | EvStatus socket_status "notice option" bool

datatype client_frame = SBackfill string int int | SCancel string | SAuth string | SPing

datatype connection = NoSocket | SocketConnecting | SocketOpen

text \<open>What a connect got: no usable token, a constructor that threw, or a socket.\<close>

datatype token_answer = NoToken | SocketRefused | SocketMade

record older_request =
  or_fromSeq :: int
  or_toSeq :: int
  or_nextSeq :: int
  or_records :: "client_record list"

record socket =
  cs_socket :: connection
  cs_connecting :: bool
  cs_stopped :: bool
  cs_status :: socket_status
  cs_attempt :: nat
  cs_liveSinceMs :: ms
  cs_lastFrameAtMs :: ms
  cs_authRetryUsed :: bool
  cs_reauthInFlight :: bool
  cs_lastSeq :: int
  cs_epoch :: "int option"
  cs_headSeq :: int
  cs_windowStartSeq :: int
  cs_floorSeq :: int
  cs_ahead :: "client_record list"
  cs_gapPending :: bool
  cs_noProgress :: nat
  cs_requestCounter :: nat
  cs_older :: "(string \<times> older_request) list"
  cs_tokens :: rat
  cs_refilledAt :: ms
  cs_events :: "socket_event list"
  cs_sent :: "client_frame list"

definition MAX_NO_PROGRESS_BACKFILLS :: nat where "MAX_NO_PROGRESS_BACKFILLS = 3"
definition SOCKET_STALE_MS :: ms where "SOCKET_STALE_MS = 90000"
definition BACKOFF_RESET_MS :: ms where "BACKOFF_RESET_MS = 30000"
definition CLOSE_UNAUTHENTICATED :: nat where "CLOSE_UNAUTHENTICATED = 4401"
definition CLOSE_PROTOCOL_VERSION :: nat where "CLOSE_PROTOCOL_VERSION = 4409"

record socket_cursor =
  sc_epoch :: int
  sc_lastSeq :: int
  sc_headSeq :: int
  sc_floorSeq :: int
  sc_windowStartSeq :: int

definition cursor_ok :: "socket_cursor \<Rightarrow> bool" where
  "cursor_ok c \<longleftrightarrow>
     safe_integer (sc_epoch c) \<and> sc_epoch c \<ge> 0 \<and> safe_integer (sc_lastSeq c) \<and> sc_lastSeq c \<ge> -1 \<and>
     safe_integer (sc_headSeq c) \<and> sc_headSeq c = sc_lastSeq c \<and> safe_integer (sc_floorSeq c) \<and> sc_floorSeq c \<ge> 0 \<and>
     safe_integer (sc_windowStartSeq c) \<and> sc_windowStartSeq c \<ge> sc_floorSeq c \<and>
     (sc_lastSeq c < 0 \<or> sc_windowStartSeq c \<le> sc_lastSeq c)"

definition new_socket :: "ms \<Rightarrow> socket_cursor option \<Rightarrow> socket" where
  "new_socket now initialCursor =
     (let s = \<lparr>cs_socket = NoSocket, cs_connecting = False, cs_stopped = True, cs_status = StIdle, cs_attempt = 0,
               cs_liveSinceMs = 0, cs_lastFrameAtMs = 0, cs_authRetryUsed = False, cs_reauthInFlight = False, cs_lastSeq = -1, cs_epoch = None, cs_headSeq = -1,
               cs_windowStartSeq = 0, cs_floorSeq = 0, cs_ahead = [], cs_gapPending = False, cs_noProgress = 0,
               cs_requestCounter = 0, cs_older = [], cs_tokens = RATE_BACKFILL_PER_MIN, cs_refilledAt = now,
               cs_events = [], cs_sent = []\<rparr>
      in case initialCursor of
           None \<Rightarrow> s
         | Some c \<Rightarrow>
             if cursor_ok c
             then s\<lparr>cs_epoch := Some (sc_epoch c), cs_lastSeq := sc_lastSeq c, cs_headSeq := sc_headSeq c,
                    cs_floorSeq := sc_floorSeq c, cs_windowStartSeq := sc_windowStartSeq c\<rparr>
             else s)"

subsection \<open>Sending\<close>

definition token_char :: "char \<Rightarrow> bool" where
  "token_char c \<longleftrightarrow>
     (let n = (of_char c :: nat) in (65 \<le> n \<and> n \<le> 90) \<or> (97 \<le> n \<and> n \<le> 122) \<or> (48 \<le> n \<and> n \<le> 57)) \<or>
     c \<in> set ''!#$%&*+-.^_`|~'' \<or> c = CHR 0x27"

definition isSubprotocolSafe :: "string \<Rightarrow> bool" where
  "isSubprotocolSafe token \<longleftrightarrow> token \<noteq> [] \<and> list_all token_char token"

definition emit :: "socket_event \<Rightarrow> socket \<Rightarrow> socket" where
  "emit e s = s\<lparr>cs_events := cs_events s @ [e]\<rparr>"

definition setStatus :: "socket_status \<Rightarrow> notice option \<Rightarrow> bool \<Rightarrow> socket \<Rightarrow> socket" where
  "setStatus status message retryable s =
     (if cs_status s = status \<and> status \<noteq> StBlocked \<and> message = None then s
      else emit (EvStatus status (if message = Some (ServerText []) then None else message) retryable) (s\<lparr>cs_status := status\<rparr>))"

definition send :: "client_frame \<Rightarrow> socket \<Rightarrow> bool \<times> socket" where
  "send f s = (if cs_socket s = SocketOpen then (True, s\<lparr>cs_sent := cs_sent s @ [f]\<rparr>) else (False, s))"

definition refill :: "ms \<Rightarrow> socket \<Rightarrow> socket" where
  "refill now s =
     (let gained = of_int (now - cs_refilledAt s) / 60000 * RATE_BACKFILL_PER_MIN in
      if gained \<ge> 1 then s\<lparr>cs_tokens := min RATE_BACKFILL_PER_MIN (cs_tokens s + gained), cs_refilledAt := now\<rparr> else s)"

definition takeBudget :: "ms \<Rightarrow> rat \<Rightarrow> socket \<Rightarrow> bool \<times> socket" where
  "takeBudget now reserve s =
     (let s1 = refill now s in
      if cs_tokens s1 < 1 + reserve then (False, s1) else (True, s1\<lparr>cs_tokens := cs_tokens s1 - 1\<rparr>))"

text \<open>A request id is a prefix and a counter in decimal.\<close>

fun digits :: "nat \<Rightarrow> string" where
  "digits n = (if n < 10 then [char_of (n + 48)] else digits (n div 10) @ [char_of (n mod 10 + 48)])"

declare digits.simps [simp del]

definition nextRequestId :: "string \<Rightarrow> socket \<Rightarrow> string \<times> socket" where
  "nextRequestId p s = (p @ digits (cs_requestCounter s + 1), s\<lparr>cs_requestCounter := cs_requestCounter s + 1\<rparr>)"

subsection \<open>Connecting\<close>

text \<open>A connect up to its request for a token, and what it does with the answer.\<close>

definition connect :: "socket \<Rightarrow> socket" where
  "connect s =
     (if cs_stopped s \<or> cs_connecting s then s else setStatus StConnecting None True (s\<lparr>cs_connecting := True\<rparr>))"

definition scheduleReconnect :: "notice option \<Rightarrow> socket \<Rightarrow> socket" where
  "scheduleReconnect message s =
     (if cs_stopped s then s
      else let s1 = setStatus StOffline message True s in s1\<lparr>cs_attempt := cs_attempt s1 + 1\<rparr>)"

definition tokenArrived :: "ms \<Rightarrow> token_answer \<Rightarrow> socket \<Rightarrow> socket" where
  "tokenArrived now answer s =
     (if \<not> cs_connecting s then s
      else if cs_stopped s then s\<lparr>cs_connecting := False\<rparr>
      else case answer of
             NoToken \<Rightarrow> scheduleReconnect (Some WaitingForSession) (s\<lparr>cs_connecting := False\<rparr>)
           | SocketRefused \<Rightarrow> scheduleReconnect None (s\<lparr>cs_connecting := False\<rparr>)
           | SocketMade \<Rightarrow> s\<lparr>cs_connecting := False, cs_socket := SocketConnecting, cs_lastFrameAtMs := now\<rparr>)"

definition start :: "socket \<Rightarrow> socket" where
  "start s = (if \<not> cs_stopped s then s else connect (s\<lparr>cs_stopped := False, cs_attempt := 0\<rparr>))"

definition stop :: "socket \<Rightarrow> socket" where
  "stop s = setStatus StIdle None True (s\<lparr>cs_stopped := True, cs_socket := NoSocket\<rparr>)"

definition retryNow :: "socket \<Rightarrow> socket" where
  "retryNow s =
     (let s1 = s\<lparr>cs_attempt := 0, cs_authRetryUsed := False, cs_noProgress := 0\<rparr> in
      if cs_stopped s1 then start s1
      else if cs_connecting s1 \<or> cs_socket s1 \<noteq> NoSocket then s1
      else connect s1)"

definition forceReconnect :: "socket \<Rightarrow> socket" where
  "forceReconnect s = (let s1 = s\<lparr>cs_socket := NoSocket\<rparr> in if cs_stopped s1 then s1 else connect s1)"

text \<open>The nudge of the environment, and the timer that ends the probe it may start.\<close>

definition wake :: "ms \<Rightarrow> socket \<Rightarrow> socket" where
  "wake now s =
     (if cs_stopped s \<or> cs_connecting s \<or> cs_socket s = SocketConnecting then s
      else if cs_socket s \<noteq> SocketOpen then connect (s\<lparr>cs_attempt := 0\<rparr>)
      else if now - cs_lastFrameAtMs s < SOCKET_STALE_MS then s
      else snd (send SPing s))"

definition probeTimeout :: "ms \<Rightarrow> socket \<Rightarrow> socket" where
  "probeTimeout probedAt s = (if cs_lastFrameAtMs s = probedAt then forceReconnect s else s)"

text \<open>A new token is asked for once at a time and sent when it came.\<close>

definition reauthenticate :: "socket \<Rightarrow> socket" where
  "reauthenticate s = s\<lparr>cs_reauthInFlight := True\<rparr>"

definition reauthArrived :: "string option \<Rightarrow> socket \<Rightarrow> socket" where
  "reauthArrived token s =
     (let s1 = (case token of
                  None \<Rightarrow> s
                | Some t \<Rightarrow> if isSubprotocolSafe t then snd (send (SAuth t) s) else s)
      in s1\<lparr>cs_reauthInFlight := False\<rparr>)"

definition handleClose :: "nat \<Rightarrow> ms \<Rightarrow> socket \<Rightarrow> socket" where
  "handleClose code now s =
     (let s1 = s\<lparr>cs_socket := NoSocket, cs_gapPending := False, cs_noProgress := 0, cs_ahead := [], cs_older := []\<rparr>;
          s2 = (if now - cs_liveSinceMs s1 > BACKOFF_RESET_MS \<and> cs_liveSinceMs s1 \<noteq> 0 then s1\<lparr>cs_attempt := 0\<rparr> else s1);
          s3 = s2\<lparr>cs_liveSinceMs := 0\<rparr>;
          message = (if code = 1000 then None else Some (CloseText code))
      in if code \<in> set TERMINAL_CLOSE_CODES
         then setStatus StBlocked (Some (CloseText code)) (code = CLOSE_PROTOCOL_VERSION) (s3\<lparr>cs_stopped := True\<rparr>)
         else if code = CLOSE_UNAUTHENTICATED then
           if cs_authRetryUsed s3 then setStatus StBlocked (Some SignInAgain) True (s3\<lparr>cs_stopped := True\<rparr>)
           else scheduleReconnect message (s3\<lparr>cs_authRetryUsed := True, cs_attempt := max (cs_attempt s3) 1\<rparr>)
         else scheduleReconnect message s3)"

subsection \<open>The stream\<close>

definition resetStream :: "string \<Rightarrow> socket \<Rightarrow> socket" where
  "resetStream reason s =
     emit (EvReset reason) (s\<lparr>cs_lastSeq := -1, cs_ahead := [], cs_gapPending := False, cs_noProgress := 0, cs_older := []\<rparr>)"

definition requestGap :: "ms \<Rightarrow> int \<Rightarrow> socket \<Rightarrow> bool \<times> socket" where
  "requestGap now throughSeq s =
     (if cs_gapPending s then (True, s)
      else
        let fromSeq = cs_lastSeq s + 1; toSeq = min throughSeq (fromSeq + MAX_RESUME_RECORDS - 1) in
        if toSeq < fromSeq then (True, s)
        else
          let (ok, s1) = takeBudget now 0 s in
          if \<not> ok then (False, s1)
          else
            let (requestId, s2) = nextRequestId ''g'' s1; (sent, s3) = send (SBackfill requestId fromSeq toSeq) s2 in
            if sent then (True, s3\<lparr>cs_gapPending := True\<rparr>) else (False, s3))"

text \<open>Records that arrived early are kept by their sequence number.\<close>

function drainAhead :: "client_record list \<Rightarrow> socket \<Rightarrow> client_record list \<times> socket" where
  "drainAhead applied s =
     (case find (\<lambda>r. cr_seq r = cs_lastSeq s + 1) (cs_ahead s) of
        None \<Rightarrow> (applied, s)
      | Some r \<Rightarrow>
          drainAhead (applied @ [r])
            (s\<lparr>cs_ahead := filter (\<lambda>x. cr_seq x \<noteq> cr_seq r) (cs_ahead s), cs_lastSeq := cr_seq r\<rparr>))"
  by pat_completeness auto
termination
proof (relation "measure (\<lambda>(applied, s). length (cs_ahead s))")
  fix applied s r assume "find (\<lambda>r. cr_seq r = cs_lastSeq s + 1) (cs_ahead s) = Some r"
  then have "r \<in> set (cs_ahead s)" by (auto simp: find_Some_iff)
  then have "length (filter (\<lambda>x. cr_seq x \<noteq> cr_seq r) (cs_ahead s)) < length (cs_ahead s)" by (intro length_filter_less) auto
  then show "((applied @ [r], s\<lparr>cs_ahead := filter (\<lambda>x. cr_seq x \<noteq> cr_seq r) (cs_ahead s), cs_lastSeq := cr_seq r\<rparr>), applied, s)
      \<in> measure (\<lambda>(applied, s). length (cs_ahead s))" by simp
qed simp

declare drainAhead.simps [simp del]

definition collect :: "ms \<Rightarrow> client_record \<Rightarrow> client_record list \<times> socket \<Rightarrow> client_record list \<times> socket" where
  "collect now record x =
     (let (applied, s) = x; s0 = (if cs_lastSeq s < 0 then s\<lparr>cs_lastSeq := cs_windowStartSeq s - 1\<rparr> else s) in
      if cr_seq record \<le> cs_lastSeq s0 then (applied, s0)
      else if cr_seq record > cs_lastSeq s0 + 1 then
        if length (cs_ahead s0) \<ge> MAX_BUFFERED_AHEAD
        then (applied, forceReconnect (resetStream ''window'' s0))
        else (applied, snd (requestGap now (cr_seq record - 1)
               (s0\<lparr>cs_ahead := filter (\<lambda>r. cr_seq r \<noteq> cr_seq record) (cs_ahead s0) @ [record]\<rparr>)))
      else drainAhead (applied @ [record]) (s0\<lparr>cs_lastSeq := cr_seq record\<rparr>))"

definition flush :: "client_record list \<times> socket \<Rightarrow> socket" where
  "flush x =
     (let (applied, s) = x in
      if applied = [] then s else emit (EvRecords applied) (s\<lparr>cs_headSeq := max (cs_headSeq s) (cs_lastSeq s)\<rparr>))"

definition applyRecord :: "ms \<Rightarrow> client_record \<Rightarrow> socket \<Rightarrow> socket" where
  "applyRecord now record s = flush (collect now record ([], s))"

definition failGapRecovery :: "socket \<Rightarrow> socket" where
  "failGapRecovery s =
     setStatus StBlocked (Some HistoryLost) True (s\<lparr>cs_socket := NoSocket, cs_stopped := True, cs_gapPending := False\<rparr>)"

definition handleReady :: "ms \<Rightarrow> ready \<Rightarrow> socket \<Rightarrow> socket" where
  "handleReady now ready s =
     (let s1 = s\<lparr>cs_liveSinceMs := now, cs_authRetryUsed := False, cs_reauthInFlight := False, cs_headSeq := rd_headSeq ready,
                 cs_windowStartSeq := rd_windowStartSeq ready, cs_floorSeq := rd_floorSeq ready\<rparr>;
          epochChanged = (cs_epoch s1 \<noteq> None \<and> cs_epoch s1 \<noteq> Some (rd_epoch ready));
          unbridgeable = (cs_lastSeq s1 \<ge> 0 \<and> rd_windowStartSeq ready > cs_lastSeq s1 + 1);
          s2 = s1\<lparr>cs_epoch := Some (rd_epoch ready)\<rparr>;
          s3 = (if epochChanged \<or> unbridgeable then resetStream (if epochChanged then ''epoch'' else ''window'') s2 else s2)
      in if cs_lastSeq s3 \<ge> 0 \<and> rd_headSeq ready - cs_lastSeq s3 > MAX_CATCHUP_RESUME_RECORDS
         then forceReconnect (resetStream ''window'' s3)
         else setStatus StLive None True (emit (EvReady ready) s3))"

text \<open>The timer that asks for records which \<open>ready\<close> promised and which did not come.\<close>

definition resumeGrace :: "ms \<Rightarrow> socket \<Rightarrow> socket" where
  "resumeGrace now s =
     (if cs_headSeq s < 0 \<or> cs_lastSeq s \<ge> cs_headSeq s \<or> cs_gapPending s then s
      else
        let fromSeq = (if cs_lastSeq s \<ge> 0 then cs_lastSeq s + 1
                       else max (cs_floorSeq s) (cs_headSeq s - INITIAL_WINDOW_RECORDS + 1));
            toSeq = min (cs_headSeq s) (fromSeq + MAX_RESUME_RECORDS - 1)
        in if toSeq < fromSeq then s
           else
             let (ok, s1) = takeBudget now 0 s in
             if \<not> ok then s1
             else let (requestId, s2) = nextRequestId ''g'' (s1\<lparr>cs_gapPending := True\<rparr>)
                  in snd (send (SBackfill requestId fromSeq toSeq) s2))"

subsection \<open>Scrollback\<close>

definition requestOlderRange :: "ms \<Rightarrow> int \<Rightarrow> int \<Rightarrow> socket \<Rightarrow> bool \<times> socket" where
  "requestOlderRange now fromSeq toSeq s =
     (if fromSeq > toSeq \<or> fromSeq < cs_floorSeq s then (False, s)
      else
        let (ok, s1) = takeBudget now 4 s in
        if \<not> ok then (False, s1)
        else
          let (requestId, s2) = nextRequestId ''o'' s1; (sent, s3) = send (SBackfill requestId fromSeq toSeq) s2 in
          if \<not> sent then (False, s3)
          else (True, s3\<lparr>cs_older := cs_older s3 @
                 [(requestId, \<lparr>or_fromSeq = fromSeq, or_toSeq = toSeq, or_nextSeq = fromSeq, or_records = []\<rparr>)]\<rparr>))"

definition requestOlder :: "ms \<Rightarrow> int \<Rightarrow> socket \<Rightarrow> bool \<times> socket" where
  "requestOlder now oldestHeldSeq s =
     (if oldestHeldSeq \<le> cs_floorSeq s then (False, s)
      else let toSeq = oldestHeldSeq - 1
           in requestOlderRange now (max (cs_floorSeq s) (toSeq - CLIENT_BATCH_RECORDS + 1)) toSeq s)"

definition continueOlder :: "ms \<Rightarrow> older_request \<Rightarrow> bool \<Rightarrow> client_record list \<Rightarrow> socket \<Rightarrow> socket" where
  "continueOlder now req whole incoming s =
     (let records = or_records req @ filter (\<lambda>r. cr_seq r \<ge> or_nextSeq req) incoming;
          lastSeq = (if records = [] then or_nextSeq req - 1 else cr_seq (last records));
          answer = (\<lambda>s. emit (EvOlder records (whole \<and> lastSeq \<ge> or_toSeq req) (or_fromSeq req) (or_toSeq req)) s)
      in if \<not> whole \<and> lastSeq < or_toSeq req then
           let (requestId, s1) = nextRequestId ''o'' s; (ok, s2) = takeBudget now 4 s1 in
           if \<not> ok then answer s2
           else let (sent, s3) = send (SBackfill requestId (lastSeq + 1) (or_toSeq req)) s2 in
                if sent
                then s3\<lparr>cs_older := cs_older s3 @ [(requestId, req\<lparr>or_nextSeq := lastSeq + 1, or_records := records\<rparr>)]\<rparr>
                else answer s3
         else answer s)"

definition handleBackfillReply :: "ms \<Rightarrow> string \<Rightarrow> int \<Rightarrow> bool \<Rightarrow> client_record list \<Rightarrow> socket \<Rightarrow> socket" where
  "handleBackfillReply now requestId toSeq whole incoming s =
     (case map_of (cs_older s) requestId of
        Some req \<Rightarrow>
          continueOlder now req whole incoming (s\<lparr>cs_older := filter (\<lambda>x. fst x \<noteq> requestId) (cs_older s)\<rparr>)
      | None \<Rightarrow>
          let s1 = flush (fold (collect now) incoming ([], s\<lparr>cs_gapPending := False\<rparr>));
              throughSeq = (case sql_min (map cr_seq (cs_ahead s1)) of None \<Rightarrow> toSeq | Some m \<Rightarrow> min toSeq (m - 1))
          in if cs_lastSeq s1 \<ge> throughSeq then s1\<lparr>cs_noProgress := 0\<rparr>
             else
               let s2 = (if cs_lastSeq s1 > cs_lastSeq s then s1\<lparr>cs_noProgress := 0\<rparr>
                         else s1\<lparr>cs_noProgress := cs_noProgress s1 + 1\<rparr>)
               in if cs_lastSeq s1 \<le> cs_lastSeq s \<and> cs_noProgress s2 \<ge> MAX_NO_PROGRESS_BACKFILLS then failGapRecovery s2
                  else if cs_gapPending s2 then s2
                  else let (ok, s3) = requestGap now throughSeq s2 in if ok then s3 else failGapRecovery s3)"

subsection \<open>Inputs\<close>

fun handleFrame :: "ms \<Rightarrow> client_record server_frame \<Rightarrow> socket \<Rightarrow> socket" where
  "handleFrame now (FReady ready) s = handleReady now ready s"
| "handleFrame now (FRecord r) s = applyRecord now r s"
| "handleFrame now (FBackfill i fromSeq toSeq whole rs) s = handleBackfillReply now i toSeq whole rs s"
| "handleFrame now (FGap fromSeq toSeq) s = emit (EvGap fromSeq toSeq) s"
| "handleFrame now (FReset reason) s = resetStream reason s"
| "handleFrame now (FTool t) s = emit (EvTool t) s"
| "handleFrame now (FAgents as t) s = emit (EvAgents as t) s"
| "handleFrame now (FAuthExpiring t) s = reauthenticate s"
| "handleFrame now (FError code message retryable) s =
     setStatus (if cs_status s = StLive then StLive else StOffline) (Some (ServerText message)) retryable s"

datatype socket_input =
    InStart
  | InStop
  | InRetry
  | InReconnectTimer
  | InToken ms token_answer
  | InOpen ms
  | InWake ms
  | InProbeTimer ms
  | InReauthTimer
  | InReauthToken "string option"
  | InFrame ms "client_record server_frame"
  | InClose nat ms
  | InGraceTimer ms
  | InOlder ms int
  | InOlderRange ms int int
  | InCancel string

fun socket_step :: "socket_input \<Rightarrow> socket \<Rightarrow> socket" where
  "socket_step InStart s = start s"
| "socket_step InStop s = stop s"
| "socket_step InRetry s = retryNow s"
| "socket_step InReconnectTimer s = connect s"
| "socket_step (InToken now answer) s = tokenArrived now answer s"
| "socket_step (InOpen now) s =
     (if cs_socket s = SocketConnecting then s\<lparr>cs_socket := SocketOpen, cs_lastFrameAtMs := now\<rparr> else s)"
| "socket_step (InWake now) s = wake now s"
| "socket_step (InProbeTimer probedAt) s = probeTimeout probedAt s"
| "socket_step InReauthTimer s = (if cs_socket s = SocketOpen then reauthenticate s else s)"
| "socket_step (InReauthToken token) s = (if cs_reauthInFlight s then reauthArrived token s else s)"
| "socket_step (InFrame now f) s = (if cs_socket s = SocketOpen then handleFrame now f (s\<lparr>cs_lastFrameAtMs := now\<rparr>) else s)"
| "socket_step (InClose code now) s = (if cs_socket s = NoSocket then s else handleClose code now s)"
| "socket_step (InGraceTimer now) s = resumeGrace now s"
| "socket_step (InOlder now oldest) s = snd (requestOlder now oldest s)"
| "socket_step (InOlderRange now fromSeq toSeq) s = snd (requestOlderRange now fromSeq toSeq s)"
| "socket_step (InCancel turnId) s = snd (send (SCancel turnId) s)"

subsection \<open>The stream is in order\<close>

text \<open>What a view has received since the last reset.\<close>

fun received :: "client_record list \<Rightarrow> socket_event list \<Rightarrow> client_record list" where
  "received acc [] = acc"
| "received acc (EvRecords rs # es) = received (acc @ rs) es"
| "received acc (EvReset reason # es) = received [] es"
| "received acc (e # es) = received acc es"

definition in_sequence :: "client_record list \<Rightarrow> bool" where
  "in_sequence rs \<longleftrightarrow> (rs = [] \<or> map cr_seq rs = [cr_seq (hd rs)..cr_seq (last rs)])"

text \<open>Every batch of records is itself in sequence.\<close>

fun batch_ok :: "socket_event \<Rightarrow> bool" where
  "batch_ok (EvRecords rs) \<longleftrightarrow> in_sequence rs"
| "batch_ok _ \<longleftrightarrow> True"

definition track :: "client_record list \<Rightarrow> socket_event list \<Rightarrow> client_record list \<times> bool" where
  "track held es = (received held es, \<forall>e \<in> set es. batch_ok e)"

text \<open>The frames of a server that numbers its records from 0 and sends pages without holes.\<close>

fun frame_ok :: "client_record server_frame \<Rightarrow> bool" where
  "frame_ok (FRecord r) \<longleftrightarrow> 0 \<le> cr_seq r"
| "frame_ok (FBackfill i fromSeq toSeq whole rs) \<longleftrightarrow> in_sequence rs \<and> (\<forall>r \<in> set rs. 0 \<le> cr_seq r)"
| "frame_ok _ \<longleftrightarrow> True"

fun input_ok :: "socket_input \<Rightarrow> bool" where
  "input_ok (InFrame now f) \<longleftrightarrow> frame_ok f"
| "input_ok _ \<longleftrightarrow> True"

lemma received_append: "received acc (es @ [e]) = received (received acc es) [e]"
  by (induction acc es rule: received.induct) auto

lemma track_append: "track held (es @ [e]) = (received (fst (track held es)) [e], snd (track held es) \<and> batch_ok e)"
  by (auto simp: track_def received_append [of held es e])

lemma in_sequence_snoc:
  assumes "in_sequence rs" and "rs = [] \<or> cr_seq r = cr_seq (last rs) + 1"
  shows "in_sequence (rs @ [r])"
proof (cases "rs = []")
  case False
  then have m: "map cr_seq rs = [cr_seq (hd rs)..cr_seq (last rs)]" using assms(1) by (simp add: in_sequence_def)
  then have "cr_seq (hd rs) \<le> cr_seq (last rs)" using False by (metis list.map_disc_iff not_less upto_Nil)
  then show ?thesis using m False assms(2) upto_rec2 [of "cr_seq (hd rs)" "cr_seq r"] by (simp add: in_sequence_def)
qed (simp add: in_sequence_def)

lemma in_sequence_Cons:
  assumes "in_sequence (r # r' # rs)"
  shows "cr_seq r' = cr_seq r + 1" "in_sequence (r' # rs)"
proof -
  let ?l = "cr_seq (last (r' # rs))"
  have m: "map cr_seq (r # r' # rs) = [cr_seq r..?l]" using assms by (simp add: in_sequence_def)
  then have "cr_seq r \<le> ?l" by (metis list.distinct(1) list.simps(9) not_less upto_Nil)
  then have "map cr_seq (r' # rs) = [cr_seq r + 1..?l]" using m upto_rec1 [of "cr_seq r" ?l] by simp
  moreover from this have "cr_seq r + 1 \<le> ?l" by (metis list.distinct(1) list.simps(9) not_less upto_Nil)
  then have "[cr_seq r + 1..?l] = (cr_seq r + 1) # [cr_seq r + 1 + 1..?l]" by (rule upto_rec1)
  ultimately show "cr_seq r' = cr_seq r + 1" by (metis list.inject list.simps(9))
  then show "in_sequence (r' # rs)" using \<open>map cr_seq (r' # rs) = [cr_seq r + 1..?l]\<close> by (simp add: in_sequence_def)
qed

definition stream_at :: "client_record list \<Rightarrow> int \<Rightarrow> bool" where
  "stream_at rs lastSeq \<longleftrightarrow> in_sequence rs \<and> (rs \<noteq> [] \<longrightarrow> 0 \<le> lastSeq \<and> cr_seq (last rs) = lastSeq)"

definition stream_ok :: "client_record list \<Rightarrow> client_record list \<Rightarrow> socket \<Rightarrow> bool" where
  "stream_ok held applied s \<longleftrightarrow>
     stream_at (fst (track held (cs_events s)) @ applied) (cs_lastSeq s) \<and> snd (track held (cs_events s))"

lemma in_sequence_suffix: "in_sequence (xs @ ys) \<Longrightarrow> in_sequence ys"
proof (induction xs)
  case (Cons x xs)
  then show ?case
  proof (cases "xs @ ys")
    case (Cons r rs)
    then show ?thesis using Cons.IH in_sequence_Cons(2) [of x r rs] Cons.prems by simp
  qed (simp add: in_sequence_def)
qed simp

lemma stream_at_snoc: "stream_at rs n \<Longrightarrow> cr_seq r = n + 1 \<Longrightarrow> 0 \<le> cr_seq r \<Longrightarrow> stream_at (rs @ [r]) (cr_seq r)"
  using in_sequence_snoc [of rs r] by (auto simp: stream_at_def)

lemma stream_frame:
  assumes "stream_ok held applied s" and "cs_events s' = cs_events s" and "cs_lastSeq s' = cs_lastSeq s"
  shows "stream_ok held applied s'"
  using assms by (simp add: stream_ok_def)

lemma budget_frame:
  "cs_events (snd (takeBudget now r s)) = cs_events s" "cs_lastSeq (snd (takeBudget now r s)) = cs_lastSeq s"
  "cs_ahead (snd (takeBudget now r s)) = cs_ahead s"
  by (simp_all add: takeBudget_def refill_def Let_def)

lemma id_frame:
  "cs_events (snd (nextRequestId p s)) = cs_events s" "cs_lastSeq (snd (nextRequestId p s)) = cs_lastSeq s"
  "cs_ahead (snd (nextRequestId p s)) = cs_ahead s"
  by (simp_all add: nextRequestId_def)

lemma send_frame:
  "cs_events (snd (send f s)) = cs_events s" "cs_lastSeq (snd (send f s)) = cs_lastSeq s" "cs_ahead (snd (send f s)) = cs_ahead s"
  by (simp_all add: send_def)

lemmas quiet_frame = budget_frame id_frame send_frame

lemma gap_frame:
  "cs_events (snd (requestGap now n s)) = cs_events s" "cs_lastSeq (snd (requestGap now n s)) = cs_lastSeq s"
  "cs_ahead (snd (requestGap now n s)) = cs_ahead s"
  by (simp_all add: requestGap_def takeBudget_def refill_def nextRequestId_def send_def Let_def)

lemma status_stream:
  "track acc (cs_events (setStatus st m r s)) = track acc (cs_events s)" "cs_lastSeq (setStatus st m r s) = cs_lastSeq s"
  by (simp_all add: setStatus_def emit_def track_append)

lemma connect_stream:
  "track acc (cs_events (connect s)) = track acc (cs_events s)" "cs_lastSeq (connect s) = cs_lastSeq s"
  by (simp_all add: connect_def status_stream)

lemma reconnect_stream:
  "track acc (cs_events (forceReconnect s)) = track acc (cs_events s)" "cs_lastSeq (forceReconnect s) = cs_lastSeq s"
  by (simp_all add: forceReconnect_def Let_def connect_stream)

lemma reset_stream: "snd (track held (cs_events s)) \<Longrightarrow> stream_ok held [] (resetStream reason s)" "fst (track held (cs_events (resetStream reason s))) = []"
  by (simp_all add: stream_ok_def stream_at_def in_sequence_def resetStream_def emit_def track_append)

lemma drain_stream:
  assumes "stream_ok held applied s" and "0 \<le> cs_lastSeq s + 1" and "drainAhead applied s = (applied', s')"
  shows "stream_ok held applied' s' \<and> cs_lastSeq s \<le> cs_lastSeq s' \<and> cs_events s' = cs_events s \<and> (applied \<noteq> [] \<longrightarrow> applied' \<noteq> [])"
  using assms
proof (induction applied s arbitrary: applied' s' rule: drainAhead.induct)
  case (1 applied s)
  show ?case
  proof (cases "find (\<lambda>r. cr_seq r = cs_lastSeq s + 1) (cs_ahead s)")
    case None
    then show ?thesis using 1(2,4) by (simp add: drainAhead.simps [of applied s])
  next
    case (Some r)
    let ?s = "s\<lparr>cs_ahead := filter (\<lambda>x. cr_seq x \<noteq> cr_seq r) (cs_ahead s), cs_lastSeq := cr_seq r\<rparr>"
    have r: "cr_seq r = cs_lastSeq s + 1" using Some by (auto simp: find_Some_iff)
    have d: "drainAhead (applied @ [r]) ?s = (applied', s')" using Some 1(4) by (simp add: drainAhead.simps [of applied s])
    have "stream_ok held (applied @ [r]) ?s"
      using stream_at_snoc [of "fst (track held (cs_events s)) @ applied" "cs_lastSeq s" r] 1(2,3) r by (simp add: stream_ok_def)
    from 1(1) [OF Some this _ d] show ?thesis using r 1(3) by simp
  qed
qed

lemma collect_stream:
  assumes ok: "stream_ok held applied s" and r: "0 \<le> cr_seq r" and near: "applied \<noteq> [] \<Longrightarrow> cr_seq r \<le> cs_lastSeq s + 1"
    and c: "collect now r (applied, s) = (applied', s')"
  shows "stream_ok held applied' s' \<and> (applied' \<noteq> [] \<longrightarrow> cr_seq r \<le> cs_lastSeq s')"
proof -
  define s0 where "s0 = (if cs_lastSeq s < 0 then s\<lparr>cs_lastSeq := cs_windowStartSeq s - 1\<rparr> else s)"
  have ok0: "stream_ok held applied s0" and ev: "cs_events s0 = cs_events s"
    using ok by (auto simp: s0_def stream_ok_def stream_at_def)
  have same: "applied \<noteq> [] \<Longrightarrow> cs_lastSeq s0 = cs_lastSeq s"
    using ok by (auto simp: s0_def stream_ok_def stream_at_def)
  consider (old) "cr_seq r \<le> cs_lastSeq s0" | (early) "cr_seq r > cs_lastSeq s0 + 1" | (succ) "cr_seq r = cs_lastSeq s0 + 1" by linarith
  then show ?thesis
  proof cases
    case old
    then have "(applied', s') = (applied, s0)" using c by (simp add: collect_def s0_def [symmetric] Let_def)
    then show ?thesis using ok0 old by simp
  next
    case early
    then have none: "applied = []" using near same by force
    show ?thesis
    proof (cases "length (cs_ahead s0) \<ge> MAX_BUFFERED_AHEAD")
      case True
      then have "(applied', s') = ([], forceReconnect (resetStream ''window'' s0))"
        using c early none by (simp add: collect_def s0_def [symmetric] Let_def)
      then show ?thesis using reset_stream(1) [of held s0] ok0 by (simp add: stream_ok_def reconnect_stream)
    next
      case False
      then have "\<exists>t. applied' = [] \<and> s' = snd (requestGap now (cr_seq r - 1) (s0\<lparr>cs_ahead := t\<rparr>))"
        using c early none by (auto simp: collect_def s0_def [symmetric] Let_def)
      then show ?thesis using ok0 none by (auto simp: stream_ok_def gap_frame)
    qed
  next
    case succ
    then have d: "drainAhead (applied @ [r]) (s0\<lparr>cs_lastSeq := cr_seq r\<rparr>) = (applied', s')"
      using c by (simp add: collect_def s0_def [symmetric] Let_def)
    have "stream_ok held (applied @ [r]) (s0\<lparr>cs_lastSeq := cr_seq r\<rparr>)"
      using stream_at_snoc [of "fst (track held (cs_events s0)) @ applied" "cs_lastSeq s0" r] ok0 succ r by (simp add: stream_ok_def)
    from drain_stream [OF this _ d] show ?thesis using r by simp
  qed
qed

lemma collects_stream:
  assumes "stream_ok held applied s" and "in_sequence rs" and "\<forall>r \<in> set rs. 0 \<le> cr_seq r"
    and "applied \<noteq> [] \<Longrightarrow> rs \<noteq> [] \<Longrightarrow> cr_seq (hd rs) \<le> cs_lastSeq s + 1"
    and "fold (collect now) rs (applied, s) = (applied', s')"
  shows "stream_ok held applied' s'"
  using assms
proof (induction rs arbitrary: applied s)
  case (Cons r rs)
  obtain a1 s1 where c: "collect now r (applied, s) = (a1, s1)" by fastforce
  have s1: "stream_ok held a1 s1" "a1 \<noteq> [] \<longrightarrow> cr_seq r \<le> cs_lastSeq s1"
    using collect_stream [OF Cons.prems(1) _ _ c] Cons.prems(3,4) by auto
  have rest: "in_sequence rs" "rs \<noteq> [] \<Longrightarrow> cr_seq (hd rs) = cr_seq r + 1"
    using Cons.prems(2) in_sequence_Cons [of r "hd rs" "tl rs"] by (cases rs; simp add: in_sequence_def)+
  show ?case by (rule Cons.IH [OF s1(1) rest(1)]) (use Cons.prems(3,5) s1(2) rest(2) c in auto)
qed simp

lemma flush_stream: "stream_ok held applied s \<Longrightarrow> stream_ok held [] (flush (applied, s))"
  using in_sequence_suffix [of "fst (track held (cs_events s))" applied]
  by (cases "applied = []") (simp_all add: flush_def emit_def stream_ok_def stream_at_def track_append)

lemma backfill_stream:
  assumes "stream_ok held [] s" and "in_sequence rs" and "\<forall>r \<in> set rs. 0 \<le> cr_seq r"
  shows "stream_ok held [] (handleBackfillReply now i toSeq whole rs s)"
proof (cases "map_of (cs_older s) i")
  case None
  define s1 where "s1 = flush (fold (collect now) rs ([], s\<lparr>cs_gapPending := False\<rparr>))"
  obtain applied s' where f: "fold (collect now) rs ([], s\<lparr>cs_gapPending := False\<rparr>) = (applied, s')" by fastforce
  have "stream_ok held [] (s\<lparr>cs_gapPending := False\<rparr>)" using assms(1) by (simp add: stream_ok_def)
  from flush_stream [OF collects_stream [OF this assms(2,3) _ f]]
  have ok: "stream_ok held [] s1" by (simp add: s1_def f)
  define through where "through = (case sql_min (map cr_seq (cs_ahead s1)) of None \<Rightarrow> toSeq | Some m \<Rightarrow> min toSeq (m - 1))"
  have gap: "stream_ok held [] (snd (requestGap now through (s1\<lparr>cs_noProgress := n\<rparr>)))" for n
    using ok by (simp add: stream_ok_def gap_frame)
  have fail: "stream_ok held [] t \<Longrightarrow> stream_ok held [] (failGapRecovery t)" for t
    by (simp add: failGapRecovery_def stream_ok_def status_stream)
  have same: "stream_ok held [] (s1\<lparr>cs_noProgress := n\<rparr>)" for n using ok by (simp add: stream_ok_def)
  show ?thesis
    using gap same fail None
    by (auto simp: handleBackfillReply_def s1_def [symmetric] through_def [symmetric] Let_def split: prod.splits)
      (metis snd_conv)+
next
  case (Some req)
  have answer: "stream_ok held [] (emit (EvOlder x b c d) t)" if "stream_ok held [] t" for x b c d t
    using that by (simp add: stream_ok_def emit_def track_append)
  show ?thesis
    using assms(1) Some unfolding handleBackfillReply_def
    by (simp add: continueOlder_def Let_def nextRequestId_def takeBudget_def refill_def send_def stream_ok_def emit_def
        track_append)
qed

lemma ready_stream: "stream_ok held [] s \<Longrightarrow> stream_ok held [] (handleReady now r s)"
proof -
  assume ok: "stream_ok held [] s"
  define s2 where "s2 = s\<lparr>cs_liveSinceMs := now, cs_authRetryUsed := False, cs_reauthInFlight := False, cs_headSeq := rd_headSeq r,
    cs_windowStartSeq := rd_windowStartSeq r, cs_floorSeq := rd_floorSeq r, cs_epoch := Some (rd_epoch r)\<rparr>"
  have ok2: "stream_ok held [] s2" using ok by (simp add: s2_def stream_ok_def)
  have live: "stream_ok held [] (setStatus StLive None True (emit (EvReady r) t))" if "stream_ok held [] t" for t
    using that by (simp add: stream_ok_def status_stream emit_def track_append)
  have reset: "stream_ok held [] (resetStream reason t)" if "stream_ok held [] t" for reason t
    using reset_stream(1) [of held t] that by (simp add: stream_ok_def)
  have again: "stream_ok held [] (forceReconnect (resetStream ''window'' t))" if "stream_ok held [] t" for t
    using reset [OF that, of "''window''"] by (simp add: stream_ok_def reconnect_stream)
  show ?thesis
    using live again ok2 reset unfolding handleReady_def Let_def by (simp add: s2_def)
qed

lemma older_stream: "stream_ok held [] s \<Longrightarrow> stream_ok held [] (snd (requestOlderRange now a b s))"
  by (simp add: stream_ok_def requestOlderRange_def Let_def takeBudget_def refill_def nextRequestId_def send_def)

lemma stream_step:
  assumes ok: "stream_ok held [] s" and i: "input_ok i"
  shows "stream_ok held [] (socket_step i s)"
proof (cases i)
  case (InFrame now f)
  have "stream_ok held [] (handleFrame now f s)" if ok: "stream_ok held [] s" for s
  proof (cases f)
    case (FReady r) then show ?thesis using ready_stream ok by simp
  next
    case (FRecord r)
    obtain a t where c: "collect now r ([], s) = (a, t)" by fastforce
    then show ?thesis using flush_stream collect_stream [OF ok _ _ c] i FRecord InFrame by (simp add: applyRecord_def)
  next
    case (FBackfill x a b w rs) then show ?thesis using backfill_stream [OF ok] i InFrame by simp
  next
    case (FReset reason) then show ?thesis using reset_stream(1) [of held s] ok by (simp add: stream_ok_def)
  qed (use ok in \<open>simp_all add: stream_ok_def emit_def track_append status_stream reauthenticate_def\<close>)
  then show ?thesis using ok stream_frame [OF ok, of "s\<lparr>cs_lastFrameAtMs := now\<rparr>"] InFrame by simp
next
  case (InToken now answer)
  then show ?thesis using ok
    by (cases answer) (simp_all add: tokenArrived_def stream_ok_def scheduleReconnect_def Let_def status_stream)
next
  case (InReauthToken token)
  then show ?thesis using ok by (cases token) (simp_all add: reauthArrived_def stream_ok_def Let_def send_frame)
next
  case (InWake now)
  then show ?thesis using ok by (simp add: wake_def stream_ok_def connect_stream send_frame)
next
  case (InClose code now)
  then show ?thesis using ok
    by (simp add: handleClose_def Let_def stream_ok_def status_stream scheduleReconnect_def)
next
  case (InOlder now oldest)
  then show ?thesis using ok older_stream by (simp add: requestOlder_def Let_def)
next
  case (InOlderRange now a b)
  then show ?thesis using ok older_stream by simp
next
  case (InGraceTimer now)
  then show ?thesis using ok
    by (simp add: resumeGrace_def Let_def stream_ok_def takeBudget_def refill_def nextRequestId_def send_def)
qed (use ok in \<open>simp_all add: start_def stop_def retryNow_def Let_def stream_ok_def status_stream connect_stream
    reconnect_stream probeTimeout_def reauthenticate_def send_frame\<close>)

interpretation ordered_stream: guarded_system socket_step "stream_ok held []" input_ok for held
  by unfold_locales (rule stream_step)

text \<open>The rows a store hands a socket with its cursor end at the cursor.\<close>

definition resumes :: "client_record list \<Rightarrow> socket_cursor option \<Rightarrow> bool" where
  "resumes held cursor \<longleftrightarrow>
     in_sequence held \<and>
     (case cursor of
        None \<Rightarrow> held = []
      | Some c \<Rightarrow> cursor_ok c \<and> held \<noteq> [] \<and> 0 \<le> sc_lastSeq c \<and> cr_seq (last held) = sc_lastSeq c)"

lemma new_socket_stream: "resumes held c \<Longrightarrow> stream_ok held [] (new_socket now c)"
  by (auto simp: resumes_def new_socket_def Let_def stream_ok_def track_def stream_at_def split: option.splits)

lemma socket_stream:
  assumes "\<forall>i \<in> set inputs. input_ok i" and "resumes held c"
  shows "stream_ok held [] (fold socket_step inputs (new_socket now c))"
  by (rule ordered_stream.run_guarded [OF new_socket_stream [OF assms(2)] assms(1)])

text \<open>A restored view of two rows, a drop, and a record that comes before the one it follows.\<close>

definition seen :: "int \<Rightarrow> client_record" where
  "seen n = CSkipped n ''t1'' 0 None"

definition wide_cursor :: socket_cursor where
  "wide_cursor = \<lparr>sc_epoch = 0, sc_lastSeq = 1, sc_headSeq = 1, sc_floorSeq = 0, sc_windowStartSeq = 0\<rparr>"

definition wide_ready :: ready where
  "wide_ready = \<lparr>rd_conversationId = ''c1'', rd_epoch = 0, rd_headSeq = 3, rd_windowStartSeq = 0, rd_floorSeq = 0, rd_title = [],
     rd_activity = ''idle'', rd_authExpiresAtMs = 0, rd_serverTimeMs = 0, rd_live = None, rd_agents = []\<rparr>"

definition wide_inputs :: "socket_input list" where
  "wide_inputs =
     [InStart, InToken 0 SocketMade, InOpen 0, InFrame 1 (FReady wide_ready), InFrame 2 (FRecord (seen 3)),
      InFrame 3 (FBackfill ''g1'' 2 2 True [seen 2]), InFrame 4 (FRecord (seen 3))]"

lemmas socket_run_defs =
  wide_inputs_def wide_ready_def wide_cursor_def seen_def new_socket_def cursor_ok_def safe_integer_def Let_def
  start_def connect_def setStatus_def emit_def tokenArrived_def handleReady_def MAX_CATCHUP_RESUME_RECORDS_def
  applyRecord_def collect_def MAX_BUFFERED_AHEAD_def requestGap_def MAX_RESUME_RECORDS_def takeBudget_def refill_def
  RATE_BACKFILL_PER_MIN_def nextRequestId_def send_def flush_def handleBackfillReply_def

lemma wide_run:
  "received [seen 0, seen 1] (cs_events (fold socket_step wide_inputs (new_socket 0 (Some wide_cursor)))) = map seen [0, 1, 2, 3]"
  "cs_lastSeq (fold socket_step wide_inputs (new_socket 0 (Some wide_cursor))) = 3"
  by (simp_all add: socket_run_defs drainAhead.simps digits.simps char_of_def)

subsection \<open>The stream is genuine\<close>

text \<open>Nothing that a socket holds or reports comes from anywhere but a frame.\<close>

fun event_records :: "socket_event \<Rightarrow> client_record list" where
  "event_records (EvRecords rs) = rs"
| "event_records (EvOlder rs whole fromSeq toSeq) = rs"
| "event_records _ = []"

fun frame_records :: "client_record server_frame \<Rightarrow> client_record list" where
  "frame_records (FRecord r) = [r]"
| "frame_records (FBackfill i fromSeq toSeq whole rs) = rs"
| "frame_records _ = []"

fun input_records :: "socket_input \<Rightarrow> client_record list" where
  "input_records (InFrame now f) = frame_records f"
| "input_records _ = []"

definition carries :: "(client_record \<Rightarrow> bool) \<Rightarrow> socket \<Rightarrow> bool" where
  "carries P s \<longleftrightarrow>
     list_all P (cs_ahead s) \<and> list_all (\<lambda>x. list_all P (or_records (snd x))) (cs_older s) \<and>
     list_all (\<lambda>e. list_all P (event_records e)) (cs_events s)"

lemma carries_emit: "carries P (emit e s) \<longleftrightarrow> carries P s \<and> list_all P (event_records e)"
  by (auto simp: carries_def emit_def)

lemma carries_frame:
  "cs_ahead t = cs_ahead s \<Longrightarrow> cs_older t = cs_older s \<Longrightarrow> cs_events t = cs_events s \<Longrightarrow> carries P t \<longleftrightarrow> carries P s"
  by (simp add: carries_def)

lemma carries_update:
  "carries P (s\<lparr>cs_socket := vsocket\<rparr>) = carries P s" "carries P (s\<lparr>cs_connecting := vconnecting\<rparr>) = carries P s" "carries P (s\<lparr>cs_stopped := vstopped\<rparr>) = carries P s"
  "carries P (s\<lparr>cs_status := vstatus\<rparr>) = carries P s" "carries P (s\<lparr>cs_attempt := vattempt\<rparr>) = carries P s" "carries P (s\<lparr>cs_liveSinceMs := vliveSinceMs\<rparr>) = carries P s"
  "carries P (s\<lparr>cs_lastFrameAtMs := vlastFrameAtMs\<rparr>) = carries P s" "carries P (s\<lparr>cs_authRetryUsed := vauthRetryUsed\<rparr>) = carries P s" "carries P (s\<lparr>cs_reauthInFlight := vreauthInFlight\<rparr>) = carries P s"
  "carries P (s\<lparr>cs_lastSeq := vlastSeq\<rparr>) = carries P s" "carries P (s\<lparr>cs_epoch := vepoch\<rparr>) = carries P s" "carries P (s\<lparr>cs_headSeq := vheadSeq\<rparr>) = carries P s"
  "carries P (s\<lparr>cs_windowStartSeq := vwindowStartSeq\<rparr>) = carries P s" "carries P (s\<lparr>cs_floorSeq := vfloorSeq\<rparr>) = carries P s" "carries P (s\<lparr>cs_gapPending := vgapPending\<rparr>) = carries P s"
  "carries P (s\<lparr>cs_noProgress := vnoProgress\<rparr>) = carries P s" "carries P (s\<lparr>cs_requestCounter := vrequestCounter\<rparr>) = carries P s" "carries P (s\<lparr>cs_tokens := vtokens\<rparr>) = carries P s"
  "carries P (s\<lparr>cs_refilledAt := vrefilledAt\<rparr>) = carries P s" "carries P (s\<lparr>cs_sent := vsent\<rparr>) = carries P s"
  by (simp_all add: carries_def)

lemma carries_status: "carries P (setStatus st m r s) = carries P s"
  by (simp add: setStatus_def carries_emit carries_update)

lemma carries_connect: "carries P (connect s) = carries P s"
  by (simp add: connect_def carries_status carries_update)

lemma carries_reconnect: "carries P (forceReconnect s) = carries P s"
  by (simp add: forceReconnect_def Let_def carries_connect carries_update)

lemma carries_schedule: "carries P (scheduleReconnect m s) = carries P s"
  by (simp add: scheduleReconnect_def Let_def carries_status carries_update)

lemma carries_reset: "carries P s \<Longrightarrow> carries P (resetStream reason s)"
  unfolding resetStream_def carries_emit by (simp add: carries_def)

lemma carries_gap: "carries P (snd (requestGap now n s)) = carries P s"
  by (rule carries_frame)
    (simp_all add: requestGap_def takeBudget_def refill_def nextRequestId_def send_def Let_def)

lemma carries_drain:
  assumes "carries P s" and "list_all P applied" and "drainAhead applied s = (applied', s')"
  shows "carries P s' \<and> list_all P applied'"
  using assms
proof (induction applied s arbitrary: applied' s' rule: drainAhead.induct)
  case (1 applied s)
  show ?case
  proof (cases "find (\<lambda>r. cr_seq r = cs_lastSeq s + 1) (cs_ahead s)")
    case None
    then show ?thesis using 1(2-4) by (simp add: drainAhead.simps [of applied s])
  next
    case (Some r)
    let ?s = "s\<lparr>cs_ahead := filter (\<lambda>x. cr_seq x \<noteq> cr_seq r) (cs_ahead s), cs_lastSeq := cr_seq r\<rparr>"
    have "r \<in> set (cs_ahead s)" using Some by (auto simp: find_Some_iff)
    then have P: "list_all P (applied @ [r])" using 1(2,3) by (simp add: carries_def list_all_iff)
    have s: "carries P ?s" using 1(2) by (simp add: carries_def list_all_iff)
    have "drainAhead (applied @ [r]) ?s = (applied', s')" using Some 1(4) by (simp add: drainAhead.simps [of applied s])
    from 1(1) [OF Some s P this] show ?thesis .
  qed
qed

lemma carries_collect:
  assumes "carries P s" and "list_all P applied" and "P r" and "collect now r (applied, s) = (applied', s')"
  shows "carries P s' \<and> list_all P applied'"
proof -
  define s0 where "s0 = (if cs_lastSeq s < 0 then s\<lparr>cs_lastSeq := cs_windowStartSeq s - 1\<rparr> else s)"
  have ok0: "carries P s0" using assms(1) by (simp add: s0_def carries_def)
  have ahead: "carries P (s0\<lparr>cs_ahead := filter (\<lambda>x. cr_seq x \<noteq> cr_seq r) (cs_ahead s0) @ [r]\<rparr>)"
    using ok0 assms(3) by (auto simp: carries_def list_all_iff)
  have succ: "carries P (s0\<lparr>cs_lastSeq := cr_seq r\<rparr>)" using ok0 by (simp add: carries_def)
  have c: "(if cr_seq r \<le> cs_lastSeq s0 then (applied, s0)
      else if cr_seq r > cs_lastSeq s0 + 1 then
        if length (cs_ahead s0) \<ge> MAX_BUFFERED_AHEAD then (applied, forceReconnect (resetStream ''window'' s0))
        else (applied, snd (requestGap now (cr_seq r - 1)
               (s0\<lparr>cs_ahead := filter (\<lambda>x. cr_seq x \<noteq> cr_seq r) (cs_ahead s0) @ [r]\<rparr>)))
      else drainAhead (applied @ [r]) (s0\<lparr>cs_lastSeq := cr_seq r\<rparr>)) = (applied', s')"
    using assms(4) unfolding collect_def Let_def prod.case s0_def [symmetric] .
  have drained: "drainAhead (applied @ [r]) (s0\<lparr>cs_lastSeq := cr_seq r\<rparr>) = (applied', s') \<Longrightarrow> carries P s' \<and> list_all P applied'"
    using carries_drain [OF succ, of "applied @ [r]"] assms(2,3) by simp
  show ?thesis
    using c ok0 assms(2) drained ahead carries_reset [OF ok0]
    by (auto split: if_splits simp: carries_reconnect carries_gap)
qed

lemma carries_collects:
  assumes "carries P s" and "list_all P applied" and "list_all P rs" and "fold (collect now) rs (applied, s) = (applied', s')"
  shows "carries P s' \<and> list_all P applied'"
  using assms
proof (induction rs arbitrary: applied s)
  case (Cons r rs)
  obtain a1 s1 where c: "collect now r (applied, s) = (a1, s1)" by fastforce
  then show ?case using carries_collect [OF Cons.prems(1,2) _ c] Cons.IH [of s1 a1] Cons.prems(3,4) by simp
qed simp

lemma carries_flush: "carries P s \<Longrightarrow> list_all P applied \<Longrightarrow> carries P (flush (applied, s))"
  by (simp add: flush_def carries_emit carries_update)

lemma carries_backfill:
  assumes "carries P s" and "list_all P rs"
  shows "carries P (handleBackfillReply now i toSeq whole rs s)"
proof (cases "map_of (cs_older s) i")
  case None
  define s1 where "s1 = flush (fold (collect now) rs ([], s\<lparr>cs_gapPending := False\<rparr>))"
  obtain applied s' where f: "fold (collect now) rs ([], s\<lparr>cs_gapPending := False\<rparr>) = (applied, s')" by fastforce
  have "carries P (s\<lparr>cs_gapPending := False\<rparr>)" using assms(1) by (simp add: carries_def)
  then have ok: "carries P s1" using carries_collects [OF _ _ assms(2) f] carries_flush by (simp add: s1_def f)
  define through where "through = (case sql_min (map cr_seq (cs_ahead s1)) of None \<Rightarrow> toSeq | Some m \<Rightarrow> min toSeq (m - 1))"
  have same: "carries P (s1\<lparr>cs_noProgress := n\<rparr>)" for n using ok by (simp add: carries_def)
  have gap: "carries P (snd (requestGap now through (s1\<lparr>cs_noProgress := n\<rparr>)))" for n
    using same by (simp add: carries_gap)
  have fail: "carries P t \<Longrightarrow> carries P (failGapRecovery t)" for t
    unfolding failGapRecovery_def carries_status by (simp add: carries_def)
  show ?thesis
    using gap same fail None
    by (auto simp: handleBackfillReply_def s1_def [symmetric] through_def [symmetric] Let_def split: prod.splits)
      (metis snd_conv)+
next
  case (Some req)
  define t where "t = s\<lparr>cs_older := filter (\<lambda>x. fst x \<noteq> i) (cs_older s)\<rparr>"
  have t: "carries P t" using assms(1) by (auto simp: t_def carries_def list_all_iff)
  have "list_all P (or_records req)"
    using assms(1) map_of_SomeD [OF Some] by (auto simp: carries_def list_all_iff)
  then have recs: "list_all P (or_records req @ filter (\<lambda>r. or_nextSeq req \<le> cr_seq r) rs)" using assms(2) by (auto simp: list_all_iff)
  have "carries P (continueOlder now req whole rs t)"
    using t recs
    by (simp add: continueOlder_def Let_def nextRequestId_def takeBudget_def refill_def send_def carries_def emit_def)
  then show ?thesis using Some by (simp add: handleBackfillReply_def t_def)
qed

lemma carries_ready: "carries P s \<Longrightarrow> carries P (handleReady now r s)"
proof -
  assume ok: "carries P s"
  define s2 where "s2 = s\<lparr>cs_liveSinceMs := now, cs_authRetryUsed := False, cs_reauthInFlight := False, cs_headSeq := rd_headSeq r,
    cs_windowStartSeq := rd_windowStartSeq r, cs_floorSeq := rd_floorSeq r, cs_epoch := Some (rd_epoch r)\<rparr>"
  have ok2: "carries P s2" using ok by (simp add: s2_def carries_def)
  have live: "carries P (setStatus StLive None True (emit (EvReady r) t))" if "carries P t" for t
    using that by (simp add: carries_status carries_emit)
  have again: "carries P (forceReconnect (resetStream ''window'' t))" if "carries P t" for t
    using carries_reset [OF that] by (simp add: carries_reconnect)
  show ?thesis
    using live again ok2 carries_reset unfolding handleReady_def Let_def by (simp add: s2_def)
qed

lemma carries_step:
  assumes ok: "carries P s" and i: "list_all P (input_records i)"
  shows "carries P (socket_step i s)"
proof (cases i)
  case (InFrame now f)
  have frame: "carries P (handleFrame now f s)" if ok: "carries P s" for s
  proof (cases f)
    case (FReady r) then show ?thesis using carries_ready ok by simp
  next
    case (FRecord r)
    obtain a t where c: "collect now r ([], s) = (a, t)" by fastforce
    then show ?thesis using carries_flush carries_collect [OF ok _ _ c] i FRecord InFrame by (simp add: applyRecord_def)
  next
    case (FBackfill x a b w rs) then show ?thesis using carries_backfill [OF ok] i InFrame by simp
  next
    case (FReset reason) then show ?thesis using carries_reset ok by simp
  qed (use ok in \<open>simp_all add: carries_emit carries_status carries_update reauthenticate_def\<close>)
  then show ?thesis using ok frame [of "s\<lparr>cs_lastFrameAtMs := now\<rparr>"] InFrame by (simp add: carries_update)
next
  case (InToken now answer)
  then show ?thesis using ok
    by (cases answer) (simp_all add: tokenArrived_def carries_schedule carries_update)
next
  case (InReauthToken token)
  then show ?thesis using ok by (cases token) (simp_all add: reauthArrived_def carries_update Let_def send_def)
next
  case (InWake now)
  then show ?thesis using ok by (simp add: wake_def carries_connect carries_update send_def)
next
  case (InClose code now)
  then show ?thesis using ok
    by (simp add: handleClose_def Let_def carries_status carries_schedule, simp add: carries_def)
next
  case (InOlder now oldest)
  then show ?thesis using ok
    by (simp add: requestOlder_def requestOlderRange_def Let_def takeBudget_def refill_def nextRequestId_def send_def carries_def)
next
  case (InOlderRange now a b)
  then show ?thesis using ok
    by (simp add: requestOlderRange_def Let_def takeBudget_def refill_def nextRequestId_def send_def carries_def)
next
  case (InGraceTimer now)
  then show ?thesis using ok
    by (simp add: resumeGrace_def Let_def carries_def takeBudget_def refill_def nextRequestId_def send_def)
next
  case InStart
  then show ?thesis using ok by (simp add: start_def carries_connect carries_update)
next
  case InRetry
  then show ?thesis using ok by (simp add: retryNow_def start_def Let_def carries_connect carries_update)
next
  case InStop
  then show ?thesis using ok by (simp add: stop_def carries_status carries_update)
qed (use ok in \<open>simp_all add: carries_connect probeTimeout_def carries_reconnect carries_update reauthenticate_def send_def\<close>)

text \<open>A record of the transcript \<open>f\<close>, which gives every number its record.\<close>

definition genuine :: "(int \<Rightarrow> client_record) \<Rightarrow> client_record \<Rightarrow> bool" where
  "genuine f r \<longleftrightarrow> 0 \<le> cr_seq r \<and> r = f (cr_seq r)"

lemma genuine_slice:
  assumes "in_sequence rs" and "list_all (genuine f) rs" and "rs \<noteq> []"
  shows "rs = map f [cr_seq (hd rs)..cr_seq (last rs)]"
proof -
  have "rs = map (\<lambda>r. f (cr_seq r)) rs" using assms(2) by (induction rs) (auto simp: genuine_def)
  also have "\<dots> = map f (map cr_seq rs)" by simp
  finally show ?thesis using assms(1,3) by (metis in_sequence_def)
qed

lemma received_carried:
  "list_all P held \<Longrightarrow> list_all (\<lambda>e. list_all P (event_records e)) es \<Longrightarrow> list_all P (received held es)"
  by (induction held es rule: received.induct) auto

interpretation genuine_stream: guarded_system socket_step "carries P" "\<lambda>i. list_all P (input_records i)" for P
  by unfold_locales (rule carries_step)

lemma carries_new: "carries P (new_socket now c)"
  by (simp add: new_socket_def Let_def carries_def split: option.splits)

text \<open>
  C5: Whatever the connection does, a client shows a slice of the transcript. For any sequence of connects, drops,
  closes, wakes, timers and frames (replays, records out of order, pages that answer nobody), the records
  a view received since the last reset, after the rows it resumed from, are those of the transcript from some number up to
  the cursor that the socket reports, each once, in order and without a hole. The frames are assumed to
  carry records of the transcript, and a page to be in order.
\<close>

theorem socket_shows_transcript:
  assumes "\<forall>i \<in> set inputs. input_ok i \<and> list_all (genuine f) (input_records i)"
    and "resumes held c" and "list_all (genuine f) held"
  shows "\<exists>lo. received held (cs_events (fold socket_step inputs (new_socket now c))) =
              map f [lo..cs_lastSeq (fold socket_step inputs (new_socket now c))]"
proof -
  let ?s = "fold socket_step inputs (new_socket now c)"
  let ?rs = "received held (cs_events ?s)"
  have ok: "stream_ok held [] ?s" using socket_stream [of inputs held c now] assms(1,2) by blast
  have "carries (genuine f) ?s" using genuine_stream.run_guarded [OF carries_new] assms(1) by blast
  then have P: "list_all (genuine f) ?rs" using received_carried [OF assms(3)] by (simp add: carries_def)
  show ?thesis
  proof (cases "?rs = []")
    case True
    then show ?thesis by (intro exI [of _ "cs_lastSeq ?s + 1"]) simp
  next
    case False
    then show ?thesis
      using genuine_slice [OF _ P False] ok by (auto simp: stream_ok_def stream_at_def track_def)
  qed
qed

theorem socket_shows_transcript_witness:
  "list_all input_ok wide_inputs \<and> resumes [seen 0, seen 1] (Some wide_cursor) \<and>
   received [seen 0, seen 1] (cs_events (fold socket_step wide_inputs (new_socket 0 (Some wide_cursor)))) = map seen [0, 1, 2, 3] \<and>
   (\<exists>lo. received [seen 0, seen 1] (cs_events (fold socket_step wide_inputs (new_socket 0 (Some wide_cursor)))) = map seen [lo..3])"
proof -
  have ok: "list_all (\<lambda>i. input_ok i \<and> list_all (genuine seen) (input_records i)) wide_inputs"
    by (simp add: wide_inputs_def seen_def in_sequence_def genuine_def)
  have res: "resumes [seen 0, seen 1] (Some wide_cursor)"
    by (simp add: resumes_def wide_cursor_def cursor_ok_def safe_integer_def in_sequence_def seen_def upto.simps)
  have held: "list_all (genuine seen) [seen 0, seen 1]" by (simp add: genuine_def seen_def)
  show ?thesis
    using socket_shows_transcript [of wide_inputs seen _ _ 0, OF _ res held] ok res wide_run by (simp add: list_all_iff)
qed

subsection \<open>A hole is closed\<close>

lemma collect_succ:
  "0 \<le> cs_lastSeq s \<Longrightarrow> cr_seq r = cs_lastSeq s + 1 \<Longrightarrow>
   collect now r (applied, s) = drainAhead (applied @ [r]) (s\<lparr>cs_lastSeq := cr_seq r\<rparr>)"
  by (simp add: collect_def)

text \<open>A page that closes the hole below one early record releases both.\<close>

lemma collects_fill:
  assumes "page \<noteq> []" and "0 \<le> cs_lastSeq s" and "map cr_seq page = [cs_lastSeq s + 1..n]"
    and "cs_ahead s = [r]" and "cr_seq r = n + 1"
  shows "fold (collect now) page (applied, s) = (applied @ page @ [r], s\<lparr>cs_lastSeq := n + 1, cs_ahead := []\<rparr>)"
  using assms
proof (induction page arbitrary: applied s)
  case (Cons x page)
  let ?s = "s\<lparr>cs_lastSeq := cr_seq x\<rparr>"
  have le: "cs_lastSeq s + 1 \<le> n" using Cons.prems(3) by (metis list.distinct(1) list.simps(9) not_less upto_Nil)
  then have x: "cr_seq x = cs_lastSeq s + 1" and rest: "map cr_seq page = [cs_lastSeq s + 1 + 1..n]"
    using Cons.prems(3) upto_rec1 [OF le] by simp_all
  have c: "collect now x (applied, s) = drainAhead (applied @ [x]) ?s" using collect_succ Cons.prems(2) x by blast
  show ?case
  proof (cases "page = []")
    case True
    then have n: "cr_seq x = n" using rest x le by (metis list.simps(8) not_less upto.simps list.distinct(1) order_antisym zless_imp_add1_zle)
    then show ?thesis using True c Cons.prems(4,5) by (simp add: drainAhead.simps)
  next
    case False
    then have "cr_seq x < n" using rest x by (metis Nil_is_map_conv upto_Nil add1_zle_eq not_less)
    then have "drainAhead (applied @ [x]) ?s = (applied @ [x], ?s)" using Cons.prems(4,5) by (simp add: drainAhead.simps)
    moreover have "fold (collect now) page (applied @ [x], ?s) = ((applied @ [x]) @ page @ [r], ?s\<lparr>cs_lastSeq := n + 1, cs_ahead := []\<rparr>)"
      using Cons.IH [OF False, of ?s "applied @ [x]"] Cons.prems(2,4,5) rest x by simp
    ultimately show ?thesis using c by simp
  qed
qed simp

text \<open>A page that ends below an early record is shown alone.\<close>

lemma collects_part:
  assumes "0 \<le> cs_lastSeq s" and "map cr_seq page = [cs_lastSeq s + 1..n]" and "page \<noteq> []" and "cs_ahead s = [r]" and "n + 1 < cr_seq r"
  shows "fold (collect now) page (applied, s) = (applied @ page, s\<lparr>cs_lastSeq := n\<rparr>)"
  using assms
proof (induction page arbitrary: applied s)
  case (Cons x page)
  let ?s = "s\<lparr>cs_lastSeq := cr_seq x\<rparr>"
  have le: "cs_lastSeq s + 1 \<le> n" using Cons.prems(2) by (metis list.distinct(1) list.simps(9) not_less upto_Nil)
  then have x: "cr_seq x = cs_lastSeq s + 1" and rest: "map cr_seq page = [cs_lastSeq s + 1 + 1..n]"
    using Cons.prems(2) upto_rec1 [OF le] by simp_all
  have c: "collect now x (applied, s) = drainAhead (applied @ [x]) ?s" using collect_succ Cons.prems(1) x by blast
  have "drainAhead (applied @ [x]) ?s = (applied @ [x], ?s)" using Cons.prems(4,5) x le by (simp add: drainAhead.simps)
  moreover have "fold (collect now) page (applied @ [x], ?s) = ((applied @ [x]) @ page, s\<lparr>cs_lastSeq := n\<rparr>)"
  proof (cases "page = []")
    case True
    then have "cr_seq x = n" using rest x le by (metis list.simps(8) not_less upto.simps list.distinct(1) order_antisym zless_imp_add1_zle)
    then show ?thesis using True by simp
  next
    case False
    then show ?thesis using Cons.IH [of ?s "applied @ [x]"] Cons.prems(1,4,5) rest x by simp
  qed
  ultimately show ?case using c by simp
qed simp

lemma refill_frame:
  "cs_ahead (refill now s) = cs_ahead s" "cs_events (refill now s) = cs_events s" "cs_lastSeq (refill now s) = cs_lastSeq s"
  "cs_older (refill now s) = cs_older s" "cs_sent (refill now s) = cs_sent s" "cs_socket (refill now s) = cs_socket s"
  "cs_requestCounter (refill now s) = cs_requestCounter s" "cs_tokens (refill now (s\<lparr>cs_ahead := a\<rparr>)) = cs_tokens (refill now s)"
  by (simp_all add: refill_def Let_def)

lemma collect_early:
  assumes "cs_ahead s = []" and "0 \<le> cs_lastSeq s" and "cs_lastSeq s + 1 < cr_seq r"
  shows "collect now r (applied, s) = (applied, snd (requestGap now (cr_seq r - 1) (s\<lparr>cs_ahead := [r]\<rparr>)))"
  using assms by (simp add: collect_def MAX_BUFFERED_AHEAD_def)

lemma gap_request:
  assumes "cs_socket s = SocketOpen" and "\<not> cs_gapPending s" and "cs_lastSeq s < n" and "n - cs_lastSeq s \<le> MAX_RESUME_RECORDS"
    and "1 \<le> cs_tokens (refill now s)"
  shows "snd (requestGap now n s) =
    (refill now s)\<lparr>cs_tokens := cs_tokens (refill now s) - 1, cs_requestCounter := cs_requestCounter s + 1,
      cs_sent := cs_sent s @ [SBackfill (''g'' @ digits (cs_requestCounter s + 1)) (cs_lastSeq s + 1) n], cs_gapPending := True\<rparr>"
proof -
  have "min n (cs_lastSeq s + 1 + MAX_RESUME_RECORDS - 1) = n" using assms(4) by simp
  moreover have "\<not> n < cs_lastSeq s + 1" using assms(3) by simp
  ultimately show ?thesis
    using assms(1,2,5)
    by (simp add: requestGap_def takeBudget_def nextRequestId_def send_def refill_frame Let_def)
qed

text \<open>
  C29: a hole closes itself. When an open socket that is up to date gets a record that does not follow its cursor, it shows
  nothing and asks for exactly the missing numbers; when their page comes, it shows the page and then the early
  record in one batch, stands at that record and waits for nothing. (The hole is at most the 2000 records of one request, and the
  client's budget has a request left.)
\<close>

theorem gap_is_filled:
  assumes "cs_socket s = SocketOpen" and "\<not> cs_gapPending s" and "cs_ahead s = []" and "0 \<le> cs_lastSeq s"
    and "cs_lastSeq s + 1 < cr_seq r" and "cr_seq r - cs_lastSeq s - 1 \<le> MAX_RESUME_RECORDS"
    and "1 \<le> cs_tokens (refill now s)" and "map_of (cs_older s) (''g'' @ digits (cs_requestCounter s + 1)) = None"
    and "map cr_seq page = [cs_lastSeq s + 1..cr_seq r - 1]"
    and "s1 = handleFrame now (FRecord r) s"
    and "s2 = handleFrame now' (FBackfill (''g'' @ digits (cs_requestCounter s + 1)) (cs_lastSeq s + 1) (cr_seq r - 1) whole page) s1"
  shows "cs_sent s1 = cs_sent s @ [SBackfill (''g'' @ digits (cs_requestCounter s + 1)) (cs_lastSeq s + 1) (cr_seq r - 1)] \<and>
         cs_events s1 = cs_events s \<and> cs_events s2 = cs_events s @ [EvRecords (page @ [r])] \<and>
         cs_lastSeq s2 = cr_seq r \<and> cs_ahead s2 = [] \<and> \<not> cs_gapPending s2"
proof -
  let ?s = "s\<lparr>cs_ahead := [r]\<rparr>"
  have "s1 = snd (requestGap now (cr_seq r - 1) ?s)"
    using assms(10) collect_early [OF assms(3,4,5)] by (simp add: applyRecord_def flush_def)
  also have "\<dots> = (refill now ?s)\<lparr>cs_tokens := cs_tokens (refill now ?s) - 1, cs_requestCounter := cs_requestCounter s + 1,
      cs_sent := cs_sent s @ [SBackfill (''g'' @ digits (cs_requestCounter s + 1)) (cs_lastSeq s + 1) (cr_seq r - 1)], cs_gapPending := True\<rparr>"
    using gap_request [of ?s "cr_seq r - 1" now] assms(1,2,5-7) by (simp add: refill_frame)
  finally have f: "cs_events s1 = cs_events s" "cs_lastSeq s1 = cs_lastSeq s" "cs_ahead s1 = [r]" "cs_older s1 = cs_older s"
    "cs_sent s1 = cs_sent s @ [SBackfill (''g'' @ digits (cs_requestCounter s + 1)) (cs_lastSeq s + 1) (cr_seq r - 1)]"
    by (simp_all add: refill_frame)
  have ne: "page \<noteq> []" using assms(5,9) by auto
  have "fold (collect now') page ([], s1\<lparr>cs_gapPending := False\<rparr>) =
      (page @ [r], s1\<lparr>cs_gapPending := False, cs_lastSeq := cr_seq r, cs_ahead := []\<rparr>)"
    using collects_fill [OF ne, of "s1\<lparr>cs_gapPending := False\<rparr>" "cr_seq r - 1" r now' "[]"] assms(4,9) f by simp
  then show ?thesis
    using f assms(8,11) by (simp add: handleBackfillReply_def flush_def emit_def Let_def sql_min.simps)
qed

definition wide_open :: socket where
  "wide_open = (new_socket 0 (Some wide_cursor))\<lparr>cs_socket := SocketOpen, cs_stopped := False, cs_status := StLive\<rparr>"

theorem gap_is_filled_witness:
  "cs_events (handleFrame 3 (FBackfill ''g1'' 2 3 True [seen 2, seen 3]) (handleFrame 2 (FRecord (seen 4)) wide_open)) =
     [EvRecords [seen 2, seen 3, seen 4]]"
proof -
  have d: "digits (Suc 0) = ''1''" by code_simp
  have o: "cs_socket wide_open = SocketOpen" "\<not> cs_gapPending wide_open" "cs_ahead wide_open = []" "cs_lastSeq wide_open = 1"
    "cs_tokens (refill 2 wide_open) = 20" "cs_older wide_open = []" "cs_requestCounter wide_open = 0" "cs_events wide_open = []"
    by (simp_all add: wide_open_def socket_run_defs)
  have "map cr_seq [seen 2, seen 3] = [1 + 1..cr_seq (seen 4) - 1]" by (simp add: seen_def upto.simps)
  then show ?thesis
    using gap_is_filled [of wide_open "seen 4" 2 "[seen 2, seen 3]" _ _ 3 True, OF _ _ _ _ _ _ _ _ _ refl refl] o d
    by (simp add: seen_def MAX_RESUME_RECORDS_def)
qed

end
