(* ===== verification/Conversation_View.thy ===== *)
theory Conversation_View
  imports Conversation_Socket
begin

text \<open>
  What a client shows of a conversation: the reducer of \<open>packages/contracts/conversation-store-reducer.ts\<close> and the store of
  \<open>packages/mobile/src/lib/cloud-conversation-store.ts\<close> that applies the events of a socket to it.

  A method of the socket reports its events while it runs and no event handler calls the socket back, so the events of one
  call are a list which the store applies in order. Listeners, their coalescing timer and the text of the
  notices are not modelled; a timer of the store may fire at any time.
\<close>

subsection \<open>The view\<close>

datatype older_notice = OLDER_LIMIT_NOTICE | OLDER_INCOMPLETE_NOTICE | OLDER_EXHAUSTED_NOTICE

datatype status_text = FromSocket notice | NotOnDeployment

record live_turn =
  lt_turnId :: string
  lt_toolName :: "string option"
  lt_toolLabel :: "string option"

record view =
  vw_status :: socket_status
  vw_statusMessage :: "status_text option"
  vw_statusRetryable :: bool
  vw_epoch :: "int option"
  vw_headSeq :: int
  vw_records :: "client_record list"
  vw_live :: "live_turn option"
  vw_title :: string
  vw_floorSeq :: int
  vw_hasOlder :: bool
  vw_loadingOlder :: bool
  vw_olderNotice :: "older_notice option"
  vw_running :: bool
  vw_runningAgents :: "json list"
  vw_runningAgentsAtMs :: ms

definition initialConversationViewState :: view where
  "initialConversationViewState =
     \<lparr>vw_status = StIdle, vw_statusMessage = None, vw_statusRetryable = True, vw_epoch = None, vw_headSeq = -1, vw_records = [],
      vw_live = None, vw_title = [], vw_floorSeq = 0, vw_hasOlder = False, vw_loadingOlder = False, vw_olderNotice = None,
      vw_running = False, vw_runningAgents = [], vw_runningAgentsAtMs = 0\<rparr>"

definition olderWouldExceedRetainedLimit :: "client_record list \<Rightarrow> bool" where
  "olderWouldExceedRetainedLimit records \<longleftrightarrow> int (length records) + CLIENT_BATCH_RECORDS > int MAX_CLIENT_RECORDS"

definition liveTurnFromReady :: "live_snapshot option \<Rightarrow> live_turn option" where
  "liveTurnFromReady live =
     map_option (\<lambda>l. \<lparr>lt_turnId = ls_turnId l,
                      lt_toolName = (if ls_tools l = [] then None else Some (fst (last (ls_tools l)))),
                      lt_toolLabel = (if ls_tools l = [] then None else snd (last (ls_tools l)))\<rparr>) live"

definition liveTurnWithTool :: "live_turn option \<Rightarrow> tool_frame \<Rightarrow> live_turn" where
  "liveTurnWithTool live tool =
     (let current = (case live of
                       Some l \<Rightarrow> if lt_turnId l = tf_turnId tool then l
                                 else \<lparr>lt_turnId = tf_turnId tool, lt_toolName = None, lt_toolLabel = None\<rparr>
                     | None \<Rightarrow> \<lparr>lt_turnId = tf_turnId tool, lt_toolName = None, lt_toolLabel = None\<rparr>)
      in current\<lparr>lt_toolName := (if tf_phase tool = ''start'' then Some (tf_name tool) else None),
                 lt_toolLabel := (if tf_phase tool = ''start'' then tf_label tool else None)\<rparr>)"

fun liveTurnAfterRecords :: "live_turn option \<Rightarrow> client_record list \<Rightarrow> live_turn option" where
  "liveTurnAfterRecords live [] = live"
| "liveTurnAfterRecords live (CTurn seq turnId created phase a b c d # rs) =
     liveTurnAfterRecords
       (if phase = ''started''
        then if map_option lt_turnId live \<noteq> Some turnId
             then Some \<lparr>lt_turnId = turnId, lt_toolName = None, lt_toolLabel = None\<rparr> else live
        else if map_option lt_turnId live = Some turnId then None else live) rs"
| "liveTurnAfterRecords live (r # rs) = liveTurnAfterRecords live rs"

record appended =
  ap_records :: "client_record list"
  ap_fresh :: "client_record list"
  ap_hasOlder :: bool
  ap_headSeq :: int

text \<open>\<open>replaceRetained\<close> is the option of that name.\<close>

definition appendJournalRecords :: "view \<Rightarrow> client_record list \<Rightarrow> bool \<Rightarrow> appended option" where
  "appendJournalRecords v incoming replaceRetained =
     (let retained = (if replaceRetained then [] else vw_records v);
          lastStored = (if retained = [] then -1 else cr_seq (last retained));
          fresh = filter (\<lambda>r. cr_seq r > lastStored) incoming
      in if incoming = [] \<or> fresh = [] then None
         else
           let restart = (lastStored \<ge> 0 \<and> cr_seq (hd fresh) > lastStored + 1);
               joined = (if restart then [] else retained) @ fresh;
               over = length joined > MAX_CLIENT_RECORDS;
               records = (if over then drop (length joined - MAX_CLIENT_RECORDS) joined else joined);
               hasOlder = (if replaceRetained then cr_seq (hd fresh) > vw_floorSeq v else vw_hasOlder v \<or> restart)
           in Some \<lparr>ap_records = records, ap_fresh = fresh,
                    ap_hasOlder = (over \<or> cr_seq (hd records) > vw_floorSeq v \<or> hasOlder),
                    ap_headSeq = max (vw_headSeq v) (cr_seq (last records))\<rparr>)"

definition olderRangeIsComplete :: "client_record list \<Rightarrow> bool \<Rightarrow> int \<Rightarrow> int \<Rightarrow> bool" where
  "olderRangeIsComplete incoming whole fromSeq toSeq \<longleftrightarrow>
     whole \<and> int (length incoming) = toSeq - fromSeq + 1 \<and>
     list_all (\<lambda>(r, index). cr_seq r = fromSeq + int index) (zip incoming [0..<length incoming])"

definition prependOlderRecords :: "view \<Rightarrow> client_record list \<Rightarrow> (client_record list \<times> bool) option" where
  "prependOlderRecords v page =
     (let older = sort_key cr_seq (filter (\<lambda>r. vw_records v = [] \<or> cr_seq r < cr_seq (hd (vw_records v))) page) in
      if older = [] then None
      else Some (older @ vw_records v, cr_seq (hd older) > vw_floorSeq v))"

subsection \<open>The store's handlers\<close>

definition appendRecords :: "client_record list \<Rightarrow> view \<Rightarrow> view" where
  "appendRecords incoming v =
     (case appendJournalRecords v incoming False of
        None \<Rightarrow> v
      | Some a \<Rightarrow> v\<lparr>vw_records := ap_records a, vw_hasOlder := ap_hasOlder a,
                    vw_live := liveTurnAfterRecords (vw_live v) (ap_fresh a), vw_headSeq := ap_headSeq a\<rparr>)"

definition prependRecords :: "client_record list \<Rightarrow> bool \<Rightarrow> int \<Rightarrow> int \<Rightarrow> view \<Rightarrow> view" where
  "prependRecords incoming whole fromSeq toSeq v =
     (if \<not> olderRangeIsComplete incoming whole fromSeq toSeq
      then v\<lparr>vw_hasOlder := True, vw_loadingOlder := False, vw_olderNotice := Some OLDER_INCOMPLETE_NOTICE\<rparr>
      else case prependOlderRecords v incoming of
             None \<Rightarrow> v\<lparr>vw_hasOlder := False, vw_loadingOlder := False, vw_olderNotice := Some OLDER_EXHAUSTED_NOTICE\<rparr>
           | Some (records, hasOlder) \<Rightarrow>
               v\<lparr>vw_records := records, vw_hasOlder := hasOlder, vw_loadingOlder := False, vw_olderNotice := None\<rparr>)"

definition onReady :: "ready \<Rightarrow> view \<Rightarrow> view" where
  "onReady r v =
     (let epochChanged = (vw_epoch v \<noteq> None \<and> vw_epoch v \<noteq> Some (rd_epoch r));
          records = (if epochChanged then [] else vw_records v);
          oldest = (if records = [] then rd_windowStartSeq r else cr_seq (hd records));
          v1 = v\<lparr>vw_title := rd_title r, vw_epoch := Some (rd_epoch r), vw_headSeq := rd_headSeq r, vw_floorSeq := rd_floorSeq r,
                 vw_running := (rd_activity r = ''running''), vw_runningAgents := rd_agents r,
                 vw_runningAgentsAtMs := rd_serverTimeMs r, vw_hasOlder := (oldest > rd_floorSeq r),
                 vw_live := liveTurnFromReady (rd_live r)\<rparr>
      in if epochChanged then v1\<lparr>vw_records := [], vw_loadingOlder := False, vw_olderNotice := None\<rparr> else v1)"

fun onEvent :: "socket_event \<Rightarrow> view \<Rightarrow> view" where
  "onEvent (EvStatus status message retryable) v =
     v\<lparr>vw_status := status, vw_statusMessage := map_option FromSocket message, vw_statusRetryable := retryable\<rparr>"
| "onEvent (EvReady r) v = onReady r v"
| "onEvent (EvAgents agents t) v = v\<lparr>vw_runningAgents := agents, vw_runningAgentsAtMs := t\<rparr>"
| "onEvent (EvRecords rs) v = appendRecords rs v"
| "onEvent (EvOlder rs whole fromSeq toSeq) v = prependRecords rs whole fromSeq toSeq v"
| "onEvent (EvReset reason) v =
     v\<lparr>vw_records := [], vw_live := None, vw_hasOlder := False, vw_loadingOlder := False, vw_olderNotice := None\<rparr>"
| "onEvent (EvGap fromSeq toSeq) v = v\<lparr>vw_floorSeq := max (vw_floorSeq v) (toSeq + 1), vw_hasOlder := True\<rparr>"
| "onEvent (EvTool t) v = v\<lparr>vw_live := Some (liveTurnWithTool (vw_live v) t)\<rparr>"

subsection \<open>The store\<close>

record store =
  so_view :: view
  so_socket :: "socket option"
  so_subscribers :: int
  so_baseUrl :: "string option"
  so_hydrating :: bool
  so_hydrateRequested :: bool

record store_seed =
  sd_epoch :: int
  sd_headSeq :: int
  sd_floorSeq :: int
  sd_records :: "client_record list"

definition new_store :: store where
  "new_store = \<lparr>so_view = initialConversationViewState, so_socket = None, so_subscribers = 0, so_baseUrl = None,
     so_hydrating = False, so_hydrateRequested = False\<rparr>"

text \<open>A call of a method of the socket, with the events it reports.\<close>

definition deliver :: "(socket \<Rightarrow> socket) \<Rightarrow> store \<Rightarrow> store" where
  "deliver m st =
     (case so_socket st of
        None \<Rightarrow> st
      | Some s \<Rightarrow> let s' = m s in
                  st\<lparr>so_view := fold onEvent (cs_events s') (so_view st), so_socket := Some (s'\<lparr>cs_events := []\<rparr>)\<rparr>)"

definition dropSocket :: "store \<Rightarrow> store" where
  "dropSocket st = (deliver stop st)\<lparr>so_socket := None\<rparr>"

definition view_cursor :: "view \<Rightarrow> socket_cursor option" where
  "view_cursor v =
     (case vw_epoch v of
        Some epoch \<Rightarrow>
          if vw_records v \<noteq> [] \<and> cr_seq (last (vw_records v)) \<ge> 0
          then Some \<lparr>sc_epoch = epoch, sc_lastSeq = cr_seq (last (vw_records v)), sc_headSeq = cr_seq (last (vw_records v)),
                     sc_floorSeq = vw_floorSeq v, sc_windowStartSeq = cr_seq (hd (vw_records v))\<rparr>
          else None
      | None \<Rightarrow> None)"

definition ensureSocket :: "ms \<Rightarrow> store \<Rightarrow> store" where
  "ensureSocket now st =
     (if so_socket st \<noteq> None \<or> so_subscribers st \<le> 0 \<or> so_baseUrl st = None \<or> so_hydrating st then st
      else deliver start (st\<lparr>so_socket := Some (new_socket now (view_cursor (so_view st)))\<rparr>))"

definition subscribe :: "ms \<Rightarrow> store \<Rightarrow> store" where
  "subscribe now st = ensureSocket now (st\<lparr>so_subscribers := so_subscribers st + 1\<rparr>)"

definition unsubscribe :: "store \<Rightarrow> store" where
  "unsubscribe st = st\<lparr>so_subscribers := so_subscribers st - 1\<rparr>"

definition teardown :: "store \<Rightarrow> store" where
  "teardown st =
     (let st1 = dropSocket st in
      st1\<lparr>so_view := (so_view st1)\<lparr>vw_status := StIdle, vw_live := None, vw_loadingOlder := False\<rparr>\<rparr>)"

definition teardownTimer :: "store \<Rightarrow> store" where
  "teardownTimer st = (if so_subscribers st \<le> 0 then teardown st else st)"

text \<open>The origin comes with its trailing slashes removed, \<open>None\<close> for an empty one.\<close>

definition setConfig :: "ms \<Rightarrow> string option \<Rightarrow> bool \<Rightarrow> store \<Rightarrow> store" where
  "setConfig now origin resolved st =
     (let st1 =
        (if origin = so_baseUrl st then st
         else let st2 = dropSocket (st\<lparr>so_baseUrl := origin\<rparr>);
                  st3 = (if so_baseUrl st \<noteq> None then st2\<lparr>so_view := initialConversationViewState\<rparr> else st2)
              in ensureSocket now st3)
      in if origin = None \<and> resolved \<and> vw_status (so_view st1) \<noteq> StBlocked
         then st1\<lparr>so_view := (so_view st1)\<lparr>vw_status := StBlocked, vw_statusMessage := Some NotOnDeployment,
                              vw_statusRetryable := False\<rparr>\<rparr>
         else st1)"

definition untouched :: "store \<Rightarrow> bool" where
  "untouched st \<longleftrightarrow> so_socket st = None \<and> vw_epoch (so_view st) = None \<and> vw_records (so_view st) = []"

definition hydrate :: "store \<Rightarrow> store" where
  "hydrate st =
     (if so_hydrateRequested st then st
      else if untouched st then st\<lparr>so_hydrateRequested := True, so_hydrating := True\<rparr>
      else st\<lparr>so_hydrateRequested := True\<rparr>)"

fun contiguous :: "client_record list \<Rightarrow> bool" where
  "contiguous (a # b # rs) \<longleftrightarrow> cr_seq b = cr_seq a + 1 \<and> contiguous (b # rs)"
| "contiguous _ \<longleftrightarrow> True"

definition applySeed :: "store_seed \<Rightarrow> store \<Rightarrow> store" where
  "applySeed seed st =
     (if \<not> untouched st then st
      else if sd_records seed = [] \<or> cr_seq (last (sd_records seed)) \<noteq> sd_headSeq seed then st
      else if \<not> contiguous (sd_records seed) then st
      else st\<lparr>so_view := (so_view st)\<lparr>vw_epoch := Some (sd_epoch seed), vw_headSeq := sd_headSeq seed, vw_floorSeq := sd_floorSeq seed,
                vw_records := drop (length (sd_records seed) - MAX_CLIENT_RECORDS) (sd_records seed),
                vw_hasOlder := (cr_seq (hd (sd_records seed)) > sd_floorSeq seed)\<rparr>\<rparr>)"

text \<open>The disk has answered, with a seed or without, or the wait for it is over.\<close>

definition hydrated :: "ms \<Rightarrow> store_seed option \<Rightarrow> store \<Rightarrow> store" where
  "hydrated now seed st =
     (if \<not> so_hydrating st then st
      else let st1 = (case seed of Some x \<Rightarrow> applySeed x st | None \<Rightarrow> st)
           in ensureSocket now (st1\<lparr>so_hydrating := False\<rparr>))"

definition retireAuthority :: "store \<Rightarrow> store" where
  "retireAuthority st = (dropSocket st)\<lparr>so_baseUrl := None, so_view := initialConversationViewState\<rparr>"

definition loadOlder :: "ms \<Rightarrow> store \<Rightarrow> store" where
  "loadOlder now st =
     (let v = so_view st in
      if vw_loadingOlder v \<or> \<not> vw_hasOlder v then st
      else if vw_records v = [] \<or> cr_seq (hd (vw_records v)) \<le> vw_floorSeq v then st\<lparr>so_view := v\<lparr>vw_hasOlder := False\<rparr>\<rparr>
      else if olderWouldExceedRetainedLimit (vw_records v)
      then st\<lparr>so_view := v\<lparr>vw_hasOlder := False, vw_olderNotice := Some OLDER_LIMIT_NOTICE\<rparr>\<rparr>
      else case so_socket st of
             None \<Rightarrow> st
           | Some s \<Rightarrow>
               let (sent, s') = requestOlder now (cr_seq (hd (vw_records v))) s;
                   st1 = st\<lparr>so_socket := Some s'\<rparr>
               in if sent then st1\<lparr>so_view := v\<lparr>vw_loadingOlder := True, vw_olderNotice := None\<rparr>\<rparr> else st1)"

definition olderTimer :: "store \<Rightarrow> store" where
  "olderTimer st = (if vw_loadingOlder (so_view st) then st\<lparr>so_view := (so_view st)\<lparr>vw_loadingOlder := False\<rparr>\<rparr> else st)"

datatype store_input =
    SoSubscribe ms
  | SoUnsubscribe
  | SoTeardownTimer
  | SoConfig ms "string option" bool
  | SoHydrate
  | SoHydrated ms "store_seed option"
  | SoRetire
  | SoLoadOlder ms
  | SoOlderTimer
  | SoSocket socket_input

fun store_step :: "store_input \<Rightarrow> store \<Rightarrow> store" where
  "store_step (SoSubscribe now) st = subscribe now st"
| "store_step SoUnsubscribe st = unsubscribe st"
| "store_step SoTeardownTimer st = teardownTimer st"
| "store_step (SoConfig now origin resolved) st = setConfig now origin resolved st"
| "store_step SoHydrate st = hydrate st"
| "store_step (SoHydrated now seed) st = hydrated now seed st"
| "store_step SoRetire st = retireAuthority st"
| "store_step (SoLoadOlder now) st = loadOlder now st"
| "store_step SoOlderTimer st = olderTimer st"
| "store_step (SoSocket i) st = deliver (socket_step i) st"

subsection \<open>The registry\<close>

definition MAX_RETAINED_STORES :: nat where "MAX_RETAINED_STORES = 8"

text \<open>The loop that forgets stores nobody watches, in the order of their creation.\<close>

fun forget :: "string \<Rightarrow> (string \<times> store) list \<Rightarrow> nat \<Rightarrow> (string \<times> store) list" where
  "forget key [] n = []"
| "forget key ((k, st) # rest) n =
     (if n \<le> MAX_RETAINED_STORES then (k, st) # rest
      else if k \<noteq> key \<and> so_subscribers st \<le> 0 then forget key rest (n - 1)
      else (k, st) # forget key rest n)"

definition conversationStore :: "string \<Rightarrow> (string \<times> store) list \<Rightarrow> (string \<times> store) list" where
  "conversationStore key stores =
     (if map_of stores key \<noteq> None then stores
      else let stores1 = stores @ [(key, new_store)]
           in if length stores1 > MAX_RETAINED_STORES then forget key stores1 (length stores1) else stores1)"

subsection \<open>The view is contiguous\<close>

lemma in_sequence_upto:
  assumes "map cr_seq rs = [a..b]"
  shows "in_sequence rs" "rs \<noteq> [] \<Longrightarrow> cr_seq (hd rs) = a \<and> cr_seq (last rs) = b \<and> a \<le> b"
proof -
  have "cr_seq (hd rs) = a \<and> cr_seq (last rs) = b \<and> a \<le> b" if ne: "rs \<noteq> []"
  proof -
    have le: "a \<le> b" using ne assms by (metis Nil_is_map_conv not_less upto_Nil)
    have "cr_seq (hd rs) = hd [a..b]" "cr_seq (last rs) = last [a..b]" using ne assms by (metis hd_map, metis last_map)
    then show ?thesis using le upto_rec1 [OF le] upto_rec2 [OF le] by (metis last_snoc list.sel(1))
  qed
  then show "rs \<noteq> [] \<Longrightarrow> cr_seq (hd rs) = a \<and> cr_seq (last rs) = b \<and> a \<le> b" "in_sequence rs"
    using assms by (auto simp: in_sequence_def)
qed

lemma in_sequenceE:
  assumes "in_sequence rs"
  obtains a b where "map cr_seq rs = [a..b]"
  using assms that [of 1 0] that [of "cr_seq (hd rs)" "cr_seq (last rs)"] by (auto simp: in_sequence_def)

lemma in_sequence_drop: "in_sequence rs \<Longrightarrow> in_sequence (drop n rs)"
  using in_sequence_suffix [of "take n rs" "drop n rs"] by simp

lemma in_sequence_append:
  assumes "in_sequence xs" and "in_sequence ys" and "xs \<noteq> [] \<Longrightarrow> ys \<noteq> [] \<Longrightarrow> cr_seq (hd ys) = cr_seq (last xs) + 1"
  shows "in_sequence (xs @ ys)"
proof (cases "xs = [] \<or> ys = []")
  case False
  obtain a b c d where m: "map cr_seq xs = [a..b]" "map cr_seq ys = [c..d]"
    using in_sequenceE [OF assms(1)] in_sequenceE [OF assms(2)] by metis
  then have "c = b + 1" "a \<le> b" "c \<le> d"
    using in_sequence_upto(2) [OF m(1)] in_sequence_upto(2) [OF m(2)] False assms(3) by auto
  then have "map cr_seq (xs @ ys) = [a..d]" using m upto_split1 [of a "b + 1" d] by (simp add: upto_split2 [of a b d])
  then show ?thesis by (rule in_sequence_upto(1))
qed (use assms in auto)

lemma filter_upto: "filter (\<lambda>k. n < k) [a..b] = [max a (n + 1)..b]" "filter (\<lambda>k. k < n) [a..b] = [a..min b (n - 1)]" for n a b :: int
proof -
  show "filter (\<lambda>k. n < k) [a..b] = [max a (n + 1)..b]"
  proof (induction a b rule: upto.induct)
    case (1 i j)
    then show ?case
      by (cases "i \<le> j"; cases "n < i") (auto simp: upto_rec1 [of i j] max_def upto_rec1 [of "n + 1" j] intro: arg_cong2 [of _ _ _ _ upto])
  qed
  show "filter (\<lambda>k. k < n) [a..b] = [a..min b (n - 1)]"
  proof (induction a b rule: upto.induct)
    case (1 i j)
    then show ?case
      by (cases "i \<le> j"; cases "i < n") (auto simp: upto_rec1 [of i j] upto_rec1 [of i "min j (n - 1)"])
  qed
qed

lemma filter_seqs:
  assumes "map cr_seq rs = [a..b]"
  shows "map cr_seq (filter (\<lambda>r. n < cr_seq r) rs) = [max a (n + 1)..b]" "map cr_seq (filter (\<lambda>r. cr_seq r < n) rs) = [a..min b (n - 1)]"
  using filter_upto [of n a b] unfolding assms [symmetric] filter_map o_def by simp_all

lemma append_contiguous:
  assumes v: "in_sequence (vw_records v)" and rs: "in_sequence rs" and neg: "list_all (\<lambda>r. 0 \<le> cr_seq r) (vw_records v)"
    and a: "appendJournalRecords v rs replaceRetained = Some x"
  shows "in_sequence (ap_records x) \<and> set (ap_records x) \<subseteq> set (vw_records v) \<union> set rs \<and> ap_records x \<noteq> [] \<and>
    length (ap_records x) \<le> MAX_CLIENT_RECORDS \<and> cr_seq (last (ap_records x)) = cr_seq (last rs)"
proof -
  define retained where "retained = (if replaceRetained then [] else vw_records v)"
  define lastStored where "lastStored = (if retained = [] then -1 else cr_seq (last retained))"
  define fresh where "fresh = filter (\<lambda>r. lastStored < cr_seq r) rs"
  define joined where "joined = (if lastStored \<ge> 0 \<and> cr_seq (hd fresh) > lastStored + 1 then [] else retained) @ fresh"
  have ne: "fresh \<noteq> []"
    and x: "ap_records x = (if length joined > MAX_CLIENT_RECORDS then drop (length joined - MAX_CLIENT_RECORDS) joined else joined)"
    using a unfolding appendJournalRecords_def Let_def retained_def [symmetric] lastStored_def [symmetric] fresh_def [symmetric]
      joined_def [symmetric] by (auto split: if_splits)
  obtain c d where m: "map cr_seq rs = [c..d]" using in_sequenceE [OF rs] by blast
  note f = in_sequence_upto [OF filter_seqs(1) [OF m, of lastStored], folded fresh_def]
  have rs_ne: "rs \<noteq> []" using ne by (auto simp: fresh_def)
  have stored: "retained \<noteq> [] \<Longrightarrow> 0 \<le> lastStored \<and> lastStored = cr_seq (last retained)"
    using neg by (auto simp: lastStored_def retained_def list_all_iff split: if_splits)
  have "in_sequence joined"
  proof (cases "lastStored \<ge> 0 \<and> cr_seq (hd fresh) > lastStored + 1")
    case False
    have "in_sequence retained" using v by (simp add: retained_def in_sequence_def)
    then have "in_sequence (retained @ fresh)" using f ne stored False by (intro in_sequence_append) auto
    then show ?thesis using False by (auto simp: joined_def)
  qed (use f in \<open>simp add: joined_def\<close>)
  moreover have "joined \<noteq> []" "last joined = last fresh" using ne by (auto simp: joined_def)
  moreover have "cr_seq (last fresh) = cr_seq (last rs)" using f(2) [OF ne] in_sequence_upto(2) [OF m rs_ne] by simp
  moreover have "set joined \<subseteq> set (vw_records v) \<union> set rs" by (auto simp: joined_def retained_def fresh_def)
  moreover have "set (drop n joined) \<subseteq> set joined" for n by (rule set_drop_subset)
  ultimately show ?thesis using in_sequence_drop [of joined] by (auto simp: x MAX_CLIENT_RECORDS_def)
qed

lemma complete_seqs:
  assumes "olderRangeIsComplete rs whole x y"
  shows "map cr_seq rs = [x..y]"
proof (rule nth_equalityI)
  show len: "length (map cr_seq rs) = length [x..y]" using assms unfolding olderRangeIsComplete_def by (metis length_map length_upto nat_int)
  fix i assume i: "i < length (map cr_seq rs)"
  then have "(rs ! i, i) \<in> set (zip rs [0..<length rs])" by (auto simp: set_zip intro!: exI [of _ i])
  then have "cr_seq (rs ! i) = x + int i" using assms by (auto simp: olderRangeIsComplete_def list_all_iff)
  moreover have "[x..y] ! i = x + int i" using i len by (intro nth_upto) (simp; linarith)
  ultimately show "map cr_seq rs ! i = [x..y] ! i" using i by simp
qed

text \<open>What a complete page does to the view, and when it joins what the view shows.\<close>

lemma prepend_page:
  assumes "olderRangeIsComplete rs whole x y" and "prependOlderRecords v rs = Some (records, again)"
  shows "\<exists>older. records = older @ vw_records v \<and> older \<noteq> [] \<and> set older \<subseteq> set rs \<and>
    map cr_seq older = (if vw_records v = [] then [x..y] else [x..min y (cr_seq (hd (vw_records v)) - 1)])"
proof -
  define older where "older = filter (\<lambda>r. vw_records v = [] \<or> cr_seq r < cr_seq (hd (vw_records v))) rs"
  note m = complete_seqs [OF assms(1)]
  have seqs: "map cr_seq older = (if vw_records v = [] then [x..y] else [x..min y (cr_seq (hd (vw_records v)) - 1)])"
    using m filter_seqs(2) [OF m] by (simp add: older_def)
  then have "sorted (map cr_seq older)" by (simp split: if_splits)
  then have "sort_key cr_seq older = older" by (rule sort_key_id_if_sorted)
  then have "records = older @ vw_records v" "older \<noteq> []"
    using assms(2) unfolding prependOlderRecords_def Let_def older_def [symmetric] by (auto split: if_splits)
  then show ?thesis using seqs by (intro exI [of _ older]) (auto simp: older_def)
qed

text \<open>A page joins what is shown when it reaches up to it.\<close>

fun joins :: "view \<Rightarrow> socket_event \<Rightarrow> bool" where
  "joins v (EvOlder rs whole fromSeq toSeq) \<longleftrightarrow> vw_records v = [] \<or> cr_seq (hd (vw_records v)) \<le> toSeq + 1"
| "joins v _ \<longleftrightarrow> True"

definition shows_slice :: "(int \<Rightarrow> client_record) \<Rightarrow> view \<Rightarrow> bool" where
  "shows_slice f v \<longleftrightarrow> in_sequence (vw_records v) \<and> list_all (genuine f) (vw_records v)"

lemma slice_event:
  assumes v: "shows_slice f v" and e: "batch_ok e" "list_all (genuine f) (event_records e)" "joins v e"
  shows "shows_slice f (onEvent e v)"
proof (cases e)
  case (EvRecords rs)
  have "list_all (\<lambda>r. 0 \<le> cr_seq r) (vw_records v)" using v by (simp add: shows_slice_def genuine_def list_all_iff)
  from append_contiguous [OF _ _ this, of rs False] show ?thesis
    using v e EvRecords unfolding shows_slice_def list_all_iff
    by (auto simp: appendRecords_def split: option.splits)
next
  case (EvOlder rs whole x y)
  show ?thesis
  proof (cases "olderRangeIsComplete rs whole x y \<and> prependOlderRecords v rs \<noteq> None")
    case True
    then obtain records again where p: "prependOlderRecords v rs = Some (records, again)" by auto
    obtain older where o: "records = older @ vw_records v" "older \<noteq> []" "set older \<subseteq> set rs"
      "map cr_seq older = (if vw_records v = [] then [x..y] else [x..min y (cr_seq (hd (vw_records v)) - 1)])"
      using prepend_page [OF _ p] True by blast
    obtain a b where ab: "map cr_seq older = [a..b]" using o(4) by metis
    have "in_sequence older" using in_sequence_upto(1) [OF ab] .
    moreover have "cr_seq (hd (vw_records v)) = cr_seq (last older) + 1" if "vw_records v \<noteq> []"
    proof -
      have "cr_seq (last older) = min y (cr_seq (hd (vw_records v)) - 1)"
        using in_sequence_upto(2) [of older x] o(2,4) that by simp
      then show ?thesis using e(3) EvOlder that by simp
    qed
    ultimately have "in_sequence records" using v o(1) in_sequence_append [of older "vw_records v"] by (auto simp: shows_slice_def)
    moreover have "list_all (genuine f) records" using v e(2) o(1,3) EvOlder by (auto simp: shows_slice_def list_all_iff)
    ultimately show ?thesis using True p EvOlder by (simp add: prependRecords_def shows_slice_def)
  qed (use v EvOlder in \<open>auto simp: prependRecords_def shows_slice_def split: option.splits\<close>)
qed (use v in \<open>auto simp: shows_slice_def onReady_def Let_def in_sequence_def\<close>)

subsection \<open>A store shows the transcript\<close>

lemma contiguous_in_sequence: "contiguous rs \<Longrightarrow> in_sequence rs"
proof (induction rs rule: contiguous.induct)
  case (1 a b rs)
  then have "in_sequence ([a] @ b # rs)" by (intro in_sequence_append) (simp_all add: in_sequence_def)
  then show ?case by simp
qed (simp_all add: in_sequence_def)

fun joined :: "view \<Rightarrow> socket_event list \<Rightarrow> bool" where
  "joined v [] \<longleftrightarrow> True"
| "joined v (e # es) \<longleftrightarrow> joins v e \<and> joined (onEvent e v) es"

text \<open>The events that an input makes the socket report.\<close>

fun reports :: "store_input \<Rightarrow> store \<Rightarrow> socket_event list" where
  "reports (SoSocket i) st = (case so_socket st of Some s \<Rightarrow> cs_events (socket_step i s) | None \<Rightarrow> [])"
| "reports i st = []"

fun store_input_ok :: "(int \<Rightarrow> client_record) \<Rightarrow> store_input \<Rightarrow> bool" where
  "store_input_ok f (SoSocket i) \<longleftrightarrow> input_ok i \<and> list_all (genuine f) (input_records i)"
| "store_input_ok f (SoHydrated now (Some seed)) \<longleftrightarrow> list_all (genuine f) (sd_records seed)"
| "store_input_ok f _ \<longleftrightarrow> True"

text \<open>Inputs that carry records of the transcript, and pages that join what is shown when they come.\<close>

fun admissible :: "(int \<Rightarrow> client_record) \<Rightarrow> store_input list \<Rightarrow> store \<Rightarrow> bool" where
  "admissible f [] st \<longleftrightarrow> True"
| "admissible f (i # inputs) st \<longleftrightarrow>
     store_input_ok f i \<and> joined (so_view st) (reports i st) \<and> admissible f inputs (store_step i st)"

definition store_ok :: "(int \<Rightarrow> client_record) \<Rightarrow> store \<Rightarrow> bool" where
  "store_ok f st \<longleftrightarrow>
     shows_slice f (so_view st) \<and> (case so_socket st of None \<Rightarrow> True | Some s \<Rightarrow> cs_events s = [] \<and> carries (genuine f) s)"

lemma slice_events:
  "shows_slice f v \<Longrightarrow> \<forall>e \<in> set es. batch_ok e \<Longrightarrow> list_all (\<lambda>e. list_all (genuine f) (event_records e)) es \<Longrightarrow> joined v es \<Longrightarrow>
   shows_slice f (fold onEvent es v)"
  by (induction es arbitrary: v) (simp_all add: slice_event)

lemma deliver_ok:
  assumes "store_ok f st"
    and "\<And>s. so_socket st = Some s \<Longrightarrow>
      carries (genuine f) (m s) \<and> (\<forall>e \<in> set (cs_events (m s)). batch_ok e) \<and> joined (so_view st) (cs_events (m s))"
  shows "store_ok f (deliver m st)"
proof (cases "so_socket st")
  case (Some s)
  then have "shows_slice f (fold onEvent (cs_events (m s)) (so_view st))"
    using slice_events assms(1) assms(2) [OF Some] by (simp add: store_ok_def carries_def)
  then show ?thesis using Some assms(2) [OF Some] by (simp add: store_ok_def deliver_def Let_def carries_def)
qed (use assms in \<open>simp add: deliver_def\<close>)

text \<open>The batches of one step are in order, whatever the socket did before.\<close>

lemma step_batches: "cs_events s = [] \<Longrightarrow> input_ok i \<Longrightarrow> e \<in> set (cs_events (socket_step i s)) \<Longrightarrow> batch_ok e"
  using stream_step [of "[]" s i] by (simp add: stream_ok_def track_def stream_at_def in_sequence_def)

lemma quiet_events:
  "cs_events s = [] \<Longrightarrow> joined v (cs_events (start s))" "cs_events s = [] \<Longrightarrow> joined v (cs_events (stop s))"
  by (simp_all add: start_def connect_def stop_def setStatus_def emit_def)

lemma start_ok:
  assumes "store_ok f st"
  shows "store_ok f (deliver start st)" "store_ok f (dropSocket st)"
proof -
  have s: "cs_events s = []" "carries (genuine f) s" if "so_socket st = Some s" for s
    using assms that by (simp_all add: store_ok_def)
  show "store_ok f (deliver start st)"
    by (rule deliver_ok [OF assms])
      (use s quiet_events(1) step_batches [of _ InStart] carries_step [of _ _ InStart] in auto)
  have "store_ok f (deliver stop st)"
    by (rule deliver_ok [OF assms])
      (use s quiet_events(2) step_batches [of _ InStop] carries_step [of _ _ InStop] in auto)
  then show "store_ok f (dropSocket st)" by (simp add: dropSocket_def store_ok_def)
qed

lemma ensure_ok: "store_ok f st \<Longrightarrow> store_ok f (ensureSocket now st)"
proof -
  assume ok: "store_ok f st"
  have "cs_events (new_socket now c) = []" for c by (simp add: new_socket_def Let_def split: option.splits)
  then have "store_ok f (st\<lparr>so_socket := Some (new_socket now c)\<rparr>)" for c
    using ok carries_new by (simp add: store_ok_def)
  then show ?thesis using ok start_ok(1) unfolding ensureSocket_def by simp
qed

lemma store_ok_update:
  "store_ok f (st\<lparr>so_subscribers := n\<rparr>) = store_ok f st" "store_ok f (st\<lparr>so_baseUrl := u\<rparr>) = store_ok f st"
  "store_ok f (st\<lparr>so_hydrating := h\<rparr>) = store_ok f st" "store_ok f (st\<lparr>so_hydrateRequested := q\<rparr>) = store_ok f st"
  by (simp_all add: store_ok_def)

lemma store_ok_view:
  "store_ok f st \<Longrightarrow> shows_slice f v \<Longrightarrow> store_ok f (st\<lparr>so_view := v\<rparr>)" "store_ok f st \<Longrightarrow> shows_slice f (so_view st)"
  by (simp_all add: store_ok_def)

lemma slice_initial: "shows_slice f initialConversationViewState"
  by (simp add: shows_slice_def initialConversationViewState_def in_sequence_def)

lemma slice_update:
  "shows_slice f (v\<lparr>vw_status := a\<rparr>) = shows_slice f v" "shows_slice f (v\<lparr>vw_statusMessage := b\<rparr>) = shows_slice f v"
  "shows_slice f (v\<lparr>vw_statusRetryable := c\<rparr>) = shows_slice f v" "shows_slice f (v\<lparr>vw_live := d\<rparr>) = shows_slice f v"
  "shows_slice f (v\<lparr>vw_hasOlder := g\<rparr>) = shows_slice f v" "shows_slice f (v\<lparr>vw_loadingOlder := h\<rparr>) = shows_slice f v"
  "shows_slice f (v\<lparr>vw_olderNotice := k\<rparr>) = shows_slice f v"
  by (simp_all add: shows_slice_def)

lemma seed_ok:
  assumes "store_ok f st" and "list_all (genuine f) (sd_records seed)"
  shows "store_ok f (applySeed seed st)"
proof -
  have "shows_slice f (v\<lparr>vw_epoch := a, vw_headSeq := b, vw_floorSeq := c, vw_records := drop n (sd_records seed), vw_hasOlder := h\<rparr>)"
    if "contiguous (sd_records seed)" for v a b c n h
    using in_sequence_drop [OF contiguous_in_sequence [OF that]] assms(2)
    by (auto simp: shows_slice_def list_all_iff dest: in_set_dropD)
  then show ?thesis using assms(1) by (simp add: applySeed_def store_ok_view(1))
qed

lemma load_ok: "store_ok f st \<Longrightarrow> store_ok f (loadOlder now st)"
proof -
  assume ok: "store_ok f st"
  show ?thesis
  proof (cases "so_socket st")
    case None
    then show ?thesis using ok store_ok_view [OF ok] by (simp add: loadOlder_def Let_def slice_update)
  next
    case (Some s)
    have "carries (genuine f) (snd (requestOlder now n s))" "cs_events (snd (requestOlder now n s)) = []" for n
      using carries_step [of "genuine f" s "InOlder now n"] ok Some
      by (simp_all add: store_ok_def requestOlder_def requestOlderRange_def Let_def takeBudget_def refill_def nextRequestId_def send_def)
    then have sent: "store_ok f (st\<lparr>so_socket := Some (snd (requestOlder now n s))\<rparr>)" for n using ok by (simp add: store_ok_def)
    have "shows_slice f (so_view st)" by (rule store_ok_view(2) [OF ok])
    then show ?thesis
      using Some ok store_ok_view(1) [OF ok] sent store_ok_view(1) [OF sent]
      by (simp add: loadOlder_def Let_def slice_update split_beta)
  qed
qed

lemma store_step_ok:
  assumes ok: "store_ok f st" and i: "store_input_ok f i" and j: "joined (so_view st) (reports i st)"
  shows "store_ok f (store_step i st)"
proof (cases i)
  case (SoSocket x)
  have "carries (genuine f) (socket_step x s) \<and> (\<forall>e \<in> set (cs_events (socket_step x s)). batch_ok e) \<and>
      joined (so_view st) (cs_events (socket_step x s))" if "so_socket st = Some s" for s
    using that ok i j SoSocket carries_step [of "genuine f" s x] step_batches [of s x] by (auto simp: store_ok_def)
  then show ?thesis using deliver_ok [OF ok] SoSocket by simp
next
  case (SoHydrated now seed)
  then show ?thesis
    using ok i seed_ok [OF ok] ensure_ok by (cases seed) (simp_all add: hydrated_def store_ok_update)
next
  case (SoConfig now origin resolved)
  then show ?thesis
    using ok start_ok(2) ensure_ok slice_initial store_ok_view
    by (simp add: setConfig_def Let_def store_ok_update slice_update)
qed (use ok start_ok(2) [OF ok] ensure_ok load_ok store_ok_view slice_initial in
    \<open>simp_all add: subscribe_def unsubscribe_def teardownTimer_def teardown_def Let_def hydrate_def retireAuthority_def
      olderTimer_def store_ok_update slice_update\<close>)

lemma store_run_ok: "store_ok f st \<Longrightarrow> admissible f inputs st \<Longrightarrow> store_ok f (fold store_step inputs st)"
  by (induction inputs arbitrary: st) (simp_all add: store_step_ok)

text \<open>
  C4: What a client shows is always a slice of the transcript. Start from an empty store and let anything
  happen (subscribers come and go, the origin changes, a seed is read from disk, the connection breaks and
  resumes, records are replayed or come early, older pages are loaded): the records of the view are those of the transcript
  from one number to another, each once and in order. Frames and seeds are assumed to carry records of the
  transcript, and an older page to reach up to what is shown at the moment it arrives.
\<close>

theorem view_shows_transcript:
  assumes "admissible f inputs new_store"
  shows "\<exists>lo hi. vw_records (so_view (fold store_step inputs new_store)) = map f [lo..hi]"
proof -
  have "store_ok f new_store" by (simp add: new_store_def store_ok_def slice_initial)
  from store_run_ok [OF this assms] have "shows_slice f (so_view (fold store_step inputs new_store))" by (rule store_ok_view(2))
  then show ?thesis
    using genuine_slice [of "vw_records (so_view (fold store_step inputs new_store))" f]
    by (cases "vw_records (so_view (fold store_step inputs new_store)) = []")
      (auto simp: shows_slice_def intro: exI [of _ 1] exI [of _ 0])
qed

text \<open>A store that resumes from a seed of three rows, is sent two records in the wrong order and loads the two rows below.\<close>

definition wide_seed :: store_seed where
  "wide_seed = \<lparr>sd_epoch = 0, sd_headSeq = 4, sd_floorSeq = 0, sd_records = map seen [2, 3, 4]\<rparr>"

definition wide_store_ready :: ready where
  "wide_store_ready = wide_ready\<lparr>rd_headSeq := 6, rd_windowStartSeq := 5\<rparr>"

definition wide_store_inputs :: "store_input list" where
  "wide_store_inputs =
     [SoHydrate, SoConfig 0 (Some ''wss://builder'') True, SoSubscribe 0, SoHydrated 1 (Some wide_seed),
      SoSocket (InToken 2 SocketMade), SoSocket (InOpen 3), SoSocket (InFrame 4 (FReady wide_store_ready)),
      SoSocket (InFrame 5 (FRecord (seen 6))), SoSocket (InFrame 6 (FBackfill ''g1'' 5 5 True [seen 5])), SoLoadOlder 7,
      SoSocket (InFrame 8 (FBackfill ''o2'' 0 1 True [seen 0, seen 1]))]"

lemma wide_store_admissible: "admissible seen wide_store_inputs new_store"
  by code_simp

theorem view_shows_transcript_witness:
  "admissible seen wide_store_inputs new_store \<and>
   vw_records (so_view (fold store_step wide_store_inputs new_store)) = map seen [0, 1, 2, 3, 4, 5, 6] \<and>
   (\<exists>lo hi. vw_records (so_view (fold store_step wide_store_inputs new_store)) = map seen [lo..hi])"
proof -
  have "vw_records (so_view (fold store_step wide_store_inputs new_store)) = map seen [0, 1, 2, 3, 4, 5, 6]" by code_simp
  then show ?thesis using view_shows_transcript [OF wide_store_admissible] wide_store_admissible by blast
qed

subsection \<open>Scrollback\<close>

lemma older_request_sent:
  assumes "cs_socket s = SocketOpen" and "cs_floorSeq s < n" and "5 \<le> cs_tokens (refill now s)"
  defines "x \<equiv> max (cs_floorSeq s) (n - CLIENT_BATCH_RECORDS)" and "k \<equiv> ''o'' @ digits (cs_requestCounter s + 1)"
  shows "fst (requestOlder now n s)"
    "cs_sent (snd (requestOlder now n s)) = cs_sent s @ [SBackfill k x (n - 1)]"
    "cs_older (snd (requestOlder now n s)) = cs_older s @ [(k, \<lparr>or_fromSeq = x, or_toSeq = n - 1, or_nextSeq = x, or_records = []\<rparr>)]"
    "cs_events (snd (requestOlder now n s)) = cs_events s"
proof -
  have x: "max (cs_floorSeq s) (n - 1 - CLIENT_BATCH_RECORDS + 1) = x" "x \<le> n - 1" "cs_floorSeq s \<le> x"
    using assms(2) by (auto simp: x_def CLIENT_BATCH_RECORDS_def)
  have b: "takeBudget now 4 s = (True, (refill now s)\<lparr>cs_tokens := cs_tokens (refill now s) - 1\<rparr>)"
    using assms(3) by (simp add: takeBudget_def Let_def)
  have "requestOlder now n s = requestOlderRange now x (n - 1) s" using assms(2) x(1) by (simp add: requestOlder_def Let_def)
  moreover have "\<not> (x > n - 1 \<or> x < cs_floorSeq s)" using x by simp
  ultimately show "fst (requestOlder now n s)"
    "cs_sent (snd (requestOlder now n s)) = cs_sent s @ [SBackfill k x (n - 1)]"
    "cs_older (snd (requestOlder now n s)) = cs_older s @ [(k, \<lparr>or_fromSeq = x, or_toSeq = n - 1, or_nextSeq = x, or_records = []\<rparr>)]"
    "cs_events (snd (requestOlder now n s)) = cs_events s"
    using assms(1) by (simp_all add: requestOlderRange_def b nextRequestId_def send_def refill_frame Let_def k_def)
qed

lemma complete_page:
  assumes "map cr_seq rs = [x..y]" and "x \<le> y + 1"
  shows "olderRangeIsComplete rs True x y"
proof -
  have len: "length rs = nat (y - x + 1)" using assms(1) by (metis length_map length_upto)
  have "cr_seq (rs ! i) = x + int i" if "i < length rs" for i
    using that assms len by (metis nth_map nth_upto add.commute int_nat_eq less_diff_eq of_nat_less_iff zless_nat_eq_int_zless zle_add1_eq_le diff_add_eq)
  then show ?thesis using len assms(2) by (auto simp: olderRangeIsComplete_def list_all_iff set_zip)
qed

text \<open>
  C30: A page of history is put in front of what is shown. When a view that has older records asks for them over an open socket,
  it asks for the batch right below its oldest record and not below the floor; when the whole page comes, the view shows
  the page and then what it showed before, still offers more exactly when records exist below the page, and the request is over.
\<close>

theorem older_page_is_shown:
  assumes "so_socket st = Some s" and "cs_socket s = SocketOpen" and "cs_events s = []" and "cs_floorSeq s = vw_floorSeq (so_view st)"
    and "5 \<le> cs_tokens (refill now s)" and "map_of (cs_older s) (''o'' @ digits (cs_requestCounter s + 1)) = None"
    and "vw_hasOlder (so_view st)" and "\<not> vw_loadingOlder (so_view st)" and "vw_records (so_view st) = r # rs"
    and "vw_floorSeq (so_view st) < cr_seq r" and "\<not> olderWouldExceedRetainedLimit (r # rs)"
    and "x = max (vw_floorSeq (so_view st)) (cr_seq r - CLIENT_BATCH_RECORDS)" and "map cr_seq page = [x..cr_seq r - 1]"
    and "st1 = loadOlder now st"
    and "v2 = so_view (deliver (handleFrame now' (FBackfill (''o'' @ digits (cs_requestCounter s + 1)) x (cr_seq r - 1) True page)) st1)"
  shows "cs_sent (the (so_socket st1)) = cs_sent s @ [SBackfill (''o'' @ digits (cs_requestCounter s + 1)) x (cr_seq r - 1)] \<and>
         vw_loadingOlder (so_view st1) \<and> vw_records v2 = page @ r # rs \<and> \<not> vw_loadingOlder v2 \<and> vw_olderNotice v2 = None \<and>
         vw_hasOlder v2 = (vw_floorSeq (so_view st) < x)"
proof -
  let ?k = "''o'' @ digits (cs_requestCounter s + 1)" and ?v = "so_view st"
  define t where "t = snd (requestOlder now (cr_seq r) s)"
  have fl: "cs_floorSeq s < cr_seq r" using assms(4,10) by simp
  note sent = older_request_sent [OF assms(2) fl assms(5), folded t_def, unfolded assms(4) assms(12) [symmetric]]
  have st1: "st1 = st\<lparr>so_socket := Some t, so_view := ?v\<lparr>vw_loadingOlder := True, vw_olderNotice := None\<rparr>\<rparr>"
    using sent(1) assms(1,7-11,14) by (simp add: loadOlder_def Let_def t_def split_beta)
  have x: "x \<le> cr_seq r - 1" using assms(10,12) by (simp add: CLIENT_BATCH_RECORDS_def)
  have ne: "page \<noteq> []" using assms(13) x by (metis Nil_is_map_conv not_less upto_Nil2 upto_rec1 list.distinct(1))
  then have page: "page \<noteq> []" "cr_seq (hd page) = x" "cr_seq (last page) = cr_seq r - 1"
    using in_sequence_upto(2) [OF assms(13)] by auto
  have all: "\<forall>p \<in> set page. x \<le> cr_seq p \<and> cr_seq p < cr_seq r"
  proof
    fix p assume "p \<in> set page"
    then have "cr_seq p \<in> set [x..cr_seq r - 1]" using assms(13) by (metis image_eqI set_map)
    then show "x \<le> cr_seq p \<and> cr_seq p < cr_seq r" by simp
  qed
  have "map_of (cs_older t) ?k = Some \<lparr>or_fromSeq = x, or_toSeq = cr_seq r - 1, or_nextSeq = x, or_records = []\<rparr>"
    using sent(3) assms(6) by (simp add: map_add_def)
  moreover have "filter (\<lambda>p. x \<le> cr_seq p) page = page" using all by (simp add: filter_id_conv)
  ultimately have "cs_events (handleFrame now' (FBackfill ?k x (cr_seq r - 1) True page) t) = [EvOlder page True x (cr_seq r - 1)]"
    using sent(4) assms(3) page(1,3) by (simp add: handleBackfillReply_def continueOlder_def Let_def emit_def)
  moreover have "filter (\<lambda>p. cr_seq p < cr_seq r) page = page" using all by (simp add: filter_id_conv)
  moreover have "sort_key cr_seq page = page" using assms(13) by (intro sort_key_id_if_sorted) simp
  moreover have "olderRangeIsComplete page True x (cr_seq r - 1)" using complete_page [OF assms(13)] x by simp
  ultimately show ?thesis
    using sent(2) assms(9,15) page(1,2) by (simp add: st1 deliver_def Let_def prependRecords_def prependOlderRecords_def)
qed

definition wide_store :: store where
  "wide_store = fold store_step (take 9 wide_store_inputs) new_store"

theorem older_page_is_shown_witness:
  "vw_records (so_view (deliver (handleFrame 8 (FBackfill ''o2'' 0 1 True [seen 0, seen 1])) (loadOlder 7 wide_store))) =
     map seen [0, 1, 2, 3, 4, 5, 6]"
proof -
  define s where "s = the (so_socket wide_store)"
  have s: "so_socket wide_store = Some s" by (simp add: s_def, code_simp)
  have f: "cs_socket s = SocketOpen" "cs_events s = []" "cs_floorSeq s = vw_floorSeq (so_view wide_store)"
    "5 \<le> cs_tokens (refill 7 s)" "map_of (cs_older s) (''o'' @ digits (cs_requestCounter s + 1)) = None"
    "''o'' @ digits (cs_requestCounter s + 1) = ''o2''" unfolding s_def by code_simp+
  have v: "vw_hasOlder (so_view wide_store)" "\<not> vw_loadingOlder (so_view wide_store)"
    "vw_records (so_view wide_store) = seen 2 # map seen [3, 4, 5, 6]" "vw_floorSeq (so_view wide_store) < cr_seq (seen 2)"
    "\<not> olderWouldExceedRetainedLimit (seen 2 # map seen [3, 4, 5, 6])"
    "0 = max (vw_floorSeq (so_view wide_store)) (cr_seq (seen 2) - CLIENT_BATCH_RECORDS)"
    "map cr_seq [seen 0, seen 1] = [0..cr_seq (seen 2) - 1]" "cr_seq (seen 2) - 1 = 1" by code_simp+
  show ?thesis
    using older_page_is_shown [OF s f(1-5) v(1-7) refl refl, of 8] unfolding f(6) v(8) by simp
qed

subsection \<open>Scrollback that goes wrong\<close>

text \<open>One more record on a slice, as the view keeps it.\<close>

lemma append_one:
  assumes f: "\<And>n. cr_seq (f n) = n" and "0 \<le> lo" "lo \<le> hi" and v: "vw_records v = map f [lo..hi]"
    and len: "hi - lo + 1 \<le> int MAX_CLIENT_RECORDS"
  shows "vw_records (appendRecords [f (hi + 1)] v) = map f [max lo (hi + 2 - int MAX_CLIENT_RECORDS)..hi + 1]"
proof -
  have l: "cr_seq (last (vw_records v)) = hi" "vw_records v \<noteq> []"
    using assms(3) upto_rec2 [OF assms(3)] f by (auto simp: v last_map)
  have j: "vw_records v @ [f (hi + 1)] = map f [lo..hi + 1]" using assms(3) upto_rec2 [of lo "hi + 1"] by (simp add: v)
  have n: "length (map f [lo..hi + 1]) = nat (hi - lo + 2)" by simp
  have d: "(if length (map f [lo..hi + 1]) > MAX_CLIENT_RECORDS then drop (length (map f [lo..hi + 1]) - MAX_CLIENT_RECORDS) (map f [lo..hi + 1])
      else map f [lo..hi + 1]) = map f [max lo (hi + 2 - int MAX_CLIENT_RECORDS)..hi + 1]"
  proof (cases "hi - lo + 1 = int MAX_CLIENT_RECORDS")
    case True
    then have m: "nat (hi - lo + 2) = MAX_CLIENT_RECORDS + 1" "hi + 2 - int MAX_CLIENT_RECORDS = lo + 1" by linarith+
    then have "length (map f [lo..hi + 1]) - MAX_CLIENT_RECORDS = 1" "length (map f [lo..hi + 1]) > MAX_CLIENT_RECORDS"
      "max lo (hi + 2 - int MAX_CLIENT_RECORDS) = lo + 1" unfolding n by simp_all
    moreover have "drop 1 (map f [lo..hi + 1]) = map f [lo + 1..hi + 1]" using assms(3) upto_rec1 [of lo "hi + 1"] by simp
    ultimately show ?thesis by presburger
  next
    case False
    then have "\<not> length (map f [lo..hi + 1]) > MAX_CLIENT_RECORDS" "max lo (hi + 2 - int MAX_CLIENT_RECORDS) = lo" using len by simp_all
    then show ?thesis by simp
  qed
  have "vw_records (appendRecords [f (hi + 1)] v) =
      (if length (vw_records v @ [f (hi + 1)]) > MAX_CLIENT_RECORDS
       then drop (length (vw_records v @ [f (hi + 1)]) - MAX_CLIENT_RECORDS) (vw_records v @ [f (hi + 1)]) else vw_records v @ [f (hi + 1)])"
    using l assms(2,3) f by (simp add: appendRecords_def appendJournalRecords_def Let_def)
  then show ?thesis unfolding j d .
qed

lemma append_many:
  assumes f: "\<And>n. cr_seq (f n) = n" and "0 \<le> lo" "lo \<le> hi" and "vw_records v = map f [lo..hi]"
    and "hi - lo + 1 \<le> int MAX_CLIENT_RECORDS"
  shows "vw_records (fold (\<lambda>n. appendRecords [f n]) [hi + 1..hi + int k] v) =
    map f [max lo (hi + int k + 1 - int MAX_CLIENT_RECORDS)..hi + int k]"
proof (induction k)
  case 0
  then show ?case using assms(4,5) by (simp add: max_absorb1)
next
  case (Suc k)
  let ?v = "fold (\<lambda>n. appendRecords [f n]) [hi + 1..hi + int k] v" and ?lo = "max lo (hi + int k + 1 - int MAX_CLIENT_RECORDS)"
  have "hi + 1 \<le> hi + int (Suc k)" "hi + int (Suc k) = hi + int k + 1" by simp_all
  then have "[hi + 1..hi + int (Suc k)] = [hi + 1..hi + int k] @ [hi + int k + 1]" using upto_rec2 by fastforce
  then have step: "fold (\<lambda>n. appendRecords [f n]) [hi + 1..hi + int (Suc k)] v = appendRecords [f (hi + int k + 1)] ?v" by simp
  have "0 \<le> ?lo" "?lo \<le> hi + int k" "hi + int k - ?lo + 1 \<le> int MAX_CLIENT_RECORDS"
    using assms(2,3) by (auto simp: MAX_CLIENT_RECORDS_def)
  from append_one [where f = f and v = ?v, OF f this(1,2) Suc.IH this(3)]
  have "vw_records (appendRecords [f (hi + int k + 1)] ?v) = map f [max ?lo (hi + int k + 2 - int MAX_CLIENT_RECORDS)..hi + int k + 1]" .
  moreover have "max ?lo (hi + int k + 2 - int MAX_CLIENT_RECORDS) = max lo (hi + int (Suc k) + 1 - int MAX_CLIENT_RECORDS)" by simp
  moreover have "hi + int (Suc k) = hi + int k + 1" by simp
  ultimately show ?case unfolding step by metis
qed

text \<open>
  C36: A page that was asked for before the view dropped its oldest records is put in front of what is left, and the records between are
  missing without a notice. The view asked for the records below \<open>lo\<close>, which it may while it has room for a
  page; before the page came, so many records arrived that the view, which keeps 3000, let go of its oldest ones. The page is complete,
  so it is shown right in front of a record it does not precede.
\<close>

theorem late_page_leaves_hole:
  assumes "\<And>n. cr_seq (f n) = n" and "0 < x" "x < lo" "lo \<le> hi" and "vw_records v = map f [lo..hi]"
    and "\<not> olderWouldExceedRetainedLimit (vw_records v)" and "lo < hi + int k + 1 - int MAX_CLIENT_RECORDS"
    and "v1 = fold (\<lambda>n. onEvent (EvRecords [f n])) [hi + 1..hi + int k] v"
    and "v2 = onEvent (EvOlder (map f [x..lo - 1]) True x (lo - 1)) v1"
  shows "vw_records v2 = map f ([x..lo - 1] @ [hi + int k + 1 - int MAX_CLIENT_RECORDS..hi + int k]) \<and>
         \<not> in_sequence (vw_records v2) \<and> vw_olderNotice v2 = None"
proof -
  let ?o = "hi + int k + 1 - int MAX_CLIENT_RECORDS"
  have "length (vw_records v) = nat (hi - lo + 1)" using assms(5) by simp
  then have len: "hi - lo + 1 \<le> int MAX_CLIENT_RECORDS"
    using assms(4,6) by (simp add: olderWouldExceedRetainedLimit_def CLIENT_BATCH_RECORDS_def)
  have "(\<lambda>n. onEvent (EvRecords [f n])) = (\<lambda>n. appendRecords [f n])" by (simp add: fun_eq_iff)
  then have v1: "vw_records v1 = map f [?o..hi + int k]"
    using append_many [where f = f and v = v and k = k, OF assms(1) _ assms(4,5) len] assms(2,3,7,8) by (simp add: max_absorb2)
  have le: "?o \<le> hi + int k" by (simp add: MAX_CLIENT_RECORDS_def)
  have hd: "vw_records v1 \<noteq> []" "cr_seq (hd (vw_records v1)) = ?o" using upto_rec1 [OF le] assms(1) by (simp_all add: v1)
  have page: "map cr_seq (map f [x..lo - 1]) = [x..lo - 1]" using assms(1) by (simp add: o_def)
  have "filter (\<lambda>r. cr_seq r < ?o) (map f [x..lo - 1]) = map f [x..lo - 1]" using assms(1,7) by (auto simp: filter_id_conv)
  moreover have "sort_key cr_seq (map f [x..lo - 1]) = map f [x..lo - 1]" by (rule sort_key_id_if_sorted) (simp add: page del: map_map)
  moreover have "map f [x..lo - 1] \<noteq> []" using assms(3) by simp
  ultimately have v2: "vw_records v2 = map f [x..lo - 1] @ map f [?o..hi + int k]" "vw_olderNotice v2 = None"
    using complete_page [OF page] assms(3,9) hd v1 by (simp_all add: prependRecords_def prependOlderRecords_def Let_def)
  have "\<not> in_sequence (vw_records v2)"
  proof
    assume "in_sequence (vw_records v2)"
    moreover have "[x..lo - 1] = [x..lo - 2] @ [lo - 1]" using assms(3) upto_rec2 [of x "lo - 1"] by simp
    moreover have "[?o..hi + int k] = ?o # [?o + 1..hi + int k]" by (rule upto_rec1 [OF le])
    ultimately have "in_sequence (map f [x..lo - 2] @ f (lo - 1) # f ?o # map f [?o + 1..hi + int k])" using v2(1) by simp
    from in_sequence_Cons(1) [OF in_sequence_suffix [OF this]] show False using assms(1,7) by simp
  qed
  then show ?thesis using v2 by simp
qed

definition wide_full :: view where
  "wide_full = initialConversationViewState\<lparr>vw_records := map seen [201..2999]\<rparr>"

theorem late_page_leaves_hole_witness:
  "vw_records (onEvent (EvOlder (map seen [1..200]) True 1 200) (fold (\<lambda>n. onEvent (EvRecords [seen n])) [3000..3299] wide_full)) =
     map seen ([1..200] @ [300..3299]) \<and>
   \<not> in_sequence (vw_records
       (onEvent (EvOlder (map seen [1..200]) True 1 200) (fold (\<lambda>n. onEvent (EvRecords [seen n])) [3000..3299] wide_full)))"
proof -
  have seq: "cr_seq (seen n) = n" for n by (simp add: seen_def)
  have v: "vw_records wide_full = map seen [201..2999]" by (simp add: wide_full_def del: upto_rec_numeral)
  then have room: "\<not> olderWouldExceedRetainedLimit (vw_records wide_full)"
    by (simp add: olderWouldExceedRetainedLimit_def CLIENT_BATCH_RECORDS_def MAX_CLIENT_RECORDS_def del: upto_rec_numeral)
  have big: "201 < 2999 + int 300 + 1 - int MAX_CLIENT_RECORDS" by (simp add: MAX_CLIENT_RECORDS_def)
  have lo: "2999 + int 300 = 3299" "3299 + 1 - int MAX_CLIENT_RECORDS = 300" "(2999 :: int) + 1 = 3000" "(201 :: int) - 1 = 200"
    by (simp_all add: MAX_CLIENT_RECORDS_def)
  have order: "(0 :: int) < 1" "(1 :: int) < 201" "(201 :: int) \<le> 2999" by simp_all
  show ?thesis
    using late_page_leaves_hole [where f = seen, OF seq order v room big refl refl] unfolding lo by blast
qed

text \<open>
  A page that comes twice, since the wait for the first one ran out and the view asked again, ends scrollback: the second one holds nothing
  that is older, and the view says that it has reached the start although older records exist.
\<close>

theorem repeated_page_ends_scrollback:
  assumes "map cr_seq page = [x..cr_seq r - 1]" and "vw_records v = r # rs" and "vw_floorSeq v < x" and "x < cr_seq r"
    and "v1 = onEvent (EvOlder page True x (cr_seq r - 1)) v" and "v2 = onEvent (EvOlder page True x (cr_seq r - 1)) v1"
  shows "vw_records v1 = page @ r # rs \<and> vw_hasOlder v1 \<and> vw_records v2 = vw_records v1 \<and>
         \<not> vw_hasOlder v2 \<and> vw_olderNotice v2 = Some OLDER_EXHAUSTED_NOTICE \<and> vw_floorSeq v2 < cr_seq (hd (vw_records v2))"
proof -
  have whole: "olderRangeIsComplete page True x (cr_seq r - 1)" using complete_page [OF assms(1)] assms(4) by simp
  have ne: "page \<noteq> []" using assms(1,4) by (metis Nil_is_map_conv upto_rec1 list.distinct(1) zle_diff1_eq)
  have hd: "cr_seq (hd page) = x" using in_sequence_upto(2) [OF assms(1) ne] by simp
  have "x \<le> cr_seq p \<and> cr_seq p < cr_seq r" if "p \<in> set page" for p
  proof -
    have "cr_seq p \<in> set [x..cr_seq r - 1]" using assms(1) that by (metis image_eqI set_map)
    then show ?thesis by simp
  qed
  then have "filter (\<lambda>p. cr_seq p < cr_seq r) page = page" "filter (\<lambda>p. cr_seq p < x) page = []"
    by (simp_all add: filter_id_conv filter_empty_conv not_less)
  moreover have "sort_key cr_seq page = page" using assms(1) by (intro sort_key_id_if_sorted) simp
  ultimately have v1: "vw_records v1 = page @ r # rs" "vw_hasOlder v1" "vw_floorSeq v1 = vw_floorSeq v" "prependOlderRecords v1 page = None"
    using assms(2,3,5) whole ne hd by (simp_all add: prependRecords_def prependOlderRecords_def Let_def)
  then show ?thesis using assms(3,6) whole ne hd by (simp add: prependRecords_def)
qed

text \<open>
  A view that is told of a gap just below what it shows offers to load older records, and withdraws the offer without a request when
  that is tried: it takes the end of the gap for the lowest record that exists.
\<close>

theorem gap_withdraws_scrollback:
  assumes "vw_records v = r # rs" and "\<not> vw_loadingOlder v" and "cr_seq r \<le> y + 1" and "so_view st = onEvent (EvGap x y) v"
  shows "vw_hasOlder (so_view st) \<and> loadOlder now st = st\<lparr>so_view := (so_view st)\<lparr>vw_hasOlder := False\<rparr>\<rparr>"
  using assms by (simp add: loadOlder_def Let_def)

subsection \<open>The registry is bounded\<close>

lemma forget_watched: "x \<in> set stores \<Longrightarrow> 0 < so_subscribers (snd x) \<or> fst x = key \<Longrightarrow> x \<in> set (forget key stores n)"
  by (induction key stores n rule: forget.induct) auto

lemma forget_subset: "set (forget key stores n) \<subseteq> set stores"
  by (induction key stores n rule: forget.induct) auto

lemma forget_length:
  "n = length stores + k \<Longrightarrow> length (forget key stores n) + k \<le> MAX_RETAINED_STORES \<or>
     list_all (\<lambda>x. 0 < so_subscribers (snd x) \<or> fst x = key) (forget key stores n)"
proof (induction key stores n arbitrary: k rule: forget.induct)
  case (2 key i st rest n)
  consider (fits) "n \<le> MAX_RETAINED_STORES" | (drop) "n > MAX_RETAINED_STORES" "i \<noteq> key \<and> so_subscribers st \<le> 0"
    | (keep) "n > MAX_RETAINED_STORES" "\<not> (i \<noteq> key \<and> so_subscribers st \<le> 0)" by linarith
  then show ?case
  proof cases
    case fits
    then show ?thesis using 2(3) by simp
  next
    case drop
    then show ?thesis using 2(1) [of k] 2(3) by simp
  next
    case keep
    have "n = length rest + Suc k" using 2(3) by simp
    moreover have "\<not> n \<le> MAX_RETAINED_STORES" using keep(1) by simp
    ultimately show ?thesis using 2(2) [of "Suc k"] keep(2) by auto
  qed
qed simp

text \<open>
  Opening a conversation keeps every store that somebody watches, and the new one, and leaves at most 8 stores unless
  all that are left are watched or the new one.
\<close>

theorem registry_bounded:
  assumes "length stores \<le> MAX_RETAINED_STORES \<or> list_all (\<lambda>x. 0 < so_subscribers (snd x)) stores"
  shows "map_of (conversationStore key stores) key \<noteq> None \<and>
    {x \<in> set stores. 0 < so_subscribers (snd x)} \<subseteq> set (conversationStore key stores) \<and>
    (length (conversationStore key stores) \<le> MAX_RETAINED_STORES \<or>
     list_all (\<lambda>x. 0 < so_subscribers (snd x) \<or> fst x = key) (conversationStore key stores))"
proof (cases "map_of stores key")
  case (Some st)
  then show ?thesis using assms by (auto simp: conversationStore_def list_all_iff)
next
  case None
  let ?all = "stores @ [(key, new_store)]"
  have "(key, new_store) \<in> set (conversationStore key stores)"
    using None forget_watched [of "(key, new_store)" ?all key "length ?all"] by (simp add: conversationStore_def Let_def)
  then have "map_of (conversationStore key stores) key \<noteq> None" by (metis fst_conv image_eqI map_of_eq_None_iff)
  moreover have "{x \<in> set stores. 0 < so_subscribers (snd x)} \<subseteq> set (conversationStore key stores)"
    using None forget_watched [of _ ?all key "length ?all"] by (auto simp: conversationStore_def Let_def)
  moreover have "length (conversationStore key stores) \<le> MAX_RETAINED_STORES \<or>
     list_all (\<lambda>x. 0 < so_subscribers (snd x) \<or> fst x = key) (conversationStore key stores)"
    using None forget_length [of "length ?all" ?all 0 key] by (simp add: conversationStore_def Let_def)
  ultimately show ?thesis by blast
qed

end
