(* ===== verification/Conversation_Resume.thy ===== *)
theory Conversation_Resume
  imports Conversation_Hub Conversation_View
begin

text \<open>
  A client that comes back: the frames that the hub sends on a connect with a cursor (\<open>upgrade\<close> and \<open>openingWindow\<close> of
  \<open>workers/cloud-builder/src/conversation-hub.ts\<close>), and what the client's socket makes of them
  (\<open>packages/contracts/conversation-socket.ts\<close>).
\<close>

subsection \<open>The opening window\<close>

lemma topUp_seqs: "map rec_seq (topUp d rs) = [d + 1..d + int (length (topUp d rs))]"
proof (induction d rs rule: topUp.induct)
  case (2 d r rs)
  show ?case
  proof (cases "rec_seq r = d + 1")
    case True
    let ?n = "int (length (topUp (d + 1) rs))"
    have "map rec_seq (topUp (d + 1) rs) = [d + 1 + 1..d + 1 + ?n]" using 2(2) True by simp
    moreover have "[d + 1..d + 1 + ?n] = (d + 1) # [d + 1 + 1..d + 1 + ?n]" by (rule upto_rec1) simp
    ultimately show ?thesis using True by (simp add: algebra_simps)
  qed (use 2(1) in simp)
qed simp

lemma topUp_subset: "set (topUp d rs) \<subseteq> set rs"
  by (induction d rs rule: topUp.induct) auto

lemma newest_bound:
  assumes "journal_wf j" and "r \<in> set (newest n j)"
  shows "rec_seq r < mt_nextSeq (meta j)"
proof -
  obtain q where "q \<in> set (rows_asc j)" "r = rowToRecord q"
    using assms(2) by (auto simp: newest_def dest: in_set_takeD)
  moreover from this have "q \<in> set (jn_rows j)" using wf_sorted(3) [OF assms(1)] by simp
  ultimately show ?thesis using wf_seq_lt [OF assms(1)] by simp
qed

text \<open>The frames of a resume when nothing is committed while the connect waits.\<close>

lemma resume_frames:
  assumes h: "holds_log a cs pend L" and n: "0 \<le> n" "n \<le> hd_headSeq (headOf (av_journal a))"
    and cap: "hd_headSeq (headOf (av_journal a)) - n \<le> MAX_CATCHUP_RESUME_RECORDS"
  defines "j \<equiv> av_journal a" and "hd' \<equiv> headOf (av_journal a)"
  shows "\<exists>z records. upgradeFrames base hd' (Some n) (Some (hd_epoch hd')) j (av_bucket a) j =
      FReady (base\<lparr>rd_epoch := hd_epoch hd', rd_headSeq := hd_headSeq hd', rd_windowStartSeq := n + 1,
        rd_floorSeq := hd_floorSeq hd', rd_title := hd_title hd'\<rparr>) # map FRecord records \<and>
    map rec_seq records = [n + 1..z] \<and> n \<le> z \<and> z \<le> hd_headSeq hd' \<and> (n < hd_headSeq hd' \<longrightarrow> n < z)"
proof -
  have next_seq: "hd_headSeq hd' = mt_nextSeq (meta j) - 1" by (simp add: hd'_def j_def headOf_def Let_def)
  have floor: "hd_floorSeq hd' = 0" using floor_zero [OF h] by (simp add: hd'_def)
  show ?thesis
  proof (cases "n < hd_headSeq hd'")
    case False
    then have "n = hd_headSeq hd'" using n by (simp add: hd'_def)
    moreover from this have "openingWindow hd' (Some n) (Some (hd_epoch hd')) j (av_bucket a) j =
        \<lparr>og_records = [], og_reset = None, og_gap = None\<rparr>"
      using n floor by (simp add: openingWindow_def Let_def MAX_CATCHUP_RESUME_RECORDS_def)
    ultimately show ?thesis
      using n by (intro exI [of _ n] exI [of _ "[]"]) (simp add: upgradeFrames_def Let_def hd'_def j_def)
  next
    case True
    define r where "r = readRange (n + 1) (hd_headSeq hd') MAX_RESUME_RECORDS j (av_bucket a) j"
    have "n + 1 \<le> hd_headSeq hd'" "hd_headSeq hd' < mt_nextSeq (meta (av_journal a))" "0 \<le> n + 1" "0 < MAX_RESUME_RECORDS"
      using True next_seq n by (simp_all add: j_def MAX_RESUME_RECORDS_def)
    note rr = read_range_log [OF h this(3,1,2,4), folded j_def, folded r_def]
    define z where "z = n + 1 + int (length (rg_records r)) - 1"
    have last_seq: "rec_seq (last (rg_records r)) = z" "rec_seq (hd (rg_records r)) = n + 1"
    proof -
      have le: "n + 1 \<le> z" using rr(2) by (cases "rg_records r") (simp_all add: z_def)
      have "map rec_seq (rg_records r) = [n + 1..z]" using rr(1) by (simp add: z_def)
      then show "rec_seq (last (rg_records r)) = z" "rec_seq (hd (rg_records r)) = n + 1"
        using rr(2) upto_rec2 [OF le] upto_rec1 [OF le] by (metis last_map last_snoc, metis hd_map list.sel(1))
    qed
    have w: "openingWindow hd' (Some n) (Some (hd_epoch hd')) j (av_bucket a) j =
        \<lparr>og_records = rg_records r, og_reset = None, og_gap = None\<rparr>"
      using True n cap floor rr(4) by (simp add: openingWindow_def Let_def r_def hd'_def j_def)
    define extra where "extra = (if hd_headSeq hd' > z then topUp z (newest (nat INITIAL_WINDOW_RECORDS) j) else [])"
    have zn: "n < z" "z \<le> hd_headSeq hd'" using rr(2,3) by (auto simp: z_def)
    have ex: "map rec_seq extra = [z + 1..z + int (length extra)]" using topUp_seqs by (simp add: extra_def)
    have "z + int (length extra) \<le> hd_headSeq hd'"
    proof (cases "extra = []")
      case False
      then have "z + int (length extra) \<in> rec_seq ` set extra" using ex by (metis set_map set_upto atLeastAtMost_iff length_greater_0_conv
            of_nat_0_less_iff order_refl zless_iff_Suc_zadd add_le_cancel_left add1_zle_eq add_less_cancel_left less_add_same_cancel1)
      then obtain q where "q \<in> set extra" "rec_seq q = z + int (length extra)" by auto
      moreover have "set extra \<subseteq> set (newest (nat INITIAL_WINDOW_RECORDS) j)" using topUp_subset [of z] by (auto simp: extra_def)
      ultimately show ?thesis using newest_bound holds_logD(1) [OF h] next_seq by (fastforce simp: j_def)
    qed (use zn in simp)
    moreover have "map rec_seq (rg_records r @ extra) = [n + 1..z + int (length extra)]"
    proof -
      have "map rec_seq (rg_records r) = [n + 1..z]" using rr(1) by (simp add: z_def)
      moreover have "[n + 1..z + int (length extra)] = [n + 1..z] @ [z + 1..z + int (length extra)]"
        by (rule upto_split2) (use zn in simp_all)
      ultimately show ?thesis using ex by simp
    qed
    moreover have "upgradeFrames base hd' (Some n) (Some (hd_epoch hd')) j (av_bucket a) j =
      FReady (base\<lparr>rd_epoch := hd_epoch hd', rd_headSeq := hd_headSeq hd', rd_windowStartSeq := n + 1,
        rd_floorSeq := hd_floorSeq hd', rd_title := hd_title hd'\<rparr>) # map FRecord (rg_records r @ extra)"
      using w last_seq rr(2) zn n by (simp add: upgradeFrames_def Let_def extra_def hd'_def j_def)
    ultimately show ?thesis
      using zn by (intro exI [of _ "z + int (length extra)"] exI [of _ "rg_records r @ extra"]) simp
  qed
qed

subsection \<open>The client's side\<close>

lemma record_succ:
  assumes "cs_ahead s = []" and "0 \<le> cs_lastSeq s" and "cr_seq r = cs_lastSeq s + 1"
  shows "handleFrame now (FRecord r) s =
    s\<lparr>cs_lastSeq := cr_seq r, cs_headSeq := max (cs_headSeq s) (cr_seq r), cs_events := cs_events s @ [EvRecords [r]]\<rparr>"
  using assms collect_succ [OF assms(2,3), of now "[]"] by (simp add: applyRecord_def flush_def emit_def drainAhead.simps)

lemma records_succ:
  assumes "cs_ahead s = []" and "0 \<le> cs_lastSeq s" and "map cr_seq rs = [cs_lastSeq s + 1..z]" and "cs_lastSeq s \<le> z"
  shows "let s' = fold (handleFrame now) (map FRecord rs) s in
    cs_lastSeq s' = z \<and> cs_events s' = cs_events s @ map (\<lambda>r. EvRecords [r]) rs \<and> cs_ahead s' = []"
  using assms
proof (induction rs arbitrary: s)
  case Nil
  then have "cs_lastSeq s = z" by (metis list.simps(8) not_less order_antisym upto.simps list.distinct(1) zless_imp_add1_zle)
  then show ?case using Nil by simp
next
  case (Cons r rs)
  have le: "cs_lastSeq s + 1 \<le> z" using Cons.prems(3) by (metis list.distinct(1) list.simps(9) not_less upto_Nil)
  then have r: "cr_seq r = cs_lastSeq s + 1" and rest: "map cr_seq rs = [cs_lastSeq s + 1 + 1..z]"
    using Cons.prems(3) upto_rec1 [OF le] by simp_all
  let ?s = "handleFrame now (FRecord r) s"
  have s: "cs_ahead ?s = []" "cs_lastSeq ?s = cr_seq r" "cs_events ?s = cs_events s @ [EvRecords [r]]"
    using record_succ [OF Cons.prems(1,2) r, of now] Cons.prems(1) by simp_all
  then show ?case using Cons.IH [of ?s] Cons.prems(2) r rest le by (simp add: Let_def)
qed

text \<open>A \<open>ready\<close> that continues the client's stream.\<close>

lemma ready_continues:
  assumes "cs_epoch s = Some (rd_epoch r)" and "0 \<le> cs_lastSeq s" and "rd_windowStartSeq r = cs_lastSeq s + 1"
    and "rd_headSeq r - cs_lastSeq s \<le> MAX_CATCHUP_RESUME_RECORDS" and "cs_ahead s = []"
  shows "\<exists>st. cs_events (handleReady now r s) = cs_events s @ EvReady r # st \<and> set st \<subseteq> {EvStatus StLive None True} \<and>
    cs_lastSeq (handleReady now r s) = cs_lastSeq s \<and> cs_ahead (handleReady now r s) = []"
  using assms by (simp add: handleReady_def Let_def setStatus_def emit_def)

lemma client_seqs:
  assumes "map rec_seq records = [x..z]" and "0 \<le> x" and "safe_integer z"
  shows "map cr_seq (map client_of records) = [x..z]"
proof -
  have "0 \<le> rec_seq q \<and> safe_integer (rec_seq q)" if "q \<in> set records" for q
  proof -
    have "rec_seq q \<in> set [x..z]" using that assms(1) by (metis image_eqI set_map)
    then show ?thesis using assms(2,3) by (simp add: safe_integer_def)
  qed
  then have "map cr_seq (map client_of records) = map rec_seq records" unfolding map_map by (intro map_cong) (use client_seq in auto)
  then show ?thesis using assms(1) by simp
qed


definition wide_back :: "archive \<Rightarrow> int \<Rightarrow> socket" where
  "wide_back a n = wide_open\<lparr>cs_lastSeq := n, cs_epoch := Some (hd_epoch (headOf (av_journal a)))\<rparr>"


text \<open>
  C35: A record that is committed while a connect waits makes an up-to-date client start over. The hub compares the cursor with the head
  that it read before its waits and sends no records, but names the head that it reads afterwards; the client sees a
  window that starts beyond its cursor, drops everything it has and reports a reset, and its view is empty, although the
  one record that it misses is in the journal.
\<close>

theorem stale_head_resets_client:
  assumes "hd_headSeq h = n" and "0 \<le> n" and "hd_floorSeq h \<le> n + 1" and "hd_epoch h = epoch" and "hd_epoch (headOf j') = epoch"
    and "n < hd_headSeq (headOf j')" and "cs_lastSeq s = n" and "cs_epoch s = Some epoch" and "cs_events s = []"
    and "s' = fold (handleFrame now) (map (map_server_frame client_of) (upgradeFrames base h (Some n) (Some epoch) j bucket j')) s"
  shows "cs_lastSeq s' = -1 \<and> hd (cs_events s') = EvReset ''window'' \<and> received held (cs_events s') = [] \<and>
         vw_records (fold onEvent (cs_events s') v) = []"
proof -
  define r where "r = base\<lparr>rd_epoch := epoch, rd_headSeq := hd_headSeq (headOf j'), rd_windowStartSeq := hd_headSeq (headOf j') + 1,
      rd_floorSeq := hd_floorSeq (headOf j'), rd_title := hd_title (headOf j')\<rparr>"
  have "openingWindow h (Some n) (Some epoch) j bucket j' = \<lparr>og_records = [], og_reset = None, og_gap = None\<rparr>"
    using assms(1-4) by (simp add: openingWindow_def Let_def MAX_CATCHUP_RESUME_RECORDS_def)
  then have "upgradeFrames base h (Some n) (Some epoch) j bucket j' = [FReady r]"
    using assms(5) by (simp add: upgradeFrames_def Let_def r_def)
  then have s': "s' = handleReady now r s" using assms(10) by simp
  have "\<exists>st. cs_events s' = EvReset ''window'' # EvReady r # st \<and> set st \<subseteq> {EvStatus StLive None True}" "cs_lastSeq s' = -1"
    using assms(2,6-9) by (simp_all add: s' handleReady_def Let_def r_def resetStream_def setStatus_def emit_def)
  moreover have "received [] st = []" "vw_records (fold onEvent st u) = vw_records u" if "set st \<subseteq> {EvStatus StLive None True}" for st u
    using that by (induction st arbitrary: u) auto
  ultimately show ?thesis by (auto simp: onReady_def Let_def)
qed

theorem stale_head_resets_client_witness:
  "vw_records (fold onEvent (cs_events (fold (handleFrame 5) (map (map_server_frame client_of)
     (upgradeFrames wide_ready ((headOf (av_journal wide_rolled))\<lparr>hd_headSeq := 6\<rparr>) (Some 6) (Some (hd_epoch (headOf (av_journal wide_rolled))))
        (av_journal wide_rolled) (av_bucket wide_rolled) (av_journal wide_rolled))) (wide_back wide_rolled 6)))
     (initialConversationViewState\<lparr>vw_records := map seen [5, 6]\<rparr>)) = []"
proof -
  have h: "hd_headSeq ((headOf (av_journal wide_rolled))\<lparr>hd_headSeq := 6\<rparr>) = 6"
    "hd_floorSeq ((headOf (av_journal wide_rolled))\<lparr>hd_headSeq := 6\<rparr>) \<le> 6 + 1" "6 < hd_headSeq (headOf (av_journal wide_rolled))"
    by (simp, code_simp+)
  have s: "cs_lastSeq (wide_back wide_rolled 6) = 6" "cs_epoch (wide_back wide_rolled 6) = Some (hd_epoch (headOf (av_journal wide_rolled)))"
    "cs_events (wide_back wide_rolled 6) = []" by (simp_all add: wide_back_def wide_open_def socket_run_defs)
  show ?thesis
    using stale_head_resets_client [of "(headOf (av_journal wide_rolled))\<lparr>hd_headSeq := 6\<rparr>" 6, OF _ _ h(2) _ refl h(3) s refl] by simp
qed

end
