(* ===== verification/Hub_Session.thy ===== *)
theory Hub_Session
  imports Conversation_Socket
begin

text \<open>
  The sockets of a conversation's hub: who is admitted, what a socket is sent and what it may ask for, from
  \<open>workers/cloud-builder/src/conversation-hub.ts\<close>, with the adoption of a conversation by its first caller from
  \<open>orchestrator/owner.ts\<close>.

  A connect awaits the owner's record and the opening window, so it is three steps, and a connect that waits is kept in
  the state; so is a sign-in whose token is being verified, with the attachment that it read. Whether the platform still lists a socket after it was closed is an argument
  (\<open>keeps\<close>); the texts for the user are left out. The hash of the owner, the view of pi sessions and logging
  are not modelled.
\<close>

subsection \<open>State\<close>

definition MAX_SOCKETS_PER_CONVERSATION :: nat where "MAX_SOCKETS_PER_CONVERSATION = 16"
definition MAX_INCOMING_FRAME_BYTES :: nat where "MAX_INCOMING_FRAME_BYTES = 64 * 1024"
definition AUTH_GRACE_MS :: ms where "AUTH_GRACE_MS = 30000"
definition RE_AUTH_LEAD_MS :: ms where "RE_AUTH_LEAD_MS = 60000"
definition RATE_CANCEL_PER_MIN :: nat where "RATE_CANCEL_PER_MIN = 10"
definition RATE_AUTH_PER_MIN :: nat where "RATE_AUTH_PER_MIN = 10"
definition RATE_TOTAL_PER_MIN :: nat where "RATE_TOTAL_PER_MIN = 60"
definition HUB_BACKFILL_PER_MIN :: nat where "HUB_BACKFILL_PER_MIN = 20"
definition MAX_TRACKED_TURNS :: nat where "MAX_TRACKED_TURNS = 4"
definition MAX_TRACKED_TOOLS :: nat where "MAX_TRACKED_TOOLS = 16"
definition CLOSE_FORBIDDEN :: nat where "CLOSE_FORBIDDEN = 4403"
definition CLOSE_NOT_FOUND :: nat where "CLOSE_NOT_FOUND = 4404"
definition CLOSE_DELETED :: nat where "CLOSE_DELETED = 4410"
definition CLOSE_FRAME_TOO_LARGE :: nat where "CLOSE_FRAME_TOO_LARGE = 4413"
definition CLOSE_RATE_LIMITED :: nat where "CLOSE_RATE_LIMITED = 4429"
definition CLOSE_TOO_MANY_SOCKETS :: nat where "CLOSE_TOO_MANY_SOCKETS = 4503"
definition CLOSE_INTERNAL :: nat where "CLOSE_INTERNAL = 1011"

record attachment =
  at_ownerId :: string
  at_subject :: string
  at_issuer :: string
  at_authExpiresAtMs :: ms
  at_connectedAtMs :: ms
  at_rateWindowStartMs :: ms
  at_rateTotal :: nat
  at_rateBackfill :: nat
  at_rateCancel :: nat
  at_rateAuth :: nat
  at_pi :: bool

record identity =
  id_ownerId :: string
  id_subject :: string
  id_authExpiresAtMs :: ms

text \<open>A socket of the hub: its attachment, its last keepalive, the expiry it was warned of, what it was sent and its close.\<close>

record hub_socket =
  hs_attachment :: "attachment option"
  hs_aliveMs :: "ms option"
  hs_warned :: "ms option"
  hs_out :: "(ms \<times> journal_record server_frame) list"
  hs_closed :: "nat option"

datatype pending_upgrade = Looking identity | Owned identity string

record hub =
  hb_ownerId :: string
  hb_sockets :: "hub_socket list"
  hb_pending :: "pending_upgrade list"
  hb_verifying :: "(nat \<times> json \<times> attachment) list"
  hb_turns :: "(string \<times> (string \<times> tool_frame) list) list"
  hb_agentsHeard :: "string option"

definition new_hub :: hub where
  "new_hub = \<lparr>hb_ownerId = [], hb_sockets = [], hb_pending = [], hb_verifying = [], hb_turns = [], hb_agentsHeard = None\<rparr>"

definition listed :: "bool \<Rightarrow> hub_socket \<Rightarrow> bool" where
  "listed keeps s \<longleftrightarrow> keeps \<or> hs_closed s = None"

definition getWebSockets :: "bool \<Rightarrow> hub \<Rightarrow> hub_socket list" where
  "getWebSockets keeps h = filter (listed keeps) (hb_sockets h)"

subsection \<open>Sending\<close>

definition closeSocket :: "nat \<Rightarrow> hub_socket \<Rightarrow> hub_socket" where
  "closeSocket code s = (if hs_closed s = None then s\<lparr>hs_closed := Some code\<rparr> else s)"

definition rawSend :: "ms \<Rightarrow> journal_record server_frame \<Rightarrow> hub_socket \<Rightarrow> hub_socket" where
  "rawSend now f s = (if hs_closed s = None then s\<lparr>hs_out := hs_out s @ [(now, f)]\<rparr> else s)"

definition sendSerialized :: "ms \<Rightarrow> journal_record server_frame \<Rightarrow> hub_socket \<Rightarrow> hub_socket" where
  "sendSerialized now f s =
     (case hs_attachment s of
        None \<Rightarrow> closeSocket CLOSE_INTERNAL s
      | Some a \<Rightarrow>
          if now > at_authExpiresAtMs a + AUTH_GRACE_MS
          then closeSocket CLOSE_UNAUTHENTICATED (rawSend now (FError ''token_expired'' [] True) s)
          else
            let s1 = (if now > at_authExpiresAtMs a - RE_AUTH_LEAD_MS \<and> hs_warned s \<noteq> Some (at_authExpiresAtMs a)
                      then rawSend now (FAuthExpiring (at_authExpiresAtMs a)) (s\<lparr>hs_warned := Some (at_authExpiresAtMs a)\<rparr>)
                      else s)
            in rawSend now f s1)"

definition closeReason :: "nat \<Rightarrow> string" where
  "closeReason code =
     (case map_of [(CLOSE_BAD_REQUEST, ''bad_request''), (CLOSE_UNAUTHENTICATED, ''unauthenticated''), (CLOSE_FORBIDDEN, ''forbidden''),
                   (CLOSE_NOT_FOUND, ''not_found''), (CLOSE_PROTOCOL_VERSION, ''protocol_version''), (CLOSE_DELETED, ''deleted''),
                   (CLOSE_FRAME_TOO_LARGE, ''frame_too_large''), (CLOSE_RATE_LIMITED, ''rate_limited''),
                   (CLOSE_TOO_MANY_SOCKETS, ''too_many_sockets''), (CLOSE_INTERNAL, ''internal'')] code of
        Some t \<Rightarrow> t | None \<Rightarrow> ''closed'')"

definition closeWith :: "ms \<Rightarrow> nat \<Rightarrow> bool \<Rightarrow> hub_socket \<Rightarrow> hub_socket" where
  "closeWith now code retryable s =
     (closeSocket code (rawSend now (FError (closeReason code) [] retryable) s))\<lparr>hs_warned := None\<rparr>"

definition broadcast :: "bool \<Rightarrow> ms \<Rightarrow> journal_record server_frame \<Rightarrow> hub \<Rightarrow> hub" where
  "broadcast keeps now f h =
     h\<lparr>hb_sockets := map (\<lambda>s. if listed keeps s then sendSerialized now f s else s) (hb_sockets h)\<rparr>"

subsection \<open>Admission\<close>

definition lastAliveMs :: "ms \<Rightarrow> hub_socket \<Rightarrow> ms" where
  "lastAliveMs now s =
     (case hs_aliveMs s of
        Some t \<Rightarrow> t
      | None \<Rightarrow> (case hs_attachment s of Some a \<Rightarrow> at_connectedAtMs a | None \<Rightarrow> now))"

text \<open>Sockets by their place in the list; the sort is stable.\<close>

definition staleSockets :: "bool \<Rightarrow> ms \<Rightarrow> hub \<Rightarrow> nat list" where
  "staleSockets keeps now h =
     sort_key (\<lambda>i. lastAliveMs now (hb_sockets h ! i))
       (filter (\<lambda>i. listed keeps (hb_sockets h ! i) \<and> now - lastAliveMs now (hb_sockets h ! i) > SOCKET_STALE_MS)
          [0..<length (hb_sockets h)])"

definition reserveSocketSlot :: "bool \<Rightarrow> ms \<Rightarrow> hub \<Rightarrow> bool \<times> hub" where
  "reserveSocketSlot keeps now h =
     (let n = length (getWebSockets keeps h) in
      if n < MAX_SOCKETS_PER_CONVERSATION then (True, h)
      else
        let victims = take (n - MAX_SOCKETS_PER_CONVERSATION + 1) (staleSockets keeps now h);
            h1 = h\<lparr>hb_sockets := fold (\<lambda>i ss. ss[i := closeSocket 1001 (ss ! i)]) victims (hb_sockets h)\<rparr>
        in (length (getWebSockets keeps h1) < MAX_SOCKETS_PER_CONVERSATION, h1))"

text \<open>The part of a connect from the owner's id to the wait for the opening window.\<close>

definition upgradeOwned :: "bool \<Rightarrow> ms \<Rightarrow> identity \<Rightarrow> string \<Rightarrow> hub \<Rightarrow> nat option \<times> hub" where
  "upgradeOwned keeps now i ownerId h =
     (if ownerId \<noteq> id_ownerId i then (Some CLOSE_NOT_FOUND, h)
      else
        let (fits, h1) = reserveSocketSlot keeps now h in
        if \<not> fits then (Some CLOSE_TOO_MANY_SOCKETS, h1)
        else (None, h1\<lparr>hb_pending := hb_pending h1 @ [Owned i ownerId]\<rparr>))"

definition upgrade :: "bool \<Rightarrow> ms \<Rightarrow> bool \<Rightarrow> bool \<Rightarrow> bool \<Rightarrow> identity \<Rightarrow> hub \<Rightarrow> nat option \<times> hub" where
  "upgrade keeps now protocolOk removed purged i h =
     (if \<not> protocolOk then (Some CLOSE_PROTOCOL_VERSION, h)
      else if removed then (Some CLOSE_DELETED, h)
      else if hb_ownerId h = [] then
        if js_trim (id_ownerId i) = [] \<or> purged then (Some CLOSE_NOT_FOUND, h)
        else (None, h\<lparr>hb_pending := hb_pending h @ [Looking i]\<rparr>)
      else upgradeOwned keeps now i (hb_ownerId h) h)"

text \<open>
  The owner's snapshot has come: an unbound conversation is bound to the caller, and the record names the owner it is bound to. A
  lookup that failed answers \<open>None\<close>, else whether the owner may write.
\<close>

definition adoptOwnerSnapshot :: "bool \<Rightarrow> string \<Rightarrow> bool \<Rightarrow> hub \<Rightarrow> string option \<times> hub" where
  "adoptOwnerSnapshot purged callerId writable h =
     (if \<not> writable \<or> purged then (None, h)
      else let h1 = (if hb_ownerId h = [] then h\<lparr>hb_ownerId := callerId\<rparr> else h) in (Some (hb_ownerId h1), h1))"

definition upgradeLooked :: "bool \<Rightarrow> ms \<Rightarrow> bool \<Rightarrow> bool option \<Rightarrow> identity \<Rightarrow> hub \<Rightarrow> nat option \<times> hub" where
  "upgradeLooked keeps now purged answer i h =
     (if Looking i \<notin> set (hb_pending h) then (None, h)
      else
        let h1 = h\<lparr>hb_pending := remove1 (Looking i) (hb_pending h)\<rparr> in
        case answer of
          None \<Rightarrow> (Some CLOSE_INTERNAL, h1)
        | Some writable \<Rightarrow>
            (case adoptOwnerSnapshot purged (js_trim (id_ownerId i)) writable h1 of
               (None, h2) \<Rightarrow> (Some CLOSE_NOT_FOUND, h2)
             | (Some ownerId, h2) \<Rightarrow> upgradeOwned keeps now i ownerId h2))"

text \<open>The last part of a connect, with the frames of the opening window.\<close>

definition upgradeAccept ::
  "bool \<Rightarrow> ms \<Rightarrow> string \<Rightarrow> bool \<Rightarrow> identity \<Rightarrow> string \<Rightarrow> journal_record server_frame list \<Rightarrow> hub \<Rightarrow> nat option \<times> hub" where
  "upgradeAccept keeps now issuer piView i ownerId frames h =
     (if Owned i ownerId \<notin> set (hb_pending h) then (None, h)
      else
        let h1 = h\<lparr>hb_pending := remove1 (Owned i ownerId) (hb_pending h)\<rparr> in
        if length (getWebSockets keeps h1) \<ge> MAX_SOCKETS_PER_CONVERSATION then (Some CLOSE_TOO_MANY_SOCKETS, h1)
        else
          let a = \<lparr>at_ownerId = ownerId, at_subject = id_subject i, at_issuer = issuer, at_authExpiresAtMs = id_authExpiresAtMs i,
                   at_connectedAtMs = now, at_rateWindowStartMs = now, at_rateTotal = 0, at_rateBackfill = 0, at_rateCancel = 0,
                   at_rateAuth = 0, at_pi = piView\<rparr>;
              s = \<lparr>hs_attachment = Some a, hs_aliveMs = None, hs_warned = Some (id_authExpiresAtMs i), hs_out = [], hs_closed = None\<rparr>;
              s1 = (fold (sendSerialized now) frames s)\<lparr>hs_warned := None\<rparr>
          in (None, h1\<lparr>hb_sockets := hb_sockets h1 @ [s1]\<rparr>))"

subsection \<open>Incoming messages\<close>

datatype verdict = Refuse nat bool | AskAuth json | AskBackfill json | AskCancel json | AskPiOlder json

record message =
  ms_chars :: nat
  ms_bytes :: nat
  ms_parsed :: "json option"

definition rollRateWindow :: "ms \<Rightarrow> attachment \<Rightarrow> attachment" where
  "rollRateWindow now a =
     (if now - at_rateWindowStartMs a < 60000 then a
      else a\<lparr>at_rateWindowStartMs := now, at_rateTotal := 0, at_rateBackfill := 0, at_rateCancel := 0, at_rateAuth := 0\<rparr>)"

text \<open>\<open>None\<close> is a message that is not text. The attachment is the one that is stored, unchanged for a refused message.\<close>

definition handleMessage :: "ms \<Rightarrow> message option \<Rightarrow> attachment option \<Rightarrow> verdict \<times> attachment option" where
  "handleMessage now msg att =
     (case msg of
        None \<Rightarrow> (Refuse CLOSE_BAD_REQUEST False, att)
      | Some m \<Rightarrow>
          if ms_chars m > MAX_INCOMING_FRAME_BYTES \<or> ms_bytes m > MAX_INCOMING_FRAME_BYTES
          then (Refuse CLOSE_FRAME_TOO_LARGE False, att)
          else case att of
            None \<Rightarrow> (Refuse CLOSE_INTERNAL True, att)
          | Some a0 \<Rightarrow>
              let a1 = rollRateWindow now a0; a = a1\<lparr>at_rateTotal := at_rateTotal a1 + 1\<rparr> in
              if at_rateTotal a > RATE_TOTAL_PER_MIN then (Refuse CLOSE_RATE_LIMITED True, att)
              else case ms_parsed m of
                None \<Rightarrow> (Refuse CLOSE_BAD_REQUEST False, att)
              | Some frame \<Rightarrow>
                  if asRecord (Some frame) = None then (Refuse CLOSE_BAD_REQUEST False, att)
                  else
                    let kind = str (jget ''type'' frame) in
                    if kind = Some ''auth'' then
                      let b = a\<lparr>at_rateAuth := at_rateAuth a + 1\<rparr> in
                      if at_rateAuth b > RATE_AUTH_PER_MIN then (Refuse CLOSE_RATE_LIMITED True, att) else (AskAuth frame, Some b)
                    else if kind = Some ''backfill'' \<or> kind = Some ''pi.older'' then
                      let b = a\<lparr>at_rateBackfill := at_rateBackfill a + 1\<rparr> in
                      if at_rateBackfill b > HUB_BACKFILL_PER_MIN then (Refuse CLOSE_RATE_LIMITED True, att)
                      else (if kind = Some ''backfill'' then AskBackfill frame else AskPiOlder frame, Some b)
                    else if kind = Some ''cancel'' then
                      let b = a\<lparr>at_rateCancel := at_rateCancel a + 1\<rparr> in
                      if at_rateCancel b > RATE_CANCEL_PER_MIN then (Refuse CLOSE_RATE_LIMITED True, att) else (AskCancel frame, Some b)
                    else (Refuse CLOSE_BAD_REQUEST False, att))"

text \<open>The verifier's answer: whether a refusal may be retried, or the token's subject, owner and expiry.\<close>

definition handleAuth ::
  "json \<Rightarrow> bool + (string \<times> string \<times> ms) \<Rightarrow> attachment \<Rightarrow> (nat \<times> bool) + attachment" where
  "handleAuth frame verified a =
     (case str (jget ''token'' frame) of
        None \<Rightarrow> Inl (CLOSE_BAD_REQUEST, False)
      | Some token \<Rightarrow>
          if token = [] then Inl (CLOSE_BAD_REQUEST, False)
          else if at_issuer a = [] then Inl (CLOSE_INTERNAL, True)
          else case verified of
            Inl retryable \<Rightarrow> Inl (if retryable then CLOSE_INTERNAL else CLOSE_UNAUTHENTICATED, True)
          | Inr (subject, ownerId, expiresAtMs) \<Rightarrow>
              if subject \<noteq> at_subject a \<or> ownerId \<noteq> at_ownerId a then Inl (CLOSE_FORBIDDEN, False)
              else Inr (a\<lparr>at_authExpiresAtMs := expiresAtMs\<rparr>))"

text \<open>A stop that fails is told to the socket.\<close>

definition handleCancel :: "ms \<Rightarrow> json \<Rightarrow> bool \<Rightarrow> hub_socket \<Rightarrow> string option \<times> hub_socket" where
  "handleCancel now frame succeeds s =
     (let turnId = take 128 (case str (jget ''turnId'' frame) of Some t \<Rightarrow> t | None \<Rightarrow> []) in
      if turnId = [] then (None, closeWith now CLOSE_BAD_REQUEST False s)
      else (Some turnId, if succeeds then s else sendSerialized now (FError ''cancel_failed'' [] True) s))"

definition closeAll :: "bool \<Rightarrow> ms \<Rightarrow> nat \<Rightarrow> hub \<Rightarrow> hub" where
  "closeAll keeps now code h =
     h\<lparr>hb_sockets := map (\<lambda>s. if listed keeps s then closeWith now code False s else s) (hb_sockets h), hb_turns := []\<rparr>"

definition onClose :: "nat \<Rightarrow> hub_socket \<Rightarrow> hub_socket" where
  "onClose code s = (closeSocket (if 3000 \<le> code \<and> code \<le> 4999 then code else 1000) s)\<lparr>hs_warned := None\<rparr>"

subsection \<open>Open tool calls\<close>

definition endTurn :: "string \<Rightarrow> hub \<Rightarrow> hub" where
  "endTurn turnId h = h\<lparr>hb_turns := filter (\<lambda>x. fst x \<noteq> turnId) (hb_turns h)\<rparr>"

text \<open>The loop ends the oldest turns until there is room for one more.\<close>

definition turnState_hub :: "string \<Rightarrow> hub \<Rightarrow> hub" where
  "turnState_hub turnId h =
     (if map_of (hb_turns h) turnId \<noteq> None then h
      else h\<lparr>hb_turns := drop (length (hb_turns h) - (MAX_TRACKED_TURNS - 1)) (hb_turns h) @ [(turnId, [])]\<rparr>)"

text \<open>A map keeps its order: a call that is set again stays where it was.\<close>

definition trackTool :: "string \<Rightarrow> tool_frame \<Rightarrow> (string \<times> tool_frame) list \<Rightarrow> (string \<times> tool_frame) list" where
  "trackTool toolCallId tool tools =
     (if tf_phase tool = ''end'' then filter (\<lambda>x. fst x \<noteq> toolCallId) tools
      else let kept = (if length tools \<ge> MAX_TRACKED_TOOLS then tl tools else tools)
           in if map_of kept toolCallId \<noteq> None then map (\<lambda>x. if fst x = toolCallId then (toolCallId, tool) else x) kept
              else kept @ [(toolCallId, tool)])"

definition broadcastTool :: "bool \<Rightarrow> ms \<Rightarrow> string \<Rightarrow> tool_frame \<Rightarrow> hub \<Rightarrow> hub" where
  "broadcastTool keeps now toolCallId tool h =
     (let h1 = turnState_hub (tf_turnId tool) h;
          h2 = h1\<lparr>hb_turns := map (\<lambda>x. if fst x = tf_turnId tool then (fst x, trackTool toolCallId tool (snd x)) else x) (hb_turns h1)\<rparr>
      in broadcast keeps now (FTool tool) h2)"

text \<open>The running agents as the reader lists them, with the string that they are compared by.\<close>

definition agentsChanged :: "bool \<Rightarrow> ms \<Rightarrow> json list \<Rightarrow> string \<Rightarrow> hub \<Rightarrow> hub" where
  "agentsChanged keeps now agents heard h =
     (if getWebSockets keeps h = [] then h\<lparr>hb_agentsHeard := None\<rparr>
      else if hb_agentsHeard h = Some heard then h
      else broadcast keeps now (FAgents agents now) (h\<lparr>hb_agentsHeard := Some heard\<rparr>))"

fun broadcastRecord :: "bool \<Rightarrow> ms \<Rightarrow> json list \<Rightarrow> string \<Rightarrow> journal_record \<Rightarrow> hub \<Rightarrow> hub" where
  "broadcastRecord keeps now agents heard record h =
     (let started = (case record of RecTurn seq turnId createdAt phase a b c d e \<Rightarrow> if phase = ''started'' then Some turnId else None | _ \<Rightarrow> None);
          ended = (case record of RecTurn seq turnId createdAt phase a b c d e \<Rightarrow> if phase \<noteq> ''started'' then Some turnId else None | _ \<Rightarrow> None);
          h1 = (case started of Some turnId \<Rightarrow> turnState_hub turnId h | None \<Rightarrow> h);
          h2 = agentsChanged keeps now agents heard (broadcast keeps now (FRecord record) h1)
      in case ended of Some turnId \<Rightarrow> endTurn turnId h2 | None \<Rightarrow> h2)"

subsection \<open>Steps\<close>

definition at_socket :: "nat \<Rightarrow> (hub_socket \<Rightarrow> hub_socket) \<Rightarrow> hub \<Rightarrow> hub" where
  "at_socket n f h = (if n < length (hb_sockets h) then h\<lparr>hb_sockets := (hb_sockets h)[n := f (hb_sockets h ! n)]\<rparr> else h)"

definition onMessage :: "nat \<Rightarrow> ms \<Rightarrow> message option \<Rightarrow> hub \<Rightarrow> hub" where
  "onMessage n now msg h =
     (if n < length (hb_sockets h) \<and> hs_closed (hb_sockets h ! n) = None then
        (case handleMessage now msg (hs_attachment (hb_sockets h ! n)) of
           (Refuse code retryable, att) \<Rightarrow> at_socket n (closeWith now code retryable) h
         | (AskAuth frame, att) \<Rightarrow>
             (at_socket n (\<lambda>s. s\<lparr>hs_attachment := att\<rparr>) h)\<lparr>hb_verifying := hb_verifying h @ [(n, frame, the att)]\<rparr>
         | (_, att) \<Rightarrow> at_socket n (\<lambda>s. s\<lparr>hs_attachment := att\<rparr>) h)
      else h)"

definition authVerified :: "nat \<Rightarrow> ms \<Rightarrow> bool + (string \<times> string \<times> ms) \<Rightarrow> hub \<Rightarrow> hub" where
  "authVerified k now verified h =
     (if k < length (hb_verifying h) then
        let (n, frame, a) = hb_verifying h ! k;
            h1 = h\<lparr>hb_verifying := take k (hb_verifying h) @ drop (Suc k) (hb_verifying h)\<rparr>
        in case handleAuth frame verified a of
             Inl (code, retryable) \<Rightarrow> at_socket n (closeWith now code retryable) h1
           | Inr b \<Rightarrow> at_socket n (\<lambda>s. s\<lparr>hs_attachment := Some b, hs_warned := None\<rparr>) h1
      else h)"

datatype hub_input =
    HUpgrade bool ms bool bool bool identity
  | HLooked bool ms bool "bool option" identity
  | HAccept bool ms string bool identity string "journal_record server_frame list"
  | HMessage nat ms "message option"
  | HVerified nat ms "bool + (string \<times> string \<times> ms)"
  | HCancel nat ms json bool
  | HSend nat ms "journal_record server_frame"
  | HRecord bool ms "json list" string journal_record
  | HTool bool ms string tool_frame
  | HAgents bool ms "json list" string
  | HEndTurn string
  | HAlive nat ms
  | HClosed nat nat
  | HCloseAll bool ms nat

fun hub_step :: "hub_input \<Rightarrow> hub \<Rightarrow> hub" where
  "hub_step (HUpgrade keeps now protocolOk removed purged i) h = snd (upgrade keeps now protocolOk removed purged i h)"
| "hub_step (HLooked keeps now purged answer i) h = snd (upgradeLooked keeps now purged answer i h)"
| "hub_step (HAccept keeps now issuer piView i ownerId frames) h = snd (upgradeAccept keeps now issuer piView i ownerId frames h)"
| "hub_step (HMessage n now msg) h = onMessage n now msg h"
| "hub_step (HVerified k now verified) h = authVerified k now verified h"
| "hub_step (HCancel n now frame succeeds) h = at_socket n (\<lambda>s. snd (handleCancel now frame succeeds s)) h"
| "hub_step (HSend n now f) h = at_socket n (sendSerialized now f) h"
| "hub_step (HRecord keeps now agents heard record) h = broadcastRecord keeps now agents heard record h"
| "hub_step (HTool keeps now toolCallId tool) h = broadcastTool keeps now toolCallId tool h"
| "hub_step (HAgents keeps now agents heard) h = agentsChanged keeps now agents heard h"
| "hub_step (HEndTurn turnId) h = endTurn turnId h"
| "hub_step (HAlive n t) h = at_socket n (\<lambda>s. s\<lparr>hs_aliveMs := Some t\<rparr>) h"
| "hub_step (HClosed n code) h = at_socket n (onClose code) h"
| "hub_step (HCloseAll keeps now code) h = closeAll keeps now code h"

subsection \<open>The sockets of a hub\<close>

definition belongs :: "string \<Rightarrow> hub_socket \<Rightarrow> bool" where
  "belongs ownerId s \<longleftrightarrow> (case hs_attachment s of Some a \<Rightarrow> at_ownerId a = ownerId | None \<Rightarrow> True)"

definition sockets_ok :: "string \<Rightarrow> hub_socket list \<Rightarrow> bool" where
  "sockets_ok ownerId ss \<longleftrightarrow>
     length (filter (\<lambda>s. hs_closed s = None) ss) \<le> MAX_SOCKETS_PER_CONVERSATION \<and>
     (\<forall>s \<in> set ss. ownerId \<noteq> [] \<and> belongs ownerId s)"

fun pending_ok :: "string \<Rightarrow> pending_upgrade \<Rightarrow> bool" where
  "pending_ok ownerId (Looking i) \<longleftrightarrow> js_trim (id_ownerId i) \<noteq> []"
| "pending_ok ownerId (Owned i o') \<longleftrightarrow> o' = ownerId \<and> o' = id_ownerId i \<and> o' \<noteq> []"

definition verifying_ok :: "string \<Rightarrow> nat \<times> json \<times> attachment \<Rightarrow> bool" where
  "verifying_ok ownerId x \<longleftrightarrow> ownerId \<noteq> [] \<and> at_ownerId (snd (snd x)) = ownerId"

definition turns_ok :: "(string \<times> (string \<times> tool_frame) list) list \<Rightarrow> bool" where
  "turns_ok ts \<longleftrightarrow> length ts \<le> MAX_TRACKED_TURNS \<and> (\<forall>x \<in> set ts. length (snd x) \<le> MAX_TRACKED_TOOLS)"

definition hub_inv :: "hub \<Rightarrow> bool" where
  "hub_inv h \<longleftrightarrow>
     sockets_ok (hb_ownerId h) (hb_sockets h) \<and> list_all (verifying_ok (hb_ownerId h)) (hb_verifying h) \<and>
     list_all (pending_ok (hb_ownerId h)) (hb_pending h) \<and> turns_ok (hb_turns h)"

text \<open>A step of a socket that neither opens it nor gives it to somebody else.\<close>

definition tame :: "string \<Rightarrow> (hub_socket \<Rightarrow> hub_socket) \<Rightarrow> bool" where
  "tame ownerId f \<longleftrightarrow> (\<forall>s. (hs_closed (f s) = None \<longrightarrow> hs_closed s = None) \<and> (belongs ownerId s \<longrightarrow> belongs ownerId (f s)))"

lemma tame_send: "tame ownerId (sendSerialized now f)" "tame ownerId (closeWith now code retryable)" "tame ownerId (closeSocket code)"
    "tame ownerId (onClose code)" "tame ownerId (\<lambda>s. s\<lparr>hs_aliveMs := t\<rparr>)" "tame ownerId (\<lambda>s. snd (handleCancel now frame ok s))"
  by (auto simp: tame_def belongs_def sendSerialized_def rawSend_def closeSocket_def closeWith_def onClose_def handleCancel_def Let_def
      split: option.splits if_splits)

lemma count_map: "(\<And>s. Q (f s) \<Longrightarrow> Q s) \<Longrightarrow> length (filter Q (map f xs)) \<le> length (filter Q xs)"
  by (induction xs) (auto intro: le_SucI)

lemma count_update: "(Q y \<Longrightarrow> Q (xs ! n)) \<Longrightarrow> n < length xs \<Longrightarrow> length (filter Q (xs[n := y])) \<le> length (filter Q xs)"
proof (induction xs arbitrary: n)
  case (Cons x xs)
  then show ?case by (cases n) auto
qed simp

lemma sockets_at:
  assumes "sockets_ok ownerId ss" and "n < length ss"
    and "(hs_closed y = None \<longrightarrow> hs_closed (ss ! n) = None) \<and> (belongs ownerId (ss ! n) \<longrightarrow> belongs ownerId y)"
  shows "sockets_ok ownerId (ss[n := y])"
proof -
  have "length (filter (\<lambda>s. hs_closed s = None) (ss[n := y])) \<le> length (filter (\<lambda>s. hs_closed s = None) ss)"
    using count_update [of "\<lambda>s. hs_closed s = None" y ss n] assms by blast
  moreover have "\<forall>s \<in> set (ss[n := y]). ownerId \<noteq> [] \<and> belongs ownerId s"
    using assms nth_mem [of n ss] set_update_subset_insert [of ss n y] by (auto simp: sockets_ok_def)
  ultimately show ?thesis using assms(1) by (simp add: sockets_ok_def)
qed

lemma sockets_map:
  assumes "sockets_ok ownerId ss" and t: "tame ownerId f"
  shows "sockets_ok ownerId (map (\<lambda>s. if P s then f s else s) ss)"
proof -
  have "length (filter (\<lambda>s. hs_closed s = None) (map (\<lambda>s. if P s then f s else s) ss)) \<le> length (filter (\<lambda>s. hs_closed s = None) ss)"
    by (rule count_map) (use t in \<open>auto simp: tame_def split: if_splits\<close>)
  then show ?thesis using assms by (auto simp: sockets_ok_def tame_def)
qed

lemma inv_at:
  assumes "hub_inv h" and "n < length (hb_sockets h) \<Longrightarrow> (hs_closed (f (hb_sockets h ! n)) = None \<longrightarrow> hs_closed (hb_sockets h ! n) = None) \<and>
      (belongs (hb_ownerId h) (hb_sockets h ! n) \<longrightarrow> belongs (hb_ownerId h) (f (hb_sockets h ! n)))"
  shows "hub_inv (at_socket n f h)"
  using assms sockets_at by (simp add: hub_inv_def at_socket_def)

lemma inv_tame: "hub_inv h \<Longrightarrow> tame (hb_ownerId h) f \<Longrightarrow> hub_inv (at_socket n f h)"
  by (rule inv_at) (auto simp: tame_def)

lemma inv_broadcast: "hub_inv h \<Longrightarrow> hub_inv (broadcast keeps now f h)"
  using sockets_map [OF _ tame_send(1)] by (simp add: hub_inv_def broadcast_def)

lemma turns_state: "turns_ok (hb_turns h) \<Longrightarrow> turns_ok (hb_turns (turnState_hub turnId h))"
  by (auto simp: turns_ok_def turnState_hub_def MAX_TRACKED_TURNS_def dest: in_set_dropD)

lemma track_length: "length tools \<le> MAX_TRACKED_TOOLS \<Longrightarrow> length (trackTool c tool tools) \<le> MAX_TRACKED_TOOLS"
  using le_trans [OF length_filter_le, of tools MAX_TRACKED_TOOLS]
  by (auto simp: trackTool_def Let_def MAX_TRACKED_TOOLS_def)

lemma turnState_hub_frame:
  "hb_sockets (turnState_hub t h) = hb_sockets h" "hb_ownerId (turnState_hub t h) = hb_ownerId h" "hb_pending (turnState_hub t h) = hb_pending h"
  "hb_verifying (turnState_hub t h) = hb_verifying h"
  by (simp_all add: turnState_hub_def)

lemma inv_turns: "hub_inv h \<Longrightarrow> turns_ok ts \<Longrightarrow> hub_inv (h\<lparr>hb_turns := ts\<rparr>)" "hub_inv h \<Longrightarrow> hub_inv (turnState_hub t h)"
  "hub_inv h \<Longrightarrow> hub_inv (endTurn t h)" "hub_inv (h\<lparr>hb_agentsHeard := a\<rparr>) = hub_inv h"
  using turns_state by (auto simp: hub_inv_def turnState_hub_frame endTurn_def turns_ok_def intro: le_trans [OF length_filter_le])

lemma inv_tool: "hub_inv h \<Longrightarrow> hub_inv (broadcastTool keeps now c tool h)"
proof -
  assume h: "hub_inv h"
  define h1 where "h1 = turnState_hub (tf_turnId tool) h"
  have "hub_inv h1" using h inv_turns(2) by (simp add: h1_def)
  moreover from this have "turns_ok (map (\<lambda>x. if fst x = tf_turnId tool then (fst x, trackTool c tool (snd x)) else x) (hb_turns h1))"
    using track_length by (auto simp: hub_inv_def turns_ok_def)
  ultimately show ?thesis using inv_broadcast inv_turns(1) by (simp add: broadcastTool_def h1_def [symmetric] Let_def)
qed

lemma inv_agents: "hub_inv h \<Longrightarrow> hub_inv (agentsChanged keeps now agents heard h)"
  using inv_broadcast inv_turns(4) by (simp add: agentsChanged_def)

lemma inv_record: "hub_inv h \<Longrightarrow> hub_inv (broadcastRecord keeps now agents heard r h)"
  using inv_turns(2,3) inv_agents inv_broadcast by (cases r) (simp_all add: Let_def)

lemma inv_closeAll: "hub_inv h \<Longrightarrow> hub_inv (closeAll keeps now code h)"
  using sockets_map [OF _ tame_send(2)] by (simp add: hub_inv_def closeAll_def turns_ok_def)

lemma inv_close_fold:
  assumes "sockets_ok ownerId ss" and "\<forall>i \<in> set vs. i < length ss"
  shows "sockets_ok ownerId (fold (\<lambda>i ss. ss[i := closeSocket 1001 (ss ! i)]) vs ss)"
  using assms
proof (induction vs arbitrary: ss)
  case (Cons v vs)
  have "sockets_ok ownerId (ss[v := closeSocket 1001 (ss ! v)])"
    by (rule sockets_at [OF Cons.prems(1)]) (use Cons.prems(2) tame_send(3) [of ownerId 1001] in \<open>auto simp: tame_def\<close>)
  then show ?case using Cons by simp
qed simp

lemma inv_reserve: "hub_inv h \<Longrightarrow> hub_inv (snd (reserveSocketSlot keeps now h))"
  and reserve_frame: "hb_ownerId (snd (reserveSocketSlot keeps now h)) = hb_ownerId h"
proof -
  have "\<forall>i \<in> set (take n (staleSockets keeps now h)). i < length (hb_sockets h)" for n
    by (auto simp: staleSockets_def dest: in_set_takeD)
  then show "hub_inv h \<Longrightarrow> hub_inv (snd (reserveSocketSlot keeps now h))"
    using inv_close_fold by (simp add: hub_inv_def reserveSocketSlot_def Let_def)
  show "hb_ownerId (snd (reserveSocketSlot keeps now h)) = hb_ownerId h" by (simp add: reserveSocketSlot_def Let_def)
qed

lemma inv_pending: "hub_inv h \<Longrightarrow> list_all (pending_ok (hb_ownerId h)) ps \<Longrightarrow> hub_inv (h\<lparr>hb_pending := ps\<rparr>)"
  by (simp add: hub_inv_def)

lemma inv_owned:
  assumes "hub_inv h" and "ownerId = hb_ownerId h" and "ownerId \<noteq> []"
  shows "hub_inv (snd (upgradeOwned keeps now i ownerId h))"
proof -
  obtain fits h1 where r: "reserveSocketSlot keeps now h = (fits, h1)" by fastforce
  then have "hub_inv h1" "hb_ownerId h1 = hb_ownerId h" using inv_reserve [OF assms(1)] reserve_frame by (metis snd_conv)+
  moreover from this have "ownerId = id_ownerId i \<Longrightarrow> hub_inv (h1\<lparr>hb_pending := hb_pending h1 @ [Owned i ownerId]\<rparr>)"
    using assms(2,3) by (intro inv_pending) (auto simp: hub_inv_def)
  ultimately show ?thesis using assms(1) r by (simp add: upgradeOwned_def)
qed

lemma inv_upgrade: "hub_inv h \<Longrightarrow> hub_inv (snd (upgrade keeps now protocolOk removed purged i h))"
  using inv_owned [of h "hb_ownerId h"] inv_pending [of h "hb_pending h @ [Looking i]"] by (auto simp: upgrade_def hub_inv_def)

lemma pending_removed: "hub_inv h \<Longrightarrow> hub_inv (h\<lparr>hb_pending := remove1 p (hb_pending h)\<rparr>)"
  by (rule inv_pending) (auto simp: hub_inv_def list_all_iff dest: notin_set_remove1)

lemma inv_bind:
  assumes "hub_inv h" and "hb_ownerId h = []"
  shows "hub_inv (h\<lparr>hb_ownerId := ownerId\<rparr>)"
proof -
  have "hb_sockets h = []" "hb_verifying h = []" "\<forall>p \<in> set (hb_pending h). \<exists>i. p = Looking i"
  proof -
    show "hb_sockets h = []" "hb_verifying h = []"
      using assms by (auto simp: hub_inv_def sockets_ok_def, cases "hb_verifying h") (auto simp: hub_inv_def verifying_ok_def)
    show "\<forall>p \<in> set (hb_pending h). \<exists>i. p = Looking i"
    proof
      fix p assume "p \<in> set (hb_pending h)"
      then have "pending_ok [] p" using assms by (auto simp: hub_inv_def list_all_iff)
      then show "\<exists>i. p = Looking i" by (cases p) auto
    qed
  qed
  moreover from this have "\<forall>p \<in> set (hb_pending h). pending_ok ownerId p"
    using assms by (auto simp: hub_inv_def list_all_iff) (metis pending_ok.simps(1))
  ultimately show ?thesis using assms by (auto simp: hub_inv_def sockets_ok_def list_all_iff)
qed

lemma inv_looked: "hub_inv h \<Longrightarrow> hub_inv (snd (upgradeLooked keeps now purged answer i h))"
proof -
  assume h: "hub_inv h"
  define h1 where "h1 = h\<lparr>hb_pending := remove1 (Looking i) (hb_pending h)\<rparr>"
  have h1: "hub_inv h1" using h pending_removed by (simp add: h1_def)
  show ?thesis
  proof (cases "Looking i \<in> set (hb_pending h)")
    case True
    then have ne: "js_trim (id_ownerId i) \<noteq> []" using h by (auto simp: hub_inv_def list_all_iff)
    define h2 where "h2 = (if hb_ownerId h1 = [] then h1\<lparr>hb_ownerId := js_trim (id_ownerId i)\<rparr> else h1)"
    have "hub_inv h2" "hb_ownerId h2 \<noteq> []" using h1 inv_bind ne by (auto simp: h2_def)
    then have "hub_inv (snd (upgradeOwned keeps now i (hb_ownerId h2) h2))" by (intro inv_owned) auto
    moreover have "adoptOwnerSnapshot purged (js_trim (id_ownerId i)) writable h1 =
        (if \<not> writable \<or> purged then (None, h1) else (Some (hb_ownerId h2), h2))" for writable
      by (simp add: adoptOwnerSnapshot_def h2_def Let_def)
    moreover have "upgradeLooked keeps now purged answer i h =
        (case answer of None \<Rightarrow> (Some CLOSE_INTERNAL, h1)
         | Some writable \<Rightarrow>
             (case adoptOwnerSnapshot purged (js_trim (id_ownerId i)) writable h1 of
                (None, h2) \<Rightarrow> (Some CLOSE_NOT_FOUND, h2)
              | (Some ownerId, h2) \<Rightarrow> upgradeOwned keeps now i ownerId h2))"
      unfolding upgradeLooked_def h1_def Let_def using True by simp
    ultimately show ?thesis using h1 by (cases answer) simp_all
  qed (use h in \<open>simp add: upgradeLooked_def\<close>)
qed

lemma fold_tame:
  assumes "belongs ownerId s"
  shows "belongs ownerId (fold (sendSerialized now) fs s)"
  using assms
proof (induction fs arbitrary: s)
  case (Cons f fs)
  then show ?case using tame_send(1) [of ownerId now f] by (simp add: tame_def)
qed simp

lemma count_open: "length (filter (\<lambda>s. hs_closed s = None) ss) \<le> length (filter (listed keeps) ss)"
  by (induction ss) (auto simp: listed_def intro: le_SucI)

lemma inv_accept: "hub_inv h \<Longrightarrow> hub_inv (snd (upgradeAccept keeps now issuer piView i ownerId frames h))"
proof -
  assume h: "hub_inv h"
  define h1 where "h1 = h\<lparr>hb_pending := remove1 (Owned i ownerId) (hb_pending h)\<rparr>"
  have h1: "hub_inv h1" using h pending_removed by (simp add: h1_def)
  define s where "s = (fold (sendSerialized now) frames \<lparr>hs_attachment = Some \<lparr>at_ownerId = ownerId, at_subject = id_subject i,
      at_issuer = issuer, at_authExpiresAtMs = id_authExpiresAtMs i, at_connectedAtMs = now, at_rateWindowStartMs = now, at_rateTotal = 0,
      at_rateBackfill = 0, at_rateCancel = 0, at_rateAuth = 0, at_pi = piView\<rparr>, hs_aliveMs = None,
      hs_warned = Some (id_authExpiresAtMs i), hs_out = [], hs_closed = None\<rparr>)\<lparr>hs_warned := None\<rparr>"
  have "belongs ownerId s"
    using fold_tame [of ownerId _ now frames] by (simp add: s_def belongs_def)
  show ?thesis
  proof (cases "Owned i ownerId \<in> set (hb_pending h) \<and> length (getWebSockets keeps h1) < MAX_SOCKETS_PER_CONVERSATION")
    case True
    then have owner: "ownerId = hb_ownerId h1" "ownerId \<noteq> []" using h by (auto simp: hub_inv_def list_all_iff h1_def)
    have "length (filter (\<lambda>s. hs_closed s = None) (hb_sockets h1)) \<le> length (getWebSockets keeps h1)"
      using count_open by (simp add: getWebSockets_def)
    then have "sockets_ok (hb_ownerId h1) (hb_sockets h1 @ [s])"
      using True h1 owner \<open>belongs ownerId s\<close> by (auto simp: hub_inv_def sockets_ok_def)
    then show ?thesis using True h1 by (simp add: upgradeAccept_def h1_def [symmetric] s_def [symmetric] Let_def hub_inv_def)
  qed (use h h1 in \<open>auto simp: upgradeAccept_def h1_def [symmetric] Let_def\<close>)
qed

lemma message_owner:
  assumes "handleMessage now msg att = (v, att')"
  shows "map_option at_ownerId att' = map_option at_ownerId att" "v = AskAuth frame \<Longrightarrow> att \<noteq> None \<and> att' \<noteq> None"
  using assms by (auto simp: handleMessage_def rollRateWindow_def Let_def split: option.splits if_splits)

lemma inv_verifying: "hub_inv h \<Longrightarrow> list_all (verifying_ok (hb_ownerId h)) vs \<Longrightarrow> hub_inv (h\<lparr>hb_verifying := vs\<rparr>)"
  by (simp add: hub_inv_def)

lemma at_frame: "hb_ownerId (at_socket n f h) = hb_ownerId h" "hb_verifying (at_socket n f h) = hb_verifying h"
  by (simp_all add: at_socket_def)

lemma inv_message: "hub_inv h \<Longrightarrow> hub_inv (onMessage n now msg h)"
proof (cases "n < length (hb_sockets h) \<and> hs_closed (hb_sockets h ! n) = None")
  case True
  assume h: "hub_inv h"
  obtain v att where m: "handleMessage now msg (hs_attachment (hb_sockets h ! n)) = (v, att)" by fastforce
  note o' = message_owner [OF m]
  have own: "hb_ownerId h \<noteq> []" "belongs (hb_ownerId h) (hb_sockets h ! n)"
    using h True nth_mem [of n "hb_sockets h"] by (auto simp: hub_inv_def sockets_ok_def)
  have set: "hub_inv (at_socket n (\<lambda>s. s\<lparr>hs_attachment := att\<rparr>) h)"
    by (rule inv_at [OF h]) (use o'(1) in \<open>auto simp: belongs_def split: option.splits\<close>)
  show ?thesis
  proof (cases v)
    case (Refuse code retryable)
    then show ?thesis using True m inv_tame [OF h tame_send(2)] by (simp add: onMessage_def)
  next
    case (AskAuth frame)
    then obtain a b where ab: "att = Some a" "hs_attachment (hb_sockets h ! n) = Some b" using o'(2) by auto
    then have "at_ownerId a = hb_ownerId h" using o'(1) own by (simp add: belongs_def)
    then have "list_all (verifying_ok (hb_ownerId h)) (hb_verifying h @ [(n, frame, a)])"
      using h own by (auto simp: hub_inv_def verifying_ok_def)
    then show ?thesis using True m set AskAuth ab inv_verifying [OF set] by (simp add: onMessage_def at_frame)
  qed (use True m set in \<open>simp_all add: onMessage_def\<close>)
qed (auto simp: onMessage_def)

lemma inv_verified: "hub_inv h \<Longrightarrow> hub_inv (authVerified k now verified h)"
proof (cases "k < length (hb_verifying h)")
  case True
  assume h: "hub_inv h"
  obtain n frame a where x: "hb_verifying h ! k = (n, frame, a)" by (metis prod_cases3)
  then have own: "at_ownerId a = hb_ownerId h"
    using h True nth_mem [OF True] by (auto simp: hub_inv_def verifying_ok_def list_all_iff)
  define h1 where "h1 = h\<lparr>hb_verifying := take k (hb_verifying h) @ drop (Suc k) (hb_verifying h)\<rparr>"
  have h1: "hub_inv h1"
    unfolding h1_def by (rule inv_verifying [OF h]) (use h in \<open>auto simp: hub_inv_def list_all_iff dest: in_set_takeD in_set_dropD\<close>)
  show ?thesis
  proof (cases "handleAuth frame verified a")
    case (Inl c)
    then show ?thesis using True x inv_tame [OF h1 tame_send(2)] by (auto simp: authVerified_def h1_def [symmetric] Let_def split: prod.splits)
  next
    case (Inr b)
    then have "at_ownerId b = hb_ownerId h1" using own by (auto simp: handleAuth_def h1_def split: option.splits if_splits sum.splits)
    then have "hub_inv (at_socket n (\<lambda>s. s\<lparr>hs_attachment := Some b, hs_warned := None\<rparr>) h1)"
      by (intro inv_at [OF h1]) (simp add: belongs_def)
    then show ?thesis using True x Inr by (simp add: authVerified_def h1_def [symmetric] Let_def)
  qed
qed (simp add: authVerified_def)

lemma hub_inv_step: "hub_inv h \<Longrightarrow> hub_inv (hub_step i h)"
  by (cases i) (simp_all add: inv_upgrade inv_looked inv_accept inv_message inv_verified inv_tame tame_send inv_record inv_tool inv_agents
      inv_turns inv_closeAll del: broadcastRecord.simps)

interpretation hub_object: invariant_system hub_step hub_inv
  by unfold_locales (rule hub_inv_step)

text \<open>
  C6: However connects, messages, sign-ins, broadcasts and closes interleave, a conversation has at most 16 open sockets, although a
  connect waits twice between its check and its acceptance, every socket belongs to the owner that the conversation is
  bound to, and the hub tracks the tools of at most 4 turns and at most 16 of each.
\<close>

theorem hub_sockets_bounded_owned:
  "length (filter (\<lambda>s. hs_closed s = None) (hb_sockets (fold hub_step inputs new_hub))) \<le> 16 \<and>
   list_all (belongs (hb_ownerId (fold hub_step inputs new_hub))) (hb_sockets (fold hub_step inputs new_hub)) \<and>
   length (hb_turns (fold hub_step inputs new_hub)) \<le> 4 \<and>
   list_all (\<lambda>x. length (snd x) \<le> 16) (hb_turns (fold hub_step inputs new_hub))"
proof -
  have "hub_inv new_hub" by (simp add: hub_inv_def new_hub_def sockets_ok_def turns_ok_def)
  from hub_object.run_inv [OF this, of inputs] show ?thesis
    by (auto simp: hub_inv_def sockets_ok_def turns_ok_def list_all_iff MAX_SOCKETS_PER_CONVERSATION_def MAX_TRACKED_TURNS_def
        MAX_TRACKED_TOOLS_def)
qed

subsection \<open>Expired sign-ins\<close>

text \<open>
  C31: A broadcast reaches exactly the open sockets whose sign-in has not lapsed. While the token is within its grace the frame is
  the last thing the socket was sent and the socket stays open; after it, the socket gets an error instead of the
  frame and is closed with 4401, on which the client fetches a new token.
\<close>

theorem broadcast_respects_expiry:
  assumes "n < length (hb_sockets h)" and "hs_attachment (hb_sockets h ! n) = Some a" and "hs_closed (hb_sockets h ! n) = None"
    and "s' = hb_sockets (broadcast keeps now f h) ! n"
  shows "if now \<le> at_authExpiresAtMs a + 30000
         then hs_closed s' = None \<and> last (hs_out s') = (now, f)
         else hs_closed s' = Some 4401 \<and> hs_out s' = hs_out (hb_sockets h ! n) @ [(now, FError ''token_expired'' [] True)]"
  using assms
  by (simp add: broadcast_def listed_def sendSerialized_def rawSend_def closeSocket_def Let_def AUTH_GRACE_MS_def CLOSE_UNAUTHENTICATED_def)

definition wide_identity :: identity where
  "wide_identity = \<lparr>id_ownerId = ''own'', id_subject = ''sub'', id_authExpiresAtMs = 100000\<rparr>"

definition wide_hub :: hub where
  "wide_hub = fold hub_step [HUpgrade False 0 True False False wide_identity, HLooked False 0 False (Some True) wide_identity,
     HAccept False 0 ''iss'' False wide_identity ''own'' []] new_hub"

theorem broadcast_respects_expiry_witness:
  "hs_closed (hb_sockets (broadcast False 130001 (FGap 0 1) wide_hub) ! 0) = Some 4401 \<and>
   last (hs_out (hb_sockets (broadcast False 130000 (FGap 0 1) wide_hub) ! 0)) = (130000, FGap 0 1)"
proof -
  let ?s = "hb_sockets wide_hub ! 0"
  have s: "0 < length (hb_sockets wide_hub)" "hs_closed ?s = None" "map_option at_authExpiresAtMs (hs_attachment ?s) = Some 100000"
    by code_simp+
  then obtain a where a: "hs_attachment ?s = Some a" "at_authExpiresAtMs a = 100000" by auto
  show ?thesis
    using broadcast_respects_expiry [OF s(1) a(1) s(2) refl, of 130001 False "FGap 0 1"]
      broadcast_respects_expiry [OF s(1) a(1) s(2) refl, of 130000 False "FGap 0 1"] a(2) by simp
qed

subsection \<open>Rates\<close>

fun serve :: "(ms \<times> message option) list \<Rightarrow> attachment option \<Rightarrow> verdict list" where
  "serve [] att = []"
| "serve ((now, msg) # rest) att =
     (case handleMessage now msg att of
        (Refuse code retryable, _) \<Rightarrow> [Refuse code retryable]
      | (v, att') \<Rightarrow> v # serve rest att')"

fun asks_history :: "verdict \<Rightarrow> bool" where
  "asks_history (AskBackfill f) \<longleftrightarrow> True" | "asks_history (AskPiOlder f) \<longleftrightarrow> True" | "asks_history _ \<longleftrightarrow> False"

fun asks_auth :: "verdict \<Rightarrow> bool" where
  "asks_auth (AskAuth f) \<longleftrightarrow> True" | "asks_auth _ \<longleftrightarrow> False"

fun asks_cancel :: "verdict \<Rightarrow> bool" where
  "asks_cancel (AskCancel f) \<longleftrightarrow> True" | "asks_cancel _ \<longleftrightarrow> False"

fun served :: "verdict \<Rightarrow> bool" where
  "served (Refuse code retryable) \<longleftrightarrow> False" | "served _ \<longleftrightarrow> True"

text \<open>What a message that is served does to the counters within the window.\<close>

lemma message_counts:
  assumes "handleMessage now msg (Some a) = (v, att)" and "now - at_rateWindowStartMs a < 60000" and "served v"
  shows "\<exists>b. att = Some b \<and> at_rateWindowStartMs b = at_rateWindowStartMs a \<and>
    at_rateTotal b = at_rateTotal a + 1 \<and> at_rateTotal b \<le> 60 \<and>
    at_rateBackfill b = at_rateBackfill a + (if asks_history v then 1 else 0) \<and> (asks_history v \<longrightarrow> at_rateBackfill b \<le> 20) \<and>
    at_rateCancel b = at_rateCancel a + (if asks_cancel v then 1 else 0) \<and> (asks_cancel v \<longrightarrow> at_rateCancel b \<le> 10) \<and>
    at_rateAuth b = at_rateAuth a + (if asks_auth v then 1 else 0) \<and> (asks_auth v \<longrightarrow> at_rateAuth b \<le> 10)"
  using assms
  by (auto simp: handleMessage_def rollRateWindow_def Let_def RATE_TOTAL_PER_MIN_def HUB_BACKFILL_PER_MIN_def RATE_CANCEL_PER_MIN_def
      RATE_AUTH_PER_MIN_def split: option.splits if_splits)

lemma serve_counts:
  assumes "\<forall>x \<in> set msgs. fst x - at_rateWindowStartMs a < 60000"
    and "at_rateTotal a \<le> 60" "at_rateBackfill a \<le> 20" "at_rateCancel a \<le> 10" "at_rateAuth a \<le> 10"
  shows "length (filter served (serve msgs (Some a))) + at_rateTotal a \<le> 60 \<and>
    length (filter asks_history (serve msgs (Some a))) + at_rateBackfill a \<le> 20 \<and>
    length (filter asks_cancel (serve msgs (Some a))) + at_rateCancel a \<le> 10 \<and>
    length (filter asks_auth (serve msgs (Some a))) + at_rateAuth a \<le> 10"
  using assms
proof (induction msgs arbitrary: a)
  case (Cons x msgs)
  obtain now msg where x: "x = (now, msg)" by fastforce
  obtain v att where m: "handleMessage now msg (Some a) = (v, att)" by fastforce
  have now: "now - at_rateWindowStartMs a < 60000" using Cons.prems(1) x by simp
  show ?case
  proof (cases "served v")
    case True
    obtain b where b: "att = Some b" "at_rateWindowStartMs b = at_rateWindowStartMs a" "at_rateTotal b = at_rateTotal a + 1" "at_rateTotal b \<le> 60"
      "at_rateBackfill b = at_rateBackfill a + (if asks_history v then 1 else 0)" "asks_history v \<longrightarrow> at_rateBackfill b \<le> 20"
      "at_rateCancel b = at_rateCancel a + (if asks_cancel v then 1 else 0)" "asks_cancel v \<longrightarrow> at_rateCancel b \<le> 10"
      "at_rateAuth b = at_rateAuth a + (if asks_auth v then 1 else 0)" "asks_auth v \<longrightarrow> at_rateAuth b \<le> 10"
      using message_counts [OF m now True] by blast
    have "serve (x # msgs) (Some a) = v # serve msgs (Some b)" using True m x b(1) by (cases v) simp_all
    moreover have "at_rateBackfill b \<le> 20" "at_rateCancel b \<le> 10" "at_rateAuth b \<le> 10"
      using b(5-10) Cons.prems(3-5) by (auto split: if_splits)
    ultimately show ?thesis
      using Cons.IH [of b] Cons.prems(1) b(2-5,7,9) True by (auto split: if_splits)
  next
    case False
    then show ?thesis using m x Cons.prems by (cases v) simp_all
  qed
qed simp

definition new_attachment :: "ms \<Rightarrow> attachment" where
  "new_attachment now = \<lparr>at_ownerId = ''own'', at_subject = ''sub'', at_issuer = ''iss'', at_authExpiresAtMs = now + 300000, at_connectedAtMs = now,
     at_rateWindowStartMs = now, at_rateTotal = 0, at_rateBackfill = 0, at_rateCancel = 0, at_rateAuth = 0, at_pi = False\<rparr>"

text \<open>
  Messages that are handled one after the other stay within the limits of a rate window: of the messages of the minute after a
  connect, at most 60 are served, at most 20 of them for history, 10 stops and 10 sign-ins; the first one beyond
  a limit closes the socket.
\<close>

theorem rate_window_bound:
  assumes "\<forall>x \<in> set msgs. fst x < t + 60000"
  shows "length (filter served (serve msgs (Some (new_attachment t)))) \<le> 60 \<and>
         length (filter asks_history (serve msgs (Some (new_attachment t)))) \<le> 20 \<and>
         length (filter asks_cancel (serve msgs (Some (new_attachment t)))) \<le> 10 \<and>
         length (filter asks_auth (serve msgs (Some (new_attachment t)))) \<le> 10"
  using serve_counts [of msgs "new_attachment t"] assms by (simp add: new_attachment_def algebra_simps)

definition history_frame :: "string \<Rightarrow> int \<Rightarrow> int \<Rightarrow> message" where
  "history_frame requestId fromSeq toSeq = \<lparr>ms_chars = 60, ms_bytes = 60,
     ms_parsed = Some (JObj [(''type'', JStr ''backfill''), (''requestId'', JStr requestId),
       (''fromSeq'', JNum (Fin (of_int fromSeq))), (''toSeq'', JNum (Fin (of_int toSeq)))])\<rparr>"

definition sign_in_frame :: message where
  "sign_in_frame = \<lparr>ms_chars = 30, ms_bytes = 30, ms_parsed = Some (JObj [(''type'', JStr ''auth''), (''token'', JStr ''jwt'')])\<rparr>"

theorem rate_window_bound_witness:
  "length (filter asks_history (serve [(5, Some (history_frame ''g1'' 0 1)), (7, Some sign_in_frame)] (Some (new_attachment 0)))) \<le> 20 \<and>
   length (serve [(5, Some (history_frame ''g1'' 0 1)), (7, Some sign_in_frame)] (Some (new_attachment 0))) = 2"
proof -
  have "length (serve [(5, Some (history_frame ''g1'' 0 1)), (7, Some sign_in_frame)] (Some (new_attachment 0))) = 2"
    by (simp add: new_attachment_def history_frame_def sign_in_frame_def handleMessage_def rollRateWindow_def Let_def RATE_TOTAL_PER_MIN_def
        HUB_BACKFILL_PER_MIN_def RATE_AUTH_PER_MIN_def MAX_INCOMING_FRAME_BYTES_def asRecord_def str_def jstring_def)
  then show ?thesis using rate_window_bound [of "[(5, Some (history_frame ''g1'' 0 1)), (7, Some sign_in_frame)]" 0] by simp
qed

text \<open>A request for history within the window.\<close>

lemma history_message:
  assumes "now - at_rateWindowStartMs a < 60000" and "at_rateTotal a < 60"
  shows "at_rateBackfill a < 20 \<Longrightarrow> \<exists>f. handleMessage now (Some (history_frame i x y)) (Some a) =
      (AskBackfill f, Some (a\<lparr>at_rateTotal := at_rateTotal a + 1, at_rateBackfill := at_rateBackfill a + 1\<rparr>))"
    "\<not> at_rateBackfill a < 20 \<Longrightarrow> handleMessage now (Some (history_frame i x y)) (Some a) = (Refuse CLOSE_RATE_LIMITED True, Some a)"
  using assms
  by (simp_all add: handleMessage_def history_frame_def rollRateWindow_def Let_def RATE_TOTAL_PER_MIN_def HUB_BACKFILL_PER_MIN_def
      MAX_INCOMING_FRAME_BYTES_def asRecord_def str_def jstring_def)

lemma history_messages:
  assumes "hb_sockets h = [s]" and "hs_closed s = None" and "hs_attachment s = Some a" and "now - at_rateWindowStartMs a < 60000"
    and "at_rateTotal a + n \<le> 60" and "at_rateBackfill a + n \<le> 20"
  shows "fold hub_step (replicate n (HMessage 0 now (Some (history_frame i x y)))) h =
    h\<lparr>hb_sockets := [s\<lparr>hs_attachment := Some (a\<lparr>at_rateTotal := at_rateTotal a + n, at_rateBackfill := at_rateBackfill a + n\<rparr>)\<rparr>]\<rparr>"
  using assms
proof (induction n arbitrary: h s a)
  case (Suc n)
  let ?a = "a\<lparr>at_rateTotal := at_rateTotal a + 1, at_rateBackfill := at_rateBackfill a + 1\<rparr>"
  have "hub_step (HMessage 0 now (Some (history_frame i x y))) h = h\<lparr>hb_sockets := [s\<lparr>hs_attachment := Some ?a\<rparr>]\<rparr>"
    using Suc.prems history_message(1) [of now a i x y] by (auto simp: onMessage_def at_socket_def)
  then show ?case
    using Suc.IH [of "h\<lparr>hb_sockets := [s\<lparr>hs_attachment := Some ?a\<rparr>]\<rparr>" "s\<lparr>hs_attachment := Some ?a\<rparr>" ?a] Suc.prems by simp
qed simp

lemma sign_in_message:
  assumes "hb_sockets h = [s]" and "hs_closed s = None" and "hs_attachment s = Some a" and "now - at_rateWindowStartMs a < 60000"
    and "at_rateTotal a < 60" and "at_rateAuth a < 10"
  shows "hub_step (HMessage 0 now (Some sign_in_frame)) h =
    h\<lparr>hb_sockets := [s\<lparr>hs_attachment := Some (a\<lparr>at_rateTotal := at_rateTotal a + 1, at_rateAuth := at_rateAuth a + 1\<rparr>)\<rparr>],
      hb_verifying := hb_verifying h @ [(0, JObj [(''type'', JStr ''auth''), (''token'', JStr ''jwt'')],
        a\<lparr>at_rateTotal := at_rateTotal a + 1, at_rateAuth := at_rateAuth a + 1\<rparr>)]\<rparr>"
  using assms
  by (simp add: onMessage_def at_socket_def handleMessage_def sign_in_frame_def rollRateWindow_def Let_def RATE_TOTAL_PER_MIN_def
      RATE_AUTH_PER_MIN_def MAX_INCOMING_FRAME_BYTES_def asRecord_def str_def jstring_def)

text \<open>
  C34: A sign-in gives a socket its limits back. The hub keeps the attachment it read when the sign-in arrived and writes it back when the
  token has been verified, with the counters of that moment: forty requests for history are served within
  one second when a sign-in is verified in the middle, although the limit is twenty a minute. Without its verification the
  twenty-first request closes the socket.
\<close>

theorem sign_in_resets_limits:
  assumes "hb_sockets h = [s]" and "hb_verifying h = []" and "hs_closed s = None" and "hs_attachment s = Some (new_attachment t)"
    and "asked = fold hub_step ([HMessage 0 (t + 10) (Some sign_in_frame)] @ replicate 20 (HMessage 0 (t + 20) (Some (history_frame i x y)))) h"
  shows "hs_closed (hb_sockets (fold hub_step ([HVerified 0 (t + 30) (Inr (''sub'', ''own'', t + 900000))] @
             replicate 20 (HMessage 0 (t + 40) (Some (history_frame i x y)))) asked) ! 0) = None \<and>
         hs_closed (hb_sockets (hub_step (HMessage 0 (t + 40) (Some (history_frame i x y))) asked) ! 0) = Some 4429"
proof -
  let ?a = "(new_attachment t)\<lparr>at_rateTotal := 1, at_rateAuth := 1\<rparr>" and ?f = "JObj [(''type'', JStr ''auth''), (''token'', JStr ''jwt'')]"
  have n: "at_rateTotal (new_attachment t) = 0" "at_rateAuth (new_attachment t) = 0" "at_rateBackfill (new_attachment t) = 0"
    "at_rateWindowStartMs (new_attachment t) = t" by (simp_all add: new_attachment_def)
  define h1 where "h1 = h\<lparr>hb_sockets := [s\<lparr>hs_attachment := Some ?a\<rparr>], hb_verifying := [(0, ?f, ?a)]\<rparr>"
  have s1: "hub_step (HMessage 0 (t + 10) (Some sign_in_frame)) h = h1"
    using sign_in_message [OF assms(1,3,4), of "t + 10"] assms(2) n by (simp add: h1_def)
  define b where "b = ?a\<lparr>at_rateTotal := 21, at_rateBackfill := 20\<rparr>"
  have "asked = h1\<lparr>hb_sockets := [s\<lparr>hs_attachment := Some b\<rparr>]\<rparr>"
    using history_messages [of h1 "s\<lparr>hs_attachment := Some ?a\<rparr>" ?a "t + 20" 20 i x y] s1 assms(3,5) n by (simp add: h1_def b_def)
  then have asked: "hb_sockets asked = [s\<lparr>hs_attachment := Some b\<rparr>]" "hb_verifying asked = [(0, ?f, ?a)]" by (simp_all add: h1_def)
  have refused: "hs_closed (hb_sockets (hub_step (HMessage 0 (t + 40) (Some (history_frame i x y))) asked) ! 0) = Some 4429"
    using history_message(2) [of "t + 40" b i x y] asked(1) assms(3) n
    by (simp add: onMessage_def at_socket_def closeWith_def closeSocket_def rawSend_def b_def CLOSE_RATE_LIMITED_def)
  let ?c = "?a\<lparr>at_authExpiresAtMs := t + 900000\<rparr>"
  have "handleAuth ?f (Inr (''sub'', ''own'', t + 900000)) ?a = Inr ?c"
    by (simp add: handleAuth_def str_def jstring_def new_attachment_def)
  then have v: "hub_step (HVerified 0 (t + 30) (Inr (''sub'', ''own'', t + 900000))) asked =
      asked\<lparr>hb_verifying := [], hb_sockets := [s\<lparr>hs_attachment := Some ?c, hs_warned := None\<rparr>]\<rparr>"
    using asked by (simp add: authVerified_def at_socket_def Let_def)
  have "hs_closed (hb_sockets (fold hub_step (replicate 20 (HMessage 0 (t + 40) (Some (history_frame i x y))))
      (asked\<lparr>hb_verifying := [], hb_sockets := [s\<lparr>hs_attachment := Some ?c, hs_warned := None\<rparr>]\<rparr>)) ! 0) = None"
    using history_messages [of "asked\<lparr>hb_verifying := [], hb_sockets := [s\<lparr>hs_attachment := Some ?c, hs_warned := None\<rparr>]\<rparr>"
        "s\<lparr>hs_attachment := Some ?c, hs_warned := None\<rparr>" ?c "t + 40" 20 i x y] assms(3) n by simp
  then show ?thesis using v refused by simp
qed

definition wide_watched :: hub where
  "wide_watched = new_hub\<lparr>hb_ownerId := ''own'', hb_sockets :=
     [\<lparr>hs_attachment = Some (new_attachment 0), hs_aliveMs = None, hs_warned = None, hs_out = [], hs_closed = None\<rparr>]\<rparr>"

theorem sign_in_resets_limits_witness:
  "hs_closed (hb_sockets (fold hub_step ([HVerified 0 30 (Inr (''sub'', ''own'', 900000))] @
      replicate 20 (HMessage 0 40 (Some (history_frame ''g1'' 0 1))))
      (fold hub_step ([HMessage 0 10 (Some sign_in_frame)] @ replicate 20 (HMessage 0 20 (Some (history_frame ''g1'' 0 1)))) wide_watched)) ! 0) = None"
proof -
  have w: "hb_sockets wide_watched =
      [\<lparr>hs_attachment = Some (new_attachment 0), hs_aliveMs = None, hs_warned = None, hs_out = [], hs_closed = None\<rparr>]"
    "hb_verifying wide_watched = []" by (simp_all add: wide_watched_def new_hub_def)
  show ?thesis using sign_in_resets_limits [OF w, of 0 _ "''g1''" 0 1, OF _ _ refl] unfolding add_0 by simp
qed

subsection \<open>The client's budget and the hub's\<close>

text \<open>What a client sent, as the hub reads it.\<close>

fun as_message :: "client_frame \<Rightarrow> message option" where
  "as_message (SBackfill requestId fromSeq toSeq) = Some (history_frame requestId fromSeq toSeq)"
| "as_message _ = None"

definition is_history :: "message option \<Rightarrow> bool" where
  "is_history m \<longleftrightarrow> (\<exists>i x y. m = Some (history_frame i x y))"

lemma serve_too_many:
  assumes "\<forall>m \<in> set msgs. fst m - at_rateWindowStartMs a < 60000 \<and> is_history (snd m)"
    and "at_rateBackfill a + length msgs = 21" and "at_rateBackfill a \<le> 20" and "at_rateTotal a + length msgs \<le> 60"
  shows "serve msgs (Some a) \<noteq> [] \<and> last (serve msgs (Some a)) = Refuse CLOSE_RATE_LIMITED True"
  using assms
proof (induction msgs arbitrary: a)
  case (Cons m msgs)
  obtain now i x y where m: "m = (now, Some (history_frame i x y))" "now - at_rateWindowStartMs a < 60000"
    using Cons.prems(1) by (cases m) (auto simp: is_history_def)
  show ?case
  proof (cases "at_rateBackfill a < 20")
    case True
    let ?a = "a\<lparr>at_rateTotal := at_rateTotal a + 1, at_rateBackfill := at_rateBackfill a + 1\<rparr>"
    obtain f where "handleMessage now (Some (history_frame i x y)) (Some a) = (AskBackfill f, Some ?a)"
      using history_message(1) [OF m(2) _ True, of i x y] Cons.prems(4) by auto
    then show ?thesis using Cons.IH [of ?a] Cons.prems True m by simp
  next
    case False
    then show ?thesis using history_message(2) [OF m(2) _ False, of i x y] Cons.prems(4) m by simp
  qed
qed simp

text \<open>A client that has sent \<open>k\<close> requests and has a budget of \<open>b\<close> since \<open>t\<close>.\<close>

definition scrolled :: "nat \<Rightarrow> rat \<Rightarrow> ms \<Rightarrow> socket \<Rightarrow> bool" where
  "scrolled k b t s \<longleftrightarrow>
     cs_socket s = SocketOpen \<and> cs_floorSeq s = 0 \<and> cs_tokens s = b \<and> cs_refilledAt s = t \<and> length (cs_sent s) = k \<and>
     (\<forall>f \<in> set (cs_sent s). is_history (as_message f))"

lemma scroll_now: "scrolled k b t s \<Longrightarrow> 5 \<le> b \<Longrightarrow> scrolled (k + 1) (b - 1) t (socket_step (InOlderRange t 0 1) s)"
  by (auto simp: scrolled_def requestOlderRange_def takeBudget_def refill_def nextRequestId_def send_def Let_def is_history_def)

lemma scroll_later: "scrolled k 4 t s \<Longrightarrow> scrolled (k + 1) 4 (t + 3000) (socket_step (InOlderRange (t + 3000) 0 1) s)"
  by (auto simp: scrolled_def requestOlderRange_def takeBudget_def refill_def nextRequestId_def send_def Let_def is_history_def
      RATE_BACKFILL_PER_MIN_def)

lemma scroll_burst:
  "scrolled k (4 + of_nat n) t s \<Longrightarrow> scrolled (k + n) 4 t (fold (\<lambda>u. socket_step (InOlderRange u 0 1)) (replicate n t) s)"
proof (induction n arbitrary: k s)
  case (Suc n)
  have "scrolled (k + 1) (4 + of_nat n) t (socket_step (InOlderRange t 0 1) s)" using scroll_now [OF Suc.prems] by simp
  from Suc.IH [OF this] show ?case by simp
qed simp

definition scroll_times :: "ms list" where
  "scroll_times = replicate 16 0 @ [3000, 6000, 9000, 12000, 15000]"

text \<open>
  C33: The client does not stay under the limit of the hub. A user who scrolls back on a connection that was just opened sends sixteen
  requests at once and one every three seconds, each within the client's own budget; the twenty-first, after fifteen seconds,
  is one too many for the hub, which closes the socket with 4429.
\<close>

theorem client_outruns_hub:
  assumes "cs_socket s = SocketOpen" and "cs_floorSeq s = 0" and "cs_tokens s = RATE_BACKFILL_PER_MIN" and "cs_refilledAt s = 0"
    and "cs_sent s = []" and "s' = fold (\<lambda>t. socket_step (InOlderRange t 0 1)) scroll_times s"
  shows "length (cs_sent s') = 21 \<and>
         last (serve (zip scroll_times (map as_message (cs_sent s'))) (Some (new_attachment 0))) = Refuse CLOSE_RATE_LIMITED True"
proof -
  have "scrolled 0 (4 + of_nat 16) 0 s" using assms(1-5) by (simp add: scrolled_def RATE_BACKFILL_PER_MIN_def)
  note s = scroll_later [OF scroll_later [OF scroll_later [OF scroll_later [OF scroll_later [OF scroll_burst [OF this]]]]]]
  have s': "scrolled 21 4 15000 s'" using s by (simp add: assms(6) scroll_times_def)
  have "length scroll_times = 21" "\<forall>t \<in> set scroll_times. t < 60000" by (simp_all add: scroll_times_def)
  moreover have "\<forall>m \<in> set (zip scroll_times (map as_message (cs_sent s'))). fst m \<in> set scroll_times \<and> is_history (snd m)"
  proof
    fix m assume m: "m \<in> set (zip scroll_times (map as_message (cs_sent s')))"
    then have "fst m \<in> set scroll_times" "snd m \<in> set (map as_message (cs_sent s'))"
      by (metis prod.collapse set_zip_leftD, metis prod.collapse set_zip_rightD)
    then show "fst m \<in> set scroll_times \<and> is_history (snd m)" using s' by (auto simp: scrolled_def)
  qed
  ultimately show ?thesis
    using serve_too_many [of "zip scroll_times (map as_message (cs_sent s'))" "new_attachment 0"] s'
    by (auto simp: scrolled_def new_attachment_def)
qed

theorem client_outruns_hub_witness:
  "last (serve (zip scroll_times (map as_message (cs_sent (fold (\<lambda>t. socket_step (InOlderRange t 0 1)) scroll_times wide_open))))
     (Some (new_attachment 0))) = Refuse CLOSE_RATE_LIMITED True"
  using client_outruns_hub [of wide_open, OF _ _ _ _ _ refl] by (simp add: wide_open_def socket_run_defs)

end
