(* ===== verification/Spec2Isabelle.thy ===== *)
theory Spec2Isabelle
  imports Network_Gate Owner_Ledger Tier_Budget Owner_Relay_Gate Owner_Fence Dispatch Billing Conversation_Resume Hub_Session
begin

text \<open>
  Stella: a verification of the services behind its conversations.

  Stella's clients (desktop and mobile) talk to a Cloudflare worker, \<open>workers/cloud-builder\<close>, whose Durable Objects keep the
  conversations, the owner's fence, the dispatch table and the billing ledger, and the agents of a conversation reach language models
  through a second worker, \<open>workers/model-gateway\<close>, whose objects keep the spend of every capability. This development models the
  objects that keep state, and the client that shows a conversation, from their TypeScript sources under \<open>src/\<close>.

  \<^bold>\<open>The parts and how they interact.\<close>

  A request for a model is admitted by the \<^emph>\<open>network gate\<close> (per network), the \<^emph>\<open>owner relay gate\<close> (per owner, which also keeps
  enforcement, cancellations and the owner's ledger) and the \<^emph>\<open>tier budget\<close> (per tier), and is paid for from a \<^emph>\<open>ledger\<close> of its
  capability. The budget of a capability comes from the \<^emph>\<open>billing ledger\<close> of the owner, to which usage is reported back.
  A phone's request for work is a row of the \<^emph>\<open>dispatch\<close> table, offered to the owner's computers and else placed in the cloud.
  All work of an owner holds a lease of the \<^emph>\<open>owner fence\<close>, which a purge closes. A conversation is a \<^emph>\<open>journal\<close>
  of rows, whose old part an \<^emph>\<open>archive\<close> moves to objects; its \<^emph>\<open>hub\<close> sends the rows over sockets, and the client's
  \<^emph>\<open>socket\<close> and \<^emph>\<open>store\<close> turn the frames into what is shown.

  \<^bold>\<open>Theories and sources.\<close>

  \<^item> \<open>Prelude\<close>: JavaScript numbers, strings and JSON, SQL tables as lists of rows, sliding windows, and the contracts that several
    components share, as locales: \<open>invariant_system\<close>, \<open>guarded_system\<close>, \<open>timed_machine\<close>, \<open>row_lifecycle\<close>, \<open>sliding_window\<close>
    (and \<open>replay_store\<close> in \<open>Capability_Ledger\<close>). Each is interpreted on the definitions of the component that provides it.
  \<^item> \<open>Gateway_Limits\<close> (\<open>packages/contracts/gateway\<close>), \<open>Network_Gate\<close> (\<open>gates/network-gate.ts\<close>), \<open>Capability_Ledger\<close>
    (\<open>ledger.ts\<close>), \<open>Owner_Ledger\<close> (\<open>owner-ledger-store.ts\<close>), \<open>Tier_Budget\<close> (\<open>gates/tier-budget.ts\<close>), \<open>Owner_Enforcement\<close>
    (\<open>owner-enforcement.ts\<close>), \<open>Owner_Relay_Gate\<close> (\<open>gates/owner-relay-gate.ts\<close>, \<open>managed-cancellation.ts\<close>): the model gateway.
    They show that a capability with a ceiling never commits more than its budget, that the owner-shared ledger
    refines the ledger of one capability, that a cancelled request never begins, and that the copies of an enforcement agree; as
    lemmas of the library, the windows' bounds, the replay of settled results and the order of enforcement pushes.
  \<^item> \<open>Owner_Generation\<close>, \<open>Owner_Fence_Store\<close>, \<open>Owner_Fence_Host\<close>, \<open>Owner_Fence\<close> (\<open>owner-generation.ts\<close>, \<open>owner-fence-store.ts\<close>,
    \<open>owner-fence-do.ts\<close>): every route and the alarm of the fence. A purge excludes work, a permanent purge is final, a
    revoked generation is refused, and every reachable state is well formed.
  \<^item> \<open>Dispatch_Policy\<close>, \<open>Dispatch_Gate\<close>, \<open>Dispatch_Invariant\<close>, \<open>Dispatch\<close> (\<open>dispatch-policy.ts\<close>, \<open>owner-gate/dispatch.ts\<close>,
    \<open>owner-gate/cloud-dispatch.ts\<close>, \<open>owner-gate.ts\<close>): the request parser, the placement decision, and the dispatch table with its
    calls to the cloud suspended in the state, so that other events run between a call and its answer. A placement is final, a
    claim is exclusive, a submission is executed once, and an unaccepted dispatch is resolved by the alarm.
  \<^item> \<open>Calendar\<close>, \<open>Owner_Billing\<close>, \<open>Billing\<close> (\<open>owner-store/domains/billing.ts\<close>, \<open>billing/plans.ts\<close>, \<open>owner-store/rate-limit.ts\<close>):
    windows, credit, grants, usage and Stripe events. Credit is conserved, usage is charged once, a charge lowers what remains by
    its cost, and grants never hold more than remains.
  \<^item> \<open>Journal_Store\<close>, \<open>Journal\<close> (\<open>journal.ts\<close>): the tables of a conversation and the operations on them. Sequence
    numbers are gapless, an append is made once per writer key, the tail repair closes every open call, and the context window is
    complete, within its budget and opens on a user message.
  \<^item> \<open>Journal_Archive\<close>, \<open>Rollover\<close>, \<open>Archive_Read\<close> (\<open>archive.ts\<close>): rollover with uploads that may fail, land late or be cut off,
    reads across segments and resident rows, and the purge drain. Segments and rows are one log that only grows as long as passes do
    not overlap, a page is exact, and the drain ends and accounts for every key.
  \<^item> \<open>Conversation_Protocol\<close> (\<open>packages/contracts/conversation-protocol.ts\<close>): records and frames on the wire; every row decodes to a
    record with its number.
  \<^item> \<open>Conversation_Hub\<close>, \<open>Hub_Session\<close> (\<open>conversation-hub.ts\<close>, and the adoption of a conversation from \<open>orchestrator/owner.ts\<close>):
    the frames of a connect, pages of history, admission of sockets with its waits, messages and their limits, sign-in refresh,
    broadcasts. A page is what it says, a conversation has at most 16 open sockets and all are its owner's, and a
    lapsed sign-in is never sent a record.
  \<^item> \<open>Conversation_Socket\<close> (\<open>packages/contracts/conversation-socket.ts\<close>), \<open>Conversation_View\<close>
    (\<open>conversation-store-reducer.ts\<close>, \<open>packages/mobile/src/lib/cloud-conversation-store.ts\<close>) and \<open>Conversation_Resume\<close>
    (a connect with a cursor, between the hub and the socket): the client. Whatever the connection
    does, what a socket reports and what a store shows is a slice of the transcript; a hole closes itself; a page of
    history joins what is shown; a client that was away resumes where it was.
  \<^item> This theory: a session of an account past its windows is refused by the gateway (billing and ledger), and what a client makes of
    the hub's pages (archive, hub and socket).

  Some theorems state behaviour that is not what a comment or another part of the program intends; the code is modelled as it is.
  In \<open>Rollover\<close> and \<open>Archive_Read\<close>: overlapping rollover passes lose rows, and a read that a rollover overtakes has a hole. In
  \<open>Journal\<close>: the tail repair reverses the calls of a message. In \<open>Dispatch\<close>: a canceled agent dispatch is revived by a late
  answer. In \<open>Owner_Enforcement\<close>: an open-ended suspension lapses. In \<open>Conversation_View\<close>: a late page leaves a hole, a repeated one
  ends scrollback, and a gap withdraws it. In \<open>Hub_Session\<close>: a sign-in gives a socket its limits back, and the client's budget
  exceeds the hub's. In \<open>Conversation_Resume\<close>: a record that is committed during a connect resets the client. In this theory: a downgraded session is refused, and a page that was cut short leaves a hole waiting.

  \<^bold>\<open>How the code is read.\<close>

  A handler is a function on a record of the object's state and returns its answer and the new state; errors are values. A Durable
  Object runs a handler without interruption between two awaits. Where a handler awaits something other than its own storage and other
  events may come first, it is cut there: the suspended call is part of the state, or its continuation is an input of
  its own. A handler reads the clock once, as an argument. Timers of the client may fire at any time. Strings
  are lists of Latin-1 characters, integers are unbounded except where the code tests \<open>Number.isSafeInteger\<close>, and fractions are exact.
  What is not under \<open>src/\<close> is an argument: uuids, hashes, snapshots from other services, the presence of devices, answers of Stripe
  and of token verification, the size of a record as JSON, and whether the platform lists a socket that was closed.

  \<^bold>\<open>Bounds and termination.\<close>

  All functions are total. Loops are structural recursion or recursion with a measure (the buffered records of a socket, the keys of the
  purge queue). The expiry loop of the dispatch table handles at most 64 rows, as the code does, and is shown to
  suffice; the purge drain stops after three failures, as the code does, and its number of calls is bounded by its keys.

  \<^bold>\<open>Not modelled.\<close>

  HTTP routing, provider streaming and the configuration caches of the gateway; the agent loop, tools and containers of the
  orchestrator and build sessions; the other domains of the owner store and the device sockets; migrations, full-text search
  and compression of the journal; the pi view of a socket; listeners, keepalives and the back-off of the client; the desktop,
  mobile and web user interfaces; installers and scripts. They are input and output, user interface, or driven by services
  whose behaviour the sources do not state.
\<close>

section \<open>The billing ledger and the gateway's ledger\<close>

lemma reserve_without_budget:
  assumes "l_budget row = 0" and "0 \<le> l_spent row" and "0 \<le> l_reserved row" and "0 < estimate"
    and "l_max_requests row = None"
  shows "reserve_verdict row resuming estimate = BudgetExhausted 0"
  using assms by (simp add: reserve_verdict_def Let_def GATEWAY_BUDGET_UNLIMITED_def)


definition downgraded_store :: billing_store where
  "downgraded_store = empty_billing_store\<lparr>bs_account :=
     Some ((defaultAccount 86400000)\<lparr>ac_plan := ''pro'', ac_rollingUsed := 200000000\<rparr>)\<rparr>"

definition downgraded_request :: "int \<Rightarrow> reserve_args" where
  "downgraded_request budget =
     \<lparr>ra_jti = ''s'', ra_budgetMicroCents = of_int budget, ra_maxRequests = None, ra_expiresAt = 90000000,
      ra_requestId = ''r'', ra_estimatedMicroCents = Fin 5\<rparr>"


section \<open>The hub's pages and the client's stream\<close>

text \<open>
  C32: A request for a hole and the hub's answer. A client that holds one early record and asked for the records below it gets a page
  from the first of them. When the page has them all, the client shows the page and the early record and nothing is missing. When the
  hub cut the page short, because of its limits on rows and bytes, the client shows the page, takes the end of the page for
  the end of what it asked for, and stands before the rest of the hole with nothing requested; when the hole is above the
  head that the connection started with, the timer for late records does not ask for it either, so that it stays open until
  another record arrives.
\<close>

theorem gap_answer_of_hub:
  assumes "serial_run e (new_archive p) a" and "1 \<le> x" "x \<le> y" "y < mt_nextSeq (meta (av_journal a))" and "safe_integer y"
    and "requestId \<noteq> []" "length requestId \<le> 64" and "map_of (cs_older s) requestId = None"
    and "cs_lastSeq s = x - 1" and "cs_ahead s = [r]" and "cr_seq r = y + 1"
  shows "\<exists>z records. handleBackfill sizeOf requestId (Some x) (Some y) (av_journal a) (av_bucket a) (av_journal a) =
      Inr [FBackfill requestId x z (z = y) records] \<and> map rec_seq records = [x..z] \<and> x \<le> z \<and>
    (let s' = handleFrame now (FBackfill requestId x z (z = y) (map client_of records)) s in
     if z = y
     then cs_events s' = cs_events s @ [EvRecords (map client_of records @ [r])] \<and> cs_lastSeq s' = y + 1 \<and> cs_ahead s' = []
     else cs_events s' = cs_events s @ [EvRecords (map client_of records)] \<and> cs_lastSeq s' = z \<and> cs_ahead s' = [r] \<and>
          cs_sent s' = cs_sent s \<and> \<not> cs_gapPending s' \<and> (cs_headSeq s \<le> z \<longrightarrow> resumeGrace later s' = s'))"
proof -
  obtain z records where hub: "handleBackfill sizeOf requestId (Some x) (Some y) (av_journal a) (av_bucket a) (av_journal a) =
      Inr [FBackfill requestId x z (z = y) records]" and z: "x \<le> z" "z \<le> y" "map rec_seq records = [x..z]"
    using page_of_hub [OF assms(1) _ assms(3,4,6)] assms(2,7) by fastforce
  define page where "page = map client_of records"
  have "safe_integer z" using assms(2,5) z by (simp add: safe_integer_def)
  then have seqs: "map cr_seq page = [x..z]" using client_seqs [OF z(3)] assms(2) by (simp add: page_def)
  then have ne: "page \<noteq> []" using z(1) by auto
  let ?t = "s\<lparr>cs_gapPending := False\<rparr>"
  show ?thesis
  proof (cases "z = y")
    case True
    have "fold (collect now) page ([], ?t) = (page @ [r], ?t\<lparr>cs_lastSeq := y + 1, cs_ahead := []\<rparr>)"
      using collects_fill [OF ne, of ?t y r now "[]"] assms(2,9-11) seqs True by simp
    then show ?thesis
      using hub z True assms(8,9)
      by (intro exI [of _ z] exI [of _ records]) (simp add: page_def [symmetric] handleBackfillReply_def flush_def emit_def Let_def)
  next
    case False
    have "fold (collect now) page ([], ?t) = (page, ?t\<lparr>cs_lastSeq := z\<rparr>)"
      using collects_part [of ?t page z r now "[]"] assms(2,9-11) seqs ne z(2) False by simp
    then show ?thesis
      using hub z False assms(8-11) ne
      by (intro exI [of _ z] exI [of _ records])
        (simp add: page_def [symmetric] handleBackfillReply_def flush_def emit_def Let_def resumeGrace_def)
  qed
qed

definition wide_waiting :: socket where
  "wide_waiting = wide_open\<lparr>cs_lastSeq := 0, cs_headSeq := 0, cs_ahead := [seen 8], cs_gapPending := True\<rparr>"

theorem gap_answer_of_hub_witness:
  "\<exists>records. handleBackfill unit_size ''g1'' (Some 1) (Some 7) (av_journal wide_rolled) (av_bucket wide_rolled) (av_journal wide_rolled) =
     Inr [FBackfill ''g1'' 1 1 False records] \<and>
   resumeGrace 2000 (handleFrame 5 (FBackfill ''g1'' 1 1 False (map client_of records)) wide_waiting) =
     handleFrame 5 (FBackfill ''g1'' 1 1 False (map client_of records)) wide_waiting"
proof -
  let ?b = "handleBackfill unit_size ''g1'' (Some 1) (Some 7) (av_journal wide_rolled) (av_bucket wide_rolled) (av_journal wide_rolled)"
  have j: "mt_nextSeq (meta (av_journal wide_rolled)) = 8"
    "(case ?b of Inr [FBackfill i x z c rs] \<Rightarrow> z = 1 | _ \<Rightarrow> False)" by code_simp+
  have s: "map_of (cs_older wide_waiting) ''g1'' = None" "cs_lastSeq wide_waiting = 1 - 1" "cs_ahead wide_waiting = [seen 8]"
    "cs_headSeq wide_waiting = 0" by (simp_all add: wide_waiting_def wide_open_def socket_run_defs)
  have r: "cr_seq (seen 8) = 7 + 1" "safe_integer 7" by (simp_all add: seen_def safe_integer_def)
  from gap_answer_of_hub [OF serial_trans [OF wide_rolled_serial wide_failed_serial] _ _ _ r(2) _ _ s(1-3) r(1), of unit_size 5 2000] j
  show ?thesis using s(4) by (auto simp: Let_def split: if_splits)
qed

end
